(* ===== verification/Prelude.thy ===== *)
theory Prelude
  imports Main "HOL-Library.AList" "HOL-Library.Word" "HOL-Library.Code_Target_Nat"
begin

text \<open>
  What every component of the model shares: Go errors and the test \<open>errors.Is\<close>
  (\<^verbatim>\<open>src/errors.go\<close>), results that are an error or a value, Go maps with string keys, and
  the hint collections of the development.

  Conventions. A Go function that returns \<open>(T, error)\<close> returns \<open>go_error + T\<close>: \<open>Inl\<close> is the
  return with an error, \<open>Inr\<close> the return with \<open>nil\<close>. A write to a nil map and a
  slice index out of range panic in Go; the panics are the errors \<open>PanicNilMap\<close> and \<open>PanicIndex\<close>,
  which no \<open>errors.Is\<close> matches. A Go string is a list of bytes
  (\<open>char\<close>). A Go map is the list of its entries: the list's order stands for the order, which Go
  leaves unspecified, in which \<open>range\<close> visits them, so a statement about every list is a statement
  about every order.
\<close>

named_theorems gomap_simps "rewrite rules of the Go map operations"
named_theorems block_simps "address blocks of prefixes"
named_theorems store_simps "rewrite rules of the storage operations"

section \<open>Errors\<close>

text \<open>The sentinel errors of \<^verbatim>\<open>src/errors.go\<close>.\<close>

datatype sentinel =
  ErrNotFound
| ErrNoIPAvailable
| ErrAlreadyAllocated
| ErrOptimisticLockError
| ErrNamespaceDoesNotExist
| ErrNameTooLong

text \<open>
  An error is a sentinel, or \<open>fmt.Errorf format args\<close>, of which the format string and the errors
  its \<open>%w\<close> verbs wrap are kept (the text the other arguments render to is never inspected by the
  code). \<open>errors.New msg\<close> is \<open>Errorf msg []\<close>.
\<close>

datatype go_error =
  Sentinel sentinel
| Errorf string "go_error list"
| PanicNilMap
| PanicIndex

primrec errors_is :: "go_error \<Rightarrow> sentinel \<Rightarrow> bool" where
  "errors_is (Sentinel s) t = (s = t)"
| "errors_is (Errorf fmt es) t = list_ex (\<lambda>b. b) (map (\<lambda>e. errors_is e t) es)"
| "errors_is PanicNilMap t = False"
| "errors_is PanicIndex t = False"

type_synonym 'a result = "go_error + 'a"

text \<open>A computation on a state: it returns a result and the new state, also when it fails.\<close>

type_synonym ('s, 'a) comp = "'s \<Rightarrow> 'a result \<times> 's"

section \<open>Go maps with string keys\<close>

datatype 'v gomap = NilMap | GoMap "(string \<times> 'v) list"

primrec map_entries :: "'v gomap \<Rightarrow> (string \<times> 'v) list" where
  "map_entries NilMap = []"
| "map_entries (GoMap es) = es"

definition map_lookup :: "'v gomap \<Rightarrow> string \<Rightarrow> 'v option" where
  "map_lookup m = map_of (map_entries m)"

definition map_len :: "'v gomap \<Rightarrow> nat" where
  "map_len m = length (map_entries m)"

definition make_map :: "'v gomap" where
  "make_map = GoMap []"

text \<open>\<open>m[k] = v\<close> panics on a nil map.\<close>

primrec map_insert :: "'v gomap \<Rightarrow> string \<Rightarrow> 'v \<Rightarrow> 'v gomap result" where
  "map_insert NilMap k v = Inl PanicNilMap"
| "map_insert (GoMap es) k v = Inr (GoMap (AList.update k v es))"

text \<open>\<open>delete(m, k)\<close> does nothing on a nil map.\<close>

primrec map_delete :: "'v gomap \<Rightarrow> string \<Rightarrow> 'v gomap" where
  "map_delete NilMap k = NilMap"
| "map_delete (GoMap es) k = GoMap (AList.delete k es)"

text \<open>The entries of a Go map have distinct keys; a map that can be written is not nil.\<close>

definition map_ok :: "'v gomap \<Rightarrow> bool" where
  "map_ok m \<longleftrightarrow> m \<noteq> NilMap \<and> distinct (map fst (map_entries m))"

definition map_keys :: "'v gomap \<Rightarrow> string set" where
  "map_keys m = dom (map_lookup m)"

lemma map_lookup_NilMap [simp, gomap_simps]: "map_lookup NilMap k = None"
  by (simp add: map_lookup_def)

lemma map_lookup_make_map [simp, gomap_simps]: "map_lookup make_map k = None"
  by (simp add: map_lookup_def make_map_def)

lemma map_ok_make_map [simp, gomap_simps]: "map_ok make_map"
  by (simp add: map_ok_def make_map_def)

lemma map_ok_insert_ex: "map_ok m \<Longrightarrow> \<exists>m'. map_insert m k v = Inr m'"
  by (cases m) (auto simp: map_ok_def)

lemma map_insert_Inr:
  assumes "map_insert m k v = Inr m'"
  shows "map_lookup m' = (map_lookup m)(k \<mapsto> v)"
  using assms by (cases m) (auto simp: map_lookup_def fun_eq_iff update_conv')

lemma map_insert_ok: "map_insert m k v = Inr m' \<Longrightarrow> map_ok m \<Longrightarrow> map_ok m'"
  by (cases m) (auto simp: map_ok_def distinct_update)

lemma map_lookup_delete [simp, gomap_simps]: "map_lookup (map_delete m k) = (map_lookup m)(k := None)"
  by (cases m) (auto simp: map_lookup_def fun_eq_iff delete_conv')

lemma map_delete_ok [simp, gomap_simps]: "map_ok m \<Longrightarrow> map_ok (map_delete m k)"
  by (cases m) (auto simp: map_ok_def distinct_delete)

lemma finite_map_keys [simp]: "finite (map_keys m)"
  by (simp add: map_keys_def map_lookup_def finite_dom_map_of)

lemma map_len_card:
  assumes "map_ok m"
  shows "map_len m = card (map_keys m)"
proof -
  have "map_len m = length (map fst (map_entries m))"
    by (simp add: map_len_def)
  also have "\<dots> = card (set (map fst (map_entries m)))"
    using assms distinct_card [of "map fst (map_entries m)"] by (simp add: map_ok_def)
  also have "set (map fst (map_entries m)) = map_keys m"
    by (simp add: map_keys_def map_lookup_def dom_map_of_conv_image_fst)
  finally show ?thesis .
qed

lemma map_keys_insert: "map_insert m k v = Inr m' \<Longrightarrow> map_keys m' = insert k (map_keys m)"
  by (simp add: map_keys_def map_insert_Inr)

lemma map_keys_delete [simp]: "map_keys (map_delete m k) = map_keys m - {k}"
  by (simp add: map_keys_def)

lemma map_keys_make_map [simp]: "map_keys make_map = {}"
  by (simp add: map_keys_def map_lookup_def make_map_def)

lemma map_entries_lookup:
  assumes "map_ok m"
  shows "(k, v) \<in> set (map_entries m) \<longleftrightarrow> map_lookup m k = Some v"
  using assms by (auto simp: map_ok_def map_lookup_def)

section \<open>Retrying\<close>

text \<open>
  \<^verbatim>\<open>github.com/avast/retry-go\<close> is not part of the repository: \<open>retry.Do\<close> is a parameter of the
  operations that use it. Its arguments are the number of attempts (\<open>retry.Attempts\<close>), the
  predicate of \<open>retry.RetryIf\<close>, and the function to try. What the Go closures assign to the variable
  they capture is the value the function returns here. The documented behaviour the code relies on
  (\<open>LastErrorOnly\<close>): an attempt that succeeds ends the loop; after a failed attempt another one is
  made while the predicate accepts the error and attempts are left; otherwise the last error is
  returned. The delays between attempts are not modelled.
\<close>

type_synonym ('s, 'a) retry_do =
  "nat \<Rightarrow> (go_error \<Rightarrow> bool) \<Rightarrow> ('s, 'a) comp \<Rightarrow> ('s, 'a) comp"

definition retry_laws :: "('s, 'a) retry_do \<Rightarrow> bool" where
  "retry_laws retry \<longleftrightarrow> (\<forall>n retryIf f s. retry (Suc n) retryIf f s =
     (case f s of
        (Inr x, s') \<Rightarrow> (Inr x, s')
      | (Inl e, s') \<Rightarrow> if retryIf e \<and> 0 < n then retry n retryIf f s' else (Inl e, s')))"

text \<open>A concrete function with that behaviour.\<close>

primrec retry_ref :: "('s, 'a) retry_do" where
  "retry_ref 0 retryIf f s = f s"
| "retry_ref (Suc n) retryIf f s =
     (case f s of
        (Inr x, s') \<Rightarrow> (Inr x, s')
      | (Inl e, s') \<Rightarrow> if retryIf e \<and> 0 < n then retry_ref n retryIf f s' else (Inl e, s'))"

lemma retry_laws_ref: "retry_laws retry_ref"
  by (simp add: retry_laws_def)

end
