(* ===== verification/Netip.thy ===== *)
theory Netip
  imports Prelude
begin

unbundle bit_operations_syntax

text \<open>
  The part of Go's \<^verbatim>\<open>net/netip\<close> that go-ipam uses: addresses, prefixes, masks, containment and
  overlap. An address is the zero \<open>Addr\<close>, an IPv4 address, or an IPv6 address with its zone
  (the empty string where there is none). A prefix is an address with a length; the length is \<open>-1\<close>
  for an invalid prefix. The text syntax is in \<open>Netip_Text\<close>.

  The lemmas move every operation to natural numbers: an address is its number, a prefix is the
  aligned block of the addresses whose number has the same quotient by \<open>2 ^ host_bits\<close>; two blocks
  are nested or disjoint, and \<open>Overlaps\<close> decides which.
\<close>

section \<open>Addresses and prefixes\<close>

datatype addr = ZeroAddr | IPv4 "32 word" | IPv6 "128 word" string

primrec addr_num :: "addr \<Rightarrow> nat" where
  "addr_num ZeroAddr = 0"
| "addr_num (IPv4 w) = unat w"
| "addr_num (IPv6 w z) = unat w"

primrec BitLen :: "addr \<Rightarrow> nat" where
  "BitLen ZeroAddr = 0"
| "BitLen (IPv4 w) = 32"
| "BitLen (IPv6 w z) = 128"

primrec Is4 :: "addr \<Rightarrow> bool" where
  "Is4 ZeroAddr = False"
| "Is4 (IPv4 w) = True"
| "Is4 (IPv6 w z) = False"

primrec Is6 :: "addr \<Rightarrow> bool" where
  "Is6 ZeroAddr = False"
| "Is6 (IPv4 w) = False"
| "Is6 (IPv6 w z) = True"

primrec hasZone :: "addr \<Rightarrow> bool" where
  "hasZone ZeroAddr = False"
| "hasZone (IPv4 w) = False"
| "hasZone (IPv6 w z) = (z \<noteq> [])"

primrec withoutZone :: "addr \<Rightarrow> addr" where
  "withoutZone ZeroAddr = ZeroAddr"
| "withoutZone (IPv4 w) = IPv4 w"
| "withoutZone (IPv6 w z) = IPv6 w []"

text \<open>The next address, the zero \<open>Addr\<close> after the last one of the family.\<close>

primrec addr_Next :: "addr \<Rightarrow> addr" where
  "addr_Next ZeroAddr = ZeroAddr"
| "addr_Next (IPv4 w) = (if w + 1 = 0 then ZeroAddr else IPv4 (w + 1))"
| "addr_Next (IPv6 w z) = (if w + 1 = 0 then ZeroAddr else IPv6 (w + 1) z)"

record netip_prefix =
  Addr :: addr
  Bits :: int

text \<open>
  The fields of a \<open>netip.Prefix\<close> are private: its values are the invalid ones, with no length, and
  those \<open>PrefixFrom\<close> builds, whose address is valid and has no zone and whose length fits it.
\<close>

definition IsValid :: "netip_prefix \<Rightarrow> bool" where
  "IsValid p \<longleftrightarrow> Addr p \<noteq> ZeroAddr \<and> \<not> hasZone (Addr p) \<and> 0 \<le> Bits p \<and> Bits p \<le> int (BitLen (Addr p))"

definition netip_PrefixFrom :: "addr \<Rightarrow> int \<Rightarrow> netip_prefix" where
  "netip_PrefixFrom ip bits =
     \<lparr>Addr = withoutZone ip,
      Bits = (if ip \<noteq> ZeroAddr \<and> 0 \<le> bits \<and> bits \<le> int (BitLen ip) then bits else -1)\<rparr>"

definition zero_prefix :: netip_prefix where
  "zero_prefix = \<lparr>Addr = ZeroAddr, Bits = -1\<rparr>"

text \<open>The address with all bits after the first \<open>b\<close> cleared (without its zone).\<close>

primrec mask_addr :: "addr \<Rightarrow> nat \<Rightarrow> addr" where
  "mask_addr ZeroAddr b = ZeroAddr"
| "mask_addr (IPv4 w) b = IPv4 (w AND NOT (mask (32 - b)))"
| "mask_addr (IPv6 w z) b = IPv6 (w AND NOT (mask (128 - b))) []"

text \<open>\<open>ip.Prefix(b)\<close>.\<close>

definition addr_Prefix :: "addr \<Rightarrow> int \<Rightarrow> netip_prefix result" where
  "addr_Prefix ip b =
     (if b < 0 then Inl (Errorf ''negative Prefix bits'' [])
      else if ip = ZeroAddr then Inr zero_prefix
      else if int (BitLen ip) < b then Inl (Errorf ''prefix length too large for IP'' [])
      else Inr (netip_PrefixFrom (mask_addr ip (nat b)) b))"

definition Masked :: "netip_prefix \<Rightarrow> netip_prefix" where
  "Masked p = (case addr_Prefix (Addr p) (Bits p) of Inl e \<Rightarrow> zero_prefix | Inr q \<Rightarrow> q)"

definition Contains :: "netip_prefix \<Rightarrow> addr \<Rightarrow> bool" where
  "Contains p ip =
     (if \<not> IsValid p \<or> hasZone ip then False
      else case (Addr p, ip) of
        (IPv4 a, IPv4 b) \<Rightarrow> drop_bit (32 - nat (Bits p)) (b XOR a) = 0
      | (IPv6 a _, IPv6 b _) \<Rightarrow> (b XOR a) AND NOT (mask (128 - nat (Bits p))) = 0
      | _ \<Rightarrow> False)"

definition Overlaps :: "netip_prefix \<Rightarrow> netip_prefix \<Rightarrow> bool" where
  "Overlaps p q =
     (if \<not> IsValid p \<or> \<not> IsValid q then False
      else if p = q then True
      else if Is4 (Addr p) \<noteq> Is4 (Addr q) then False
      else let minBits = (if Bits p < Bits q then Bits p else Bits q) in
        if minBits = 0 then True
        else case addr_Prefix (Addr p) minBits of
            Inl e \<Rightarrow> False
          | Inr p' \<Rightarrow> (case addr_Prefix (Addr q) minBits of
              Inl e \<Rightarrow> False
            | Inr q' \<Rightarrow> Addr p' = Addr q'))"

section \<open>Addresses as numbers\<close>

lemma addr_num_bound: "addr_num a < 2 ^ BitLen a"
  by (cases a) (simp_all add: unsigned_less [where ?'b = 32 and ?'a = nat, simplified]
      unsigned_less [where ?'b = 128 and ?'a = nat, simplified])

lemma addr_eqI:
  assumes "addr_num a = addr_num b" "BitLen a = BitLen b" "\<not> hasZone a" "\<not> hasZone b"
  shows "a = b"
  using assms by (cases a; cases b) (auto simp: word_unat_eq_iff)

lemma BitLen_eq_0 [simp]: "BitLen a = 0 \<longleftrightarrow> a = ZeroAddr"
  by (cases a) auto

lemma BitLen_Is4: "BitLen a = 32 \<longleftrightarrow> Is4 a" and BitLen_Is6: "BitLen a = 128 \<longleftrightarrow> Is6 a"
  by (cases a; simp)+

lemma BitLen_cases: "a = ZeroAddr \<or> BitLen a = 32 \<or> BitLen a = 128"
  by (cases a) auto

lemma Is4_Is6: "Is4 a \<Longrightarrow> \<not> Is6 a"
  by (cases a) auto

lemma withoutZone_id: "\<not> hasZone a \<Longrightarrow> withoutZone a = a"
  by (cases a) auto

lemma unat_drop: "unat (drop_bit k w) = unat (w :: 'a::len word) div 2 ^ k"
  by (subst unat_drop_bit_eq) (rule drop_bit_eq_div)

lemma unat_and_mask: "unat (w AND mask k) = unat (w :: 'a::len word) mod 2 ^ k"
proof -
  have "unat (w AND mask k) = take_bit k (unat w)"
    by (simp only: unsigned_take_bit_eq flip: take_bit_eq_mask)
  then show ?thesis
    by (simp only: take_bit_eq_mod)
qed

lemma unat_and_not_mask:
  fixes w :: "'a::len word"
  shows "unat (w AND NOT (mask k)) = unat w div 2 ^ k * 2 ^ k"
proof -
  have split: "(w AND mask k) + (w AND NOT (mask k)) = w"
    by (subst disjunctive_add_eq_or) (auto simp: bit_eq_iff bit_simps)
  have le: "w AND mask k \<le> w"
    by (rule word_and_le2)
  have "w AND NOT (mask k) = w - (w AND mask k)"
    using split by (simp add: algebra_simps)
  then have "unat (w AND NOT (mask k)) = unat w - unat w mod 2 ^ k"
    using unat_sub [OF le] by (simp add: unat_and_mask)
  then show ?thesis
    by (simp add: minus_mod_eq_div_mult)
qed

lemma drop_bit_xor_eq_0:
  fixes a b :: "'a::len word"
  shows "drop_bit k (a XOR b) = 0 \<longleftrightarrow> unat a div 2 ^ k = unat b div 2 ^ k"
proof -
  have "drop_bit k (a XOR b) = 0 \<longleftrightarrow> drop_bit k a = drop_bit k b"
    by (simp add: bit_eq_iff bit_simps)
  also have "\<dots> \<longleftrightarrow> unat (drop_bit k a) = unat (drop_bit k b)"
    by (simp only: word_unat_eq_iff)
  finally show ?thesis
    by (simp only: unat_drop)
qed

lemma xor_and_not_mask_eq_0:
  fixes a b :: "'a::len word"
  shows "(a XOR b) AND NOT (mask k) = 0 \<longleftrightarrow> unat a div 2 ^ k = unat b div 2 ^ k"
proof -
  have "(a XOR b) AND NOT (mask k) = 0 \<longleftrightarrow> unat ((a XOR b) AND NOT (mask k)) = 0"
    by (simp only: word_unat_eq_iff unat_0)
  also have "\<dots> \<longleftrightarrow> unat (a XOR b) div 2 ^ k = 0"
    by (simp add: unat_and_not_mask)
  also have "\<dots> \<longleftrightarrow> drop_bit k (a XOR b) = 0"
    by (simp only: word_unat_eq_iff unat_0 unat_drop)
  finally show ?thesis
    by (simp only: drop_bit_xor_eq_0)
qed

section \<open>Prefixes as aligned blocks of addresses\<close>

definition host_bits :: "netip_prefix \<Rightarrow> nat" where
  "host_bits p = BitLen (Addr p) - nat (Bits p)"

definition block_no :: "netip_prefix \<Rightarrow> nat" where
  "block_no p = addr_num (Addr p) div 2 ^ host_bits p"

definition block :: "netip_prefix \<Rightarrow> addr set" where
  "block p = {a. Contains p a}"

text \<open>The address of the family of \<open>a\<close> with a given number.\<close>

primrec addr_like :: "addr \<Rightarrow> nat \<Rightarrow> addr" where
  "addr_like ZeroAddr n = ZeroAddr"
| "addr_like (IPv4 w) n = IPv4 (of_nat n)"
| "addr_like (IPv6 w z) n = IPv6 (of_nat n) []"

definition first_addr :: "netip_prefix \<Rightarrow> addr" where
  "first_addr p = addr_like (Addr p) (block_no p * 2 ^ host_bits p)"

definition last_addr :: "netip_prefix \<Rightarrow> addr" where
  "last_addr p = addr_like (Addr p) (block_no p * 2 ^ host_bits p + (2 ^ host_bits p - 1))"

lemma IsValidD:
  assumes "IsValid p"
  shows "Addr p \<noteq> ZeroAddr" "\<not> hasZone (Addr p)" "0 \<le> Bits p" "nat (Bits p) \<le> BitLen (Addr p)"
    "host_bits p + nat (Bits p) = BitLen (Addr p)" "host_bits p \<le> BitLen (Addr p)"
  using assms by (auto simp: IsValid_def host_bits_def)

lemma Contains_iff [block_simps]:
  "Contains p a \<longleftrightarrow> IsValid p \<and> \<not> hasZone a \<and> BitLen a = BitLen (Addr p) \<and>
     addr_num a div 2 ^ host_bits p = block_no p"
proof (cases "IsValid p \<and> \<not> hasZone a")
  case True
  then show ?thesis
    by (cases "Addr p"; cases a)
      (auto simp: Contains_def host_bits_def block_no_def xor_and_not_mask_eq_0
        simp del: drop_bit_xor simp add: drop_bit_xor_eq_0 dest: IsValidD(1))
qed (auto simp: Contains_def)

lemma mem_block: "a \<in> block p \<longleftrightarrow> Contains p a"
  by (simp add: block_def)

lemma addr_like_simps [simp]:
  "BitLen (addr_like a n) = BitLen a" "\<not> hasZone (addr_like a n)"
  "addr_like a n = ZeroAddr \<longleftrightarrow> a = ZeroAddr" "Is4 (addr_like a n) = Is4 a"
  by (cases a; simp)+

lemma addr_num_like: "n < 2 ^ BitLen a \<Longrightarrow> addr_num (addr_like a n) = n"
  by (cases a) (auto simp: unat_of_nat)

lemma addr_like_num: "\<not> hasZone b \<Longrightarrow> BitLen b = BitLen a \<Longrightarrow> addr_like a (addr_num b) = b"
  by (cases a; cases b) auto

lemma div_pow2_mono_eq:
  fixes x y :: nat
  assumes "x div 2 ^ h = y div 2 ^ h" "h \<le> k"
  shows "x div 2 ^ k = y div 2 ^ k"
proof -
  have "2 ^ k = (2 ^ h * 2 ^ (k - h) :: nat)"
    using assms(2) by (simp flip: power_add)
  with assms(1) show ?thesis
    by (simp add: div_mult2_eq)
qed

lemma block_bounds:
  assumes "IsValid p"
  shows "block_no p * 2 ^ host_bits p + 2 ^ host_bits p \<le> 2 ^ BitLen (Addr p)"
proof -
  let ?h = "host_bits p" and ?L = "BitLen (Addr p)"
  have L: "2 ^ ?L = (2 ^ (?L - ?h) * 2 ^ ?h :: nat)"
    using IsValidD(6) [OF assms] by (simp flip: power_add)
  have "addr_num (Addr p) < 2 ^ (?L - ?h) * 2 ^ ?h"
    using addr_num_bound [of "Addr p"] by (simp add: L)
  then have "block_no p < 2 ^ (?L - ?h)"
    by (simp add: block_no_def less_mult_imp_div_less)
  then have "Suc (block_no p) * 2 ^ ?h \<le> 2 ^ (?L - ?h) * 2 ^ ?h"
    by (intro mult_right_mono) auto
  then show ?thesis
    by (simp add: L)
qed

lemma div_eq_iff_interval:
  fixes x d b :: nat
  assumes "0 < d"
  shows "x div d = b \<longleftrightarrow> b * d \<le> x \<and> x < b * d + d"
proof
  assume "x div d = b"
  then have "b * d + x mod d = x"
    by auto
  moreover have "x mod d < d"
    using assms by simp
  ultimately show "b * d \<le> x \<and> x < b * d + d"
    by linarith
next
  assume "b * d \<le> x \<and> x < b * d + d"
  then show "x div d = b"
    by (intro div_nat_eqI) (simp_all add: algebra_simps)
qed

lemma Contains_interval:
  assumes "IsValid p"
  shows "Contains p a \<longleftrightarrow> \<not> hasZone a \<and> BitLen a = BitLen (Addr p) \<and>
     block_no p * 2 ^ host_bits p \<le> addr_num a \<and>
     addr_num a < block_no p * 2 ^ host_bits p + 2 ^ host_bits p"
  using assms by (simp add: Contains_iff div_eq_iff_interval)

lemma Contains_self: "IsValid p \<Longrightarrow> Contains p (Addr p)"
  by (simp add: Contains_iff IsValidD block_no_def)

lemma block_nonempty: "IsValid p \<Longrightarrow> block p \<noteq> {}"
  using Contains_self by (auto simp: block_def)

lemma first_addr_num:
  assumes "IsValid p"
  shows "addr_num (first_addr p) = block_no p * 2 ^ host_bits p"
proof -
  have "(0::nat) < 2 ^ host_bits p"
    by simp
  with block_bounds [OF assms] have "block_no p * 2 ^ host_bits p < 2 ^ BitLen (Addr p)"
    by linarith
  then show ?thesis
    by (simp add: first_addr_def addr_num_like)
qed

lemma last_addr_num:
  assumes "IsValid p"
  shows "addr_num (last_addr p) = block_no p * 2 ^ host_bits p + (2 ^ host_bits p - 1)"
proof -
  have "(0::nat) < 2 ^ host_bits p"
    by simp
  with block_bounds [OF assms]
  have "block_no p * 2 ^ host_bits p + (2 ^ host_bits p - 1) < 2 ^ BitLen (Addr p)"
    by linarith
  then show ?thesis
    by (simp add: last_addr_def addr_num_like)
qed

lemma first_last_simps [simp]:
  "BitLen (first_addr p) = BitLen (Addr p)" "\<not> hasZone (first_addr p)"
  "BitLen (last_addr p) = BitLen (Addr p)" "\<not> hasZone (last_addr p)"
  by (simp_all add: first_addr_def last_addr_def)

lemma le_add_pow2_pred: "(b::nat) \<le> b + 2 ^ h - Suc 0"
proof -
  have "1 \<le> (2::nat) ^ h"
    by simp
  then show ?thesis
    by linarith
qed

lemma Contains_first_last:
  assumes "IsValid p"
  shows "Contains p (first_addr p)" "Contains p (last_addr p)"
  using assms by (simp_all add: Contains_interval first_addr_num last_addr_num le_add_pow2_pred)

lemma Contains_between:
  assumes "IsValid p"
  shows "Contains p a \<longleftrightarrow> \<not> hasZone a \<and> BitLen a = BitLen (Addr p) \<and>
     addr_num (first_addr p) \<le> addr_num a \<and> addr_num a \<le> addr_num (last_addr p)"
proof -
  have "x < b + 2 ^ h \<longleftrightarrow> x \<le> b + (2 ^ h - 1)" for x b h :: nat
    using zero_less_power [of "2::nat" h] by linarith
  with assms show ?thesis
    by (auto simp: Contains_interval first_addr_num last_addr_num)
qed

text \<open>The number of addresses of a block.\<close>

lemma card_block:
  assumes "IsValid p"
  shows "finite (block p)" "card (block p) = 2 ^ host_bits p"
proof -
  let ?b = "block_no p * 2 ^ host_bits p"
  have inj: "inj_on addr_num (block p)"
    by (auto simp: inj_on_def block_def Contains_iff intro: addr_eqI)
  have "addr_num ` block p = {?b ..< ?b + 2 ^ host_bits p}"
  proof (intro equalityI subsetI)
    fix n assume "n \<in> {?b ..< ?b + 2 ^ host_bits p}"
    moreover from this block_bounds [OF assms] have "n < 2 ^ BitLen (Addr p)"
      by simp
    ultimately have "addr_like (Addr p) n \<in> block p" "addr_num (addr_like (Addr p) n) = n"
      using assms by (auto simp: block_def Contains_interval addr_num_like)
    then show "n \<in> addr_num ` block p"
      by (metis image_eqI)
  qed (use assms in \<open>auto simp: block_def Contains_interval\<close>)
  then have "bij_betw addr_num (block p) {?b ..< ?b + 2 ^ host_bits p}"
    using inj by (simp add: bij_betw_def)
  then show "finite (block p)" "card (block p) = 2 ^ host_bits p"
    by (auto dest: bij_betw_finite bij_betw_same_card)
qed

section \<open>Masking, overlap and the address scan\<close>

lemma mask_addr_simps [simp]:
  "BitLen (mask_addr a b) = BitLen a" "\<not> hasZone (mask_addr a b)"
  "mask_addr a b = ZeroAddr \<longleftrightarrow> a = ZeroAddr"
  by (cases a; simp)+

lemma mask_addr_num:
  "b \<le> BitLen a \<Longrightarrow> addr_num (mask_addr a b) = addr_num a div 2 ^ (BitLen a - b) * 2 ^ (BitLen a - b)"
  by (cases a) (simp_all add: unat_and_not_mask)

lemma addr_Prefix_valid:
  assumes "IsValid p" "0 \<le> m" "m \<le> Bits p"
  shows "addr_Prefix (Addr p) m = Inr \<lparr>Addr = mask_addr (Addr p) (nat m), Bits = m\<rparr>"
  using assms by (auto simp: addr_Prefix_def netip_PrefixFrom_def IsValid_def withoutZone_id)

lemma Masked_valid:
  assumes "IsValid p"
  shows "Masked p = \<lparr>Addr = mask_addr (Addr p) (nat (Bits p)), Bits = Bits p\<rparr>"
  using assms by (simp add: Masked_def addr_Prefix_valid IsValidD)

lemma Masked_simps [simp]:
  assumes "IsValid p"
  shows "IsValid (Masked p)" "Bits (Masked p) = Bits p" "BitLen (Addr (Masked p)) = BitLen (Addr p)"
    "host_bits (Masked p) = host_bits p" "block_no (Masked p) = block_no p"
    "addr_num (Addr (Masked p)) = block_no p * 2 ^ host_bits p"
  using assms
  by (auto simp: Masked_valid IsValid_def host_bits_def block_no_def mask_addr_num nat_le_iff)

lemma block_Masked [simp]: "IsValid p \<Longrightarrow> block (Masked p) = block p"
  by (auto simp: block_def Contains_iff)

lemma Masked_addr: "IsValid p \<Longrightarrow> Addr (Masked p) = first_addr p"
  by (rule addr_eqI) (auto simp: first_addr_num dest: IsValidD(2) [OF Masked_simps(1)])

lemma Masked_idem [simp]: "IsValid p \<Longrightarrow> Masked (Masked p) = Masked p"
  by (rule netip_prefix.equality)
    (auto simp: Masked_addr intro!: addr_eqI simp: first_addr_num)

lemma netip_prefix_eqI:
  assumes "IsValid p" "IsValid q" "Masked p = p" "Masked q = q"
    "BitLen (Addr p) = BitLen (Addr q)" "Bits p = Bits q" "block_no p = block_no q"
  shows "p = q"
proof -
  have h: "host_bits p = host_bits q"
    using assms by (simp add: host_bits_def)
  have "addr_num (Addr (Masked p)) = addr_num (Addr (Masked q))"
    using assms(1,2,7) h by simp
  then have "addr_num (Addr p) = addr_num (Addr q)"
    by (simp only: assms(3,4))
  then have "Addr p = Addr q"
    using assms(1,2,5) by (auto intro!: addr_eqI dest: IsValidD)
  with assms(6) show ?thesis
    by (simp add: netip_prefix.equality)
qed

lemma Overlaps_num:
  assumes p: "IsValid p" and q: "IsValid q"
  shows "Overlaps p q \<longleftrightarrow> BitLen (Addr p) = BitLen (Addr q) \<and>
    addr_num (Addr p) div 2 ^ max (host_bits p) (host_bits q) =
    addr_num (Addr q) div 2 ^ max (host_bits p) (host_bits q)"
proof -
  define m where "m = (if Bits p < Bits q then Bits p else Bits q)"
  have m: "0 \<le> m" "m \<le> Bits p" "m \<le> Bits q"
    using p q by (auto simp: m_def IsValid_def)
  have fam: "Is4 (Addr p) = Is4 (Addr q) \<longleftrightarrow> BitLen (Addr p) = BitLen (Addr q)"
    using p q by (cases "Addr p"; cases "Addr q") (auto simp: IsValid_def)
  show ?thesis
  proof (cases "BitLen (Addr p) = BitLen (Addr q)")
    case False
    then show ?thesis
      using fam by (auto simp: Overlaps_def)
  next
    case True
    let ?L = "BitLen (Addr q)"
    have h: "max (host_bits p) (host_bits q) = ?L - nat m"
      using True m by (auto simp: host_bits_def m_def)
    have le: "nat m \<le> ?L"
      using m(3) IsValidD(4) [OF q] by linarith
    have eqv: "mask_addr (Addr p) (nat m) = mask_addr (Addr q) (nat m) \<longleftrightarrow>
        addr_num (Addr p) div 2 ^ (?L - nat m) = addr_num (Addr q) div 2 ^ (?L - nat m)"
      (is "?A \<longleftrightarrow> ?B")
    proof
      assume ?A
      then have "addr_num (mask_addr (Addr p) (nat m)) = addr_num (mask_addr (Addr q) (nat m))"
        by simp
      then show ?B
        using le True by (simp add: mask_addr_num)
    next
      assume ?B
      then show ?A
        using le True by (intro addr_eqI) (simp_all add: mask_addr_num)
    qed
    have zero: "addr_num (Addr p) div 2 ^ (?L - nat m) = addr_num (Addr q) div 2 ^ (?L - nat m)"
      if "m = 0"
      using that addr_num_bound [of "Addr p"] addr_num_bound [of "Addr q"] True by simp
    have "Overlaps p q \<longleftrightarrow> p = q \<or> m = 0 \<or> ?A"
      using p q fam True m
      by (auto simp: Overlaps_def Let_def addr_Prefix_valid simp flip: m_def)
    then show ?thesis
      using eqv zero True h by auto
  qed
qed

lemma Overlaps_sym: "IsValid p \<Longrightarrow> IsValid q \<Longrightarrow> Overlaps p q \<longleftrightarrow> Overlaps q p"
  by (auto simp: Overlaps_num max.commute)

text \<open>Two overlapping prefixes are nested: the one with the longer length lies in the other.\<close>

lemma Overlaps_nested:
  assumes p: "IsValid p" and q: "IsValid q" and le: "Bits p \<le> Bits q" and ov: "Overlaps p q"
  shows "block q \<subseteq> block p"
proof
  fix a assume "a \<in> block q"
  then have a: "\<not> hasZone a" "BitLen a = BitLen (Addr q)"
      "addr_num a div 2 ^ host_bits q = block_no q"
    by (auto simp: block_def Contains_iff)
  have L: "BitLen (Addr p) = BitLen (Addr q)"
    using ov p q by (simp add: Overlaps_num)
  have h: "host_bits q \<le> host_bits p"
    using le L by (simp add: host_bits_def)
  have "addr_num a div 2 ^ host_bits p = addr_num (Addr q) div 2 ^ host_bits p"
    using a(3) h by (auto simp: block_no_def intro: div_pow2_mono_eq)
  also have "\<dots> = block_no p"
    using ov p q h by (simp add: Overlaps_num block_no_def max_absorb1)
  finally show "a \<in> block p"
    using p a L by (simp add: block_def Contains_iff)
qed

lemma Overlaps_meet:
  assumes p: "IsValid p" and q: "IsValid q" and le: "Bits p \<le> Bits q"
    and a: "Contains p a" "Contains q a"
  shows "Overlaps p q"
proof -
  have L: "BitLen (Addr p) = BitLen (Addr q)"
    using a by (simp add: Contains_iff)
  have h: "host_bits q \<le> host_bits p"
    using le L by (simp add: host_bits_def)
  have "addr_num (Addr q) div 2 ^ host_bits p = addr_num a div 2 ^ host_bits p"
    using div_pow2_mono_eq [OF _ h, of "addr_num (Addr q)" "addr_num a"] a(2)
    by (simp add: Contains_iff block_no_def)
  also have "\<dots> = addr_num (Addr p) div 2 ^ host_bits p"
    using a(1) by (simp add: Contains_iff block_no_def)
  finally show ?thesis
    using p q L h by (simp add: Overlaps_num max_absorb1)
qed

text \<open>\<open>Overlaps\<close> says whether the two prefixes have an address in common.\<close>

lemma Overlaps_iff:
  assumes p: "IsValid p" and q: "IsValid q"
  shows "Overlaps p q \<longleftrightarrow> block p \<inter> block q \<noteq> {}"
proof
  assume ov: "Overlaps p q"
  show "block p \<inter> block q \<noteq> {}"
  proof (cases "Bits p \<le> Bits q")
    case True
    then show ?thesis
      using Overlaps_nested [OF p q _ ov] block_nonempty [OF q] by auto
  next
    case False
    then show ?thesis
      using Overlaps_nested [OF q p] ov block_nonempty [OF p] Overlaps_sym [OF p q] by auto
  qed
next
  assume "block p \<inter> block q \<noteq> {}"
  then obtain a where "Contains p a" "Contains q a"
    by (auto simp: block_def)
  then show "Overlaps p q"
    using Overlaps_meet [OF p q] Overlaps_meet [OF q p] Overlaps_sym [OF p q] by force
qed

lemma not_Overlaps_disjoint:
  "IsValid p \<Longrightarrow> IsValid q \<Longrightarrow> \<not> Overlaps p q \<longleftrightarrow> block p \<inter> block q = {}"
  by (simp add: Overlaps_iff)

text \<open>Containment of blocks is comparison of lengths and overlap.\<close>

lemma block_subset_iff:
  assumes p: "IsValid p" and q: "IsValid q"
  shows "block q \<subseteq> block p \<longleftrightarrow> Bits p \<le> Bits q \<and> Overlaps p q"
proof
  assume sub: "block q \<subseteq> block p"
  have ov: "Overlaps p q"
    using sub block_nonempty [OF q] by (auto simp: Overlaps_iff [OF p q])
  have "(2::nat) ^ host_bits q \<le> 2 ^ host_bits p"
    using card_mono [OF card_block(1) [OF p] sub] card_block(2) [OF p] card_block(2) [OF q] by simp
  then have "host_bits q \<le> host_bits p"
    by simp
  moreover have "BitLen (Addr p) = BitLen (Addr q)"
    using ov p q by (simp add: Overlaps_num)
  ultimately have "Bits p \<le> Bits q"
    using IsValidD(3,5) [OF p] IsValidD(3,5) [OF q] by linarith
  with ov show "Bits p \<le> Bits q \<and> Overlaps p q"
    by simp
qed (use assms Overlaps_nested in blast)

text \<open>\<open>Next\<close> goes to the following number, and leaves the family after the last one.\<close>

lemma unat_plus_1: "w + 1 \<noteq> 0 \<Longrightarrow> unat (w + 1) = Suc (unat (w :: 'a::len word))"
  using unatSuc [of w] by (simp add: add.commute)

lemma word_plus_1_eq_0: "w + 1 = 0 \<longleftrightarrow> Suc (unat (w :: 'a::len word)) = 2 ^ LENGTH('a)"
proof
  assume "w + 1 = 0"
  then have "w = - 1"
    by (simp add: eq_neg_iff_add_eq_0)
  then show "Suc (unat w) = 2 ^ LENGTH('a)"
    by (simp add: unsigned_minus_1_eq_mask mask_eq_exp_minus_1)
next
  assume "Suc (unat w) = 2 ^ LENGTH('a)"
  then show "w + 1 = 0"
    using unat_plus_1 [of w] unsigned_less [of "w + 1", where ?'a = nat] by force
qed

lemma addr_Next_num:
  assumes "a \<noteq> ZeroAddr"
  shows "addr_Next a = ZeroAddr \<longleftrightarrow> Suc (addr_num a) = 2 ^ BitLen a"
    and "addr_Next a \<noteq> ZeroAddr \<Longrightarrow> addr_num (addr_Next a) = Suc (addr_num a) \<and>
       BitLen (addr_Next a) = BitLen a \<and> hasZone (addr_Next a) = hasZone a"
proof -
  have v4: "(w + 1 = 0) = (Suc (unat w) = 2 ^ 32)" for w :: "32 word"
    using word_plus_1_eq_0 [of w] by simp
  have v6: "(w + 1 = 0) = (Suc (unat w) = 2 ^ 128)" for w :: "128 word"
    using word_plus_1_eq_0 [of w] by simp
  show "addr_Next a = ZeroAddr \<longleftrightarrow> Suc (addr_num a) = 2 ^ BitLen a"
    using assms by (cases a) (simp_all only: addr_Next.simps addr_num.simps BitLen.simps v4 v6 split: if_split, auto)
  show "addr_Next a \<noteq> ZeroAddr \<Longrightarrow> addr_num (addr_Next a) = Suc (addr_num a) \<and>
       BitLen (addr_Next a) = BitLen a \<and> hasZone (addr_Next a) = hasZone a"
    using assms
    by (cases a)
      (auto simp only: addr_Next.simps addr_num.simps BitLen.simps hasZone.simps unat_plus_1
        if_False not_False_eq_True split: if_split_asm)
qed

end
