(* ===== verification/Netip_Text.thy ===== *)
theory Netip_Text
  imports Netip
begin

text \<open>
  The text syntax of addresses and prefixes in Go's \<^verbatim>\<open>net/netip\<close>: \<open>ParseAddr\<close>, \<open>ParsePrefix\<close> and
  the two \<open>String\<close> methods, character by character. go-ipam keys its stores and its maps by these
  strings, so what it needs of them is proved here: printing and parsing are inverse
  (\<open>ParseAddr_String\<close>, \<open>ParsePrefix_String\<close>), hence printing is injective, and what \<open>ParsePrefix\<close>
  accepts is a valid prefix.

  Parse errors carry netip's message, without the quoted input.
\<close>

section \<open>Numbers\<close>

definition dec_val :: "char \<Rightarrow> nat option" where
  "dec_val c = (let n = of_char c in if 48 \<le> n \<and> n \<le> 57 then Some (n - 48) else None)"

definition hex_val :: "char \<Rightarrow> nat option" where
  "hex_val c = (let n = of_char c in
     if 48 \<le> n \<and> n \<le> 57 then Some (n - 48)
     else if 97 \<le> n \<and> n \<le> 102 then Some (n - 87)
     else if 65 \<le> n \<and> n \<le> 70 then Some (n - 55)
     else None)"

definition is_hex :: "char \<Rightarrow> bool" where
  "is_hex c \<longleftrightarrow> hex_val c \<noteq> None"

definition hex_char :: "nat \<Rightarrow> char" where
  "hex_char d = char_of (if d < 10 then 48 + d else 87 + d)"

text \<open>The digits of a number in a base above 1, without leading zeros; \<open>hex_char\<close> also prints decimals.\<close>

function print_num :: "nat \<Rightarrow> nat \<Rightarrow> string" where
  "print_num b n = (if n < b \<or> b < 2 then [hex_char n] else print_num b (n div b) @ [hex_char (n mod b)])"
  by pat_completeness auto
termination
  by (relation "measure snd") (auto intro: div_less_dividend)

declare print_num.simps [simp del]

definition itoa :: "nat \<Rightarrow> string" where
  "itoa n = print_num 10 n"

definition itox :: "nat \<Rightarrow> string" where
  "itox n = print_num 16 n"

definition num_of :: "(char \<Rightarrow> nat option) \<Rightarrow> nat \<Rightarrow> string \<Rightarrow> nat \<Rightarrow> nat" where
  "num_of dv b s acc = foldl (\<lambda>a c. a * b + the (dv c)) acc s"

text \<open>The \<open>k\<close> lowest digits of a number in base \<open>b\<close>, most significant first, and back.\<close>

primrec digs :: "nat \<Rightarrow> nat \<Rightarrow> nat \<Rightarrow> nat list" where
  "digs b 0 n = []"
| "digs b (Suc k) n = digs b k (n div b) @ [n mod b]"

definition undigs :: "nat \<Rightarrow> nat list \<Rightarrow> nat" where
  "undigs b ds = foldl (\<lambda>a d. a * b + d) 0 ds"

fun join :: "string \<Rightarrow> string list \<Rightarrow> string" where
  "join sep [] = []"
| "join sep [x] = x"
| "join sep (x # y # xs) = x @ sep @ join sep (y # xs)"

section \<open>Printing\<close>

definition string4 :: "32 word \<Rightarrow> string" where
  "string4 w = join ''.'' (map itoa (digs 256 4 (unat w)))"

definition groups6 :: "128 word \<Rightarrow> nat list" where
  "groups6 w = digs 65536 8 (unat w)"

definition zero_len :: "nat list \<Rightarrow> nat" where
  "zero_len gs = length (takeWhile (\<lambda>g. g = 0) gs)"

text \<open>The first longest run of at least two zero groups: its start and its length, 0 for none.\<close>

fun best_run :: "nat \<Rightarrow> nat list \<Rightarrow> nat \<times> nat \<Rightarrow> nat \<times> nat" where
  "best_run i [] best = best"
| "best_run i (g # gs) (s, l) =
     (let n = zero_len (g # gs) in
      best_run (Suc i) gs (if 2 \<le> n \<and> l < n then (i, n) else (s, l)))"

definition string6 :: "nat list \<Rightarrow> string" where
  "string6 gs = (case best_run 0 gs (0, 0) of (s, l) \<Rightarrow>
     if l = 0 then join '':'' (map itox gs)
     else join '':'' (map itox (take s gs)) @ ''::'' @ join '':'' (map itox (drop (s + l) gs)))"

definition Is4In6 :: "128 word \<Rightarrow> bool" where
  "Is4In6 w \<longleftrightarrow> unat w div 2 ^ 32 = 65535"

primrec addr_String :: "addr \<Rightarrow> string" where
  "addr_String ZeroAddr = ''invalid IP''"
| "addr_String (IPv4 w) = string4 w"
| "addr_String (IPv6 w z) =
     (if Is4In6 w then ''::ffff:'' @ string4 (of_nat (unat w mod 2 ^ 32)) else string6 (groups6 w))
     @ (if z = [] then [] else CHR ''%'' # z)"

definition prefix_String :: "netip_prefix \<Rightarrow> string" where
  "prefix_String p =
     (if IsValid p then addr_String (Addr p) @ ''/'' @ itoa (nat (Bits p)) else ''invalid Prefix'')"

section \<open>Parsing\<close>

text \<open>
  The loop of \<open>parseIPv4Fields\<close>: the value and the number of digits of the current field, and the
  fields before it. No digit in the current field means that the last character was a dot, or that
  there was none.
\<close>

fun parseIPv4Fields :: "string \<Rightarrow> nat \<Rightarrow> nat \<Rightarrow> nat list \<Rightarrow> nat list result" where
  "parseIPv4Fields [] val digLen fs =
     (if length fs < 3 then Inl (Errorf ''IPv4 address too short'' []) else Inr (fs @ [val]))"
| "parseIPv4Fields (c # cs) val digLen fs =
     (case dec_val c of
        Some d \<Rightarrow>
          if digLen = 1 \<and> val = 0 then Inl (Errorf ''IPv4 field has octet with leading zero'' [])
          else if 255 < val * 10 + d then Inl (Errorf ''IPv4 field has value >255'' [])
          else parseIPv4Fields cs (val * 10 + d) (digLen + 1) fs
      | None \<Rightarrow>
          if c \<noteq> CHR ''.'' then Inl (Errorf ''unexpected character'' [])
          else if digLen = 0 \<or> cs = [] then Inl (Errorf ''IPv4 field must have at least one digit'' [])
          else if length fs = 3 then Inl (Errorf ''IPv4 address too long'' [])
          else parseIPv4Fields cs 0 0 (fs @ [val]))"

definition parseIPv4 :: "string \<Rightarrow> addr result" where
  "parseIPv4 s = (case parseIPv4Fields s 0 0 [] of
     Inl e \<Rightarrow> Inl e
   | Inr fs \<Rightarrow> Inr (IPv4 (of_nat (undigs 256 fs))))"

text \<open>
  The loop of \<open>parseIPv6\<close>: the 16-bit groups read so far and the position of the ellipsis. It ends
  with the groups, the ellipsis and the text that was not read.
\<close>

function parseIPv6Groups ::
  "string \<Rightarrow> nat list \<Rightarrow> nat option \<Rightarrow> (nat list \<times> nat option \<times> string) result" where
  "parseIPv6Groups s gs ell =
     (if 8 \<le> length gs then Inr (gs, ell, s)
      else let ds = takeWhile is_hex s; rest = drop (length ds) s in
      if 4 < length ds then Inl (Errorf ''each group must have 4 or less digits'' [])
      else if ds = [] then Inl (Errorf ''each colon-separated field must have at least one digit'' [])
      else let gs' = gs @ [num_of hex_val 16 ds 0] in
      (case rest of
         [] \<Rightarrow> Inr (gs', ell, [])
       | c # cs \<Rightarrow>
           if c = CHR ''.'' then
             (if ell = None \<and> length gs \<noteq> 6 then
                Inl (Errorf ''embedded IPv4 address must replace the final 2 fields of the address'' [])
              else if 6 < length gs then
                Inl (Errorf ''too many hex fields to fit an embedded IPv4 at the end of the address'' [])
              else (case parseIPv4Fields s 0 0 [] of
                 Inl e \<Rightarrow> Inl e
               | Inr fs \<Rightarrow> Inr (gs @ digs 65536 2 (undigs 256 fs), ell, [])))
           else if c \<noteq> CHR '':'' then Inl (Errorf ''unexpected character, want colon'' [])
           else (case cs of
              [] \<Rightarrow> Inl (Errorf ''colon must be followed by more characters'' [])
            | c' # cs' \<Rightarrow>
                if c' = CHR '':'' then
                  (if ell \<noteq> None then Inl (Errorf ''multiple :: in address'' [])
                   else if cs' = [] then Inr (gs', Some (length gs'), [])
                   else parseIPv6Groups cs' gs' (Some (length gs')))
                else parseIPv6Groups cs gs' ell)))"
  by pat_completeness auto
termination
  by (relation "measure (\<lambda>(s, gs, ell). 8 - length gs)") auto

declare parseIPv6Groups.simps [simp del]

definition finishIPv6 :: "nat list \<times> nat option \<times> string \<Rightarrow> string \<Rightarrow> addr result" where
  "finishIPv6 r zone = (case r of (gs, ell, rest) \<Rightarrow>
     if rest \<noteq> [] then Inl (Errorf ''trailing garbage after address'' [])
     else if length gs < 8 then
       (case ell of
          None \<Rightarrow> Inl (Errorf ''address string too short'' [])
        | Some e \<Rightarrow> Inr (IPv6 (of_nat (undigs 65536
            (take e gs @ replicate (8 - length gs) 0 @ drop e gs))) zone))
     else if ell \<noteq> None then
       Inl (Errorf ''the :: must expand to at least one field of zeros'' [])
     else Inr (IPv6 (of_nat (undigs 65536 gs)) zone))"

definition parseIPv6Body :: "string \<Rightarrow> string \<Rightarrow> addr result" where
  "parseIPv6Body s zone =
     (if take 2 s = ''::'' then
        (if length s = 2 then Inr (IPv6 0 zone)
         else case parseIPv6Groups (drop 2 s) [] (Some 0) of
             Inl e \<Rightarrow> Inl e
           | Inr r \<Rightarrow> finishIPv6 r zone)
      else case parseIPv6Groups s [] None of
          Inl e \<Rightarrow> Inl e
        | Inr r \<Rightarrow> finishIPv6 r zone)"

definition parseIPv6 :: "string \<Rightarrow> addr result" where
  "parseIPv6 s =
     (let a = takeWhile (\<lambda>c. c \<noteq> CHR ''%'') s; r = drop (length a) s in
      if r = [] then parseIPv6Body a []
      else if tl r = [] then Inl (Errorf ''zone must be a non-empty string'' [])
      else parseIPv6Body a (tl r))"

definition ParseAddr :: "string \<Rightarrow> addr result" where
  "ParseAddr s = (case dropWhile (\<lambda>c. c \<noteq> CHR ''.'' \<and> c \<noteq> CHR '':'' \<and> c \<noteq> CHR ''%'') s of
     [] \<Rightarrow> Inl (Errorf ''unable to parse IP'' [])
   | c # _ \<Rightarrow>
       if c = CHR ''.'' then parseIPv4 s
       else if c = CHR '':'' then parseIPv6 s
       else Inl (Errorf ''missing IPv6 address'' []))"

text \<open>\<open>strconv.Atoi\<close> on the text after the slash, which has no sign.\<close>

definition atoi :: "string \<Rightarrow> nat result" where
  "atoi s = (if s \<noteq> [] \<and> list_all (\<lambda>c. dec_val c \<noteq> None) s then Inr (num_of dec_val 10 s 0)
     else Inl (Errorf ''invalid syntax'' []))"

definition ParsePrefix :: "string \<Rightarrow> netip_prefix result" where
  "ParsePrefix s =
     (let r = rev s; bitsStr = rev (takeWhile (\<lambda>c. c \<noteq> CHR ''/'') r);
          front = drop (length bitsStr) r in
      if front = [] then Inl (Errorf ''no slash'' [])
      else case ParseAddr (rev (tl front)) of
          Inl e \<Rightarrow> Inl e
        | Inr ip \<Rightarrow>
            if hasZone ip then Inl (Errorf ''IPv6 zones cannot be present in a prefix'' [])
            else if 1 < length bitsStr \<and> hd bitsStr \<notin> set ''123456789'' then
              Inl (Errorf ''bad bits after slash'' [])
            else (case atoi bitsStr of
                Inl e \<Rightarrow> Inl (Errorf ''bad bits after slash'' [])
              | Inr bits \<Rightarrow>
                  if (if Is6 ip then 128 else 32) < bits then
                    Inl (Errorf ''prefix length out of range'' [])
                  else Inr (netip_PrefixFrom ip (int bits))))"

section \<open>Numbers: printing and reading\<close>

lemma of_char_hex_char: "d < 16 \<Longrightarrow> of_char (hex_char d) = (if d < 10 then 48 + d else 87 + d)"
  by (simp add: hex_char_def)

lemma dec_val_hex_char [simp]: "d < 10 \<Longrightarrow> dec_val (hex_char d) = Some d"
  by (simp add: dec_val_def of_char_hex_char)

lemma hex_val_hex_char [simp]: "d < 16 \<Longrightarrow> hex_val (hex_char d) = Some d"
  by (simp add: hex_val_def of_char_hex_char Let_def)

lemma dec_val_bound: "dec_val c = Some d \<Longrightarrow> d < 10"
  by (auto simp: dec_val_def Let_def split: if_splits)

lemma dec_is_hex: "dec_val c \<noteq> None \<Longrightarrow> hex_val c \<noteq> None"
  by (auto simp: dec_val_def hex_val_def Let_def split: if_splits)

lemma print_num_chars:
  assumes "2 \<le> b" "b \<le> 16" "c \<in> set (print_num b n)"
  shows "\<exists>d < b. c = hex_char d"
  using assms
proof (induction b n rule: print_num.induct)
  case (1 b n)
  show ?case
  proof (cases "n < b")
    case False
    have "0 < b"
      using "1.prems" by simp
    with False 1 show ?thesis
      by (auto simp: print_num.simps [of b n] intro: exI [of _ "n mod b"])
  qed (use 1 in \<open>auto simp: print_num.simps [of b n]\<close>)
qed

lemma print_num_nonempty [simp]: "print_num b n \<noteq> []"
  by (subst print_num.simps) simp

lemma print_num_length: "2 \<le> b \<Longrightarrow> n < b ^ Suc k \<Longrightarrow> length (print_num b n) \<le> Suc k"
proof (induction k arbitrary: n)
  case 0
  then show ?case
    by (subst print_num.simps) simp
next
  case (Suc k)
  then have "n div b < b ^ Suc k"
    by (simp add: less_mult_imp_div_less mult.commute)
  with Suc show ?case
    by (subst print_num.simps) auto
qed

lemma num_of_append: "num_of dv b (s @ t) acc = num_of dv b t (num_of dv b s acc)"
  by (simp add: num_of_def)

lemma num_of_print:
  assumes "2 \<le> b" "\<And>d. d < b \<Longrightarrow> dv (hex_char d) = Some d"
  shows "num_of dv b (print_num b n) 0 = n"
  using assms
proof (induction b n rule: print_num.induct)
  case (1 b n)
  have dv: "dv (hex_char d) = Some d" if "d < b" for d
    using 1 that by simp
  have "0 < b"
    using "1.prems" by simp
  with 1 show ?case
    by (subst print_num.simps) (auto simp: num_of_append num_of_def dv)
qed

lemma digs_length [simp]: "length (digs b k n) = k"
  by (induction k arbitrary: n) auto

lemma digs_bound: "0 < b \<Longrightarrow> d \<in> set (digs b k n) \<Longrightarrow> d < b"
  by (induction k arbitrary: n) auto

lemma undigs_snoc: "undigs b (ds @ [d]) = undigs b ds * b + d"
  by (simp add: undigs_def)

lemma undigs_digs: "0 < b \<Longrightarrow> undigs b (digs b k n) = n mod b ^ k"
proof (induction k arbitrary: n)
  case (Suc k)
  then show ?case
    by (simp add: undigs_snoc mod_mult2_eq mult.commute)
qed (simp add: undigs_def)

lemma digs_undigs:
  assumes "\<And>d. d \<in> set ds \<Longrightarrow> d < b"
  shows "digs b (length ds) (undigs b ds) = ds"
  using assms
proof (induction ds rule: rev_induct)
  case (snoc d ds)
  have "(undigs b ds * b + d) div b = undigs b ds" "(undigs b ds * b + d) mod b = d"
    using snoc.prems [of d] by auto
  with snoc show ?case
    by (simp add: undigs_snoc)
qed simp

lemma undigs_bound:
  assumes "\<And>d. d \<in> set ds \<Longrightarrow> d < b"
  shows "undigs b ds < b ^ length ds"
  using assms
proof (induction ds rule: rev_induct)
  case (snoc d ds)
  then have "Suc (undigs b ds) \<le> b ^ length ds" "d < b"
    by auto
  then have "Suc (undigs b ds) * b \<le> b ^ length ds * b"
    by (intro mult_right_mono) auto
  with \<open>d < b\<close> show ?case
    by (simp add: undigs_snoc mult.commute)
qed (simp add: undigs_def)

section \<open>IPv4: parsing what was printed\<close>

lemma parseIPv4Fields_num:
  assumes "n \<le> 255"
  shows "parseIPv4Fields (itoa n @ rest) 0 0 fs = parseIPv4Fields rest n (length (itoa n)) fs"
  using assms unfolding itoa_def
proof (induction "10 :: nat" n arbitrary: rest rule: print_num.induct)
  case (1 n)
  show ?case
  proof (cases "n < 10")
    case True
    then show ?thesis
      by (simp add: print_num.simps [of 10 n])
  next
    case False
    have len: "length (print_num 10 (n div 10)) = Suc 0 \<Longrightarrow> 0 < n div 10"
      using False by simp
    have "n div 10 * 10 + n mod 10 = n"
      by simp
    then show ?thesis
      using False 1 len by (auto simp: print_num.simps [of 10 n])
  qed
qed

lemma parseIPv4Fields_dot:
  assumes "0 < k" "length fs < 3" "cs \<noteq> []"
  shows "parseIPv4Fields (CHR ''.'' # cs) v k fs = parseIPv4Fields cs 0 0 (fs @ [v])"
  using assms by (simp add: dec_val_def)

lemma digs_4: "digs 256 4 n = [n div 16777216 mod 256, n div 65536 mod 256, n div 256 mod 256, n mod 256]"
proof -
  have four: "(4::nat) = Suc (Suc (Suc (Suc 0)))" and m: "(256::nat) * 256 = 65536" "(65536::nat) * 256 = 16777216"
    by simp_all
  have "digs 256 4 n =
      [n div 256 div 256 div 256 mod 256, n div 256 div 256 mod 256, n div 256 mod 256, n mod 256]"
    by (simp only: four digs.simps append.simps)
  also have "\<dots> = [n div (256 * 256 * 256) mod 256, n div (256 * 256) mod 256, n div 256 mod 256, n mod 256]"
    by (simp only: div_mult2_eq)
  finally show ?thesis
    by (simp only: m)
qed

lemma parseIPv4Fields_join:
  assumes "a \<le> 255" "b \<le> 255" "c \<le> 255" "d \<le> 255"
  shows "parseIPv4Fields (join ''.'' (map itoa [a, b, c, d])) 0 0 [] = Inr [a, b, c, d]"
proof -
  have nz: "itoa n \<noteq> []" "0 < length (itoa n)" for n
    by (simp_all add: itoa_def)
  have last: "parseIPv4Fields (itoa d) 0 0 fs = parseIPv4Fields [] d (length (itoa d)) fs" for fs
    using parseIPv4Fields_num [OF assms(4), of "[]" fs] by simp
  show ?thesis
    using assms
    by (simp add: parseIPv4Fields_num parseIPv4Fields_dot nz last del: parseIPv4Fields.simps)
      (simp only: parseIPv4Fields.simps; simp)
qed

lemma parseIPv4Fields_string4:
  "parseIPv4Fields (string4 w) 0 0 [] = Inr (digs 256 4 (unat w))"
  unfolding string4_def digs_4 by (rule parseIPv4Fields_join) simp_all

lemma parseIPv4_string4: "parseIPv4 (string4 w) = Inr (IPv4 w)"
proof -
  have "undigs 256 (digs 256 4 (unat w)) = unat w"
    using unsigned_less [of w, where ?'a = nat] by (simp add: undigs_digs)
  then show ?thesis
    by (simp add: parseIPv4_def parseIPv4Fields_string4)
qed

section \<open>IPv6: parsing what was printed\<close>

lemma itox_props:
  assumes "g < 65536"
  shows "itox g \<noteq> []" "length (itox g) \<le> 4" "num_of hex_val 16 (itox g) 0 = g"
    "\<forall>c \<in> set (itox g). is_hex c"
proof -
  show "itox g \<noteq> []"
    by (simp add: itox_def)
  show "length (itox g) \<le> 4"
    using print_num_length [of 16 g 3] assms by (simp add: itox_def)
  show "num_of hex_val 16 (itox g) 0 = g"
    by (simp add: itox_def num_of_print)
  show "\<forall>c \<in> set (itox g). is_hex c"
    using print_num_chars [of 16 _ g] by (fastforce simp: itox_def is_hex_def)
qed

lemma itoa_hex: "c \<in> set (itoa n) \<Longrightarrow> is_hex c \<and> dec_val c \<noteq> None"
  using print_num_chars [of 10 c n] by (fastforce simp: itoa_def is_hex_def)

lemma hex_val_punct [simp]:
  "\<not> is_hex (CHR '':'')" "\<not> is_hex (CHR ''.'')" "\<not> is_hex (CHR ''%'')" "\<not> is_hex (CHR ''/'')"
  "dec_val (CHR ''.'') = None" "dec_val (CHR ''/'') = None"
  "dec_val (CHR '':'') = None" "dec_val (CHR ''%'') = None"
  by (simp_all add: hex_val_def dec_val_def is_hex_def)

lemma takeWhile_hex:
  assumes "\<forall>c \<in> set h. is_hex c" "rest = [] \<or> \<not> is_hex (hd rest)"
  shows "takeWhile is_hex (h @ rest) = h"
  using assms by (cases rest) (auto simp: takeWhile_append)

lemma group_end:
  assumes "length gs < 8" "g < 65536"
  shows "parseIPv6Groups (itox g) gs ell = Inr (gs @ [g], ell, [])"
proof -
  have tw: "takeWhile is_hex (itox g) = itox g"
    using takeWhile_hex [of "itox g" "[]"] itox_props [OF assms(2)] by simp
  show ?thesis
    using assms itox_props [OF assms(2)]
    by (subst parseIPv6Groups.simps) (simp add: Let_def tw)
qed

lemma group_colon:
  assumes "length gs < 8" "g < 65536" "cs \<noteq> []" "hd cs \<noteq> CHR '':''"
  shows "parseIPv6Groups (itox g @ CHR '':'' # cs) gs ell = parseIPv6Groups cs (gs @ [g]) ell"
  using assms takeWhile_hex [of "itox g" "CHR '':'' # cs"] itox_props [OF assms(2)]
  by (subst parseIPv6Groups.simps) (auto simp: Let_def neq_Nil_conv)

lemma group_ellipsis:
  assumes "length gs < 8" "g < 65536"
  shows "parseIPv6Groups (itox g @ CHR '':'' # CHR '':'' # cs) gs None =
    (if cs = [] then Inr (gs @ [g], Some (Suc (length gs)), [])
     else parseIPv6Groups cs (gs @ [g]) (Some (Suc (length gs))))"
  using assms takeWhile_hex [of "itox g" "CHR '':'' # CHR '':'' # cs"] itox_props [OF assms(2)]
  by (subst parseIPv6Groups.simps) (simp add: Let_def)

lemma itox_hd: "g < 65536 \<Longrightarrow> hd (itox g @ t) \<noteq> CHR '':''"
  using itox_props(1,4) [of g] by (cases "itox g") auto

lemma join_map_hd: "g < 65536 \<Longrightarrow> hd (join '':'' (map itox (g # ds)) @ t) \<noteq> CHR '':''"
  using itox_hd [of g] by (cases ds) auto

lemma join_map_nonempty: "g < 65536 \<Longrightarrow> join '':'' (map itox (g # ds)) \<noteq> []"
  using itox_props(1) [of g] by (cases ds) auto

lemma groups_join:
  assumes "\<forall>d \<in> set (g # ds). d < 65536" "length gs + length (g # ds) \<le> 8"
  shows "parseIPv6Groups (join '':'' (map itox (g # ds))) gs ell = Inr (gs @ g # ds, ell, [])"
  using assms
proof (induction ds arbitrary: g gs)
  case Nil
  then show ?case
    by (simp add: group_end)
next
  case (Cons d ds)
  have "parseIPv6Groups (itox g @ CHR '':'' # join '':'' (map itox (d # ds))) gs ell =
      parseIPv6Groups (join '':'' (map itox (d # ds))) (gs @ [g]) ell"
    using Cons.prems join_map_hd [of d ds "[]"] join_map_nonempty [of d ds]
    by (intro group_colon) auto
  also have "\<dots> = Inr ((gs @ [g]) @ d # ds, ell, [])"
    using Cons.prems by (intro Cons.IH) auto
  finally show ?case
    by simp
qed

lemma groups_join_ellipsis:
  assumes "\<forall>d \<in> set (g # ds). d < 65536" "length gs + length (g # ds) \<le> 8"
  shows "parseIPv6Groups (join '':'' (map itox (g # ds)) @ CHR '':'' # CHR '':'' # cs) gs None =
    (if cs = [] then Inr (gs @ g # ds, Some (length gs + length (g # ds)), [])
     else parseIPv6Groups cs (gs @ g # ds) (Some (length gs + length (g # ds))))"
  using assms
proof (induction ds arbitrary: g gs)
  case Nil
  then show ?case
    by (simp add: group_ellipsis)
next
  case (Cons d ds)
  let ?t = "join '':'' (map itox (d # ds)) @ CHR '':'' # CHR '':'' # cs"
  have "parseIPv6Groups (itox g @ CHR '':'' # ?t) gs None = parseIPv6Groups ?t (gs @ [g]) None"
    using Cons.prems join_map_hd [of d ds "CHR '':'' # CHR '':'' # cs"]
    by (intro group_colon) auto
  also have "\<dots> = (if cs = [] then Inr ((gs @ [g]) @ d # ds, Some (length (gs @ [g]) + length (d # ds)), [])
      else parseIPv6Groups cs ((gs @ [g]) @ d # ds) (Some (length (gs @ [g]) + length (d # ds))))"
    using Cons.prems by (intro Cons.IH) auto
  finally show ?case
    by simp
qed

text \<open>What the printer chooses to compress is a run of zero groups.\<close>

definition zero_run :: "nat list \<Rightarrow> nat \<times> nat \<Rightarrow> bool" where
  "zero_run gs r \<longleftrightarrow> (case r of (s, l) \<Rightarrow>
     l = 0 \<or> 2 \<le> l \<and> s + l \<le> length gs \<and> take l (drop s gs) = replicate l 0)"

lemma take_zero_len: "take (zero_len gs) gs = replicate (zero_len gs) 0"
proof -
  have "\<forall>g \<in> set (takeWhile (\<lambda>g. g = 0) gs). g = 0"
    by (auto dest: set_takeWhileD)
  then have "takeWhile (\<lambda>g. g = 0) gs = replicate (zero_len gs) 0"
    unfolding zero_len_def by (metis replicate_length_same)
  then show ?thesis
    by (simp add: zero_len_def takeWhile_eq_take [symmetric])
qed

lemma zero_len_le: "zero_len gs \<le> length gs"
  by (simp add: zero_len_def length_takeWhile_le)

lemma best_run_zero_run:
  assumes "zero_run all best" "drop i all = gs"
  shows "zero_run all (best_run i gs best)"
  using assms
proof (induction i gs best rule: best_run.induct)
  case (2 i g gs s l)
  let ?n = "zero_len (g # gs)"
  have "length all - i = Suc (length gs)"
    using arg_cong [OF "2.prems"(2), of length] by simp
  then have len: "length all = i + Suc (length gs)"
    by linarith
  have "zero_run all (i, ?n)" if "2 \<le> ?n"
    using that zero_len_le [of "g # gs"] take_zero_len [of "g # gs"] "2.prems"(2)
    by (auto simp: zero_run_def len)
  moreover have "drop (Suc i) all = gs"
    using "2.prems"(2) by (metis drop_Suc tl_drop list.sel(3))
  ultimately show ?case
    using "2.IH" "2.prems" by (simp add: Let_def)
qed simp

lemma not_hex_colon: "is_hex c \<Longrightarrow> c \<noteq> CHR '':''"
  by auto

lemma join_not_ellipsis:
  assumes "g < 65536"
  shows "take 2 (join '':'' (map itox (g # ds)) @ t) \<noteq> ''::''"
  using join_map_hd [OF assms, of ds t] by (cases "join '':'' (map itox (g # ds)) @ t") auto

lemma undigs_zeros: "undigs b (replicate n 0) = 0"
  by (induction n) (simp_all add: undigs_def)

lemma parseIPv6Body_string6:
  assumes gs: "\<forall>g \<in> set gs. g < 65536" and len: "length gs = 8"
  shows "parseIPv6Body (string6 gs) z = Inr (IPv6 (of_nat (undigs 65536 gs)) z)"
proof -
  obtain s l where sl: "best_run 0 gs (0, 0) = (s, l)"
    by (cases "best_run 0 gs (0, 0)")
  have zr: "zero_run gs (s, l)"
    using best_run_zero_run [of gs "(0, 0)" 0 gs] by (simp add: sl zero_run_def)
  show ?thesis
  proof (cases "l = 0")
    case True
    obtain g ds where [simp]: "gs = g # ds"
      using len by (cases gs) auto
    have "string6 gs = join '':'' (map itox (g # ds))"
      using sl True by (simp add: string6_def)
    then show ?thesis
      using groups_join [of g ds "[]" None] join_not_ellipsis [of g ds "[]"] gs len
      by (simp add: parseIPv6Body_def finishIPv6_def)
  next
    case False
    then have l: "2 \<le> l" "s + l \<le> 8" and zeros: "take l (drop s gs) = replicate l 0"
      using zr len by (auto simp: zero_run_def)
    have split: "gs = take s gs @ replicate l 0 @ drop (s + l) gs"
      using zeros append_take_drop_id [of l "drop s gs"] append_take_drop_id [of s gs]
      by (simp add: add.commute)
    have str: "string6 gs = join '':'' (map itox (take s gs)) @ ''::'' @ join '':'' (map itox (drop (s + l) gs))"
      using sl False by (simp add: string6_def)
    have tail: "drop (s + l) gs = [] \<or> (\<exists>g ds. drop (s + l) gs = g # ds \<and>
        (\<forall>d \<in> set (g # ds). d < 65536))"
      using gs set_drop_subset [of "s + l" gs] by (cases "drop (s + l) gs") auto
    let ?t = "drop (s + l) gs"
    have fin: "finishIPv6 (take s gs @ ?t, Some s, []) z = Inr (IPv6 (of_nat (undigs 65536 gs)) z)"
      using l len split by (simp add: finishIPv6_def)
    show ?thesis
    proof (cases "take s gs")
      case Nil
      then have s0: "s = 0"
        using len by auto
      from tail show ?thesis
      proof
        assume t: "?t = []"
        have "string6 gs = ''::''"
          using t Nil by (simp add: str s0)
        moreover have "gs = replicate l 0"
          using split t Nil by simp
        then have "undigs 65536 gs = 0"
          by (metis undigs_zeros)
        ultimately show ?thesis
          by (simp add: parseIPv6Body_def)
      next
        assume "\<exists>g ds. ?t = g # ds \<and> (\<forall>d \<in> set (g # ds). d < 65536)"
        then obtain g ds where t: "?t = g # ds" "\<forall>d \<in> set (g # ds). d < 65536"
          by blast
        have "length (g # ds) \<le> 8"
          using t(1) len by (metis diff_le_self length_drop)
        then have pg: "parseIPv6Groups (join '':'' (map itox ?t)) [] (Some 0) = Inr (?t, Some 0, [])"
          using groups_join [of g ds "[]" "Some 0"] t(2) by (simp add: t(1) del: list.map)
        moreover have "join '':'' (map itox ?t) \<noteq> []"
          using join_map_nonempty [of g ds] t by (simp del: list.map)
        ultimately have "parseIPv6Body (string6 gs) z = finishIPv6 (?t, Some 0, []) z"
          by (simp add: str Nil parseIPv6Body_def)
        with fin Nil s0 show ?thesis
          by simp
      qed
    next
      case (Cons g0 ds0)
      have g0: "\<forall>d \<in> set (g0 # ds0). d < 65536" "length (g0 # ds0) = s"
        using gs set_take_subset [of s gs] l len unfolding Cons [symmetric] by auto
      have pre: "parseIPv6Groups (string6 gs) [] None =
          (if join '':'' (map itox ?t) = [] then Inr (take s gs, Some s, [])
           else parseIPv6Groups (join '':'' (map itox ?t)) (take s gs) (Some s))"
        using groups_join_ellipsis [of g0 ds0 "[]" "join '':'' (map itox ?t)"] g0 l
        by (simp add: str Cons)
      have "take 2 (string6 gs) \<noteq> ''::''"
        using join_not_ellipsis [of g0 ds0] g0 by (simp add: str Cons)
      moreover have "parseIPv6Groups (string6 gs) [] None = Inr (take s gs @ ?t, Some s, [])"
        using tail
      proof
        assume "\<exists>g ds. ?t = g # ds \<and> (\<forall>d \<in> set (g # ds). d < 65536)"
        then obtain g ds where t: "?t = g # ds" "\<forall>d \<in> set (g # ds). d < 65536"
          by blast
        have "length (take s gs) + length (g # ds) \<le> 8"
          using l len by (simp flip: t(1))
        then show ?thesis
          using groups_join [of g ds "take s gs" "Some s"] t join_map_nonempty [of g ds] pre
          by simp
      qed (simp add: pre)
      ultimately show ?thesis
        using fin by (simp add: parseIPv6Body_def)
    qed
  qed
qed

lemma undigs_zeros_append: "undigs b (replicate n 0 @ ds) = undigs b ds"
  using undigs_zeros [of b n] by (simp add: undigs_def)

text \<open>The characters of a printed address.\<close>

lemma set_join: "set (join sep xs) \<subseteq> set sep \<union> \<Union> (set ` set xs)"
  by (induction sep xs rule: join.induct) auto

lemma set_join_map:
  assumes "c \<in> set (join sep (map f xs))"
  shows "c \<in> set sep \<or> (\<exists>x \<in> set xs. c \<in> set (f x))"
  using assms set_join [of sep "map f xs"] by auto

lemma string4_chars: "c \<in> set (string4 w) \<Longrightarrow> is_hex c \<or> c = CHR ''.''"
  unfolding string4_def by (drule set_join_map) (auto dest: itoa_hex)

lemma join_itox_chars:
  assumes "\<forall>g \<in> set gs. g < 65536" "c \<in> set (join '':'' (map itox gs))"
  shows "is_hex c \<or> c = CHR '':''"
  using set_join_map [OF assms(2)] assms(1) itox_props(4) by auto

lemma string6_chars:
  assumes "\<forall>g \<in> set gs. g < 65536" "c \<in> set (string6 gs)"
  shows "is_hex c \<or> c = CHR '':''"
proof -
  have t: "\<forall>g \<in> set (take n gs). g < 65536" and d: "\<forall>g \<in> set (drop n gs). g < 65536" for n
    using assms(1) by (auto dest: in_set_takeD in_set_dropD)
  obtain s l where "best_run 0 gs (0, 0) = (s, l)"
    by (cases "best_run 0 gs (0, 0)")
  then consider "c \<in> set (join '':'' (map itox gs))" | "c \<in> set (join '':'' (map itox (take s gs)))"
    | "c \<in> set (join '':'' (map itox (drop (s + l) gs)))" | "c = CHR '':''"
    using assms(2) by (auto simp: string6_def split: if_splits)
  then show ?thesis
    using join_itox_chars [OF assms(1)] join_itox_chars [OF t] join_itox_chars [OF d]
    by cases blast+
qed

lemma string4_dot: "\<exists>t. string4 w = itoa (unat w div 16777216 mod 256) @ CHR ''.'' # t"
  by (simp add: string4_def digs_4)

lemma join_colon: "\<exists>t. join '':'' (map itox (g # d # ds)) = itox g @ CHR '':'' # t"
  by simp

section \<open>Round trips\<close>

lemma groups6_bound: "\<forall>g \<in> set (groups6 w). g < 65536"
  by (auto simp: groups6_def intro: digs_bound)

lemma undigs_groups6: "of_nat (undigs 65536 (groups6 w)) = w"
  using unsigned_less [of w, where ?'a = nat] by (simp add: groups6_def undigs_digs)

text \<open>The text of an IPv4-mapped IPv6 address.\<close>

lemma digs_2: "digs 65536 2 n = [n div 65536 mod 65536, n mod 65536]"
proof -
  have two: "(2::nat) = Suc (Suc 0)"
    by simp
  show ?thesis
    by (simp only: two digs.simps append.simps)
qed

lemma parse_4in6:
  assumes "Is4In6 w"
  shows "parseIPv6Body (''::ffff:'' @ string4 (of_nat (unat w mod 2 ^ 32))) z = Inr (IPv6 w z)"
proof -
  define v :: "32 word" where "v = of_nat (unat w mod 2 ^ 32)"
  have v: "unat v = unat w mod 2 ^ 32"
    by (simp add: v_def unat_of_nat)
  let ?a = "unat v div 16777216 mod 256"
  obtain t where t: "string4 v = itoa ?a @ CHR ''.'' # t"
    using string4_dot by blast
  have itoa4: "itoa ?a \<noteq> []" "length (itoa ?a) \<le> 4" "\<forall>c \<in> set (itoa ?a). is_hex c"
    using print_num_length [of 10 ?a 3] itoa_hex [of _ ?a] by (auto simp: itoa_def)
  have tw: "takeWhile is_hex (string4 v) = itoa ?a"
    unfolding t using itoa4 by (intro takeWhile_hex) auto
  have hd: "hd (string4 v) \<noteq> CHR '':''" "string4 v \<noteq> []"
    using itoa4 by (auto simp: t neq_Nil_conv)
  have "hex_char 15 = CHR ''f''"
    by code_simp
  then have ffff: "itox 65535 = ''ffff''"
    by (simp add: itox_def print_num.simps)
  have "parseIPv6Groups (itox 65535 @ CHR '':'' # string4 v) [] (Some 0) =
      parseIPv6Groups (string4 v) [65535] (Some 0)"
    using group_colon [of "[]" 65535 "string4 v" "Some 0"] hd by simp
  also have "\<dots> = Inr ([65535] @ digs 65536 2 (undigs 256 (digs 256 4 (unat v))), Some 0, [])"
    using itoa4 parseIPv4Fields_string4 [of v]
    by (subst parseIPv6Groups.simps) (simp add: tw Let_def, simp add: t)
  also have "undigs 256 (digs 256 4 (unat v)) = unat v"
    using unsigned_less [of v, where ?'a = nat] by (simp add: undigs_digs)
  finally have pg: "parseIPv6Groups (''ffff:'' @ string4 v) [] (Some 0) =
      Inr ([65535] @ digs 65536 2 (unat v), Some 0, [])"
    by (simp add: ffff)
  have "undigs 65536 (replicate 5 0 @ [65535] @ digs 65536 2 (unat v)) =
      65535 * 2 ^ 32 + unat v div 65536 mod 65536 * 65536 + unat v mod 65536"
    by (simp only: undigs_zeros_append) (simp add: digs_2 undigs_def)
  also have "\<dots> = unat w"
  proof -
    have "unat v div 65536 mod 65536 = unat v div 65536"
      using unsigned_less [of v, where ?'a = nat] by simp
    then have "unat v div 65536 mod 65536 * 65536 + unat v mod 65536 = unat v"
      by simp
    then show ?thesis
      using assms div_mult_mod_eq [of "unat w" "2 ^ 32"] by (simp add: Is4In6_def v)
  qed
  finally have "of_nat (undigs 65536 (replicate 5 0 @ [65535] @ digs 65536 2 (unat v))) = w"
    by simp
  then show ?thesis
    using pg unfolding v_def [symmetric] by (simp add: parseIPv6Body_def finishIPv6_def digs_2)
qed

text \<open>The zone is what follows the first percent sign.\<close>

lemma parseIPv6_zone:
  assumes "\<forall>c \<in> set a. c \<noteq> CHR ''%''"
  shows "parseIPv6 (a @ (if z = [] then [] else CHR ''%'' # z)) = parseIPv6Body a z"
proof -
  have "takeWhile (\<lambda>c. c \<noteq> CHR ''%'') (a @ (if z = [] then [] else CHR ''%'' # z)) = a"
    using assms by (simp add: takeWhile_append)
  then show ?thesis
    by (simp add: parseIPv6_def Let_def)
qed

lemma ParseAddr_dispatch:
  assumes "\<forall>c \<in> set h. is_hex c"
  shows "ParseAddr (h @ CHR ''.'' # t) = parseIPv4 (h @ CHR ''.'' # t)"
    and "ParseAddr (h @ CHR '':'' # t) = parseIPv6 (h @ CHR '':'' # t)"
proof -
  have "dropWhile (\<lambda>c. c \<noteq> CHR ''.'' \<and> c \<noteq> CHR '':'' \<and> c \<noteq> CHR ''%'') (h @ x # t) =
      dropWhile (\<lambda>c. c \<noteq> CHR ''.'' \<and> c \<noteq> CHR '':'' \<and> c \<noteq> CHR ''%'') (x # t)" for x
    using assms by (subst dropWhile_append2) auto
  then show "ParseAddr (h @ CHR ''.'' # t) = parseIPv4 (h @ CHR ''.'' # t)"
    and "ParseAddr (h @ CHR '':'' # t) = parseIPv6 (h @ CHR '':'' # t)"
    by (simp_all add: ParseAddr_def)
qed

lemma join_dispatch:
  assumes "2 \<le> length xs \<or> u = CHR '':'' # v" "\<forall>g \<in> set xs. g < 65536"
  shows "\<exists>h t. join '':'' (map itox xs) @ u = h @ CHR '':'' # t \<and> (\<forall>c \<in> set h. is_hex c)"
proof (cases xs)
  case Nil
  then have "join '':'' (map itox xs) @ u = [] @ CHR '':'' # v"
    using assms(1) by simp
  then show ?thesis
    by (metis empty_iff empty_set)
next
  case (Cons x ys)
  then have x: "\<forall>c \<in> set (itox x). is_hex c"
    using assms(2) itox_props(4) [of x] by simp
  have "\<exists>t. join '':'' (map itox xs) @ u = itox x @ CHR '':'' # t"
    using assms(1) Cons by (cases ys) auto
  with x show ?thesis
    by blast
qed

lemma string6_dispatch:
  assumes "\<forall>g \<in> set gs. g < 65536" "length gs = 8"
  shows "\<exists>h t. string6 gs = h @ CHR '':'' # t \<and> (\<forall>c \<in> set h. is_hex c)"
proof -
  obtain s l where sl: "best_run 0 gs (0, 0) = (s, l)"
    by (cases "best_run 0 gs (0, 0)")
  have "\<forall>g \<in> set (take s gs). g < 65536"
    using assms(1) by (auto dest: in_set_takeD)
  then show ?thesis
    using join_dispatch [of gs "[]"] join_dispatch [of "take s gs" "CHR '':'' # v" v for v] assms sl
    by (cases "l = 0") (simp_all add: string6_def)
qed

text \<open>Printing an address and parsing the text gives the address back.\<close>

lemma ParseAddr_String: "a \<noteq> ZeroAddr \<Longrightarrow> ParseAddr (addr_String a) = Inr a"
proof (cases a)
  case (IPv4 w)
  obtain t where t: "string4 w = itoa (unat w div 16777216 mod 256) @ CHR ''.'' # t"
    using string4_dot by blast
  then have "ParseAddr (string4 w) = parseIPv4 (string4 w)"
    unfolding t using itoa_hex by (intro ParseAddr_dispatch) blast
  then show ?thesis
    by (simp add: IPv4 parseIPv4_string4)
next
  case (IPv6 w z)
  let ?body = "if Is4In6 w then ''::ffff:'' @ string4 (of_nat (unat w mod 2 ^ 32)) else string6 (groups6 w)"
  let ?zone = "if z = [] then [] else CHR ''%'' # z"
  have len: "length (groups6 w) = 8"
    by (simp add: groups6_def)
  have body: "parseIPv6Body ?body z = Inr (IPv6 w z)"
    using parse_4in6 [of w z] parseIPv6Body_string6 [OF groups6_bound len] by (simp add: undigs_groups6)
  have pct: "\<forall>c \<in> set ?body. c \<noteq> CHR ''%''"
    using string4_chars [of "CHR ''%''"] string6_chars [OF groups6_bound, of "CHR ''%''" w] by auto
  have "\<exists>h t. ?body = h @ CHR '':'' # t \<and> (\<forall>c \<in> set h. is_hex c)"
  proof (cases "Is4In6 w")
    case True
    then show ?thesis
      by (intro exI [of _ "[]"] exI [of _ "tl ?body"]) simp
  next
    case False
    then show ?thesis
      using string6_dispatch [OF groups6_bound len] by simp
  qed
  then obtain h t where ht: "?body = h @ CHR '':'' # t" "\<forall>c \<in> set h. is_hex c"
    by blast
  have "ParseAddr (?body @ ?zone) = parseIPv6 (?body @ ?zone)"
    using ParseAddr_dispatch(2) [OF ht(2), of "t @ ?zone"] unfolding ht(1) by simp
  also have "\<dots> = Inr (IPv6 w z)"
    using parseIPv6_zone [OF pct] body by simp
  finally show ?thesis
    by (simp add: IPv6)
qed simp

lemma ParseAddr_invalid: "ParseAddr ''invalid IP'' = Inl (Errorf ''unable to parse IP'' [])"
  by (simp add: ParseAddr_def)

lemma addr_String_inject [simp]: "addr_String a = addr_String b \<longleftrightarrow> a = b"
proof
  assume eq: "addr_String a = addr_String b"
  show "a = b"
  proof (cases "a = ZeroAddr \<or> b = ZeroAddr")
    case True
    then show ?thesis
      using eq ParseAddr_String [of a] ParseAddr_String [of b] ParseAddr_invalid
      by (metis Inl_Inr_False addr_String.simps(1))
  next
    case False
    then show ?thesis
      using eq ParseAddr_String [of a] ParseAddr_String [of b] by (metis sum.inject(2))
  qed
qed simp

text \<open>Prefixes: \<open>ParsePrefix\<close> splits at the last slash.\<close>

lemma addr_String_no_slash:
  assumes "\<not> hasZone a" "a \<noteq> ZeroAddr"
  shows "CHR ''/'' \<notin> set (addr_String a)"
proof (cases a)
  case (IPv4 w)
  then show ?thesis
    using string4_chars [of "CHR ''/''" w] by auto
next
  case (IPv6 w z)
  have "\<not> is_hex (CHR ''/'')"
    by simp
  then show ?thesis
    using IPv6 assms(1) string4_chars [of "CHR ''/''"]
      string6_chars [OF groups6_bound, of "CHR ''/''" w] by auto
qed (use assms in simp)

lemma itoa_no_slash: "CHR ''/'' \<notin> set (itoa n)"
  using itoa_hex [of "CHR ''/''" n] by auto

lemma atoi_itoa: "atoi (itoa n) = Inr n"
proof -
  have "num_of dec_val 10 (itoa n) 0 = n"
    by (simp add: itoa_def num_of_print)
  then show ?thesis
    using itoa_hex by (simp add: atoi_def list_all_iff itoa_def)
qed

lemma print_num_hd: "2 \<le> b \<Longrightarrow> 1 < length (print_num b n) \<Longrightarrow>
  \<exists>d. 0 < d \<and> d < b \<and> hd (print_num b n) = hex_char d"
proof (induction b n rule: print_num.induct)
  case (1 b n)
  show ?case
  proof (cases "n < b")
    case True
    then show ?thesis
      using 1 by (simp add: print_num.simps [of b n])
  next
    case False
    have step: "print_num b n = print_num b (n div b) @ [hex_char (n mod b)]"
      using False 1 by (subst print_num.simps) simp
    show ?thesis
    proof (cases "n div b < b")
      case True
      then have "print_num b (n div b) = [hex_char (n div b)]"
        by (subst print_num.simps) simp
      moreover have "0 < n div b"
        using False 1 by (simp add: div_greater_zero_iff)
      ultimately show ?thesis
        using step True by auto
    next
      case False2: False
      have "\<exists>d>0. d < b \<and> hd (print_num b (n div b)) = hex_char d"
        using False2 False 1 by (intro "1.IH") (auto simp: print_num.simps [of b "n div b"] Suc_lessI)
      then show ?thesis
        by (simp add: step)
    qed
  qed
qed

lemma itoa_hd: "1 < length (itoa n) \<Longrightarrow> hd (itoa n) \<in> set ''123456789''"
proof -
  assume "1 < length (itoa n)"
  then obtain d where d: "0 < d" "d < 10" "hd (itoa n) = hex_char d"
    using print_num_hd [of 10 n] by (auto simp: itoa_def)
  have "hex_char ` {1, 2, 3, 4, 5, 6, 7, 8, 9} \<subseteq> set ''123456789''"
    by code_simp
  moreover have "d \<in> {1, 2, 3, 4, 5, 6, 7, 8, 9}"
    using d(1,2) by auto
  ultimately show ?thesis
    using d(3) by blast
qed

lemma ParsePrefix_split:
  assumes "CHR ''/'' \<notin> set t"
  shows "takeWhile (\<lambda>c. c \<noteq> CHR ''/'') (rev (s @ CHR ''/'' # t)) = rev t"
    and "drop (length t) (rev (s @ CHR ''/'' # t)) = CHR ''/'' # rev s"
proof -
  show "takeWhile (\<lambda>c. c \<noteq> CHR ''/'') (rev (s @ CHR ''/'' # t)) = rev t"
    using assms by (simp add: takeWhile_append)
  show "drop (length t) (rev (s @ CHR ''/'' # t)) = CHR ''/'' # rev s"
    by simp
qed

text \<open>Printing a valid prefix and parsing the text gives the prefix back.\<close>

lemma ParsePrefix_String:
  assumes "IsValid p"
  shows "ParsePrefix (prefix_String p) = Inr p"
proof -
  let ?s = "addr_String (Addr p)" and ?t = "itoa (nat (Bits p))"
  have p: "Addr p \<noteq> ZeroAddr" "\<not> hasZone (Addr p)" "0 \<le> Bits p" "Bits p \<le> int (BitLen (Addr p))"
    using assms by (auto simp: IsValid_def)
  have bits: "nat (Bits p) \<le> (if Is6 (Addr p) then 128 else 32)"
    using p by (cases "Addr p") auto
  have "netip_PrefixFrom (Addr p) (Bits p) = p"
    using p by (simp add: netip_PrefixFrom_def withoutZone_id)
  then show ?thesis
    using p bits ParsePrefix_split(1) [OF itoa_no_slash, of ?s "nat (Bits p)"]
      ParsePrefix_split(2) [OF itoa_no_slash, of "nat (Bits p)" ?s] itoa_hd [of "nat (Bits p)"]
    by (simp add: ParsePrefix_def prefix_String_def assms Let_def ParseAddr_String atoi_itoa)
qed

lemma prefix_String_inject: "IsValid p \<Longrightarrow> IsValid q \<Longrightarrow> prefix_String p = prefix_String q \<longleftrightarrow> p = q"
  using ParsePrefix_String by (metis sum.inject(2))

text \<open>What the parsers accept.\<close>

lemma ParseAddr_valid: "ParseAddr s = Inr a \<Longrightarrow> a \<noteq> ZeroAddr"
  by (auto simp: ParseAddr_def parseIPv4_def parseIPv6_def parseIPv6Body_def finishIPv6_def Let_def
      split: list.splits if_splits sum.splits prod.splits option.splits)

lemma BitLen_family: "a \<noteq> ZeroAddr \<Longrightarrow> BitLen a = (if Is6 a then 128 else 32)"
  by (cases a) auto

lemma IsValid_PrefixFrom:
  "ip \<noteq> ZeroAddr \<Longrightarrow> \<not> hasZone ip \<Longrightarrow> bits \<le> (if Is6 ip then 128 else 32) \<Longrightarrow>
    IsValid (netip_PrefixFrom ip (int bits))"
  by (auto simp: netip_PrefixFrom_def IsValid_def withoutZone_id BitLen_family)

lemma ParsePrefix_valid: "ParsePrefix s = Inr p \<Longrightarrow> IsValid p"
  unfolding ParsePrefix_def Let_def
  by (auto simp del: list.set dest: ParseAddr_valid intro!: IsValid_PrefixFrom split: if_splits sum.splits)

section \<open>Errors of parsing\<close>

text \<open>Parsing fails with errors that wrap no sentinel.\<close>

definition plain_error :: "'a result \<Rightarrow> bool" where
  "plain_error r \<longleftrightarrow> (\<forall>e x. r = Inl e \<longrightarrow> \<not> errors_is e x)"

lemma plain_error_simps [simp]:
  "plain_error (Inr x)" "plain_error (Inl (Errorf f []))"
  by (simp_all add: plain_error_def)

lemma plain_parseIPv4Fields: "plain_error (parseIPv4Fields s n d fs)"
  by (induction s n d fs rule: parseIPv4Fields.induct) (auto split: option.split)

lemma plain_parseIPv6Groups: "plain_error (parseIPv6Groups s gs ell)"
proof (induction "8 - length gs" arbitrary: s gs ell rule: less_induct)
  case less
  have v4: "plain_error (case parseIPv4Fields s 0 0 [] of Inl e \<Rightarrow> Inl e | Inr fs \<Rightarrow> Inr (g fs))" for g :: "nat list \<Rightarrow> nat list \<times> nat option \<times> string"
    using plain_parseIPv4Fields [of s 0 0 "[]"] by (auto simp: plain_error_def split: sum.split)
  have next_group: "plain_error (parseIPv6Groups t (gs @ [g]) ell')" if "\<not> 8 \<le> length gs" for t g ell'
    by (rule less) (use that in simp)
  show ?case
  proof (cases "8 \<le> length gs")
    case True
    then show ?thesis
      by (subst parseIPv6Groups.simps) simp
  next
    case False
    show ?thesis
      by (subst parseIPv6Groups.simps) (simp add: False Let_def v4 next_group [OF False] split: list.split)
  qed
qed

lemma plain_ParseAddr: "plain_error (ParseAddr s)"
proof -
  have f: "plain_error (finishIPv6 r z)" for r z
    by (auto simp: finishIPv6_def split: prod.split option.split)
  have "plain_error (parseIPv6Body t z)" for t z
    using plain_parseIPv6Groups [of "drop 2 t" "[]" "Some 0"] plain_parseIPv6Groups [of t "[]" None] f
    by (auto simp: parseIPv6Body_def plain_error_def split: sum.split)
  moreover have "plain_error (parseIPv4 t)" for t
    using plain_parseIPv4Fields [of t 0 0 "[]"] by (auto simp: parseIPv4_def plain_error_def split: sum.split)
  ultimately show ?thesis
    by (auto simp: ParseAddr_def parseIPv6_def Let_def split: list.split)
qed

lemma plain_ParsePrefix: "ParsePrefix s = Inl e \<Longrightarrow> \<not> errors_is e x"
  using plain_ParseAddr by (auto simp: ParsePrefix_def Let_def plain_error_def split: if_split_asm sum.split_asm)

end
