(* ===== verification/Netipx.thy ===== *)
theory Netipx
  imports Netip_Text
begin

text \<open>
  \<^verbatim>\<open>go4.org/netipx\<close> is not part of the repository. The functions of it that \<^verbatim>\<open>src/prefix.go\<close>
  calls are the fields of the record \<open>netipx\<close>, a parameter of the operations; the locale
  \<open>netipx_laws\<close> states the documented behaviour they rely on, over the set of addresses that a
  builder and a set stand for. The second half of the theory is an executable implementation by
  lists of prefixes that has these laws, so that the operations can be run.
\<close>

section \<open>The interface\<close>

record ('b, 's) netipx =
  RangeOfPrefix :: "netip_prefix \<Rightarrow> addr \<times> addr"
  emptyBuilder :: 'b
  AddPrefix :: "'b \<Rightarrow> netip_prefix \<Rightarrow> 'b"
  RemovePrefix :: "'b \<Rightarrow> netip_prefix \<Rightarrow> 'b"
  IPSet :: "'b \<Rightarrow> 's result"
  RemoveFreePrefix :: "'s \<Rightarrow> 8 word \<Rightarrow> netip_prefix \<times> 's \<times> bool"
  Prefixes :: "'s \<Rightarrow> netip_prefix list"
  ContainsPrefix :: "'s \<Rightarrow> netip_prefix \<Rightarrow> bool"

text \<open>
  \<open>RangeOfPrefix\<close> gives the inclusive range of the addresses of a prefix. A builder that was given
  valid prefixes yields the set of the added addresses that were not removed afterwards.
  \<open>RemoveFreePrefix\<close> splits a prefix of the wanted length off a set, or finds that there is none; the
  prefix it reports can be invalid when the length does not exist in the family of the addresses.
  \<open>Prefixes\<close> lists disjoint prefixes that make up the set, as few as possible: every prefix inside
  the set is inside one of them. \<open>ContainsPrefix\<close> says whether all addresses of a prefix are in the
  set.
\<close>

locale netipx_laws =
  fixes nx :: "('b, 's) netipx"
    and builder_ok :: "'b \<Rightarrow> bool"
    and builder_set :: "'b \<Rightarrow> addr set"
    and ipset_set :: "'s \<Rightarrow> addr set"
  assumes range_ends: "IsValid p \<Longrightarrow> RangeOfPrefix nx p = (f, t) \<Longrightarrow> Contains p f \<and> Contains p t"
    and range_all: "IsValid p \<Longrightarrow> RangeOfPrefix nx p = (f, t) \<Longrightarrow> Contains p a \<Longrightarrow>
      addr_num f \<le> addr_num a \<and> addr_num a \<le> addr_num t"
    and empty_builder: "builder_ok (emptyBuilder nx)" "builder_set (emptyBuilder nx) = {}"
    and add_prefix: "IsValid p \<Longrightarrow> builder_ok b \<Longrightarrow> builder_ok (AddPrefix nx b p)"
      "IsValid p \<Longrightarrow> builder_ok b \<Longrightarrow> builder_set (AddPrefix nx b p) = builder_set b \<union> block p"
    and remove_prefix: "IsValid p \<Longrightarrow> builder_ok b \<Longrightarrow> builder_ok (RemovePrefix nx b p)"
      "IsValid p \<Longrightarrow> builder_ok b \<Longrightarrow> builder_set (RemovePrefix nx b p) = builder_set b - block p"
    and ipset: "builder_ok b \<Longrightarrow> \<exists>s. IPSet nx b = Inr s \<and> ipset_set s = builder_set b"
    and remove_free: "RemoveFreePrefix nx s n = (p, s', True) \<Longrightarrow> IsValid p \<Longrightarrow>
      Bits p = int (unat n) \<and> Masked p = p \<and> block p \<subseteq> ipset_set s"
    and remove_free_valid: "RemoveFreePrefix nx s n = (p, s', True) \<Longrightarrow> IsValid q \<Longrightarrow>
      ipset_set s \<subseteq> block q \<Longrightarrow> unat n \<le> BitLen (Addr q) \<Longrightarrow> IsValid p"
    and remove_free_none: "RemoveFreePrefix nx s n = (p, s', False) \<Longrightarrow> IsValid q \<Longrightarrow>
      Bits q = int (unat n) \<Longrightarrow> \<not> block q \<subseteq> ipset_set s"
    and prefixes_valid: "p \<in> set (Prefixes nx s) \<Longrightarrow> IsValid p \<and> Masked p = p"
    and prefixes_union: "\<Union> (block ` set (Prefixes nx s)) = ipset_set s"
    and prefixes_disjoint: "sorted_wrt (\<lambda>p q. block p \<inter> block q = {}) (Prefixes nx s)"
    and prefixes_minimal: "IsValid q \<Longrightarrow> block q \<subseteq> ipset_set s \<Longrightarrow>
      \<exists>p \<in> set (Prefixes nx s). block q \<subseteq> block p"
    and contains_prefix: "ContainsPrefix nx s p \<longleftrightarrow> IsValid p \<and> block p \<subseteq> ipset_set s"
begin

lemma RangeOfPrefix_eq:
  assumes "IsValid p"
  shows "RangeOfPrefix nx p = (first_addr p, last_addr p)"
proof -
  obtain f t where ft: "RangeOfPrefix nx p = (f, t)"
    by (cases "RangeOfPrefix nx p")
  note ends = range_ends [OF assms ft] and all = range_all [OF assms ft]
  have "addr_num f = addr_num (first_addr p)" "addr_num t = addr_num (last_addr p)"
    using ends all Contains_first_last [OF assms] Contains_between [OF assms] by (meson le_antisym)+
  then have "f = first_addr p" "t = last_addr p"
    using ends by (auto intro!: addr_eqI simp: Contains_iff)
  with ft show ?thesis
    by simp
qed

text \<open>A set that is one whole block is listed as one prefix.\<close>

lemma Prefixes_whole_block:
  assumes p: "IsValid p" "Masked p = p" and s: "ipset_set s = block p"
  shows "Prefixes nx s = [p]"
proof -
  obtain q where q: "q \<in> set (Prefixes nx s)" "block p \<subseteq> block q"
    using prefixes_minimal [OF p(1), of s] s by auto
  have sub: "block r \<subseteq> block p" if "r \<in> set (Prefixes nx s)" for r
    using that prefixes_union [of s] s by auto
  have eq: "block q = block p"
    using q sub by auto
  have qp: "q = p"
  proof (rule netip_prefix_eqI)
    show v: "IsValid q" "IsValid p" "Masked q = q" "Masked p = p"
      using prefixes_valid [OF q(1)] p by auto
    have "Bits p \<le> Bits q \<and> Bits q \<le> Bits p" "Overlaps p q"
      using block_subset_iff [OF v(1,2)] block_subset_iff [OF v(2,1)] eq by auto
    then show "Bits q = Bits p" "BitLen (Addr q) = BitLen (Addr p)" "block_no q = block_no p"
      using v by (auto simp: Overlaps_num block_no_def host_bits_def)
  qed
  obtain xs ys where split: "Prefixes nx s = xs @ q # ys"
    using q(1) by (meson split_list)
  have "block r \<inter> block q = {}" if "r \<in> set xs \<union> set ys" for r
    using that prefixes_disjoint [of s] unfolding split
    by (auto simp: sorted_wrt_append)
  moreover have "block r \<noteq> {}" "block r \<subseteq> block q" if "r \<in> set xs \<union> set ys" for r
    using that prefixes_valid [of r s] block_nonempty [of r] sub [of r] eq by (auto simp: split)
  ultimately have "r \<notin> set xs \<union> set ys" for r
    by (metis inf.absorb1)
  then have "set xs \<union> set ys = {}"
    by (metis equals0I)
  then show ?thesis
    by (simp add: split qp)
qed

end

section \<open>Halving a prefix\<close>

definition lo_half :: "netip_prefix \<Rightarrow> netip_prefix" where
  "lo_half p = \<lparr>Addr = first_addr p, Bits = Bits p + 1\<rparr>"

definition hi_half :: "netip_prefix \<Rightarrow> netip_prefix" where
  "hi_half p = \<lparr>Addr = addr_like (Addr p) (block_no p * 2 ^ host_bits p + 2 ^ (host_bits p - 1)),
                Bits = Bits p + 1\<rparr>"

lemma Masked_selfI:
  assumes "IsValid p" "addr_num (Addr p) mod 2 ^ host_bits p = 0"
  shows "Masked p = p"
proof -
  have "addr_num (Addr p) = block_no p * 2 ^ host_bits p"
    using assms(2) by (auto simp: block_no_def)
  then have "Addr (Masked p) = Addr p"
    using assms(1) by (intro addr_eqI) (auto dest: IsValidD(2) [OF Masked_simps(1)] IsValidD(2))
  with assms(1) show ?thesis
    by (simp add: netip_prefix.equality)
qed

lemma half_facts:
  assumes p: "IsValid p" and h: "host_bits p = Suc n"
  shows "IsValid (lo_half p)" "IsValid (hi_half p)" "host_bits (lo_half p) = n"
    "host_bits (hi_half p) = n" "block_no (lo_half p) = block_no p * 2"
    "block_no (hi_half p) = block_no p * 2 + 1" "BitLen (Addr (lo_half p)) = BitLen (Addr p)"
    "BitLen (Addr (hi_half p)) = BitLen (Addr p)"
    "Masked (lo_half p) = lo_half p" "Masked (hi_half p) = hi_half p"
proof -
  have bits: "0 \<le> Bits p" "Bits p + 1 \<le> int (BitLen (Addr p))" "BitLen (Addr p) - nat (Bits p + 1) = n"
    using IsValidD(3,5) [OF p] h by linarith+
  have v: "Addr p \<noteq> ZeroAddr"
    using p by (rule IsValidD)
  show vl: "IsValid (lo_half p)" "IsValid (hi_half p)"
    using bits v by (auto simp: lo_half_def hi_half_def IsValid_def first_addr_def)
  show hb: "host_bits (lo_half p) = n" "host_bits (hi_half p) = n"
    using bits(3) by (simp_all add: lo_half_def hi_half_def host_bits_def)
  show L: "BitLen (Addr (lo_half p)) = BitLen (Addr p)" "BitLen (Addr (hi_half p)) = BitLen (Addr p)"
    by (simp_all add: lo_half_def hi_half_def)
  have lo: "addr_num (Addr (lo_half p)) = block_no p * 2 * 2 ^ n"
    using first_addr_num [OF p] h by (simp add: lo_half_def)
  have "(2::nat) ^ n < 2 ^ Suc n"
    by simp
  moreover have "block_no p * 2 ^ Suc n + 2 ^ Suc n \<le> 2 ^ BitLen (Addr p)"
    using block_bounds [OF p] by (simp only: h)
  ultimately have "block_no p * 2 ^ Suc n + 2 ^ n < 2 ^ BitLen (Addr p)"
    by linarith
  then have hi: "addr_num (Addr (hi_half p)) = (block_no p * 2 + 1) * 2 ^ n"
    using h by (simp add: hi_half_def addr_num_like algebra_simps)
  show "block_no (lo_half p) = block_no p * 2" "block_no (hi_half p) = block_no p * 2 + 1"
    using lo hi hb by (simp_all add: block_no_def)
  show "Masked (lo_half p) = lo_half p" "Masked (hi_half p) = hi_half p"
    using vl hb lo hi by (auto intro!: Masked_selfI)
qed

lemma block_halves:
  assumes p: "IsValid p" and h: "host_bits p = Suc n"
  shows "block p = block (lo_half p) \<union> block (hi_half p)" "block (lo_half p) \<inter> block (hi_half p) = {}"
proof -
  have "x div 2 ^ Suc n = b \<longleftrightarrow> x div 2 ^ n = b * 2 \<or> x div 2 ^ n = b * 2 + 1" for x b :: nat
    by (simp only: power_Suc2 div_mult2_eq) arith
  then show "block p = block (lo_half p) \<union> block (hi_half p)"
    using p half_facts [OF p h] h by (auto simp: block_def Contains_iff)
  show "block (lo_half p) \<inter> block (hi_half p) = {}"
    using half_facts [OF p h] by (auto simp: block_def Contains_iff)
qed

section \<open>A reference implementation\<close>

text \<open>
  Builders and sets are lists of prefixes. Removing a prefix halves the prefixes that meet it until
  the halves are inside or outside. \<open>canon\<close> lists the prefixes of a set below a given one, joining
  two halves that are both whole.
\<close>

type_synonym prefix_set = "netip_prefix list"

definition covers :: "netip_prefix \<Rightarrow> netip_prefix \<Rightarrow> bool" where
  "covers p q \<longleftrightarrow> Bits q \<le> Bits p \<and> Overlaps q p"

primrec cut :: "nat \<Rightarrow> netip_prefix \<Rightarrow> netip_prefix \<Rightarrow> prefix_set" where
  "cut 0 p q = (if Overlaps q p then [] else [q])"
| "cut (Suc n) p q =
     (if \<not> Overlaps q p then [q] else if Bits p \<le> Bits q then []
      else cut n p (lo_half q) @ cut n p (hi_half q))"

primrec canon :: "nat \<Rightarrow> prefix_set \<Rightarrow> netip_prefix \<Rightarrow> netip_prefix list" where
  "canon 0 s p = (if list_ex (covers p) s then [p] else [])"
| "canon (Suc n) s p =
     (if list_ex (covers p) s then [p] else if \<not> list_ex (Overlaps p) s then []
      else let l = canon n s (lo_half p); r = canon n s (hi_half p)
        in if l = [lo_half p] \<and> r = [hi_half p] then [p] else l @ r)"

definition ipset_all :: "prefix_set \<Rightarrow> addr set" where
  "ipset_all s = \<Union> (block ` set s)"

definition root4 :: netip_prefix where "root4 = \<lparr>Addr = IPv4 0, Bits = 0\<rparr>"
definition root6 :: netip_prefix where "root6 = \<lparr>Addr = IPv6 0 [], Bits = 0\<rparr>"

definition all_prefixes :: "prefix_set \<Rightarrow> netip_prefix list" where
  "all_prefixes s = canon 32 s root4 @ canon 128 s root6"

definition longer :: "netip_prefix \<Rightarrow> netip_prefix \<Rightarrow> netip_prefix" where
  "longer best p = (if Bits best < Bits p then p else best)"

definition best_fit :: "nat \<Rightarrow> netip_prefix list \<Rightarrow> netip_prefix option" where
  "best_fit n ps = (case filter (\<lambda>p. Bits p \<le> int n) ps of
      [] \<Rightarrow> None
    | q # qs \<Rightarrow> Some (foldl longer q qs))"

definition cut_all :: "prefix_set \<Rightarrow> netip_prefix \<Rightarrow> prefix_set" where
  "cut_all s p = concat (map (\<lambda>q. if IsValid q then cut (host_bits q) p q else []) s)"

definition free_prefix :: "prefix_set \<Rightarrow> 8 word \<Rightarrow> netip_prefix \<times> prefix_set \<times> bool" where
  "free_prefix s n = (case best_fit (unat n) (all_prefixes s) of
      None \<Rightarrow> (zero_prefix, s, False)
    | Some q \<Rightarrow> let p = netip_PrefixFrom (Addr q) (int (unat n)) in (p, cut_all s p, True))"

definition ref_netipx :: "(prefix_set, prefix_set) netipx" where
  "ref_netipx = \<lparr>RangeOfPrefix = (\<lambda>p. (first_addr p, last_addr p)),
     emptyBuilder = [],
     AddPrefix = (\<lambda>b p. p # b),
     RemovePrefix = cut_all,
     IPSet = Inr,
     RemoveFreePrefix = free_prefix,
     Prefixes = all_prefixes,
     ContainsPrefix = (\<lambda>s p. IsValid p \<and> canon (host_bits p) s (Masked p) = [Masked p])\<rparr>"

lemma covers_iff: "IsValid p \<Longrightarrow> covers p q \<longleftrightarrow> IsValid q \<and> block p \<subseteq> block q"
proof (cases "IsValid q")
  case False
  then show ?thesis
    by (simp add: covers_def Overlaps_def)
qed (simp add: covers_def block_subset_iff)

lemma Overlaps_block: "Overlaps p q \<longleftrightarrow> block p \<inter> block q \<noteq> {}"
proof (cases "IsValid p \<and> IsValid q")
  case False
  then show ?thesis
    by (auto simp: Overlaps_def block_def Contains_iff)
qed (simp add: Overlaps_iff)

lemma cut_block:
  "IsValid q \<Longrightarrow> IsValid p \<Longrightarrow> host_bits q = n \<Longrightarrow> ipset_all (cut n p q) = block q - block p"
proof (induction n arbitrary: q)
  case 0
  have "block q \<subseteq> block p" if "Overlaps q p"
  proof -
    have "BitLen (Addr q) = BitLen (Addr p)"
      using that 0 by (simp add: Overlaps_num)
    then have "Bits p \<le> Bits q"
      using 0 IsValidD(3,5) [of p] IsValidD(3,5) [of q] by linarith
    then show ?thesis
      using Overlaps_nested [of p q] that 0 Overlaps_sym [of p q] by blast
  qed
  then show ?case
    by (auto simp: ipset_all_def Overlaps_block)
next
  case (Suc n)
  note hf = half_facts [OF Suc.prems(1,3)] and bh = block_halves [OF Suc.prems(1,3)]
  have IH: "ipset_all (cut n p (lo_half q)) = block (lo_half q) - block p"
      "ipset_all (cut n p (hi_half q)) = block (hi_half q) - block p"
    using Suc.IH hf Suc.prems(2) by auto
  have sub: "block q \<subseteq> block p" if "Overlaps q p" "Bits p \<le> Bits q"
    using Overlaps_nested [of p q] that Suc.prems Overlaps_sym [of p q] by blast
  show ?case
    using IH bh sub by (auto simp: ipset_all_def Overlaps_block)
qed

lemma block_sub_ipset: "q \<in> set s \<Longrightarrow> block q \<subseteq> ipset_all s"
  by (auto simp: ipset_all_def)

lemma canon_props:
  "IsValid p \<Longrightarrow> Masked p = p \<Longrightarrow> host_bits p = n \<Longrightarrow>
   (\<forall>q \<in> set (canon n s p). IsValid q \<and> Masked q = q) \<and>
   ipset_all (canon n s p) = block p \<inter> ipset_all s \<and>
   sorted_wrt (\<lambda>p q. block p \<inter> block q = {}) (canon n s p) \<and>
   (block p \<subseteq> ipset_all s \<longrightarrow> canon n s p = [p])"
proof (induction n arbitrary: p)
  case 0
  have one: "block p = {Addr p}"
    using card_block [OF 0(1)] 0 Contains_self [OF 0(1)]
    by (auto simp: card_1_singleton_iff mem_block [symmetric])
  have "block p \<subseteq> ipset_all s \<longleftrightarrow> list_ex (covers p) s"
    using 0 by (auto simp: ipset_all_def list_ex_iff covers_iff one mem_block Contains_iff)
  then show ?case
    using 0 one by (auto simp: ipset_all_def list_ex_iff covers_iff)
next
  case (Suc n)
  note hf = half_facts [OF Suc.prems(1,3)] and bh = block_halves [OF Suc.prems(1,3)]
  note lo = Suc.IH [OF hf(1,9,3)] and hi = Suc.IH [OF hf(2,10,4)]
  consider (cov) "list_ex (covers p) s" | (none) "\<not> list_ex (covers p) s" "\<not> list_ex (Overlaps p) s"
    | (split) "\<not> list_ex (covers p) s" "list_ex (Overlaps p) s"
    by blast
  then show ?case
  proof cases
    case cov
    then show ?thesis
      using Suc.prems by (auto simp: ipset_all_def list_ex_iff covers_iff)
  next
    case none
    then have "block p \<inter> ipset_all s = {}"
      by (auto simp: ipset_all_def list_ex_iff Overlaps_block)
    then show ?thesis
      using none Suc.prems block_nonempty [of p] by (auto simp: ipset_all_def)
  next
    case split
    let ?l = "canon n s (lo_half p)" and ?r = "canon n s (hi_half p)"
    have join: "block p \<inter> ipset_all s = (block (lo_half p) \<inter> ipset_all s) \<union> (block (hi_half p) \<inter> ipset_all s)"
      using bh by auto
    have lo4: "block (lo_half p) \<subseteq> ipset_all s \<longrightarrow> ?l = [lo_half p]"
      and hi4: "block (hi_half p) \<subseteq> ipset_all s \<longrightarrow> ?r = [hi_half p]"
      using lo hi by fast+
    have whole: "?l = [lo_half p] \<and> ?r = [hi_half p]" if "block p \<subseteq> ipset_all s"
      using that lo4 hi4 bh(1) by fast
    have lo2: "ipset_all ?l = block (lo_half p) \<inter> ipset_all s"
      and hi2: "ipset_all ?r = block (hi_half p) \<inter> ipset_all s"
      using lo hi by fast+
    have disj: "block a \<inter> block b = {}" if "a \<in> set ?l" "b \<in> set ?r" for a b
      using block_sub_ipset [OF that(1)] block_sub_ipset [OF that(2)] lo2 hi2 bh(2) by fast
    have single: "ipset_all [q] = block q" for q
      by (simp add: ipset_all_def)
    have all: "block p \<subseteq> ipset_all s" if "?l = [lo_half p]" "?r = [hi_half p]"
      using lo2 hi2 bh(1) unfolding that single by fast
    show ?thesis
    proof (cases "?l = [lo_half p] \<and> ?r = [hi_half p]")
      case True
      then have "canon (Suc n) s p = [p]"
        using split by simp
      then show ?thesis
        using Suc.prems all True by (auto simp: ipset_all_def)
    next
      case False
      then have c: "canon (Suc n) s p = ?l @ ?r"
        using split by (auto simp: Let_def)
      have nw: "\<not> block p \<subseteq> ipset_all s"
        using whole False by blast
      have u: "ipset_all (?l @ ?r) = ipset_all ?l \<union> ipset_all ?r"
        by (simp add: ipset_all_def)
      show ?thesis
        unfolding c u join using lo hi disj nw by (simp add: sorted_wrt_append ball_Un)
    qed
  qed
qed

lemmas canon_valid = canon_props [THEN conjunct1, THEN bspec]
  and canon_union = canon_props [THEN conjunct2, THEN conjunct1]
  and canon_disjoint = canon_props [THEN conjunct2, THEN conjunct2, THEN conjunct1]
  and canon_whole = canon_props [THEN conjunct2, THEN conjunct2, THEN conjunct2, THEN mp]

lemma roots:
  "IsValid root4" "Masked root4 = root4" "host_bits root4 = 32"
  "IsValid root6" "Masked root6 = root6" "host_bits root6 = 128"
proof -
  show v: "IsValid root4" "IsValid root6" and h: "host_bits root4 = 32" "host_bits root6 = 128"
    by (simp_all add: root4_def root6_def IsValid_def host_bits_def)
  show "Masked root4 = root4" "Masked root6 = root6"
    using v by (auto intro!: Masked_selfI simp: root4_def root6_def)
qed

lemma block_whole_family:
  assumes "IsValid p" "Bits p = 0"
  shows "block p = {a. \<not> hasZone a \<and> BitLen a = BitLen (Addr p)}"
proof -
  have "addr_num a div 2 ^ host_bits p = block_no p" if "BitLen a = BitLen (Addr p)" for a
    using that assms(2) addr_num_bound [of a] addr_num_bound [of "Addr p"]
    by (simp add: host_bits_def block_no_def)
  with assms(1) show ?thesis
    by (auto simp: block_def Contains_iff)
qed

lemma block_roots: "block root4 = {a. \<not> hasZone a \<and> BitLen a = 32}"
  "block root6 = {a. \<not> hasZone a \<and> BitLen a = 128}"
  using block_whole_family [OF roots(1)] block_whole_family [OF roots(4)]
  by (simp_all add: root4_def root6_def)

lemma block_in_root:
  assumes "IsValid p" shows "block p \<subseteq> block root4 \<or> block p \<subseteq> block root6"
  using BitLen_cases [of "Addr p"] IsValidD(1) [OF assms]
  by (auto simp: block_roots mem_block Contains_iff)

lemma ipset_in_roots: "ipset_all s \<subseteq> block root4 \<union> block root6"
proof
  fix a assume "a \<in> ipset_all s"
  then obtain p where "p \<in> set s" "Contains p a"
    by (auto simp: ipset_all_def mem_block)
  then show "a \<in> block root4 \<union> block root6"
    using block_in_root [of p] by (auto simp: Contains_iff mem_block)
qed

lemma all_prefixes_valid: "p \<in> set (all_prefixes s) \<Longrightarrow> IsValid p \<and> Masked p = p"
  using canon_valid [OF roots(1,2,3)] canon_valid [OF roots(4,5,6)]
  by (auto simp: all_prefixes_def)

lemma ipset_all_append: "ipset_all (s @ t) = ipset_all s \<union> ipset_all t"
  by (simp add: ipset_all_def)

lemmas canon_root_union = canon_union [OF roots(1,2,3)] canon_union [OF roots(4,5,6)]

lemma all_prefixes_union: "ipset_all (all_prefixes s) = ipset_all s"
  using ipset_in_roots [of s] unfolding all_prefixes_def ipset_all_append canon_root_union by blast

lemma all_prefixes_disjoint: "sorted_wrt (\<lambda>p q. block p \<inter> block q = {}) (all_prefixes s)"
proof -
  have "block p \<inter> block q = {}" if "p \<in> set (canon 32 s root4)" "q \<in> set (canon 128 s root6)" for p q
  proof -
    have "block p \<subseteq> block root4" "block q \<subseteq> block root6"
      using block_sub_ipset [OF that(1)] block_sub_ipset [OF that(2)] canon_root_union [of s] by auto
    moreover have "block root4 \<inter> block root6 = {}"
      by (auto simp: block_roots)
    ultimately show ?thesis
      by blast
  qed
  then show ?thesis
    using canon_disjoint [OF roots(1,2,3), of s] canon_disjoint [OF roots(4,5,6), of s]
    by (simp add: all_prefixes_def sorted_wrt_append)
qed

lemma canon_minimal:
  "IsValid p \<Longrightarrow> Masked p = p \<Longrightarrow> host_bits p = n \<Longrightarrow> IsValid q \<Longrightarrow> block q \<subseteq> block p \<Longrightarrow>
   block q \<subseteq> ipset_all s \<Longrightarrow> \<exists>r \<in> set (canon n s p). block q \<subseteq> block r"
proof (induction n arbitrary: p)
  case 0
  have "canon 0 s p = [p]"
  proof (rule canon_whole [OF 0(1,2,3)])
    have "finite (block p)" "card (block p) = 1"
      using card_block [OF 0(1)] 0(3) by auto
    then have "block q = block p"
      using 0(5) block_nonempty [OF 0(4)] by (auto simp: card_1_singleton_iff)
    then show "block p \<subseteq> ipset_all s"
      using 0(6) by simp
  qed
  with 0(5) show ?case
    by simp
next
  case (Suc n)
  note hf = half_facts [OF Suc.prems(1,3)] and bh = block_halves [OF Suc.prems(1,3)]
  show ?case
  proof (cases "canon (Suc n) s p = [p] \<or> canon (Suc n) s p = []")
    case True
    have "ipset_all (canon (Suc n) s p) \<noteq> {}"
      using canon_union [OF Suc.prems(1-3), of s] Suc.prems(5,6) block_nonempty [OF Suc.prems(4)] by auto
    then have "canon (Suc n) s p \<noteq> []"
      by (auto simp: ipset_all_def simp del: canon.simps)
    with True have "canon (Suc n) s p = [p]"
      by blast
    with Suc.prems(5) show ?thesis
      by (simp del: canon.simps)
  next
    case False
    then have c: "canon (Suc n) s p = canon n s (lo_half p) @ canon n s (hi_half p)"
      by (auto simp: Let_def split: if_split_asm)
    have "block q \<subseteq> block (lo_half p) \<or> block q \<subseteq> block (hi_half p)"
    proof -
      have ne: "\<not> block p \<subseteq> block q"
        using canon_whole [OF Suc.prems(1-3), of s] False Suc.prems(6) by auto
      have bits: "Bits (lo_half p) \<le> Bits q" "Bits (hi_half p) \<le> Bits q"
        using ne Suc.prems(5) block_subset_iff [OF Suc.prems(1,4)] block_subset_iff [OF Suc.prems(4,1)]
          Overlaps_sym [OF Suc.prems(1,4)] by (auto simp: lo_half_def hi_half_def)
      have "Overlaps (lo_half p) q \<or> Overlaps (hi_half p) q"
        using Suc.prems(5) bh(1) block_nonempty [OF Suc.prems(4)] by (auto simp: Overlaps_block)
      then show ?thesis
        using bits block_subset_iff [OF hf(1) Suc.prems(4)] block_subset_iff [OF hf(2) Suc.prems(4)] by auto
    qed
    then show ?thesis
      using Suc.IH [OF hf(1,9,3) Suc.prems(4)] Suc.IH [OF hf(2,10,4) Suc.prems(4)] Suc.prems(6)
      unfolding c by auto
  qed
qed

lemma all_prefixes_minimal:
  assumes "IsValid q" "block q \<subseteq> ipset_all s"
  shows "\<exists>r \<in> set (all_prefixes s). block q \<subseteq> block r"
  using block_in_root [OF assms(1)] canon_minimal [OF roots(1,2,3) assms(1) _ assms(2)]
    canon_minimal [OF roots(4,5,6) assms(1) _ assms(2)]
  by (auto simp: all_prefixes_def)

lemma cut_all_block: "IsValid p \<Longrightarrow> ipset_all (cut_all s p) = ipset_all s - block p"
proof (induction s)
  case (Cons q s)
  have "ipset_all (cut_all (q # s) p) =
      ipset_all (if IsValid q then cut (host_bits q) p q else []) \<union> ipset_all (cut_all s p)"
    by (simp add: cut_all_def ipset_all_def)
  also have "ipset_all (if IsValid q then cut (host_bits q) p q else []) = block q - block p"
  proof (cases "IsValid q")
    case False
    then have "block q = {}"
      by (auto simp: block_def Contains_iff)
    with False show ?thesis
      by (simp add: ipset_all_def)
  qed (simp add: cut_block Cons.prems)
  finally show ?case
    using Cons by (auto simp: ipset_all_def)
qed (simp add: cut_all_def ipset_all_def)

lemma foldl_longer: "foldl longer q qs \<in> insert q (set qs)"
  by (induction qs arbitrary: q) (auto simp: longer_def, (smt (verit) insert_iff)?)

lemma best_fit_Some: "best_fit n ps = Some q \<Longrightarrow> q \<in> set ps \<and> Bits q \<le> int n"
proof -
  assume "best_fit n ps = Some q"
  then obtain r rs where f: "filter (\<lambda>p. Bits p \<le> int n) ps = r # rs" "q = foldl longer r rs"
    by (auto simp: best_fit_def split: list.split_asm)
  then have "q \<in> set (filter (\<lambda>p. Bits p \<le> int n) ps)"
    using foldl_longer [of r rs] by simp
  then show ?thesis
    by simp
qed

lemma best_fit_None: "best_fit n ps = None \<Longrightarrow> p \<in> set ps \<Longrightarrow> int n < Bits p"
  by (auto simp: best_fit_def filter_empty_conv split: list.split_asm)

lemma netip_PrefixFrom_fit:
  assumes q: "IsValid q" "Masked q = q" and n: "Bits q \<le> int n"
    and v: "IsValid (netip_PrefixFrom (Addr q) (int n))"
  shows "Bits (netip_PrefixFrom (Addr q) (int n)) = int n"
    "Masked (netip_PrefixFrom (Addr q) (int n)) = netip_PrefixFrom (Addr q) (int n)"
    "block (netip_PrefixFrom (Addr q) (int n)) \<subseteq> block q"
proof -
  let ?p = "netip_PrefixFrom (Addr q) (int n)"
  have A: "Addr ?p = Addr q"
    using q(1) by (simp add: netip_PrefixFrom_def withoutZone_id IsValidD)
  show B: "Bits ?p = int n"
    using v by (auto simp: netip_PrefixFrom_def IsValid_def split: if_split_asm)
  have h: "host_bits ?p \<le> host_bits q"
    using n by (simp add: host_bits_def A B)
  have "2 ^ host_bits ?p dvd (2 ^ host_bits q :: nat)"
    using h by (rule le_imp_power_dvd)
  moreover have "addr_num (Addr q) = block_no q * 2 ^ host_bits q"
    using Masked_simps(6) [OF q(1)] q(2) by simp
  ultimately have "addr_num (Addr ?p) mod 2 ^ host_bits ?p = 0"
    by (simp add: A)
  then show "Masked ?p = ?p"
    using v by (rule Masked_selfI [rotated])
  have "Overlaps q ?p"
    using Contains_self [OF q(1)] Contains_self [OF v] by (simp add: Overlaps_block mem_block [symmetric] A)
       blast
  then show "block ?p \<subseteq> block q"
    using block_subset_iff [OF q(1) v] n B by simp
qed

lemma free_prefix_found:
  assumes "free_prefix s n = (p, s', True)"
  obtains q where "q \<in> set (all_prefixes s)" "Bits q \<le> int (unat n)"
    "p = netip_PrefixFrom (Addr q) (int (unat n))" "s' = cut_all s p"
proof -
  obtain q where q: "best_fit (unat n) (all_prefixes s) = Some q"
    using assms by (auto simp: free_prefix_def split: option.split_asm)
  with assms have "p = netip_PrefixFrom (Addr q) (int (unat n))" "s' = cut_all s p"
    by (auto simp: free_prefix_def Let_def)
  then show ?thesis
    using that best_fit_Some [OF q] by blast
qed

lemma canon_whole_iff:
  assumes "IsValid p"
  shows "canon (host_bits p) s (Masked p) = [Masked p] \<longleftrightarrow> block p \<subseteq> ipset_all s"
proof
  have v: "IsValid (Masked p)" "Masked (Masked p) = Masked p" "host_bits (Masked p) = host_bits p"
    using assms by simp_all
  note u = canon_union [OF v, of s]
  show "block p \<subseteq> ipset_all s" if "canon (host_bits p) s (Masked p) = [Masked p]"
    using u assms unfolding that by (simp add: ipset_all_def) blast
  show "canon (host_bits p) s (Masked p) = [Masked p]" if "block p \<subseteq> ipset_all s"
    using canon_whole [OF v] that assms by simp
qed

lemma free_prefix_inside:
  assumes r: "free_prefix s n = (p, s', True)" and v: "IsValid p"
  shows "Bits p = int (unat n) \<and> Masked p = p \<and> block p \<subseteq> ipset_all s"
proof -
  obtain q where q: "q \<in> set (all_prefixes s)" "Bits q \<le> int (unat n)"
      "p = netip_PrefixFrom (Addr q) (int (unat n))"
    using r by (auto elim: free_prefix_found)
  note qv = all_prefixes_valid [OF q(1)]
  have "block q \<subseteq> ipset_all s"
    using block_sub_ipset [OF q(1)] by (simp add: all_prefixes_union)
  with netip_PrefixFrom_fit [of q "unat n"] q(2,3) qv v show ?thesis
    by auto
qed

lemma free_prefix_valid:
  assumes r: "free_prefix s n = (p, s', True)" and v: "IsValid q"
    and sub: "ipset_all s \<subseteq> block q" and n: "unat n \<le> BitLen (Addr q)"
  shows "IsValid p"
proof -
  obtain r where r: "r \<in> set (all_prefixes s)" "p = netip_PrefixFrom (Addr r) (int (unat n))"
    using r by (auto elim: free_prefix_found)
  have rv: "IsValid r"
    using all_prefixes_valid [OF r(1)] by simp
  have "block r \<subseteq> block q"
    using block_sub_ipset [OF r(1)] sub by (simp add: all_prefixes_union)
  then have "Contains q (Addr r)"
    using Contains_self [OF rv] by (auto simp: block_def)
  then have "BitLen (Addr r) = BitLen (Addr q)"
    by (simp add: Contains_iff)
  moreover have "uint n \<le> int (BitLen (Addr q))"
    using n by (simp flip: of_nat_le_iff [where 'a = int])
  ultimately show "IsValid p"
    using rv r(2) by (auto simp: netip_PrefixFrom_def IsValid_def withoutZone_id)
qed

lemma free_prefix_none:
  assumes r: "free_prefix s n = (p, s', False)" and v: "IsValid q" and n: "Bits q = int (unat n)"
  shows "\<not> block q \<subseteq> ipset_all s"
proof
  assume "block q \<subseteq> ipset_all s"
  then obtain r where r': "r \<in> set (all_prefixes s)" "block q \<subseteq> block r"
    using all_prefixes_minimal [OF v] by blast
  have "best_fit (unat n) (all_prefixes s) = None"
    using r by (auto simp: free_prefix_def Let_def split: option.split_asm)
  then have "int (unat n) < Bits r"
    using r'(1) by (rule best_fit_None)
  moreover have "Bits r \<le> Bits q"
    using r'(2) block_subset_iff [OF _ v, of r] all_prefixes_valid [OF r'(1)] by simp
  ultimately show False
    using n by simp
qed

interpretation rx: netipx_laws ref_netipx "\<lambda>b. True" ipset_all ipset_all
proof unfold_locales
  fix p q f t b s s' a n
  show "IsValid p \<Longrightarrow> RangeOfPrefix ref_netipx p = (f, t) \<Longrightarrow> Contains p f \<and> Contains p t"
    by (auto simp: ref_netipx_def Contains_first_last)
  show "IsValid p \<Longrightarrow> RangeOfPrefix ref_netipx p = (f, t) \<Longrightarrow> Contains p a \<Longrightarrow>
      addr_num f \<le> addr_num a \<and> addr_num a \<le> addr_num t"
    by (auto simp: ref_netipx_def Contains_between)
  show "ipset_all (emptyBuilder ref_netipx) = {}"
    by (simp add: ref_netipx_def ipset_all_def)
  show "IsValid p \<Longrightarrow> ipset_all (AddPrefix ref_netipx b p) = ipset_all b \<union> block p"
    by (auto simp: ref_netipx_def ipset_all_def)
  show "IsValid p \<Longrightarrow> ipset_all (RemovePrefix ref_netipx b p) = ipset_all b - block p"
    by (simp add: ref_netipx_def cut_all_block)
  show "\<exists>s. IPSet ref_netipx b = Inr s \<and> ipset_all s = ipset_all b"
    by (simp add: ref_netipx_def)
  show "RemoveFreePrefix ref_netipx s n = (p, s', True) \<Longrightarrow> IsValid p \<Longrightarrow>
      Bits p = int (unat n) \<and> Masked p = p \<and> block p \<subseteq> ipset_all s"
    by (simp add: ref_netipx_def free_prefix_inside)
  show "RemoveFreePrefix ref_netipx s n = (p, s', True) \<Longrightarrow> IsValid q \<Longrightarrow>
      ipset_all s \<subseteq> block q \<Longrightarrow> unat n \<le> BitLen (Addr q) \<Longrightarrow> IsValid p"
    by (simp add: ref_netipx_def free_prefix_valid)
  show "RemoveFreePrefix ref_netipx s n = (p, s', False) \<Longrightarrow> IsValid q \<Longrightarrow>
      Bits q = int (unat n) \<Longrightarrow> \<not> block q \<subseteq> ipset_all s"
    by (simp add: ref_netipx_def free_prefix_none)
  show "p \<in> set (Prefixes ref_netipx s) \<Longrightarrow> IsValid p \<and> Masked p = p"
    by (simp add: ref_netipx_def all_prefixes_valid)
  show "\<Union> (block ` set (Prefixes ref_netipx s)) = ipset_all s"
    using all_prefixes_union [of s] by (simp add: ref_netipx_def ipset_all_def [of "all_prefixes s"])
  show "sorted_wrt (\<lambda>p q. block p \<inter> block q = {}) (Prefixes ref_netipx s)"
    by (simp add: ref_netipx_def all_prefixes_disjoint)
  show "IsValid q \<Longrightarrow> block q \<subseteq> ipset_all s \<Longrightarrow> \<exists>p \<in> set (Prefixes ref_netipx s). block q \<subseteq> block p"
    by (simp add: ref_netipx_def all_prefixes_minimal)
  show "ContainsPrefix ref_netipx s p \<longleftrightarrow> IsValid p \<and> block p \<subseteq> ipset_all s"
    by (auto simp: ref_netipx_def canon_whole_iff)
qed simp_all

end
