(* ===== verification/Prefix_Type.thy ===== *)
theory Prefix_Type
  imports Netipx
begin

text \<open>
  The data type \<open>Prefix\<close> of \<^verbatim>\<open>src/prefix.go\<close>, with the methods that read or copy one prefix and
  touch no storage: deep copies, the gob encoding, the text of a prefix, \<open>hasIPs\<close> and the numbers
  that \<open>Usage\<close> reports. The abstract value of a prefix (\<open>aprefix\<close>) forgets how its maps are laid
  out; the storage contract and the theorems about the operations are stated over it.
\<close>

section \<open>The type\<close>

record Prefix =
  Cidr :: string
  ParentCidr :: string
  isParent :: bool
  availableChildPrefixes :: "bool gomap"
  childPrefixLength :: int
  ips :: "bool gomap"
  version :: "64 word"

text \<open>\<open>Prefix{}\<close>, the zero value.\<close>

definition empty_Prefix :: Prefix where
  "empty_Prefix = \<lparr>Cidr = [], ParentCidr = [], isParent = False, availableChildPrefixes = NilMap,
     childPrefixLength = 0, ips = NilMap, version = 0\<rparr>"

text \<open>\<open>maps.Copy\<close> inserts the entries of the source one by one into a map made before.\<close>

definition copyMap :: "bool gomap \<Rightarrow> bool gomap" where
  "copyMap m = GoMap (foldl (\<lambda>cm (k, v). AList.update k v cm) [] (map_entries m))"

definition deepCopy :: "Prefix \<Rightarrow> Prefix" where
  "deepCopy p = \<lparr>Cidr = Cidr p, ParentCidr = ParentCidr p, isParent = isParent p,
     availableChildPrefixes = copyMap (availableChildPrefixes p),
     childPrefixLength = childPrefixLength p,
     ips = copyMap (ips p), version = version p\<rparr>"

text \<open>
  A prefix is well formed when its maps are maps that can be written and when it is not in the
  legacy form, where a length of the children stands for \<open>isParent\<close>.
\<close>

definition wf_prefix :: "Prefix \<Rightarrow> bool" where
  "wf_prefix p \<longleftrightarrow> map_ok (availableChildPrefixes p) \<and> map_ok (ips p) \<and> childPrefixLength p = 0"

record aprefix =
  aCidr :: string
  aParentCidr :: string
  aIsParent :: bool
  aChildren :: "string \<rightharpoonup> bool"
  aIPs :: "string \<rightharpoonup> bool"
  aVersion :: "64 word"

definition abs_prefix :: "Prefix \<Rightarrow> aprefix" where
  "abs_prefix p = \<lparr>aCidr = Cidr p, aParentCidr = ParentCidr p, aIsParent = isParent p,
     aChildren = map_lookup (availableChildPrefixes p), aIPs = map_lookup (ips p),
     aVersion = version p\<rparr>"

lemma abs_prefix_simps [simp]:
  "aCidr (abs_prefix p) = Cidr p" "aParentCidr (abs_prefix p) = ParentCidr p"
  "aIsParent (abs_prefix p) = isParent p"
  "aChildren (abs_prefix p) = map_lookup (availableChildPrefixes p)"
  "aIPs (abs_prefix p) = map_lookup (ips p)" "aVersion (abs_prefix p) = version p"
  by (simp_all add: abs_prefix_def)

lemma copy_entries:
  fixes es :: "(string \<times> bool) list"
  shows "distinct (map fst es) \<Longrightarrow> foldl (\<lambda>cm (k, v). AList.update k v cm) [] es = es"
proof (induction es rule: rev_induct)
  case (snoc e es)
  have "AList.update k v xs = xs @ [(k, v)]" if "k \<notin> fst ` set xs" for k v and xs :: "(string \<times> bool) list"
    using that by (induction xs) auto
  with snoc show ?case
    by (cases e) auto
qed simp

lemma copyMap_id [simp]: "map_ok m \<Longrightarrow> copyMap m = m"
  by (cases m) (auto simp: copyMap_def map_ok_def copy_entries)

lemma deepCopy_id [simp]: "wf_prefix p \<Longrightarrow> deepCopy p = p"
  by (simp add: deepCopy_def wf_prefix_def)

lemma copyMap_ok [simp]: "map_ok (copyMap m)"
proof -
  have "distinct (map fst (foldl (\<lambda>cm (k, v). AList.update k v cm) acc es))"
    if "distinct (map fst acc)" for acc es :: "(string \<times> bool) list"
    using that by (induction es arbitrary: acc) (auto simp: distinct_update)
  then show ?thesis
    by (simp add: copyMap_def map_ok_def)
qed

lemma copyMap_lookup [simp]: "map_lookup (copyMap m) = map_lookup (GoMap (rev (map_entries m)))"
proof -
  have "map_of (foldl (\<lambda>cm (k, v). AList.update k v cm) acc es) = map_of acc ++ map_of (rev es)"
    for acc es :: "(string \<times> bool) list"
  proof (induction es arbitrary: acc)
    case (Cons e es)
    then show ?case
      by (cases e) (auto simp: update_conv' map_add_def fun_eq_iff split: option.splits)
  qed simp
  from this [of "[]" "map_entries m"] show ?thesis
    by (simp add: copyMap_def map_lookup_def)
qed

section \<open>The gob encoding\<close>

text \<open>
  \<open>encoding/gob\<close> writes a stream of typed values. A nil map that is encoded on its own is written
  as an empty map, and decoding into a map adds to what the map holds.
\<close>

datatype gob_value =
  GobMap "(string \<times> bool) list"
| GobInt int
| GobBool bool
| GobString string

definition GobEncode :: "Prefix \<Rightarrow> gob_value list result" where
  "GobEncode p = Inr
     [GobMap (map_entries (availableChildPrefixes p)),
      GobInt (childPrefixLength p),
      GobBool (isParent p),
      GobMap (map_entries (ips p)),
      GobInt (sint (version p)),
      GobString (Cidr p),
      GobString (ParentCidr p)]"

fun decode_map :: "gob_value list \<Rightarrow> bool gomap \<Rightarrow> (bool gomap \<times> gob_value list) result" where
  "decode_map (GobMap es # r) m =
     Inr (GoMap (foldl (\<lambda>cm (k, v). AList.update k v cm) (map_entries m) es), r)"
| "decode_map [] m = Inl (Errorf ''EOF'' [])"
| "decode_map (v # r) m = Inl (Errorf ''gob: type mismatch'' [])"

fun decode_int :: "gob_value list \<Rightarrow> (int \<times> gob_value list) result" where
  "decode_int (GobInt n # r) =
     (if - (2 ^ 63) \<le> n \<and> n < 2 ^ 63 then Inr (n, r) else Inl (Errorf ''value out of range'' []))"
| "decode_int [] = Inl (Errorf ''EOF'' [])"
| "decode_int (v # r) = Inl (Errorf ''gob: type mismatch'' [])"

fun decode_bool :: "gob_value list \<Rightarrow> (bool \<times> gob_value list) result" where
  "decode_bool (GobBool b # r) = Inr (b, r)"
| "decode_bool [] = Inl (Errorf ''EOF'' [])"
| "decode_bool (v # r) = Inl (Errorf ''gob: type mismatch'' [])"

fun decode_string :: "gob_value list \<Rightarrow> (string \<times> gob_value list) result" where
  "decode_string (GobString s # r) = Inr (s, r)"
| "decode_string [] = Inl (Errorf ''EOF'' [])"
| "decode_string (v # r) = Inl (Errorf ''gob: type mismatch'' [])"

definition GobDecode :: "Prefix \<Rightarrow> gob_value list \<Rightarrow> Prefix result" where
  "GobDecode p buf =
     (case decode_map buf (availableChildPrefixes p) of Inl err \<Rightarrow> Inl err
      | Inr (acp, r) \<Rightarrow>
     (case decode_int r of Inl err \<Rightarrow> Inl err
      | Inr (cpl, r) \<Rightarrow>
     (case decode_bool r of Inl err \<Rightarrow> Inl err
      | Inr (isp, r) \<Rightarrow>
     (case decode_map r (ips p) of Inl err \<Rightarrow> Inl err
      | Inr (is, r) \<Rightarrow>
     (case decode_int r of Inl err \<Rightarrow> Inl err
      | Inr (ver, r) \<Rightarrow>
     (case decode_string r of Inl err \<Rightarrow> Inl err
      | Inr (cidr, r) \<Rightarrow>
     (case decode_string r of Inl err \<Rightarrow> Inl err
      | Inr (pcidr, r) \<Rightarrow>
        Inr \<lparr>Cidr = cidr, ParentCidr = pcidr, isParent = isp, availableChildPrefixes = acp,
             childPrefixLength = cpl, ips = is, version = word_of_int ver\<rparr>)))))))"

text \<open>
  Decoding into a fresh prefix what \<open>GobEncode\<close> wrote gives the prefix back (a copy whose maps
  are not nil); the length of the children is a Go \<open>int\<close>, so it is in the range of 64 bits.
\<close>

theorem gob_roundtrip:
  assumes "- (2 ^ 63) \<le> childPrefixLength p" "childPrefixLength p < 2 ^ 63"
  shows "\<exists>buf. GobEncode p = Inr buf \<and> GobDecode empty_Prefix buf = Inr (deepCopy p)"
proof -
  have "- (2 ^ 63) \<le> sint (version p) \<and> sint (version p) < 2 ^ 63"
    using sint_ge [of "version p"] sint_lt [of "version p"] by simp
  with assms show ?thesis
    by (simp add: GobEncode_def GobDecode_def empty_Prefix_def deepCopy_def copyMap_def)
qed

section \<open>Methods that read a prefix\<close>

definition Prefix_String :: "Prefix \<Rightarrow> string" where
  "Prefix_String p = Cidr p"

definition Network :: "Prefix \<Rightarrow> addr result" where
  "Network p = (case ParsePrefix (Cidr p) of Inl err \<Rightarrow> Inl err | Inr ipprefix \<Rightarrow> Inr (Addr ipprefix))"

definition hasIPs :: "Prefix \<Rightarrow> bool" where
  "hasIPs p = (case ParsePrefix (Cidr p) of
      Inl err \<Rightarrow> False
    | Inr ipprefix \<Rightarrow>
        if Is4 (Addr ipprefix) \<and> 2 < map_len (ips p) then True
        else if Is6 (Addr ipprefix) \<and> 1 < map_len (ips p) then True
        else False)"

definition MaxInt32 :: "64 word" where
  "MaxInt32 = 2147483647"

definition availableips :: "Prefix \<Rightarrow> 64 word" where
  "availableips p = (case ParsePrefix (Cidr p) of
      Inl err \<Rightarrow> 0
    | Inr ipprefix \<Rightarrow>
        if 31 < int (BitLen (Addr ipprefix)) - Bits ipprefix then MaxInt32
        else push_bit (nat (int (BitLen (Addr ipprefix)) - Bits ipprefix)) 1)"

definition acquiredips :: "Prefix \<Rightarrow> 64 word" where
  "acquiredips p = of_nat (map_len (ips p))"

text \<open>The two loops of \<open>availablePrefixes\<close>: over the children, and over the free prefixes.\<close>

primrec remove_unavailable :: "('b, 't) netipx \<Rightarrow> (string \<times> bool) list \<Rightarrow> 'b \<Rightarrow> 'b" where
  "remove_unavailable nx [] b = b"
| "remove_unavailable nx (c # cs) b = (case c of (cp, available) \<Rightarrow>
     if available then remove_unavailable nx cs b
     else (case ParsePrefix cp of
         Inl err \<Rightarrow> remove_unavailable nx cs b
       | Inr ipprefix \<Rightarrow> remove_unavailable nx cs (RemovePrefix nx b ipprefix)))"

primrec count_available ::
  "int \<Rightarrow> netip_prefix list \<Rightarrow> 64 word \<Rightarrow> string list \<Rightarrow> 64 word \<times> string list" where
  "count_available maxBits [] totalAvailable availablePrefixes = (totalAvailable, availablePrefixes)"
| "count_available maxBits (pfx # pfxs) totalAvailable availablePrefixes =
     (let bits = maxBits - Bits pfx in
      if bits < 0 then count_available maxBits pfxs totalAvailable availablePrefixes
      else count_available maxBits pfxs (totalAvailable + push_bit (nat bits) 1)
             (availablePrefixes @ [prefix_String pfx]))"

definition availablePrefixes :: "('b, 't) netipx \<Rightarrow> Prefix \<Rightarrow> 64 word \<times> string list" where
  "availablePrefixes nx p = (case ParsePrefix (Cidr p) of
      Inl err \<Rightarrow> (0, [])
    | Inr prefix \<Rightarrow>
        let ipsetBuilder = remove_unavailable nx (map_entries (availableChildPrefixes p))
              (AddPrefix nx (emptyBuilder nx) prefix)
        in case IPSet nx ipsetBuilder of
            Inl err \<Rightarrow> (0, [])
          | Inr ipset \<Rightarrow>
              let maxBits = int (BitLen (Addr prefix)) - 2;
                  (totalAvailable, avail) = count_available maxBits (Prefixes nx ipset) 0 []
              in (if MaxInt32 < totalAvailable then MaxInt32 else totalAvailable, avail))"

definition acquiredPrefixes :: "Prefix \<Rightarrow> 64 word" where
  "acquiredPrefixes p =
     foldl (\<lambda>count (_, available). if \<not> available then count + 1 else count) 0
       (map_entries (availableChildPrefixes p))"

record Usage =
  AvailableIPs :: "64 word"
  AcquiredIPs :: "64 word"
  AvailableSmallestPrefixes :: "64 word"
  AvailablePrefixes :: "string list"
  AcquiredPrefixes :: "64 word"

definition Prefix_Usage :: "('b, 't) netipx \<Rightarrow> Prefix \<Rightarrow> Usage" where
  "Prefix_Usage nx p = (case availablePrefixes nx p of (sp, ap) \<Rightarrow>
     \<lparr>AvailableIPs = availableips p, AcquiredIPs = acquiredips p,
      AvailableSmallestPrefixes = sp, AvailablePrefixes = ap, AcquiredPrefixes = acquiredPrefixes p\<rparr>)"

definition Usage_String :: "Usage \<Rightarrow> string" where
  "Usage_String u =
     (let ip = ''ip:'' @ itoa (unat (AcquiredIPs u)) @ ''/'' @ itoa (unat (AvailableIPs u)) in
      if AcquiredPrefixes u = 0 then ip
      else ip @ '' prefixes alloc:'' @ itoa (unat (AcquiredPrefixes u)) @
           '' avail:'' @ itoa (unat (AvailableSmallestPrefixes u)))"

section \<open>What the numbers mean\<close>

text \<open>The addresses of the children that are marked unavailable.\<close>

definition taken :: "(string \<rightharpoonup> bool) \<Rightarrow> addr set" where
  "taken m = {a. \<exists>cp q. m cp = Some False \<and> ParsePrefix cp = Inr q \<and> Contains q a}"

definition free_space :: "netip_prefix \<Rightarrow> (string \<rightharpoonup> bool) \<Rightarrow> addr set" where
  "free_space p m = block p - taken m"

lemma taken_empty [simp]: "taken Map.empty = {}"
  by (simp add: taken_def)

lemma taken_mono: "(\<And>cp. m cp = Some False \<Longrightarrow> m' cp = Some False) \<Longrightarrow> taken m \<subseteq> taken m'"
  by (auto simp: taken_def)

lemma taken_upd_False:
  assumes "ParsePrefix cp = Inr q"
  shows "taken (m(cp \<mapsto> False)) = taken m \<union> block q"
proof (intro equalityI subsetI)
  fix a assume "a \<in> taken (m(cp \<mapsto> False))"
  then obtain c r where "(m(cp \<mapsto> False)) c = Some False" "ParsePrefix c = Inr r" "Contains r a"
    unfolding taken_def by blast
  with assms show "a \<in> taken m \<union> block q"
    by (cases "c = cp") (auto simp: taken_def mem_block)
next
  fix a assume "a \<in> taken m \<union> block q"
  then consider (old) c r where "m c = Some False" "ParsePrefix c = Inr r" "Contains r a"
    | (new) "Contains q a"
    by (auto simp: taken_def mem_block)
  then show "a \<in> taken (m(cp \<mapsto> False))"
  proof cases
    case old
    then have "(m(cp \<mapsto> False)) c = Some False"
      by simp
    with old show ?thesis
      unfolding taken_def by blast
  next
    case new
    with assms show ?thesis
      unfolding taken_def by fastforce
  qed
qed

lemma taken_upd_True: "taken (m(cp \<mapsto> True)) \<subseteq> taken m"
  by (auto simp: taken_def split: if_split_asm)

context netipx_laws
begin

lemma remove_unavailable_set:
  "builder_ok b \<Longrightarrow> builder_ok (remove_unavailable nx cs b) \<and>
   builder_set (remove_unavailable nx cs b) =
     builder_set b - {a. \<exists>cp q. (cp, False) \<in> set cs \<and> ParsePrefix cp = Inr q \<and> Contains q a}"
proof (induction cs arbitrary: b)
  case (Cons c cs)
  obtain cp av where c: "c = (cp, av)"
    by fastforce
  show ?case
  proof (cases "ParsePrefix cp")
    case (Inr q)
    note v = ParsePrefix_valid [OF Inr]
    show ?thesis
    proof (cases av)
      case False
      have "builder_ok (RemovePrefix nx b q)" "builder_set (RemovePrefix nx b q) = builder_set b - block q"
        using remove_prefix [OF v Cons.prems] by auto
      then show ?thesis
        using Cons.IH [of "RemovePrefix nx b q"] Inr False by (auto simp: c mem_block)
    qed (use Cons c in auto)
  qed (use Cons c in auto)
qed simp

lemma available_ipset:
  assumes p: "IsValid p" and m: "map_ok m"
  obtains s where "IPSet nx (remove_unavailable nx (map_entries m) (AddPrefix nx (emptyBuilder nx) p)) = Inr s"
    "ipset_set s = free_space p (map_lookup m)"
proof -
  have b: "builder_ok (AddPrefix nx (emptyBuilder nx) p)"
      "builder_set (AddPrefix nx (emptyBuilder nx) p) = block p"
    using add_prefix [OF p empty_builder(1)] empty_builder(2) by auto
  let ?b = "remove_unavailable nx (map_entries m) (AddPrefix nx (emptyBuilder nx) p)"
  have r: "builder_ok ?b" "builder_set ?b = free_space p (map_lookup m)"
    using remove_unavailable_set [OF b(1), of "map_entries m"] b(2) map_entries_lookup [OF m]
    by (simp_all add: free_space_def taken_def)
  with ipset [OF r(1)] that show ?thesis
    by auto
qed

lemma prefixes_minimal_bits:
  assumes "IsValid r" "block r \<subseteq> ipset_set s"
  obtains r' where "r' \<in> set (Prefixes nx s)" "block r \<subseteq> block r'" "Bits r' \<le> Bits r"
  using prefixes_minimal [OF assms] block_subset_iff [OF _ assms(1)] prefixes_valid by blast

end

lemma count_available_snd:
  "snd (count_available n ps t av) = av @ map prefix_String (filter (\<lambda>p. Bits p \<le> n) ps)"
  by (induction ps arbitrary: t av) (auto simp: Let_def)

lemma count_available_fst:
  "fst (count_available n ps t av) =
     t + (\<Sum>p \<leftarrow> filter (\<lambda>p. Bits p \<le> n) ps. push_bit (nat (n - Bits p)) 1)"
  by (induction ps arbitrary: t av) (auto simp: Let_def algebra_simps)

lemma card_disjoint_blocks:
  assumes "\<forall>p \<in> set ps. IsValid p" "sorted_wrt (\<lambda>p q. block p \<inter> block q = {}) ps"
  shows "finite (\<Union> (block ` set ps))" "card (\<Union> (block ` set ps)) = (\<Sum>p \<leftarrow> ps. 2 ^ host_bits p)"
proof -
  have "finite (\<Union> (block ` set ps)) \<and> card (\<Union> (block ` set ps)) = (\<Sum>p \<leftarrow> ps. 2 ^ host_bits p)"
    using assms
  proof (induction ps)
    case (Cons p ps)
    then have "block p \<inter> \<Union> (block ` set ps) = {}"
      by auto
    with Cons card_block [of p] show ?case
      by (simp add: card_Un_disjoint)
  qed simp
  then show "finite (\<Union> (block ` set ps))" "card (\<Union> (block ` set ps)) = (\<Sum>p \<leftarrow> ps. 2 ^ host_bits p)"
    by auto
qed

lemma card_sub_block: "IsValid q \<Longrightarrow> A \<subseteq> block q \<Longrightarrow> card A \<le> 2 ^ BitLen (Addr q)"
proof -
  assume q: "IsValid q" and "A \<subseteq> block q"
  then have "card A \<le> 2 ^ host_bits q"
    using card_mono [OF card_block(1)] card_block(2) by metis
  also have "\<dots> \<le> 2 ^ BitLen (Addr q)"
    using IsValidD(6) [OF q] by (intro power_increasing) auto
  finally show ?thesis .
qed

lemma unat_sum_list_bound:
  fixes ws :: "64 word list"
  assumes "(\<Sum>w \<leftarrow> ws. unat w) < 2 ^ 64"
  shows "unat (sum_list ws) = (\<Sum>w \<leftarrow> ws. unat w)"
  using assms
proof (induction ws)
  case (Cons w ws)
  then have "unat (sum_list ws) = (\<Sum>w \<leftarrow> ws. unat w)"
    by simp
  with Cons.prems show ?case
    by (simp add: unat_word_ariths)
qed simp

lemma unat_push_bit_1: "n < 64 \<Longrightarrow> unat (push_bit n (1 :: 64 word)) = 2 ^ n"
proof -
  assume n: "n < 64"
  have "unat (push_bit n (1 :: 64 word)) = take_bit 64 (push_bit n (unat (1 :: 64 word)))"
    by (simp only: unsigned_push_bit_eq) simp
  also have "\<dots> = 2 ^ n mod 2 ^ 64"
    by (simp add: take_bit_eq_mod push_bit_eq_mult)
  also have "\<dots> = 2 ^ n"
    using n by (intro mod_less power_strict_increasing) auto
  finally show ?thesis .
qed

lemma availablePrefixes_eq:
  assumes nx: "netipx_laws nx B BS IS" and wf: "wf_prefix p" and q: "ParsePrefix (Cidr p) = Inr q"
  obtains s where "IS s = free_space q (map_lookup (availableChildPrefixes p))"
    "availablePrefixes nx p =
       (let t = \<Sum>r \<leftarrow> filter (\<lambda>r. Bits r \<le> int (BitLen (Addr q)) - 2) (Prefixes nx s).
          push_bit (nat (int (BitLen (Addr q)) - 2 - Bits r)) 1
        in if MaxInt32 < t then MaxInt32 else t,
        map prefix_String (filter (\<lambda>r. Bits r \<le> int (BitLen (Addr q)) - 2) (Prefixes nx s)))"
proof -
  have ok: "map_ok (availableChildPrefixes p)"
    using wf by (simp add: wf_prefix_def)
  obtain s where s: "IPSet nx (remove_unavailable nx (map_entries (availableChildPrefixes p))
      (AddPrefix nx (emptyBuilder nx) q)) = Inr s"
    "IS s = free_space q (map_lookup (availableChildPrefixes p))"
    using netipx_laws.available_ipset [OF nx ParsePrefix_valid [OF q] ok] by blast
  let ?n = "int (BitLen (Addr q)) - 2"
  have "count_available ?n (Prefixes nx s) 0 [] =
     (\<Sum>r \<leftarrow> filter (\<lambda>r. Bits r \<le> ?n) (Prefixes nx s). push_bit (nat (?n - Bits r)) 1,
      map prefix_String (filter (\<lambda>r. Bits r \<le> ?n) (Prefixes nx s)))"
    using count_available_fst [of ?n "Prefixes nx s" 0 "[]"] count_available_snd [of ?n "Prefixes nx s" 0 "[]"]
    by (simp add: prod_eq_iff)
  then show ?thesis
    using that [OF s(2)] s(1) q by (simp add: availablePrefixes_def Let_def)
qed

text \<open>The size of the address space of free blocks, in blocks of four addresses.\<close>

lemma quarter_blocks:
  assumes "IsValid r" "BitLen (Addr r) = 32" "Bits r \<le> 30"
  shows "2 ^ nat (30 - Bits r) * 4 = (2::nat) ^ host_bits r"
proof -
  have "host_bits r = nat (30 - Bits r) + 2"
    using assms by (auto simp: host_bits_def IsValid_def)
  then show ?thesis
    by (simp add: power_add)
qed

lemma sum_quarter_blocks:
  assumes v: "\<forall>r \<in> set rs. IsValid r \<and> BitLen (Addr r) = 32 \<and> Bits r \<le> 30"
    and bound: "(\<Sum>r \<leftarrow> rs. 2 ^ host_bits r) \<le> (2::nat) ^ 32"
  defines "t \<equiv> (\<Sum>r \<leftarrow> rs. push_bit (nat (30 - Bits r)) (1 :: 64 word))"
  shows "unat t * 4 = (\<Sum>r \<leftarrow> rs. 2 ^ host_bits r)" "\<not> MaxInt32 < t"
proof -
  have "(\<Sum>r \<leftarrow> rs. 2 ^ host_bits r) = (\<Sum>r \<leftarrow> rs. (2::nat) ^ nat (30 - Bits r) * 4)"
    using v by (intro arg_cong [where f = sum_list] map_cong refl) (metis quarter_blocks)
  also have "\<dots> = (\<Sum>r \<leftarrow> rs. 2 ^ nat (30 - Bits r)) * 4"
    by (simp add: sum_list_mult_const)
  finally have four: "(\<Sum>r \<leftarrow> rs. (2::nat) ^ nat (30 - Bits r)) * 4 = (\<Sum>r \<leftarrow> rs. 2 ^ host_bits r)"
    by simp
  have words: "(\<Sum>r \<leftarrow> rs. unat (push_bit (nat (30 - Bits r)) (1 :: 64 word))) =
      (\<Sum>r \<leftarrow> rs. 2 ^ nat (30 - Bits r))"
    using v by (intro arg_cong [where f = sum_list] map_cong refl unat_push_bit_1)
      (auto simp: IsValid_def)
  have le: "(\<Sum>r \<leftarrow> rs. (2::nat) ^ nat (30 - Bits r)) \<le> 2 ^ 30"
    using four bound by simp
  have t: "unat t = (\<Sum>r \<leftarrow> rs. 2 ^ nat (30 - Bits r))"
    unfolding t_def words [symmetric]
    using unat_sum_list_bound [of "map (\<lambda>r. push_bit (nat (30 - Bits r)) 1) rs"] le words
    by (simp add: comp_def)
  with four show "unat t * 4 = (\<Sum>r \<leftarrow> rs. 2 ^ host_bits r)"
    by simp
  show "\<not> MaxInt32 < t"
    using le t by (simp add: MaxInt32_def word_less_nat_alt)
qed

text \<open>
  C35: for an IPv4 prefix, the available prefixes that \<open>Usage\<close> lists are disjoint, lie in the space
  that no acquired child takes, and leave out no free block of at least four addresses; the number
  of smallest prefixes is the number of addresses they have, divided by four.
\<close>

theorem usage_available_ipv4:
  assumes nx: "netipx_laws nx B BS IS" and wf: "wf_prefix p" and q: "ParsePrefix (Cidr p) = Inr q"
    and v4: "Is4 (Addr q)"
  shows "\<exists>rs. AvailablePrefixes (Prefix_Usage nx p) = map prefix_String rs \<and>
    (\<forall>r \<in> set rs. IsValid r \<and> block r \<subseteq> free_space q (map_lookup (availableChildPrefixes p))) \<and>
    sorted_wrt (\<lambda>r r'. block r \<inter> block r' = {}) rs \<and>
    (\<forall>r. IsValid r \<and> Bits r \<le> 30 \<and> block r \<subseteq> free_space q (map_lookup (availableChildPrefixes p)) \<longrightarrow>
       (\<exists>r' \<in> set rs. block r \<subseteq> block r')) \<and>
    unat (AvailableSmallestPrefixes (Prefix_Usage nx p)) * 4 = card (\<Union> (block ` set rs))"
proof -
  note L = netipx_laws.prefixes_valid [OF nx] netipx_laws.prefixes_union [OF nx]
    netipx_laws.prefixes_disjoint [OF nx] netipx_laws.prefixes_minimal [OF nx]
  let ?free = "free_space q (map_lookup (availableChildPrefixes p))"
  obtain s where s: "IS s = ?free" and eq: "availablePrefixes nx p =
       (let t = \<Sum>r \<leftarrow> filter (\<lambda>r. Bits r \<le> int (BitLen (Addr q)) - 2) (Prefixes nx s).
          push_bit (nat (int (BitLen (Addr q)) - 2 - Bits r)) 1
        in if MaxInt32 < t then MaxInt32 else t,
        map prefix_String (filter (\<lambda>r. Bits r \<le> int (BitLen (Addr q)) - 2) (Prefixes nx s)))"
    using availablePrefixes_eq [OF nx wf q] by blast
  have qv: "IsValid q" "BitLen (Addr q) = 32"
    using ParsePrefix_valid [OF q] v4 by (auto simp: BitLen_Is4)
  define rs where "rs = filter (\<lambda>r. Bits r \<le> 30) (Prefixes nx s)"
  have sub: "block r \<subseteq> ?free" if "r \<in> set (Prefixes nx s)" for r
    using L(2) [of s] that s by blast
  have rv: "IsValid r \<and> BitLen (Addr r) = 32 \<and> Bits r \<le> 30" if "r \<in> set rs" for r
  proof -
    have r: "r \<in> set (Prefixes nx s)" "Bits r \<le> 30"
      using that by (auto simp: rs_def)
    then have "IsValid r"
      using L(1) by blast
    moreover have "Contains q (Addr r)"
      using Contains_self [OF \<open>IsValid r\<close>] sub [OF r(1)] by (auto simp: free_space_def block_def)
    ultimately show ?thesis
      using r(2) qv(2) by (simp add: Contains_iff)
  qed
  then have rvs: "\<forall>r \<in> set rs. IsValid r \<and> BitLen (Addr r) = 32 \<and> Bits r \<le> 30"
    by blast
  have n30: "int (BitLen (Addr q)) - 2 = 30"
    using qv(2) by simp
  have disj: "sorted_wrt (\<lambda>r r'. block r \<inter> block r' = {}) rs"
    using L(3) [of s] by (simp add: rs_def sorted_wrt_filter)
  note card = card_disjoint_blocks [OF _ disj]
  have "\<Union> (block ` set rs) \<subseteq> block q"
    using sub by (auto simp: rs_def free_space_def)
  then have "card (\<Union> (block ` set rs)) \<le> 2 ^ 32"
    using card_sub_block [OF qv(1)] qv(2) by simp
  then have sum: "(\<Sum>r \<leftarrow> rs. 2 ^ host_bits r) \<le> (2::nat) ^ 32"
    using card(2) rvs by simp
  have "availablePrefixes nx p = (\<Sum>r \<leftarrow> rs. push_bit (nat (30 - Bits r)) 1, map prefix_String rs)"
    unfolding eq [unfolded n30, folded rs_def] Let_def if_not_P [OF sum_quarter_blocks(2) [OF rvs sum]] ..
  then have u: "AvailablePrefixes (Prefix_Usage nx p) = map prefix_String rs"
      "unat (AvailableSmallestPrefixes (Prefix_Usage nx p)) * 4 = card (\<Union> (block ` set rs))"
    using sum_quarter_blocks(1) [OF rvs sum] card(2) rvs by (simp_all add: Prefix_Usage_def)
  have least: "\<exists>r' \<in> set rs. block r \<subseteq> block r'" if r: "IsValid r" "Bits r \<le> 30" "block r \<subseteq> ?free" for r
  proof -
    obtain r' where "r' \<in> set (Prefixes nx s)" "block r \<subseteq> block r'" "Bits r' \<le> Bits r"
      using netipx_laws.prefixes_minimal_bits [OF nx r(1) r(3) [folded s]] by blast
    with r(2) show ?thesis
      by (auto simp: rs_def)
  qed
  show ?thesis
  proof (intro exI conjI ballI allI impI)
    show "AvailablePrefixes (Prefix_Usage nx p) = map prefix_String rs"
      "unat (AvailableSmallestPrefixes (Prefix_Usage nx p)) * 4 = card (\<Union> (block ` set rs))"
      by (rule u)+
    show "sorted_wrt (\<lambda>r r'. block r \<inter> block r' = {}) rs"
      by (rule disj)
    show "IsValid r" if "r \<in> set rs" for r
      using that rvs by blast
    show "block r \<subseteq> ?free" if "r \<in> set rs" for r
      using that sub [of r] unfolding rs_def by simp
    show "\<exists>r' \<in> set rs. block r \<subseteq> block r'" if "IsValid r \<and> Bits r \<le> 30 \<and> block r \<subseteq> ?free" for r
      using that least by blast
  qed
qed

definition sample_parent :: Prefix where
  "sample_parent = \<lparr>Cidr = ''10.0.0.0/24'', ParentCidr = [], isParent = True,
     availableChildPrefixes = GoMap [(''10.0.0.0/25'', False), (''10.0.0.128/26'', True)],
     childPrefixLength = 0, ips = GoMap [(''10.0.0.0'', True), (''10.0.0.255'', True)], version = 2\<rparr>"

theorem gob_roundtrip_witness:
  "\<exists>buf. GobEncode sample_parent = Inr buf \<and> GobDecode empty_Prefix buf = Inr (deepCopy sample_parent)"
  using gob_roundtrip [of sample_parent] by (simp add: sample_parent_def)

lemma sample_parent_facts:
  "wf_prefix sample_parent"
  "ParsePrefix (Cidr sample_parent) = Inr \<lparr>Addr = IPv4 0x0A000000, Bits = 24\<rparr>"
  by code_simp+

theorem usage_available_ipv4_witness:
  "\<exists>rs. AvailablePrefixes (Prefix_Usage ref_netipx sample_parent) = map prefix_String rs \<and>
     unat (AvailableSmallestPrefixes (Prefix_Usage ref_netipx sample_parent)) * 4 =
       card (\<Union> (block ` set rs))"
  using usage_available_ipv4 [OF rx.netipx_laws_axioms sample_parent_facts] by auto

text \<open>
  The shift \<open>1 << bits\<close> is taken in 64 bits, not as the power the comment at the code names:
  an IPv6 prefix of length 62 or less of which nothing is acquired is listed as available, and the
  number of available smallest prefixes is reported as zero.
\<close>

theorem usage_ipv6_shift_lost:
  assumes nx: "netipx_laws nx B BS IS" and wf: "wf_prefix p" and q: "ParsePrefix (Cidr p) = Inr q"
    and v6: "Is6 (Addr q)" and m: "Masked q = q" "Bits q \<le> 62"
    and free: "\<not> (\<exists>cp. map_lookup (availableChildPrefixes p) cp = Some False)"
  shows "AvailablePrefixes (Prefix_Usage nx p) = [prefix_String q] \<and>
    AvailableSmallestPrefixes (Prefix_Usage nx p) = 0"
proof -
  have "taken (map_lookup (availableChildPrefixes p)) = {}"
    using free by (auto simp: taken_def)
  then have fs: "free_space q (map_lookup (availableChildPrefixes p)) = block q"
    by (simp add: free_space_def)
  obtain s where s: "IS s = block q" and eq: "availablePrefixes nx p =
       (let t = \<Sum>r \<leftarrow> filter (\<lambda>r. Bits r \<le> int (BitLen (Addr q)) - 2) (Prefixes nx s).
          push_bit (nat (int (BitLen (Addr q)) - 2 - Bits r)) 1
        in if MaxInt32 < t then MaxInt32 else t,
        map prefix_String (filter (\<lambda>r. Bits r \<le> int (BitLen (Addr q)) - 2) (Prefixes nx s)))"
    using availablePrefixes_eq [OF nx wf q] unfolding fs by blast
  have qv: "IsValid q" "BitLen (Addr q) = 128"
    using ParsePrefix_valid [OF q] v6 by (auto simp: BitLen_Is6)
  have ps: "Prefixes nx s = [q]"
    by (rule netipx_laws.Prefixes_whole_block [OF nx qv(1) m(1) s])
  define w where "w = push_bit (nat (126 - Bits q)) (1 :: 64 word)"
  have w: "w = 0"
    unfolding w_def using m(2) by (intro push_bit_word_beyond) simp
  have "availablePrefixes nx p = (let t = w in if MaxInt32 < t then MaxInt32 else t, [prefix_String q])"
    using eq m(2) qv(2) by (simp add: ps w_def)
  then have "availablePrefixes nx p = (0, [prefix_String q])"
    by (simp add: w)
  then show ?thesis
    by (simp add: Prefix_Usage_def)
qed

definition sample_v6 :: Prefix where
  "sample_v6 = \<lparr>Cidr = ''fd00::/48'', ParentCidr = [], isParent = False,
     availableChildPrefixes = GoMap [], childPrefixLength = 0,
     ips = GoMap [(''fd00::'', True)], version = 0\<rparr>"

lemma sample_v6_facts:
  "wf_prefix sample_v6"
  "ParsePrefix (Cidr sample_v6) = Inr \<lparr>Addr = IPv6 0xFD000000000000000000000000000000 [], Bits = 48\<rparr>"
  "Masked \<lparr>Addr = IPv6 0xFD000000000000000000000000000000 [], Bits = 48\<rparr> =
     \<lparr>Addr = IPv6 0xFD000000000000000000000000000000 [], Bits = 48\<rparr>"
  by code_simp+

theorem usage_ipv6_shift_lost_witness:
  "AvailableSmallestPrefixes (Prefix_Usage ref_netipx sample_v6) = 0"
  using usage_ipv6_shift_lost [OF rx.netipx_laws_axioms sample_v6_facts(1,2) _ sample_v6_facts(3)]
  by (simp add: sample_v6_def map_lookup_def)

text \<open>
  \<open>AcquiredPrefixes\<close> counts the children that are marked unavailable, and \<open>AcquiredIPs\<close> the
  allocated addresses, the reserved ones included.
\<close>

theorem usage_acquired:
  assumes "wf_prefix p"
  shows "AcquiredPrefixes (Prefix_Usage nx p) =
      of_nat (card {cp. map_lookup (availableChildPrefixes p) cp = Some False}) \<and>
    AcquiredIPs (Prefix_Usage nx p) = of_nat (card (map_keys (ips p)))"
proof -
  have count: "foldl (\<lambda>count (_, available). if \<not> available then count + 1 else count) n es =
      n + of_nat (length (filter (\<lambda>(_, available). \<not> available) es))"
    for n :: "64 word" and es :: "(string \<times> bool) list"
    by (induction es arbitrary: n) auto
  have ok: "map_ok (availableChildPrefixes p)" "map_ok (ips p)"
    using assms by (auto simp: wf_prefix_def)
  let ?es = "map_entries (availableChildPrefixes p)"
  have d: "distinct (map fst (filter (\<lambda>(_, available). \<not> available) ?es))"
    using ok(1) by (simp add: map_ok_def distinct_map_filter)
  have "fst ` set (filter (\<lambda>(_, available). \<not> available) ?es) =
      {cp. map_lookup (availableChildPrefixes p) cp = Some False}"
    by (auto simp: image_iff map_entries_lookup [OF ok(1), symmetric])
  then have "length (filter (\<lambda>(_, available). \<not> available) ?es) =
      card {cp. map_lookup (availableChildPrefixes p) cp = Some False}"
    using distinct_card [OF d] by simp
  then show ?thesis
    using map_len_card [OF ok(2)] count [of 0 ?es]
    by (simp add: Prefix_Usage_def acquiredPrefixes_def acquiredips_def split: prod.split)
qed

theorem usage_acquired_witness:
  "AcquiredPrefixes (Prefix_Usage ref_netipx sample_parent) =
     of_nat (card {cp. map_lookup (availableChildPrefixes sample_parent) cp = Some False})"
  using usage_acquired [OF sample_parent_facts(1)] by blast

end
