(* ===== verification/Json.thy ===== *)
theory Json
  imports Prefix_Type "HOL-Library.List_Lexorder" "HOL-Library.Char_ord"
begin

text \<open>
  The JSON form of prefixes, \<^verbatim>\<open>src/json.go\<close>. A JSON document is a tree of values; the text between
  the bytes and the tree is the standard library's and is not modelled, so strings stand for
  themselves. \<open>json.Marshal\<close> writes the fields of a struct in their order, the entries of a map
  sorted by key and a nil map as null. \<open>json.Unmarshal\<close> goes through the members of an object in
  order, matches a member with a field up to the case of the name, ignores null and unknown members,
  and reports a value of the wrong kind as an error.
\<close>

datatype json =
  JNull
| JBool bool
| JInt int
| JString string
| JArray "json list"
| JObject "(string \<times> json) list"

record prefixJSON =
  jCidr :: string
  jParentCidr :: string
  Namespace :: string
  AvailableChildPrefixes :: "bool gomap"
  ChildPrefixLength :: int
  IsParent :: bool
  IPs :: "bool gomap"
  Version :: "64 word"

definition empty_prefixJSON :: prefixJSON where
  "empty_prefixJSON = \<lparr>jCidr = [], jParentCidr = [], Namespace = [],
     AvailableChildPrefixes = NilMap, ChildPrefixLength = 0, IsParent = False,
     IPs = NilMap, Version = 0\<rparr>"

definition toPrefix :: "prefixJSON \<Rightarrow> Prefix" where
  "toPrefix j =
     (let p = (if 0 < ChildPrefixLength j then j\<lparr>IsParent := True\<rparr> else j) in
      \<lparr>Cidr = jCidr p, ParentCidr = jParentCidr p, isParent = IsParent p,
       availableChildPrefixes = AvailableChildPrefixes p, childPrefixLength = ChildPrefixLength p,
       ips = IPs p, version = Version p\<rparr>)"

definition toPrefixJSON :: "Prefix \<Rightarrow> prefixJSON" where
  "toPrefixJSON p = \<lparr>jCidr = Cidr p, jParentCidr = ParentCidr p, Namespace = [],
     AvailableChildPrefixes = availableChildPrefixes p, ChildPrefixLength = childPrefixLength p,
     IsParent = isParent p, IPs = ips p, Version = version p\<rparr>"

section \<open>Marshalling\<close>

fun marshal_map :: "bool gomap \<Rightarrow> json" where
  "marshal_map NilMap = JNull"
| "marshal_map (GoMap es) = JObject (map (\<lambda>(k, b). (k, JBool b)) (sort_key fst es))"

definition marshal_prefix :: "prefixJSON \<Rightarrow> json" where
  "marshal_prefix j = JObject
     [(''Cidr'', JString (jCidr j)),
      (''ParentCidr'', JString (jParentCidr j)),
      (''Namespace'', JString (Namespace j)),
      (''AvailableChildPrefixes'', marshal_map (AvailableChildPrefixes j)),
      (''ChildPrefixLength'', JInt (ChildPrefixLength j)),
      (''IsParent'', JBool (IsParent j)),
      (''IPs'', marshal_map (IPs j)),
      (''Version'', JInt (sint (Version j)))]"

definition Prefix_toJSON :: "Prefix \<Rightarrow> json result" where
  "Prefix_toJSON p = Inr (marshal_prefix (toPrefixJSON p))"

text \<open>A nil slice is written as null: \<open>pfxjs\<close> is nil until the first prefix is appended.\<close>

definition Prefixes_toJSON :: "Prefix list \<Rightarrow> json result" where
  "Prefixes_toJSON ps =
     Inr (if ps = [] then JNull else JArray (map (\<lambda>p. marshal_prefix (toPrefixJSON p)) ps))"

section \<open>Unmarshalling\<close>

definition type_error :: go_error where
  "type_error = Errorf ''json: cannot unmarshal value into Go value'' []"

fun unmarshal_string :: "json \<Rightarrow> string \<Rightarrow> string result" where
  "unmarshal_string JNull old = Inr old"
| "unmarshal_string (JString s) old = Inr s"
| "unmarshal_string _ old = Inl type_error"

fun unmarshal_bool :: "json \<Rightarrow> bool \<Rightarrow> bool result" where
  "unmarshal_bool JNull old = Inr old"
| "unmarshal_bool (JBool b) old = Inr b"
| "unmarshal_bool _ old = Inl type_error"

fun unmarshal_int :: "json \<Rightarrow> int \<Rightarrow> int result" where
  "unmarshal_int JNull old = Inr old"
| "unmarshal_int (JInt n) old = (if - (2 ^ 63) \<le> n \<and> n < 2 ^ 63 then Inr n else Inl type_error)"
| "unmarshal_int _ old = Inl type_error"

primrec unmarshal_entries :: "(string \<times> json) list \<Rightarrow> (string \<times> bool) list \<Rightarrow> (string \<times> bool) list result" where
  "unmarshal_entries [] es = Inr es"
| "unmarshal_entries (m # ms) es = (case unmarshal_bool (snd m) False of
      Inl err \<Rightarrow> Inl err
    | Inr b \<Rightarrow> unmarshal_entries ms (AList.update (fst m) b es))"

fun unmarshal_map :: "json \<Rightarrow> bool gomap \<Rightarrow> bool gomap result" where
  "unmarshal_map JNull old = Inr NilMap"
| "unmarshal_map (JObject ms) old = (case unmarshal_entries ms (map_entries old) of
      Inl err \<Rightarrow> Inl err
    | Inr es \<Rightarrow> Inr (GoMap es))"
| "unmarshal_map _ old = Inl type_error"

text \<open>
  Names are compared after folding: the capital letters, and the two characters outside ASCII that
  fold to a letter, the long s and the Kelvin sign.
\<close>

fun fold_name :: "string \<Rightarrow> string" where
  "fold_name [] = []"
| "fold_name (c # cs) =
     (if c = CHR 0xC5 \<and> take 1 cs = [CHR 0xBF] then CHR ''s'' # fold_name (drop 1 cs)
      else if c = CHR 0xE2 \<and> take 2 cs = [CHR 0x84, CHR 0xAA] then CHR ''k'' # fold_name (drop 2 cs)
      else (if 65 \<le> (of_char c :: nat) \<and> (of_char c :: nat) \<le> 90 then char_of ((of_char c :: nat) + 32) else c)
             # fold_name cs)"

definition field_names :: "string list" where
  "field_names = [''Cidr'', ''ParentCidr'', ''Namespace'', ''AvailableChildPrefixes'',
     ''ChildPrefixLength'', ''IsParent'', ''IPs'', ''Version'']"

definition field_for :: "string \<Rightarrow> string option" where
  "field_for name =
     (if name \<in> set field_names then Some name
      else List.find (\<lambda>f. fold_name f = fold_name name) field_names)"

definition upd_result :: "'a result \<Rightarrow> ('a \<Rightarrow> 'b) \<Rightarrow> 'b result" where
  "upd_result r f = (case r of Inl err \<Rightarrow> Inl err | Inr x \<Rightarrow> Inr (f x))"

definition set_field :: "string \<Rightarrow> json \<Rightarrow> prefixJSON \<Rightarrow> prefixJSON result" where
  "set_field name v j = (case field_for name of
      None \<Rightarrow> Inr j
    | Some f \<Rightarrow>
        if f = ''Cidr'' then upd_result (unmarshal_string v (jCidr j)) (\<lambda>x. j\<lparr>jCidr := x\<rparr>)
        else if f = ''ParentCidr'' then upd_result (unmarshal_string v (jParentCidr j)) (\<lambda>x. j\<lparr>jParentCidr := x\<rparr>)
        else if f = ''Namespace'' then upd_result (unmarshal_string v (Namespace j)) (\<lambda>x. j\<lparr>Namespace := x\<rparr>)
        else if f = ''AvailableChildPrefixes'' then
          upd_result (unmarshal_map v (AvailableChildPrefixes j)) (\<lambda>x. j\<lparr>AvailableChildPrefixes := x\<rparr>)
        else if f = ''ChildPrefixLength'' then
          upd_result (unmarshal_int v (ChildPrefixLength j)) (\<lambda>x. j\<lparr>ChildPrefixLength := x\<rparr>)
        else if f = ''IsParent'' then upd_result (unmarshal_bool v (IsParent j)) (\<lambda>x. j\<lparr>IsParent := x\<rparr>)
        else if f = ''IPs'' then upd_result (unmarshal_map v (IPs j)) (\<lambda>x. j\<lparr>IPs := x\<rparr>)
        else upd_result (unmarshal_int v (sint (Version j))) (\<lambda>x. j\<lparr>Version := word_of_int x\<rparr>))"

primrec set_fields :: "(string \<times> json) list \<Rightarrow> prefixJSON \<Rightarrow> prefixJSON result" where
  "set_fields [] j = Inr j"
| "set_fields (m # ms) j = (case set_field (fst m) (snd m) j of
      Inl err \<Rightarrow> Inl err
    | Inr j' \<Rightarrow> set_fields ms j')"

fun unmarshal_prefix :: "json \<Rightarrow> prefixJSON result" where
  "unmarshal_prefix JNull = Inr empty_prefixJSON"
| "unmarshal_prefix (JObject ms) = set_fields ms empty_prefixJSON"
| "unmarshal_prefix _ = Inl type_error"

primrec unmarshal_list :: "json list \<Rightarrow> prefixJSON list result" where
  "unmarshal_list [] = Inr []"
| "unmarshal_list (j # js) = (case unmarshal_prefix j of
      Inl err \<Rightarrow> Inl err
    | Inr p \<Rightarrow> (case unmarshal_list js of Inl err \<Rightarrow> Inl err | Inr ps \<Rightarrow> Inr (p # ps)))"

fun unmarshal_prefixes :: "json \<Rightarrow> prefixJSON list result" where
  "unmarshal_prefixes JNull = Inr []"
| "unmarshal_prefixes (JArray js) = unmarshal_list js"
| "unmarshal_prefixes _ = Inl type_error"

definition fromJSON :: "json \<Rightarrow> Prefix result" where
  "fromJSON js = (case unmarshal_prefix js of
      Inl err \<Rightarrow> Inl (Errorf ''unable to unmarshal prefix:%w'' [err])
    | Inr pre \<Rightarrow> Inr (toPrefix pre))"

definition fromJSONs :: "json \<Rightarrow> Prefix list result" where
  "fromJSONs js = (case unmarshal_prefixes js of
      Inl err \<Rightarrow> Inl (Errorf ''unable to unmarshal prefixes:%w'' [err])
    | Inr pres \<Rightarrow> Inr (map toPrefix pres))"

section \<open>Round trips\<close>

text \<open>A map after it was written and read: its entries are sorted by key.\<close>

primrec sorted_map :: "bool gomap \<Rightarrow> bool gomap" where
  "sorted_map NilMap = NilMap"
| "sorted_map (GoMap es) = GoMap (sort_key fst es)"

definition reread :: "Prefix \<Rightarrow> Prefix" where
  "reread p = p\<lparr>isParent := isParent p \<or> 0 < childPrefixLength p,
     availableChildPrefixes := sorted_map (availableChildPrefixes p), ips := sorted_map (ips p)\<rparr>"

lemma unmarshal_entries_bools:
  "unmarshal_entries (map (\<lambda>(k, b). (k, JBool b)) es) acc =
     Inr (foldl (\<lambda>cm (k, v). AList.update k v cm) acc es)"
  by (induction es arbitrary: acc) auto

lemma unmarshal_marshal_map:
  assumes "distinct (map fst (map_entries m))"
  shows "unmarshal_map (marshal_map m) NilMap = Inr (sorted_map m)"
proof (cases m)
  case (GoMap es)
  have "distinct (map fst (sort_key fst es))"
    using assms GoMap by (simp add: distinct_map)
  then show ?thesis
    by (simp add: GoMap unmarshal_entries_bools copy_entries)
qed simp

lemma sorted_map_lookup:
  assumes "distinct (map fst (map_entries m))"
  shows "map_lookup (sorted_map m) = map_lookup m"
proof (cases m)
  case (GoMap es)
  have d: "distinct (map fst (sort_key fst es))"
    using assms GoMap by (simp add: distinct_map)
  have "map_of (sort_key fst es) = map_of es"
    using d assms GoMap by (intro map_of_inject_set [THEN iffD2]) simp_all
  then show ?thesis
    by (simp add: GoMap map_lookup_def)
qed simp

lemma sorted_map_ok: "map_ok m \<Longrightarrow> map_ok (sorted_map m)"
  by (cases m) (auto simp: map_ok_def distinct_map)

lemma set_field_simps:
  "set_field ''Cidr'' v j = upd_result (unmarshal_string v (jCidr j)) (\<lambda>x. j\<lparr>jCidr := x\<rparr>)"
  "set_field ''ParentCidr'' v j = upd_result (unmarshal_string v (jParentCidr j)) (\<lambda>x. j\<lparr>jParentCidr := x\<rparr>)"
  "set_field ''Namespace'' v j = upd_result (unmarshal_string v (Namespace j)) (\<lambda>x. j\<lparr>Namespace := x\<rparr>)"
  "set_field ''AvailableChildPrefixes'' v j =
     upd_result (unmarshal_map v (AvailableChildPrefixes j)) (\<lambda>x. j\<lparr>AvailableChildPrefixes := x\<rparr>)"
  "set_field ''ChildPrefixLength'' v j =
     upd_result (unmarshal_int v (ChildPrefixLength j)) (\<lambda>x. j\<lparr>ChildPrefixLength := x\<rparr>)"
  "set_field ''IsParent'' v j = upd_result (unmarshal_bool v (IsParent j)) (\<lambda>x. j\<lparr>IsParent := x\<rparr>)"
  "set_field ''IPs'' v j = upd_result (unmarshal_map v (IPs j)) (\<lambda>x. j\<lparr>IPs := x\<rparr>)"
  "set_field ''Version'' v j = upd_result (unmarshal_int v (sint (Version j))) (\<lambda>x. j\<lparr>Version := word_of_int x\<rparr>)"
  by (simp_all add: set_field_def field_for_def field_names_def)

definition json_ok :: "Prefix \<Rightarrow> bool" where
  "json_ok p \<longleftrightarrow> distinct (map fst (map_entries (availableChildPrefixes p))) \<and>
     distinct (map fst (map_entries (ips p))) \<and>
     - (2 ^ 63) \<le> childPrefixLength p \<and> childPrefixLength p < 2 ^ 63"

lemma unmarshal_marshal_prefix:
  assumes "json_ok p"
  shows "unmarshal_prefix (marshal_prefix (toPrefixJSON p)) =
     Inr ((toPrefixJSON p)\<lparr>AvailableChildPrefixes := sorted_map (availableChildPrefixes p),
       IPs := sorted_map (ips p)\<rparr>)"
proof -
  have "- (2 ^ 63) \<le> sint (version p) \<and> sint (version p) < 2 ^ 63"
    using sint_ge [of "version p"] sint_lt [of "version p"] by simp
  with assms show ?thesis
    by (simp add: json_ok_def marshal_prefix_def set_field_simps upd_result_def empty_prefixJSON_def
        toPrefixJSON_def unmarshal_marshal_map)
qed

text \<open>
  C34: reading back the JSON of a prefix gives its fields back, its maps sorted; a prefix in the
  legacy form, with a length of children, comes back as a parent.
\<close>

theorem json_roundtrip:
  assumes "json_ok p"
  shows "\<exists>js. Prefix_toJSON p = Inr js \<and> fromJSON js = Inr (reread p)"
  using unmarshal_marshal_prefix [OF assms]
  by (simp add: Prefix_toJSON_def fromJSON_def toPrefix_def reread_def toPrefixJSON_def)

theorem json_roundtrip_witness:
  "\<exists>js. Prefix_toJSON sample_parent = Inr js \<and> fromJSON js = Inr (reread sample_parent)"
  using json_roundtrip [of sample_parent] by (simp add: sample_parent_def json_ok_def)

lemma fromJSON_marshal: "json_ok p \<Longrightarrow> fromJSON (marshal_prefix (toPrefixJSON p)) = Inr (reread p)"
  using unmarshal_marshal_prefix
  by (simp add: fromJSON_def toPrefix_def reread_def toPrefixJSON_def)

lemma wf_json_ok: "wf_prefix p \<Longrightarrow> json_ok p"
  by (simp add: wf_prefix_def json_ok_def map_ok_def)

lemma reread_wf: "wf_prefix p \<Longrightarrow> wf_prefix (reread p)"
  by (simp add: wf_prefix_def reread_def sorted_map_ok)

lemma reread_abs: "wf_prefix p \<Longrightarrow> abs_prefix (reread p) = abs_prefix p"
  by (simp add: wf_prefix_def reread_def abs_prefix_def map_ok_def sorted_map_lookup)

lemma reread_Cidr [simp]: "Cidr (reread p) = Cidr p"
  by (simp add: reread_def)

lemma Prefixes_roundtrip:
  assumes "\<forall>p \<in> set ps. json_ok p"
  shows "\<exists>js. Prefixes_toJSON ps = Inr js \<and> fromJSONs js = Inr (map reread ps)"
proof -
  have "\<exists>pjs. unmarshal_list (map (\<lambda>p. marshal_prefix (toPrefixJSON p)) ps) = Inr pjs \<and>
      map toPrefix pjs = map reread ps"
    using assms
  proof (induction ps)
    case (Cons p ps)
    then show ?case
      using unmarshal_marshal_prefix [of p] fromJSON_marshal [of p]
      by (auto simp: fromJSON_def split: sum.splits)
  qed simp
  then show ?thesis
    by (auto simp: Prefixes_toJSON_def fromJSONs_def)
qed

end
