(* ===== verification/Storage.thy ===== *)
theory Storage
  imports Json
begin

text \<open>
  The interface \<open>Storage\<close> of \<^verbatim>\<open>src/storage.go\<close> as a record of operations on a state, and the
  contract its users rely on. The contract is stated over an abstract view of the state: the
  namespaces that exist, each with the abstract prefixes it holds by cidr. \<open>invar\<close> is what a backend
  keeps true of its state, \<open>ok_ns\<close> says which names it accepts for a new namespace.
\<close>

section \<open>The operations\<close>

record 's storage =
  Name :: string
  CreatePrefix :: "Prefix \<Rightarrow> string \<Rightarrow> ('s, Prefix) comp"
  ReadPrefix :: "string \<Rightarrow> string \<Rightarrow> ('s, Prefix) comp"
  DeleteAllPrefixes :: "string \<Rightarrow> ('s, unit) comp"
  ReadAllPrefixes :: "string \<Rightarrow> ('s, Prefix list) comp"
  ReadAllPrefixCidrs :: "string \<Rightarrow> ('s, string list) comp"
  UpdatePrefix :: "Prefix \<Rightarrow> string \<Rightarrow> ('s, Prefix) comp"
  DeletePrefix :: "Prefix \<Rightarrow> string \<Rightarrow> ('s, Prefix) comp"
  CreateNamespace :: "string \<Rightarrow> ('s, unit) comp"
  ListNamespaces :: "('s, string list) comp"
  DeleteNamespace :: "string \<Rightarrow> ('s, unit) comp"

text \<open>The namespace every backend creates at the start.\<close>

definition defaultNamespace :: string where
  "defaultNamespace = ''root''"

type_synonym namespace_view = "string \<rightharpoonup> aprefix"
type_synonym store_view = "string \<rightharpoonup> namespace_view"

text \<open>The value a successful \<open>UpdatePrefix\<close> stores: the given prefix with the next version.\<close>

definition next_version :: "Prefix \<Rightarrow> Prefix" where
  "next_version p = p\<lparr>version := version p + 1\<rparr>"

lemma next_version_simps [simp]:
  "Cidr (next_version p) = Cidr p" "ParentCidr (next_version p) = ParentCidr p"
  "isParent (next_version p) = isParent p" "ips (next_version p) = ips p"
  "availableChildPrefixes (next_version p) = availableChildPrefixes p"
  "version (next_version p) = version p + 1" "wf_prefix (next_version p) = wf_prefix p"
  by (simp_all add: next_version_def wf_prefix_def)

lemma abs_next_version: "abs_prefix (next_version p) = (abs_prefix p)\<lparr>aVersion := version p + 1\<rparr>"
  by (simp add: abs_prefix_def next_version_def)

lemma version_same: "version p = 0 \<Longrightarrow> p\<lparr>version := 0\<rparr> = p"
  by (cases p) simp

section \<open>The contract\<close>

locale storage_laws =
  fixes st :: "'s storage"
    and invar :: "'s \<Rightarrow> bool"
    and view :: "'s \<Rightarrow> store_view"
    and ok_ns :: "string \<Rightarrow> bool"
  assumes view_cidr: "invar s \<Longrightarrow> view s ns = Some m \<Longrightarrow> m c = Some a \<Longrightarrow> aCidr a = c \<and> c \<noteq> []"
    and view_finite: "invar s \<Longrightarrow> view s ns = Some m \<Longrightarrow> finite (dom m)"
    and create_any: "invar s \<Longrightarrow> view s ns = Some m \<Longrightarrow> wf_prefix p \<Longrightarrow> Cidr p \<noteq> [] \<Longrightarrow> m (Cidr p) = None \<Longrightarrow>
      \<exists>q s'. (q = p \<or> q = p\<lparr>version := 0\<rparr>) \<and> CreatePrefix st p ns s = (Inr q, s') \<and> invar s' \<and>
        view s' = (view s)(ns \<mapsto> m(Cidr p \<mapsto> abs_prefix q))"
    and create_exists: "invar s \<Longrightarrow> view s ns = Some m \<Longrightarrow> wf_prefix p \<Longrightarrow> m (Cidr p) \<noteq> None \<Longrightarrow>
      CreatePrefix st p ns s = (r, s') \<Longrightarrow> invar s' \<and> view s' = view s"
    and read: "invar s \<Longrightarrow> view s ns = Some m \<Longrightarrow> m c = Some a \<Longrightarrow>
      \<exists>p s'. ReadPrefix st c ns s = (Inr p, s') \<and> abs_prefix p = a \<and> wf_prefix p \<and> invar s' \<and> view s' = view s"
    and read_missing: "invar s \<Longrightarrow> view s ns = Some m \<Longrightarrow> m c = None \<Longrightarrow>
      \<exists>e s'. ReadPrefix st c ns s = (Inl e, s') \<and> errors_is e ErrNotFound \<and> invar s' \<and> view s' = view s"
    and delete_all: "invar s \<Longrightarrow> view s ns = Some m \<Longrightarrow>
      \<exists>s'. DeleteAllPrefixes st ns s = (Inr (), s') \<and> invar s' \<and> view s' = (view s)(ns \<mapsto> Map.empty)"
    and read_all: "invar s \<Longrightarrow> view s ns = Some m \<Longrightarrow>
      \<exists>ps s'. ReadAllPrefixes st ns s = (Inr ps, s') \<and> distinct (map Cidr ps) \<and>
        (\<forall>p \<in> set ps. wf_prefix p) \<and> map_of (map (\<lambda>p. (Cidr p, abs_prefix p)) ps) = m \<and>
        invar s' \<and> view s' = view s"
    and read_cidrs: "invar s \<Longrightarrow> view s ns = Some m \<Longrightarrow>
      \<exists>cs s'. ReadAllPrefixCidrs st ns s = (Inr cs, s') \<and> distinct cs \<and> set cs = dom m \<and>
        invar s' \<and> view s' = view s"
    and update: "invar s \<Longrightarrow> view s ns = Some m \<Longrightarrow> wf_prefix p \<Longrightarrow> m (Cidr p) = Some a \<Longrightarrow>
        aVersion a = version p \<Longrightarrow>
      \<exists>s'. UpdatePrefix st p ns s = (Inr (next_version p), s') \<and> invar s' \<and>
        view s' = (view s)(ns \<mapsto> m(Cidr p \<mapsto> abs_prefix (next_version p)))"
    and update_stale: "invar s \<Longrightarrow> view s ns = Some m \<Longrightarrow> wf_prefix p \<Longrightarrow> m (Cidr p) = Some a \<Longrightarrow>
        aVersion a \<noteq> version p \<Longrightarrow>
      \<exists>e s'. UpdatePrefix st p ns s = (Inl e, s') \<and> errors_is e ErrOptimisticLockError \<and>
        invar s' \<and> view s' = view s"
    and update_missing: "invar s \<Longrightarrow> view s ns = Some m \<Longrightarrow> wf_prefix p \<Longrightarrow> m (Cidr p) = None \<Longrightarrow>
      \<exists>e s'. UpdatePrefix st p ns s = (Inl e, s') \<and> invar s' \<and> view s' = view s"
    and delete: "invar s \<Longrightarrow> view s ns = Some m \<Longrightarrow> wf_prefix p \<Longrightarrow> m (Cidr p) = Some a \<Longrightarrow>
      \<exists>q s'. DeletePrefix st p ns s = (Inr q, s') \<and> (abs_prefix p = a \<longrightarrow> abs_prefix q = a) \<and>
        invar s' \<and> view s' = (view s)(ns \<mapsto> m(Cidr p := None))"
    and delete_missing: "invar s \<Longrightarrow> view s ns = Some m \<Longrightarrow> wf_prefix p \<Longrightarrow> m (Cidr p) = None \<Longrightarrow>
      DeletePrefix st p ns s = (r, s') \<Longrightarrow> invar s' \<and> view s' = view s"
    and create_ns: "invar s \<Longrightarrow> ok_ns ns \<Longrightarrow>
      \<exists>s'. CreateNamespace st ns s = (Inr (), s') \<and> invar s' \<and>
        view s' = (case view s ns of None \<Rightarrow> (view s)(ns \<mapsto> Map.empty) | Some m \<Rightarrow> view s)"
    and list_ns: "invar s \<Longrightarrow>
      \<exists>nss s'. ListNamespaces st s = (Inr nss, s') \<and> distinct nss \<and> set nss = dom (view s) \<and>
        invar s' \<and> view s' = view s"
    and no_ns: "invar s \<Longrightarrow> view s ns = None \<Longrightarrow>
      (\<exists>e s'. CreatePrefix st p ns s = (Inl e, s') \<and> errors_is e ErrNamespaceDoesNotExist \<and> invar s' \<and> view s' = view s) \<and>
      (\<exists>e s'. ReadPrefix st c ns s = (Inl e, s') \<and> errors_is e ErrNamespaceDoesNotExist \<and> invar s' \<and> view s' = view s) \<and>
      (\<exists>e s'. ReadAllPrefixes st ns s = (Inl e, s') \<and> errors_is e ErrNamespaceDoesNotExist \<and> invar s' \<and> view s' = view s) \<and>
      (\<exists>e s'. ReadAllPrefixCidrs st ns s = (Inl e, s') \<and> errors_is e ErrNamespaceDoesNotExist \<and> invar s' \<and> view s' = view s) \<and>
      (\<exists>e s'. DeletePrefix st p ns s = (Inl e, s') \<and> errors_is e ErrNamespaceDoesNotExist \<and> invar s' \<and> view s' = view s) \<and>
      (\<exists>e s'. DeleteNamespace st ns s = (Inl e, s') \<and> errors_is e ErrNamespaceDoesNotExist \<and> invar s' \<and> view s' = view s) \<and>
      (Cidr p \<noteq> [] \<longrightarrow> (\<exists>e s'. UpdatePrefix st p ns s = (Inl e, s') \<and> errors_is e ErrNamespaceDoesNotExist \<and> invar s' \<and> view s' = view s))"
begin

text \<open>A new prefix keeps its version, or starts again at 0; the ipamer creates prefixes with version 0.\<close>

lemma create:
  assumes "invar s" "view s ns = Some m" "wf_prefix p" "version p = 0" "Cidr p \<noteq> []" "m (Cidr p) = None"
  shows "\<exists>s'. CreatePrefix st p ns s = (Inr p, s') \<and> invar s' \<and> view s' = (view s)(ns \<mapsto> m(Cidr p \<mapsto> abs_prefix p))"
  using create_any [OF assms(1-3,5,6)] assms(4) by (metis version_same)

lemmas no_ns_create = no_ns [THEN conjunct1]
  and no_ns_read = no_ns [THEN conjunct2, THEN conjunct1]
  and no_ns_read_all = no_ns [THEN conjunct2, THEN conjunct2, THEN conjunct1]
  and no_ns_read_cidrs = no_ns [THEN conjunct2, THEN conjunct2, THEN conjunct2, THEN conjunct1]
  and no_ns_delete = no_ns [THEN conjunct2, THEN conjunct2, THEN conjunct2, THEN conjunct2, THEN conjunct1]

text \<open>What every operation keeps: other namespaces are not touched.\<close>

lemma update_other_ns:
  assumes "invar s" "view s ns = Some m" "wf_prefix p" "UpdatePrefix st p ns s = (r, s')" "ns' \<noteq> ns"
  shows "view s' ns' = view s ns'"
proof (cases "m (Cidr p)")
  case None
  with update_missing [OF assms(1-3)] assms(4) show ?thesis
    by auto
next
  case (Some a)
  with update [OF assms(1-3) Some] update_stale [OF assms(1-3) Some] assms(4,5) show ?thesis
    by (cases "aVersion a = version p") auto
qed

end

text \<open>The contract of a backend that also deletes namespaces.\<close>

locale full_storage_laws = storage_laws +
  assumes delete_ns: "invar s \<Longrightarrow> view s ns = Some m \<Longrightarrow>
      \<exists>s'. DeleteNamespace st ns s = (Inr (), s') \<and> invar s' \<and> view s' = (view s)(ns := None)"

end
