(* ===== verification/Memory.thy ===== *)
theory Memory
  imports Storage
begin

text \<open>
  The in-memory storage, \<^verbatim>\<open>src/memory.go\<close>: a Go map of namespaces to Go maps of prefixes. Every
  operation runs under the lock of the storage (\<open>DeleteNamespace\<close> takes none), so an operation is
  one step on the state. The interpretation \<open>mem\<close> shows that the operations meet the contract of
  \<open>Storage\<close>.
\<close>

section \<open>State and operations\<close>

type_synonym memory = "Prefix gomap gomap"

text \<open>\<open>m.prefixes[namespace][cidr] = p\<close>.\<close>

definition put_prefix :: "string \<Rightarrow> string \<Rightarrow> Prefix \<Rightarrow> memory \<Rightarrow> memory result" where
  "put_prefix namespace cidr p m = (case map_lookup m namespace of
      None \<Rightarrow> Inl PanicNilMap
    | Some inner \<Rightarrow> (case map_insert inner cidr p of
        Inl err \<Rightarrow> Inl err
      | Inr inner' \<Rightarrow> map_insert m namespace inner'))"

definition memory_CreatePrefix :: "Prefix \<Rightarrow> string \<Rightarrow> (memory, Prefix) comp" where
  "memory_CreatePrefix prefix namespace m = (case map_lookup m namespace of
      None \<Rightarrow> (Inl (Sentinel ErrNamespaceDoesNotExist), m)
    | Some ps \<Rightarrow>
        if map_lookup ps (Cidr prefix) \<noteq> None then (Inl (Errorf ''prefix already created:%v'' []), m)
        else (case put_prefix namespace (Cidr prefix) (deepCopy prefix) m of
            Inl err \<Rightarrow> (Inl err, m)
          | Inr m' \<Rightarrow> (Inr prefix, m')))"

definition memory_ReadPrefix :: "string \<Rightarrow> string \<Rightarrow> (memory, Prefix) comp" where
  "memory_ReadPrefix prefix namespace m = (case map_lookup m namespace of
      None \<Rightarrow> (Inl (Sentinel ErrNamespaceDoesNotExist), m)
    | Some ps \<Rightarrow> (case map_lookup ps prefix of
        None \<Rightarrow> (Inl (Errorf ''%w prefix %s not found'' [Sentinel ErrNotFound]), m)
      | Some result \<Rightarrow> (Inr (deepCopy result), m)))"

definition memory_DeleteAllPrefixes :: "string \<Rightarrow> (memory, unit) comp" where
  "memory_DeleteAllPrefixes namespace m = (case map_insert m namespace make_map of
      Inl err \<Rightarrow> (Inl err, m)
    | Inr m' \<Rightarrow> (Inr (), m'))"

definition memory_ReadAllPrefixes :: "string \<Rightarrow> (memory, Prefix list) comp" where
  "memory_ReadAllPrefixes namespace m = (case map_lookup m namespace of
      None \<Rightarrow> (Inl (Sentinel ErrNamespaceDoesNotExist), m)
    | Some ps \<Rightarrow> (Inr (map (\<lambda>(_, v). deepCopy v) (map_entries ps)), m))"

definition memory_ReadAllPrefixCidrs :: "string \<Rightarrow> (memory, string list) comp" where
  "memory_ReadAllPrefixCidrs namespace m = (case map_lookup m namespace of
      None \<Rightarrow> (Inl (Sentinel ErrNamespaceDoesNotExist), m)
    | Some ps \<Rightarrow> (Inr (map (\<lambda>(_, v). Cidr v) (map_entries ps)), m))"

definition memory_UpdatePrefix :: "Prefix \<Rightarrow> string \<Rightarrow> (memory, Prefix) comp" where
  "memory_UpdatePrefix prefix namespace m =
     (let oldVersion = version prefix; prefix = prefix\<lparr>version := oldVersion + 1\<rparr> in
      if Cidr prefix = [] then (Inl (Errorf ''prefix not present:%v'' []), m)
      else (case map_lookup m namespace of
          None \<Rightarrow> (Inl (Sentinel ErrNamespaceDoesNotExist), m)
        | Some ps \<Rightarrow> (case map_lookup ps (Cidr prefix) of
            None \<Rightarrow> (Inl (Errorf ''prefix not found:%s'' []), m)
          | Some oldPrefix \<Rightarrow>
              if version oldPrefix \<noteq> oldVersion then
                (Inl (Errorf ''%w: unable to update prefix:%s'' [Sentinel ErrOptimisticLockError]), m)
              else (case put_prefix namespace (Cidr prefix) (deepCopy prefix) m of
                  Inl err \<Rightarrow> (Inl err, m)
                | Inr m' \<Rightarrow> (Inr prefix, m')))))"

definition memory_DeletePrefix :: "Prefix \<Rightarrow> string \<Rightarrow> (memory, Prefix) comp" where
  "memory_DeletePrefix prefix namespace m = (case map_lookup m namespace of
      None \<Rightarrow> (Inl (Sentinel ErrNamespaceDoesNotExist), m)
    | Some ps \<Rightarrow> (case map_insert m namespace (map_delete ps (Cidr prefix)) of
        Inl err \<Rightarrow> (Inl err, m)
      | Inr m' \<Rightarrow> (Inr (deepCopy prefix), m')))"

definition memory_CreateNamespace :: "string \<Rightarrow> (memory, unit) comp" where
  "memory_CreateNamespace namespace m =
     (if map_lookup m namespace = None then
        (case map_insert m namespace make_map of
           Inl err \<Rightarrow> (Inl err, m)
         | Inr m' \<Rightarrow> (Inr (), m'))
      else (Inr (), m))"

definition memory_ListNamespaces :: "(memory, string list) comp" where
  "memory_ListNamespaces m = (Inr (map fst (map_entries m)), m)"

definition memory_DeleteNamespace :: "string \<Rightarrow> (memory, unit) comp" where
  "memory_DeleteNamespace namespace m =
     (if map_lookup m namespace = None then (Inl (Sentinel ErrNamespaceDoesNotExist), m)
      else (Inr (), map_delete m namespace))"

definition NewMemory :: memory where
  "NewMemory = snd (memory_CreateNamespace defaultNamespace make_map)"

definition memory_storage :: "memory storage" where
  "memory_storage = \<lparr>Name = ''memory'', CreatePrefix = memory_CreatePrefix,
     ReadPrefix = memory_ReadPrefix, DeleteAllPrefixes = memory_DeleteAllPrefixes,
     ReadAllPrefixes = memory_ReadAllPrefixes, ReadAllPrefixCidrs = memory_ReadAllPrefixCidrs,
     UpdatePrefix = memory_UpdatePrefix, DeletePrefix = memory_DeletePrefix,
     CreateNamespace = memory_CreateNamespace, ListNamespaces = memory_ListNamespaces,
     DeleteNamespace = memory_DeleteNamespace\<rparr>"

section \<open>Invariant and view\<close>

definition entry_ok :: "string \<Rightarrow> Prefix \<Rightarrow> bool" where
  "entry_ok c p \<longleftrightarrow> wf_prefix p \<and> Cidr p = c \<and> c \<noteq> []"

definition inner_ok :: "Prefix gomap \<Rightarrow> bool" where
  "inner_ok ps \<longleftrightarrow> map_ok ps \<and> list_all (\<lambda>(c, p). entry_ok c p) (map_entries ps)"

definition memory_inv :: "memory \<Rightarrow> bool" where
  "memory_inv m \<longleftrightarrow> map_ok m \<and> list_all (\<lambda>(_, ps). inner_ok ps) (map_entries m)"

definition inner_view :: "Prefix gomap \<Rightarrow> namespace_view" where
  "inner_view ps c = map_option abs_prefix (map_lookup ps c)"

definition memory_view :: "memory \<Rightarrow> store_view" where
  "memory_view m ns = map_option inner_view (map_lookup m ns)"

lemma inner_okD:
  assumes "inner_ok ps"
  shows "map_ok ps" "map_lookup ps c = Some p \<Longrightarrow> entry_ok c p"
  using assms by (auto simp: inner_ok_def list_all_iff map_entries_lookup [symmetric])

lemma memory_invD:
  assumes "memory_inv m"
  shows "map_ok m" "map_lookup m ns = Some ps \<Longrightarrow> inner_ok ps"
  using assms by (auto simp: memory_inv_def list_all_iff map_entries_lookup [symmetric])

lemma inner_okI:
  assumes "map_ok ps" "\<And>c p. map_lookup ps c = Some p \<Longrightarrow> entry_ok c p"
  shows "inner_ok ps"
  using assms by (auto simp: inner_ok_def list_all_iff map_entries_lookup)

lemma memory_invI:
  assumes "map_ok m" "\<And>ns ps. map_lookup m ns = Some ps \<Longrightarrow> inner_ok ps"
  shows "memory_inv m"
  using assms by (auto simp: memory_inv_def list_all_iff map_entries_lookup)

lemma inner_ok_make_map [simp]: "inner_ok make_map"
  by (rule inner_okI) simp_all

lemma inner_view_make_map [simp]: "inner_view make_map = Map.empty"
  by (simp add: inner_view_def fun_eq_iff)

text \<open>Replacing one inner map, removing one, and writing one prefix.\<close>

lemma replace_inner:
  assumes "memory_inv m" "inner_ok ps" "map_insert m ns ps = Inr m'"
  shows "memory_inv m'" "memory_view m' = (memory_view m)(ns \<mapsto> inner_view ps)"
proof -
  show "memory_inv m'"
    using assms memory_invD [OF assms(1)] map_insert_Inr [OF assms(3)]
    by (intro memory_invI map_insert_ok [OF assms(3)]) (auto split: if_split_asm)
  show "memory_view m' = (memory_view m)(ns \<mapsto> inner_view ps)"
    by (simp add: memory_view_def fun_eq_iff map_insert_Inr [OF assms(3)])
qed

lemma insert_inner_ex: "memory_inv m \<Longrightarrow> \<exists>m'. map_insert m ns ps = Inr m'"
  by (rule map_ok_insert_ex) (rule memory_invD)

lemma inner_ok_insert:
  assumes "inner_ok ps" "wf_prefix p" "Cidr p = c" "c \<noteq> []" "map_insert ps c p = Inr ps'"
  shows "inner_ok ps'" "inner_view ps' = (inner_view ps)(c \<mapsto> abs_prefix p)"
proof -
  show "inner_ok ps'"
    using inner_okD [OF assms(1)] map_insert_Inr [OF assms(5)] entry_ok_def [of c p] assms(2,3,4)
    by (intro inner_okI map_insert_ok [OF assms(5)]) (auto split: if_split_asm)
  show "inner_view ps' = (inner_view ps)(c \<mapsto> abs_prefix p)"
    by (simp add: inner_view_def fun_eq_iff map_insert_Inr [OF assms(5)])
qed

lemma inner_ok_delete:
  assumes "inner_ok ps"
  shows "inner_ok (map_delete ps c)" "inner_view (map_delete ps c) = (inner_view ps)(c := None)"
  using inner_okD [OF assms] by (auto simp: inner_view_def fun_eq_iff intro!: inner_okI split: if_split_asm)

lemma put_prefix_ok:
  assumes m: "memory_inv m" and ps: "map_lookup m ns = Some ps" and p: "wf_prefix p" "Cidr p \<noteq> []"
  obtains m' where "put_prefix ns (Cidr p) p m = Inr m'" "memory_inv m'"
    "memory_view m' = (memory_view m)(ns \<mapsto> (inner_view ps)(Cidr p \<mapsto> abs_prefix p))"
proof -
  note ok = memory_invD(2) [OF m ps]
  obtain ps' where ps': "map_insert ps (Cidr p) p = Inr ps'"
    using map_ok_insert_ex [OF inner_okD(1) [OF ok]] by blast
  obtain m' where m': "map_insert m ns ps' = Inr m'"
    using insert_inner_ex [OF m] by blast
  note r = replace_inner [OF m inner_ok_insert(1) [OF ok p(1) refl p(2) ps'] m']
  show ?thesis
    using that r ps ps' m' inner_ok_insert(2) [OF ok p(1) refl p(2) ps'] by (simp add: put_prefix_def)
qed

section \<open>The contract holds\<close>

lemma memory_view_Some:
  assumes "memory_view m ns = Some v"
  obtains ps where "map_lookup m ns = Some ps" "v = inner_view ps"
  using assms by (auto simp: memory_view_def)

lemma memory_view_None: "memory_view m ns = None \<longleftrightarrow> map_lookup m ns = None"
  by (simp add: memory_view_def)

lemma inner_view_Some:
  assumes "inner_ok ps" "inner_view ps c = Some a"
  obtains p where "map_lookup ps c = Some p" "a = abs_prefix p" "wf_prefix p" "Cidr p = c" "c \<noteq> []"
  using assms inner_okD(2) [OF assms(1), of c] by (auto simp: inner_view_def entry_ok_def)

lemma inner_entries:
  assumes "inner_ok ps"
  shows "\<forall>(c, p) \<in> set (map_entries ps). entry_ok c p" "distinct (map fst (map_entries ps))"
    "map (\<lambda>(_, p). Cidr p) (map_entries ps) = map fst (map_entries ps)"
  using assms by (auto simp: inner_ok_def map_ok_def list_all_iff entry_ok_def)

lemma memory_update_cases:
  assumes m: "memory_inv m" "map_lookup m ns = Some ps" and p: "wf_prefix p" and c: "inner_view ps (Cidr p) = Some a"
  shows "aVersion a = version p \<Longrightarrow> \<exists>m'. memory_UpdatePrefix p ns m = (Inr (next_version p), m') \<and>
      memory_inv m' \<and> memory_view m' = (memory_view m)(ns \<mapsto> (inner_view ps)(Cidr p \<mapsto> abs_prefix (next_version p)))"
    "aVersion a \<noteq> version p \<Longrightarrow> \<exists>e. memory_UpdatePrefix p ns m = (Inl e, m) \<and> errors_is e ErrOptimisticLockError"
proof -
  obtain old where old: "map_lookup ps (Cidr p) = Some old" "a = abs_prefix old" "Cidr p \<noteq> []"
    using inner_view_Some [OF memory_invD(2) [OF m] c] by metis
  show "\<exists>m'. memory_UpdatePrefix p ns m = (Inr (next_version p), m') \<and> memory_inv m' \<and>
      memory_view m' = (memory_view m)(ns \<mapsto> (inner_view ps)(Cidr p \<mapsto> abs_prefix (next_version p)))"
    if "aVersion a = version p"
  proof -
    obtain m' where m': "put_prefix ns (Cidr p) (next_version p) m = Inr m'" "memory_inv m'"
        "memory_view m' = (memory_view m)(ns \<mapsto> (inner_view ps)(Cidr p \<mapsto> abs_prefix (next_version p)))"
      using put_prefix_ok [OF m, of "next_version p"] p old(3) by auto
    have "deepCopy (next_version p) = next_version p"
      using p by (intro deepCopy_id) simp
    with m' that old m(2) show ?thesis
      by (intro exI [of _ m']) (simp add: memory_UpdatePrefix_def Let_def next_version_def)
  qed
  show "aVersion a \<noteq> version p \<Longrightarrow> \<exists>e. memory_UpdatePrefix p ns m = (Inl e, m) \<and> errors_is e ErrOptimisticLockError"
    using old m(2) by (simp add: memory_UpdatePrefix_def Let_def)
qed

lemma memory_read_all:
  assumes "memory_inv m" "map_lookup m ns = Some ps"
  shows "\<exists>qs. memory_ReadAllPrefixes ns m = (Inr qs, m) \<and> distinct (map Cidr qs) \<and>
    (\<forall>p \<in> set qs. wf_prefix p) \<and> map_of (map (\<lambda>p. (Cidr p, abs_prefix p)) qs) = inner_view ps"
proof -
  let ?es = "map_entries ps"
  note e = inner_entries [OF memory_invD(2) [OF assms]]
  have q: "map (\<lambda>(_, v). deepCopy v) ?es = map snd ?es"
    using e(1) by (auto simp: entry_ok_def)
  have c: "map Cidr (map snd ?es) = map fst ?es"
    using e(1) by (auto simp: entry_ok_def)
  have v: "map (\<lambda>p. (Cidr p, abs_prefix p)) (map snd ?es) = map (\<lambda>(k, p). (k, abs_prefix p)) ?es"
    using e(1) by (auto simp: entry_ok_def)
  have "map_of (map (\<lambda>(k, p). (k, abs_prefix p)) ?es) = inner_view ps"
    by (simp add: fun_eq_iff inner_view_def map_lookup_def map_of_map)
  with v have "map_of (map (\<lambda>p. (Cidr p, abs_prefix p)) (map snd ?es)) = inner_view ps"
    by (simp only:)
  moreover have "distinct (map Cidr (map snd ?es))"
    using e(2) by (simp only: c)
  moreover have "\<forall>p \<in> set (map snd ?es). wf_prefix p"
    using e(1) by (auto simp: entry_ok_def)
  moreover have "memory_ReadAllPrefixes ns m = (Inr (map snd ?es), m)"
    using assms(2) q by (simp add: memory_ReadAllPrefixes_def)
  ultimately show ?thesis
    by blast
qed

lemma memory_create:
  assumes m: "memory_inv m" "map_lookup m ns = Some ps" and p: "wf_prefix p" "Cidr p \<noteq> []"
    and c: "inner_view ps (Cidr p) = None"
  shows "\<exists>m'. memory_CreatePrefix p ns m = (Inr p, m') \<and> memory_inv m' \<and>
    memory_view m' = (memory_view m)(ns \<mapsto> (inner_view ps)(Cidr p \<mapsto> abs_prefix p))"
proof -
  obtain m' where m': "put_prefix ns (Cidr p) p m = Inr m'" "memory_inv m'"
      "memory_view m' = (memory_view m)(ns \<mapsto> (inner_view ps)(Cidr p \<mapsto> abs_prefix p))"
    using put_prefix_ok [OF m p] by auto
  with m(2) c p(1) show ?thesis
    by (intro exI [of _ m']) (simp add: memory_CreatePrefix_def inner_view_def)
qed

lemma memory_delete:
  assumes m: "memory_inv m" "map_lookup m ns = Some ps" and p: "wf_prefix p"
  shows "\<exists>m'. memory_DeletePrefix p ns m = (Inr p, m') \<and> memory_inv m' \<and>
    memory_view m' = (memory_view m)(ns \<mapsto> (inner_view ps)(Cidr p := None))"
proof -
  obtain m' where m': "map_insert m ns (map_delete ps (Cidr p)) = Inr m'"
    using insert_inner_ex [OF m(1)] by blast
  note d = inner_ok_delete [OF memory_invD(2) [OF m], of "Cidr p"]
  show ?thesis
    using replace_inner [OF m(1) d(1) m'] d(2) m' m(2) p by (simp add: memory_DeletePrefix_def)
qed

lemma memory_delete_ns:
  assumes "memory_inv m"
  shows "memory_inv (map_delete m ns)" "memory_view (map_delete m ns) = (memory_view m)(ns := None)"
  using memory_invD [OF assms] by (auto simp: memory_view_def fun_eq_iff intro!: memory_invI split: if_split_asm)

lemma memory_no_ns:
  assumes "map_lookup m ns = None"
  shows "memory_CreatePrefix p ns m = (Inl (Sentinel ErrNamespaceDoesNotExist), m)"
    "memory_ReadPrefix c ns m = (Inl (Sentinel ErrNamespaceDoesNotExist), m)"
    "memory_ReadAllPrefixes ns m = (Inl (Sentinel ErrNamespaceDoesNotExist), m)"
    "memory_ReadAllPrefixCidrs ns m = (Inl (Sentinel ErrNamespaceDoesNotExist), m)"
    "memory_DeletePrefix p ns m = (Inl (Sentinel ErrNamespaceDoesNotExist), m)"
    "memory_DeleteNamespace ns m = (Inl (Sentinel ErrNamespaceDoesNotExist), m)"
    "Cidr p \<noteq> [] \<Longrightarrow> memory_UpdatePrefix p ns m = (Inl (Sentinel ErrNamespaceDoesNotExist), m)"
  using assms
  by (simp_all add: memory_CreatePrefix_def memory_ReadPrefix_def memory_ReadAllPrefixes_def
      memory_ReadAllPrefixCidrs_def memory_DeletePrefix_def memory_DeleteNamespace_def
      memory_UpdatePrefix_def Let_def)

lemma memory_read_cidrs:
  assumes "memory_inv m" "map_lookup m ns = Some ps"
  shows "\<exists>cs. memory_ReadAllPrefixCidrs ns m = (Inr cs, m) \<and> distinct cs \<and> set cs = dom (inner_view ps)"
proof -
  note e = inner_entries [OF memory_invD(2) [OF assms]]
  have "set (map fst (map_entries ps)) = dom (inner_view ps)"
    by (auto simp: inner_view_def map_lookup_def dom_def image_iff weak_map_of_SomeI
        dest: map_of_SomeD intro: rev_image_eqI)
  moreover have "memory_ReadAllPrefixCidrs ns m = (Inr (map fst (map_entries ps)), m)"
    using assms(2) by (simp only: memory_ReadAllPrefixCidrs_def option.case e(3))
  ultimately show ?thesis
    using e(2) by (intro exI [of _ "map fst (map_entries ps)"]) simp
qed

lemma memory_create_ns:
  assumes "memory_inv m"
  shows "\<exists>m'. memory_CreateNamespace ns m = (Inr (), m') \<and> memory_inv m' \<and>
    memory_view m' = (case memory_view m ns of None \<Rightarrow> (memory_view m)(ns \<mapsto> Map.empty) | Some v \<Rightarrow> memory_view m)"
proof (cases "map_lookup m ns")
  case None
  obtain m' where m': "map_insert m ns make_map = Inr m'"
    using insert_inner_ex [OF assms] by blast
  with replace_inner [OF assms inner_ok_make_map m'] None show ?thesis
    by (simp add: memory_CreateNamespace_def memory_view_def)
next
  case (Some ps)
  with assms show ?thesis
    by (simp add: memory_CreateNamespace_def memory_view_def)
qed

lemma memory_delete_all:
  assumes "memory_inv m"
  shows "\<exists>m'. memory_DeleteAllPrefixes ns m = (Inr (), m') \<and> memory_inv m' \<and>
    memory_view m' = (memory_view m)(ns \<mapsto> Map.empty)"
proof -
  obtain m' where m': "map_insert m ns make_map = Inr m'"
    using insert_inner_ex [OF assms] by blast
  with replace_inner [OF assms inner_ok_make_map m'] show ?thesis
    by (simp add: memory_DeleteAllPrefixes_def)
qed

lemma memory_list_ns:
  assumes "memory_inv m"
  shows "\<exists>nss. memory_ListNamespaces m = (Inr nss, m) \<and> distinct nss \<and> set nss = dom (memory_view m)"
proof -
  have "set (map fst (map_entries m)) = dom (memory_view m)"
    by (auto simp: memory_view_def map_lookup_def dom_def dest: map_of_SomeD intro: rev_image_eqI)
      (metis weak_map_of_SomeI)
  then show ?thesis
    using memory_invD(1) [OF assms] by (simp add: memory_ListNamespaces_def map_ok_def)
qed

lemmas memory_storage_simps [store_simps] =
  memory_storage_def storage.simps

interpretation mem: full_storage_laws memory_storage memory_inv memory_view "\<lambda>ns. True"
proof unfold_locales
  fix m ns v c a p r m'
  assume m: "memory_inv m"
  { assume v: "memory_view m ns = Some v"
    obtain ps where ps: "map_lookup m ns = Some ps" "v = inner_view ps"
      using v by (rule memory_view_Some)
    note ok = memory_invD(2) [OF m ps(1)]
    show "v c = Some a \<Longrightarrow> aCidr a = c \<and> c \<noteq> []"
      using ok ps(2) by (auto elim: inner_view_Some)
    show "finite (dom v)"
      using ps(2) finite_map_keys [of ps] by (simp add: inner_view_def map_keys_def dom_def)
    show "wf_prefix p \<Longrightarrow> Cidr p \<noteq> [] \<Longrightarrow> v (Cidr p) = None \<Longrightarrow>
      \<exists>q s'. (q = p \<or> q = p\<lparr>version := 0\<rparr>) \<and> CreatePrefix memory_storage p ns m = (Inr q, s') \<and> memory_inv s' \<and>
        memory_view s' = (memory_view m)(ns \<mapsto> v(Cidr p \<mapsto> abs_prefix q))"
      using memory_create [OF m ps(1)] ps(2) by (simp add: store_simps) blast
    show "wf_prefix p \<Longrightarrow> v (Cidr p) \<noteq> None \<Longrightarrow> CreatePrefix memory_storage p ns m = (r, m') \<Longrightarrow>
      memory_inv m' \<and> memory_view m' = memory_view m"
      using m ps by (auto simp: store_simps memory_CreatePrefix_def inner_view_def)
    show "v c = Some a \<Longrightarrow> \<exists>p s'. ReadPrefix memory_storage c ns m = (Inr p, s') \<and> abs_prefix p = a \<and>
        wf_prefix p \<and> memory_inv s' \<and> memory_view s' = memory_view m"
      using m ps ok by (auto simp: store_simps memory_ReadPrefix_def elim!: inner_view_Some)
    show "v c = None \<Longrightarrow> \<exists>e s'. ReadPrefix memory_storage c ns m = (Inl e, s') \<and> errors_is e ErrNotFound \<and>
        memory_inv s' \<and> memory_view s' = memory_view m"
      using m ps by (auto simp: store_simps memory_ReadPrefix_def inner_view_def)
    show "\<exists>s'. DeleteAllPrefixes memory_storage ns m = (Inr (), s') \<and> memory_inv s' \<and>
        memory_view s' = (memory_view m)(ns \<mapsto> Map.empty)"
      using memory_delete_all [OF m] by (simp add: store_simps)
    show "\<exists>qs s'. ReadAllPrefixes memory_storage ns m = (Inr qs, s') \<and> distinct (map Cidr qs) \<and>
        (\<forall>p \<in> set qs. wf_prefix p) \<and> map_of (map (\<lambda>p. (Cidr p, abs_prefix p)) qs) = v \<and>
        memory_inv s' \<and> memory_view s' = memory_view m"
      using memory_read_all [OF m ps(1)] m ps(2) by (auto simp: store_simps)
    show "\<exists>cs s'. ReadAllPrefixCidrs memory_storage ns m = (Inr cs, s') \<and> distinct cs \<and> set cs = dom v \<and>
        memory_inv s' \<and> memory_view s' = memory_view m"
      using memory_read_cidrs [OF m ps(1)] m ps(2) by (auto simp: store_simps)
    show "wf_prefix p \<Longrightarrow> v (Cidr p) = Some a \<Longrightarrow> aVersion a = version p \<Longrightarrow>
      \<exists>s'. UpdatePrefix memory_storage p ns m = (Inr (next_version p), s') \<and> memory_inv s' \<and>
        memory_view s' = (memory_view m)(ns \<mapsto> v(Cidr p \<mapsto> abs_prefix (next_version p)))"
      using memory_update_cases(1) [OF m ps(1)] ps(2) by (simp add: store_simps)
    show "wf_prefix p \<Longrightarrow> v (Cidr p) = Some a \<Longrightarrow> aVersion a \<noteq> version p \<Longrightarrow>
      \<exists>e s'. UpdatePrefix memory_storage p ns m = (Inl e, s') \<and> errors_is e ErrOptimisticLockError \<and>
        memory_inv s' \<and> memory_view s' = memory_view m"
      using memory_update_cases(2) [OF m ps(1), of p a] m ps(2) by (auto simp: store_simps)
    show "wf_prefix p \<Longrightarrow> v (Cidr p) = None \<Longrightarrow> \<exists>e s'. UpdatePrefix memory_storage p ns m = (Inl e, s') \<and>
        memory_inv s' \<and> memory_view s' = memory_view m"
      using m ps by (auto simp: store_simps memory_UpdatePrefix_def Let_def inner_view_def)
    show "wf_prefix p \<Longrightarrow> v (Cidr p) = Some a \<Longrightarrow> \<exists>q s'. DeletePrefix memory_storage p ns m = (Inr q, s') \<and>
        (abs_prefix p = a \<longrightarrow> abs_prefix q = a) \<and> memory_inv s' \<and>
        memory_view s' = (memory_view m)(ns \<mapsto> v(Cidr p := None))"
      using memory_delete [OF m ps(1), of p] ps(2) by (auto simp: store_simps)
    show "wf_prefix p \<Longrightarrow> v (Cidr p) = None \<Longrightarrow> DeletePrefix memory_storage p ns m = (r, m') \<Longrightarrow>
        memory_inv m' \<and> memory_view m' = memory_view m"
      using memory_delete [OF m ps(1), of p] ps(2) v by (auto simp: store_simps fun_upd_idem)
    show "\<exists>s'. DeleteNamespace memory_storage ns m = (Inr (), s') \<and> memory_inv s' \<and>
        memory_view s' = (memory_view m)(ns := None)"
      using memory_delete_ns [OF m] ps(1) by (simp add: store_simps memory_DeleteNamespace_def)
  }
  show "\<exists>s'. CreateNamespace memory_storage ns m = (Inr (), s') \<and> memory_inv s' \<and> memory_view s' =
      (case memory_view m ns of None \<Rightarrow> (memory_view m)(ns \<mapsto> Map.empty) | Some v \<Rightarrow> memory_view m)"
    using memory_create_ns [OF m] by (simp add: store_simps)
  show "\<exists>nss s'. ListNamespaces memory_storage m = (Inr nss, s') \<and> distinct nss \<and>
      set nss = dom (memory_view m) \<and> memory_inv s' \<and> memory_view s' = memory_view m"
    using memory_list_ns [OF m] m by (auto simp: store_simps)
qed (auto simp: memory_view_None store_simps memory_no_ns)

text \<open>
  C23: the memory storage meets the contract of a storage, for any names of namespaces.
\<close>

theorem memory_meets_contract: "full_storage_laws memory_storage memory_inv memory_view (\<lambda>ns. True)"
  by (rule mem.full_storage_laws_axioms)

lemma memory_inv_NewMemory: "memory_inv NewMemory" "memory_view NewMemory = [defaultNamespace \<mapsto> Map.empty]"
proof -
  have "memory_inv make_map" "memory_view make_map = Map.empty"
    by (auto simp: memory_view_def fun_eq_iff intro!: memory_invI)
  then show "memory_inv NewMemory" "memory_view NewMemory = [defaultNamespace \<mapsto> Map.empty]"
    using memory_create_ns [of make_map defaultNamespace] by (auto simp: NewMemory_def)
qed

end
