(* ===== verification/Ipamer.thy ===== *)
theory Ipamer
  imports Storage
begin

text \<open>
  The operations of the \<open>ipamer\<close>, \<^verbatim>\<open>src/ipam.go\<close> and \<^verbatim>\<open>src/prefix.go\<close>, over any storage \<open>st\<close>. The
  packages outside the repository are arguments: \<open>nx\<close> stands for netipx, \<open>retry\<close> for \<open>retry.Do\<close>. A
  handler takes the state of the storage and returns its result with the new state; every storage
  call is one step, and what a handler does between two calls touches no shared state.

  A context matters to the operations by the namespace it carries. A pointer result that comes with
  a nil error is never nil in this code, so the checks \<open>prefix == nil\<close> after a nil error have no
  branch here. A handler that ends in \<open>return prefix, retryOnOptimisticLock(f)\<close> returns the value
  that the last attempt assigned.
\<close>

section \<open>Contexts and retrying\<close>

datatype ctx_value = CtxString string | CtxOther

type_synonym ctx = "ctx_value option"

definition NewContextWithNamespace :: "ctx \<Rightarrow> string \<Rightarrow> ctx" where
  "NewContextWithNamespace ctx namespace = Some (CtxString namespace)"

definition namespaceFromContext :: "ctx \<Rightarrow> string" where
  "namespaceFromContext ctx = (case ctx of
      None \<Rightarrow> defaultNamespace
    | Some raw \<Rightarrow> (case raw of CtxString ns \<Rightarrow> ns | CtxOther \<Rightarrow> defaultNamespace))"

definition retryOnOptimisticLock :: "('s, 'a) retry_do \<Rightarrow> ('s, 'a) comp \<Rightarrow> ('s, 'a) comp" where
  "retryOnOptimisticLock retry f = retry 10 (\<lambda>err. errors_is err ErrOptimisticLockError) f"

section \<open>Prefixes\<close>

record IP =
  IP :: addr
  ParentPrefix :: string

text \<open>\<open>newPrefix\<close>: the first address is reserved, and for IPv4 the last one too.\<close>

definition newPrefix :: "('b, 't) netipx \<Rightarrow> string \<Rightarrow> string \<Rightarrow> Prefix result" where
  "newPrefix nx cidr parentCidr = (case ParsePrefix cidr of
      Inl err \<Rightarrow> Inl (Errorf ''unable to parse cidr:%s %w'' [err])
    | Inr ipnet \<Rightarrow>
      (case (if parentCidr \<noteq> [] then
               (case ParsePrefix parentCidr of
                  Inl err \<Rightarrow> Inl (Errorf ''unable to parse parent cidr:%s %w'' [err])
                | Inr ipnetParent \<Rightarrow> Inr (prefix_String (Masked ipnetParent)))
             else Inr parentCidr) of
        Inl err \<Rightarrow> Inl err
      | Inr parentCidr \<Rightarrow>
        let p = \<lparr>Cidr = prefix_String (Masked ipnet), ParentCidr = parentCidr, isParent = False,
                 availableChildPrefixes = make_map, childPrefixLength = 0, ips = make_map, version = 0\<rparr>;
            (from, to) = RangeOfPrefix nx ipnet
        in (case map_insert (ips p) (addr_String from) True of
              Inl err \<Rightarrow> Inl err
            | Inr m \<Rightarrow>
              if Is4 (Addr ipnet) then
                (case map_insert m (addr_String to) True of
                   Inl err \<Rightarrow> Inl err
                 | Inr m' \<Rightarrow> Inr (p\<lparr>ips := m'\<rparr>))
              else Inr (p\<lparr>ips := m\<rparr>))))"

text \<open>\<open>PrefixesOverlapping\<close>: two nested loops.\<close>

primrec overlaps_new :: "netip_prefix \<Rightarrow> string list \<Rightarrow> unit result" where
  "overlaps_new eip [] = Inr ()"
| "overlaps_new eip (np # nps) = (case ParsePrefix np of
      Inl err \<Rightarrow> Inl (Errorf ''parsing prefix %s failed:%w'' [err])
    | Inr nip \<Rightarrow>
        if Overlaps eip nip \<or> Overlaps nip eip then Inl (Errorf ''%s overlaps %s'' [])
        else overlaps_new eip nps)"

primrec PrefixesOverlapping :: "string list \<Rightarrow> string list \<Rightarrow> unit result" where
  "PrefixesOverlapping [] newPrefixes = Inr ()"
| "PrefixesOverlapping (ep # eps) newPrefixes = (case ParsePrefix ep of
      Inl err \<Rightarrow> Inl (Errorf ''parsing prefix %s failed:%w'' [err])
    | Inr eip \<Rightarrow> (case overlaps_new eip newPrefixes of
        Inl err \<Rightarrow> Inl err
      | Inr _ \<Rightarrow> PrefixesOverlapping eps newPrefixes))"

definition ipamer_NewPrefix :: "('b, 't) netipx \<Rightarrow> 's storage \<Rightarrow> ctx \<Rightarrow> string \<Rightarrow> ('s, Prefix) comp" where
  "ipamer_NewPrefix nx st ctx cidr s =
     (let namespace = namespaceFromContext ctx in
      case ReadAllPrefixCidrs st namespace s of
        (Inl err, s) \<Rightarrow> (Inl err, s)
      | (Inr existingPrefixes, s) \<Rightarrow>
      (case newPrefix nx cidr [] of
        Inl err \<Rightarrow> (Inl err, s)
      | Inr p \<Rightarrow>
      (case PrefixesOverlapping existingPrefixes [Cidr p] of
        Inl err \<Rightarrow> (Inl err, s)
      | Inr _ \<Rightarrow>
      (case CreatePrefix st p namespace s of
        (Inl err, s) \<Rightarrow> (Inl err, s)
      | (Inr created, s) \<Rightarrow> (Inr created, s)))))"

definition PrefixFrom :: "'s storage \<Rightarrow> ctx \<Rightarrow> string \<Rightarrow> ('s, Prefix) comp" where
  "PrefixFrom st ctx cidr s =
     (let namespace = namespaceFromContext ctx in
      case ParsePrefix cidr of
        Inl err \<Rightarrow> (Inl err, s)
      | Inr ipprefix \<Rightarrow>
      (case ReadPrefix st (prefix_String (Masked ipprefix)) namespace s of
        (Inl err, s) \<Rightarrow> (Inl err, s)
      | (Inr prefix, s) \<Rightarrow> (Inr prefix, s)))"

definition ipamer_DeletePrefix :: "'s storage \<Rightarrow> ctx \<Rightarrow> string \<Rightarrow> ('s, Prefix) comp" where
  "ipamer_DeletePrefix st ctx cidr s =
     (let namespace = namespaceFromContext ctx in
      case PrefixFrom st ctx cidr s of
        (Inl err, s) \<Rightarrow>
          (Inl (Errorf ''%w: unable to find prefix for cidr:%s error:%s'' [Sentinel ErrNotFound]), s)
      | (Inr p, s) \<Rightarrow>
          if hasIPs p then (Inl (Errorf ''prefix %s has ips, delete prefix not possible'' []), s)
          else (case DeletePrefix st p namespace s of
              (Inl err, s) \<Rightarrow> (Inl (Errorf ''delete prefix:%s %w'' [err]), s)
            | (Inr prefix, s) \<Rightarrow> (Inr prefix, s)))"

section \<open>Child prefixes\<close>

text \<open>The loop that removes the unavailable children; other than in \<open>Usage\<close>, a parse error ends it.\<close>

primrec remove_children :: "('b, 't) netipx \<Rightarrow> (string \<times> bool) list \<Rightarrow> 'b \<Rightarrow> 'b result" where
  "remove_children nx [] b = Inr b"
| "remove_children nx (c # cs) b = (case c of (cp, available) \<Rightarrow>
     if available then remove_children nx cs b
     else (case ParsePrefix cp of
         Inl err \<Rightarrow> Inl err
       | Inr cpipprefix \<Rightarrow> remove_children nx cs (RemovePrefix nx b cpipprefix)))"

text \<open>The choice of the child: the wanted one if it is free, else any free one of the length.\<close>

definition choose_child ::
  "('b, 't) netipx \<Rightarrow> 't \<Rightarrow> netip_prefix option \<Rightarrow> int \<Rightarrow> netip_prefix result" where
  "choose_child nx ipset childprefix len = (case childprefix of
      None \<Rightarrow> (case RemoveFreePrefix nx ipset (word_of_int len) of
          (cp, _, ok) \<Rightarrow>
            if \<not> ok then
              (if Prefixes nx ipset = [] then Inl (Errorf ''no prefix found in %s with length:%d'' [])
               else Inl (Errorf ''no prefix found in %s with length:%d, but %s %s available'' []))
            else Inr cp)
    | Some cp \<Rightarrow>
        if \<not> ContainsPrefix nx ipset cp then
          Inl (Errorf ''specific prefix %s is not available in prefix %s'' [])
        else Inr cp)"

text \<open>
  The end of \<open>acquireChildPrefixInternal\<close>: the parent is written with the child marked unavailable,
  then the child is created; the two writes are separate steps on the storage.
\<close>

definition store_child ::
  "('b, 't) netipx \<Rightarrow> 's storage \<Rightarrow> string \<Rightarrow> string \<Rightarrow> Prefix \<Rightarrow> netip_prefix \<Rightarrow> ('s, Prefix) comp" where
  "store_child nx st namespace parentCidr parent cp s =
     (if \<not> IsValid cp then (Inl (Errorf ''acquired child prefix:%s is not valid'' []), s)
      else
      (case map_insert (availableChildPrefixes parent) (prefix_String cp) False of
        Inl err \<Rightarrow> (Inl err, s)
      | Inr acp \<Rightarrow>
      let parent = parent\<lparr>availableChildPrefixes := acp, isParent := True\<rparr> in
      (case UpdatePrefix st parent namespace s of
        (Inl err, s) \<Rightarrow> (Inl (Errorf ''unable to update parent prefix:%v error:%w'' [err]), s)
      | (Inr _, s) \<Rightarrow>
      (case newPrefix nx (prefix_String cp) parentCidr of
        Inl err \<Rightarrow> (Inl (Errorf ''unable to persist created child:%w'' [err]), s)
      | Inr child \<Rightarrow>
      (case CreatePrefix st child namespace s of
        (Inl err, s) \<Rightarrow> (Inl (Errorf ''unable to update parent prefix:%v error:%w'' [err]), s)
      | (Inr _, s) \<Rightarrow> (Inr child, s))))))"

definition acquireChildPrefixInternal ::
  "('b, 't) netipx \<Rightarrow> 's storage \<Rightarrow> ctx \<Rightarrow> string \<Rightarrow> string \<Rightarrow> string \<Rightarrow> int \<Rightarrow> ('s, Prefix) comp" where
  "acquireChildPrefixInternal nx st ctx namespace parentCidr childCidr len s =
     (let specificChildRequest = (childCidr \<noteq> []) in
      case PrefixFrom st ctx parentCidr s of
        (Inl err, s) \<Rightarrow>
          (Inl (Errorf ''%w: unable to find prefix for cidr:%s error:%s'' [Sentinel ErrNotFound]), s)
      | (Inr parent, s) \<Rightarrow>
      (case ParsePrefix (Cidr parent) of
        Inl err \<Rightarrow> (Inl (Errorf ''unable to parse parent.cidr:%s of parentCidr:%s %w'' [err]), s)
      | Inr ipprefix \<Rightarrow>
      (case (if specificChildRequest then
               (case ParsePrefix childCidr of
                  Inl err \<Rightarrow> Inl (Errorf ''unable to parse childCidr:%s %w'' [err])
                | Inr childprefix \<Rightarrow> Inr (Some childprefix, Bits childprefix))
             else Inr (None, len)) of
        Inl err \<Rightarrow> (Inl err, s)
      | Inr (childprefix, len) \<Rightarrow>
      if len \<le> Bits ipprefix then
        (Inl (Errorf ''given length:%d must be greater than prefix length:%d'' []), s)
      else if hasIPs parent then
        (Inl (Errorf ''prefix %s has ips, acquire child prefix not possible'' []), s)
      else
      (case remove_children nx (map_entries (availableChildPrefixes parent))
              (AddPrefix nx (emptyBuilder nx) ipprefix) of
        Inl err \<Rightarrow> (Inl err, s)
      | Inr ipsetBuilder \<Rightarrow>
      (case IPSet nx ipsetBuilder of
        Inl err \<Rightarrow> (Inl (Errorf ''error constructing ipset:%w'' [err]), s)
      | Inr ipset \<Rightarrow>
      (case choose_child nx ipset childprefix len of
        Inl err \<Rightarrow> (Inl err, s)
      | Inr cp \<Rightarrow>
      store_child nx st namespace parentCidr parent cp s))))))"

definition AcquireChildPrefix ::
  "('b, 't) netipx \<Rightarrow> ('s, Prefix) retry_do \<Rightarrow> 's storage \<Rightarrow> ctx \<Rightarrow> string \<Rightarrow> 8 word \<Rightarrow> ('s, Prefix) comp" where
  "AcquireChildPrefix nx retry st ctx parentCidr len =
     (let namespace = namespaceFromContext ctx in
      retryOnOptimisticLock retry
        (acquireChildPrefixInternal nx st ctx namespace parentCidr [] (uint len)))"

definition AcquireSpecificChildPrefix ::
  "('b, 't) netipx \<Rightarrow> ('s, Prefix) retry_do \<Rightarrow> 's storage \<Rightarrow> ctx \<Rightarrow> string \<Rightarrow> string \<Rightarrow> ('s, Prefix) comp" where
  "AcquireSpecificChildPrefix nx retry st ctx parentCidr childCidr =
     (let namespace = namespaceFromContext ctx in
      retryOnOptimisticLock retry
        (acquireChildPrefixInternal nx st ctx namespace parentCidr childCidr 0))"

definition releaseChildPrefixInternal :: "'s storage \<Rightarrow> ctx \<Rightarrow> string \<Rightarrow> Prefix \<Rightarrow> ('s, unit) comp" where
  "releaseChildPrefixInternal st ctx namespace child s =
     (case PrefixFrom st ctx (ParentCidr child) s of
        (Inl err, s) \<Rightarrow>
          (Inl (Errorf ''%w: unable to find prefix for cidr:%q error:%s'' [Sentinel ErrNotFound]), s)
      | (Inr parent, s) \<Rightarrow>
      if \<not> isParent parent then (Inl (Errorf ''prefix:%q is no child prefix'' []), s)
      else if 2 < map_len (ips child) then
        (Inl (Errorf ''prefix %s has ips, deletion not possible'' []), s)
      else
      (case map_insert (availableChildPrefixes parent) (Cidr child) True of
        Inl err \<Rightarrow> (Inl err, s)
      | Inr acp \<Rightarrow>
      (case UpdatePrefix st (parent\<lparr>availableChildPrefixes := acp\<rparr>) namespace s of
        (Inl err, s) \<Rightarrow>
          (Inl (Errorf ''unable to update parent:%q to release child prefix:%q :%w'' [err]), s)
      | (Inr _, s) \<Rightarrow>
      (case ipamer_DeletePrefix st ctx (Cidr child) s of
        (Inl err, s) \<Rightarrow> (Inl (Errorf ''unable to delete child prefix:%q :%w'' [err]), s)
      | (Inr _, s) \<Rightarrow> (Inr (), s)))))"

definition ReleaseChildPrefix :: "('s, unit) retry_do \<Rightarrow> 's storage \<Rightarrow> ctx \<Rightarrow> Prefix \<Rightarrow> ('s, unit) comp" where
  "ReleaseChildPrefix retry st ctx child =
     (let namespace = namespaceFromContext ctx in
      retryOnOptimisticLock retry (releaseChildPrefixInternal st ctx namespace child))"

section \<open>Addresses\<close>

definition acquireAndStore :: "'s storage \<Rightarrow> string \<Rightarrow> Prefix \<Rightarrow> addr \<Rightarrow> ('s, IP) comp" where
  "acquireAndStore st namespace prefix ip s =
     (let acquired = \<lparr>IP = ip, ParentPrefix = Cidr prefix\<rparr> in
      case map_insert (ips prefix) (addr_String ip) True of
        Inl err \<Rightarrow> (Inl err, s)
      | Inr m \<Rightarrow>
      (case UpdatePrefix st (prefix\<lparr>ips := m\<rparr>) namespace s of
        (Inl err, s) \<Rightarrow> (Inl (Errorf ''unable to persist acquired ip:%v error:%w'' [err]), s)
      | (Inr _, s) \<Rightarrow> (Inr acquired, s)))"

text \<open>
  The loop over the addresses of the prefix: it ends at the first one that is not allocated, or
  when it leaves the prefix.
\<close>

function next_free :: "netip_prefix \<Rightarrow> bool gomap \<Rightarrow> addr \<Rightarrow> addr option" where
  "next_free ipnet allocated ip =
     (if \<not> Contains ipnet ip then None
      else if map_lookup allocated (addr_String ip) \<noteq> None then
        next_free ipnet allocated (addr_Next ip)
      else Some ip)"
  by pat_completeness auto
termination
proof (relation "measure (\<lambda>(ipnet, allocated, ip). if Contains ipnet ip then 2 ^ BitLen ip - addr_num ip else 0)",
    simp, goal_cases)
  case (1 ipnet allocated ip)
  then have ip: "ip \<noteq> ZeroAddr"
    by (auto simp: Contains_iff dest: IsValidD(1) BitLen_eq_0 [THEN iffD1, OF sym])
  have lt: "addr_num ip < 2 ^ BitLen ip"
    by (rule addr_num_bound)
  show ?case
  proof (cases "addr_Next ip = ZeroAddr")
    case True
    then have "\<not> Contains ipnet (addr_Next ip)"
      by (auto simp: Contains_iff dest: IsValidD(1) BitLen_eq_0 [THEN iffD1, OF sym])
    with 1 lt show ?thesis
      by simp
  next
    case False
    from addr_Next_num(2) [OF ip False] 1 lt show ?thesis
      by auto
  qed
qed

declare next_free.simps [simp del]

definition acquireSpecificIPInternal ::
  "('b, 't) netipx \<Rightarrow> 's storage \<Rightarrow> ctx \<Rightarrow> string \<Rightarrow> string \<Rightarrow> string \<Rightarrow> ('s, IP) comp" where
  "acquireSpecificIPInternal nx st ctx namespace prefixCidr specificIP s =
     (case PrefixFrom st ctx prefixCidr s of
        (Inl err, s) \<Rightarrow>
          (Inl (Errorf ''%w: unable to find prefix for cidr:%s error:%s'' [Sentinel ErrNotFound]), s)
      | (Inr prefix, s) \<Rightarrow>
      if isParent prefix then
        (Inl (Errorf ''prefix %s has childprefixes, acquire ip not possible'' []), s)
      else (case ParsePrefix (Cidr prefix) of
        Inl err \<Rightarrow> (Inl err, s)
      | Inr ipnet \<Rightarrow>
      if specificIP \<noteq> [] then
        (case ParseAddr specificIP of
           Inl err \<Rightarrow> (Inl (Errorf ''given ip:%s in not valid'' []), s)
         | Inr specificIPnet \<Rightarrow>
         if \<not> Contains ipnet specificIPnet then (Inl (Errorf ''given ip:%s is not in %s'' []), s)
         else if map_lookup (ips prefix) (addr_String specificIPnet) \<noteq> None then
           (Inl (Errorf ''%w: given ip:%s is already allocated'' [Sentinel ErrAlreadyAllocated]), s)
         else acquireAndStore st namespace prefix specificIPnet s)
      else (case next_free ipnet (ips prefix) (fst (RangeOfPrefix nx ipnet)) of
          Some ip \<Rightarrow> acquireAndStore st namespace prefix ip s
        | None \<Rightarrow>
            (Inl (Errorf ''%w: no more ips in prefix: %s left, length of prefix.ips: %d''
               [Sentinel ErrNoIPAvailable]), s))))"

definition AcquireSpecificIP ::
  "('b, 't) netipx \<Rightarrow> ('s, IP) retry_do \<Rightarrow> 's storage \<Rightarrow> ctx \<Rightarrow> string \<Rightarrow> string \<Rightarrow> ('s, IP) comp" where
  "AcquireSpecificIP nx retry st ctx prefixCidr specificIP =
     (let namespace = namespaceFromContext ctx in
      retryOnOptimisticLock retry (acquireSpecificIPInternal nx st ctx namespace prefixCidr specificIP))"

definition AcquireIP ::
  "('b, 't) netipx \<Rightarrow> ('s, IP) retry_do \<Rightarrow> 's storage \<Rightarrow> ctx \<Rightarrow> string \<Rightarrow> ('s, IP) comp" where
  "AcquireIP nx retry st ctx prefixCidr = AcquireSpecificIP nx retry st ctx prefixCidr []"

definition releaseIPFromPrefixInternal :: "'s storage \<Rightarrow> ctx \<Rightarrow> string \<Rightarrow> string \<Rightarrow> string \<Rightarrow> ('s, unit) comp" where
  "releaseIPFromPrefixInternal st ctx namespace prefixCidr ip s =
     (case PrefixFrom st ctx prefixCidr s of
        (Inl err, s) \<Rightarrow>
          (Inl (Errorf ''%w: unable to find prefix for cidr:%s error:%s'' [Sentinel ErrNotFound]), s)
      | (Inr prefix, s) \<Rightarrow>
      if map_lookup (ips prefix) ip = None then
        (Inl (Errorf ''%w: unable to release ip:%s because it is not allocated in prefix:%s''
           [Sentinel ErrNotFound]), s)
      else (case UpdatePrefix st (prefix\<lparr>ips := map_delete (ips prefix) ip\<rparr>) namespace s of
          (Inl err, s) \<Rightarrow> (Inl (Errorf ''unable to release ip %v:%w'' [err]), s)
        | (Inr _, s) \<Rightarrow> (Inr (), s)))"

definition ReleaseIPFromPrefix :: "('s, unit) retry_do \<Rightarrow> 's storage \<Rightarrow> ctx \<Rightarrow> string \<Rightarrow> string \<Rightarrow> ('s, unit) comp" where
  "ReleaseIPFromPrefix retry st ctx prefixCidr ip =
     (let namespace = namespaceFromContext ctx in
      retryOnOptimisticLock retry (releaseIPFromPrefixInternal st ctx namespace prefixCidr ip))"

definition ReleaseIP :: "('s, unit) retry_do \<Rightarrow> 's storage \<Rightarrow> ctx \<Rightarrow> IP \<Rightarrow> ('s, Prefix) comp" where
  "ReleaseIP retry st ctx ip s =
     (case ReleaseIPFromPrefix retry st ctx (ParentPrefix ip) (addr_String (IP ip)) s of
        (Inl err, s) \<Rightarrow> (Inl err, s)
      | (Inr _, s) \<Rightarrow> PrefixFrom st ctx (ParentPrefix ip) s)"

section \<open>Dumps and namespaces\<close>

definition NamespacedDump :: "'s storage \<Rightarrow> string \<Rightarrow> ('s, json) comp" where
  "NamespacedDump st namespace s =
     (case ReadAllPrefixes st namespace s of
        (Inl err, s) \<Rightarrow> (Inl err, s)
      | (Inr pfxs, s) \<Rightarrow> (case Prefixes_toJSON pfxs of
          Inl err \<Rightarrow> (Inl err, s)
        | Inr js \<Rightarrow> (Inr js, s)))"

definition Dump :: "'s storage \<Rightarrow> ctx \<Rightarrow> ('s, json) comp" where
  "Dump st ctx = NamespacedDump st defaultNamespace"

primrec create_all :: "'s storage \<Rightarrow> string \<Rightarrow> Prefix list \<Rightarrow> ('s, unit) comp" where
  "create_all st namespace [] s = (Inr (), s)"
| "create_all st namespace (pfx # pfxs) s =
     (case CreatePrefix st pfx namespace s of
        (Inl err, s) \<Rightarrow> (Inl err, s)
      | (Inr _, s) \<Rightarrow> create_all st namespace pfxs s)"

definition NamespacedLoad :: "'s storage \<Rightarrow> string \<Rightarrow> json \<Rightarrow> ('s, unit) comp" where
  "NamespacedLoad st namespace dump s =
     (case ReadAllPrefixes st namespace s of
        (Inl err, s) \<Rightarrow> (Inl err, s)
      | (Inr existingpfxs, s) \<Rightarrow>
      if existingpfxs \<noteq> [] then
        (Inl (Errorf ''prefixes exist, please drop existing data before loading'' []), s)
      else (case fromJSONs dump of
        Inl err \<Rightarrow> (Inl err, s)
      | Inr pfxs \<Rightarrow>
      (case DeleteAllPrefixes st namespace s of
        (Inl err, s) \<Rightarrow> (Inl err, s)
      | (Inr _, s) \<Rightarrow> create_all st namespace pfxs s)))"

definition Load :: "'s storage \<Rightarrow> ctx \<Rightarrow> json \<Rightarrow> ('s, unit) comp" where
  "Load st ctx dump = NamespacedLoad st defaultNamespace dump"

definition ReadAllNamespacedPrefixCidrs :: "'s storage \<Rightarrow> string \<Rightarrow> ('s, string list) comp" where
  "ReadAllNamespacedPrefixCidrs st namespace = ReadAllPrefixCidrs st namespace"

definition ipamer_ReadAllPrefixCidrs :: "'s storage \<Rightarrow> ctx \<Rightarrow> ('s, string list) comp" where
  "ipamer_ReadAllPrefixCidrs st ctx = ReadAllNamespacedPrefixCidrs st defaultNamespace"

definition ipamer_CreateNamespace :: "'s storage \<Rightarrow> string \<Rightarrow> ('s, unit) comp" where
  "ipamer_CreateNamespace st namespace = CreateNamespace st namespace"

definition ipamer_ListNamespaces :: "'s storage \<Rightarrow> ('s, string list) comp" where
  "ipamer_ListNamespaces st = ListNamespaces st"

definition ipamer_DeleteNamespace :: "'s storage \<Rightarrow> string \<Rightarrow> ('s, unit) comp" where
  "ipamer_DeleteNamespace st namespace s =
     (case ReadAllPrefixes st namespace s of
        (Inl err, s) \<Rightarrow> (Inl err, s)
      | (Inr prefixes, s) \<Rightarrow>
          if prefixes \<noteq> [] then (Inl (Errorf ''cannot delete namespace with allocated prefixes'' []), s)
          else DeleteNamespace st namespace s)"

end
