(* ===== verification/Ipamer_IPs.thy ===== *)
theory Ipamer_IPs
  imports Ipamer Memory
begin

text \<open>
  The laws of the address operations of the \<open>ipamer\<close>, over every storage with the contract of
  \<open>Storage\<close>: looking a prefix up, acquiring the first free or a given address, releasing an
  address, and the retry loop around them.
\<close>

section \<open>Retrying\<close>

lemma retry_Inr:
  assumes "retry_laws retry" "f s = (Inr x, s')"
  shows "retryOnOptimisticLock retry f s = (Inr x, s')"
  using assms(1) [unfolded retry_laws_def, rule_format, of 9] assms(2)
  by (simp add: retryOnOptimisticLock_def)

lemma retry_Inl:
  assumes "retry_laws retry" "f s = (Inl e, s')" "\<not> errors_is e ErrOptimisticLockError"
  shows "retryOnOptimisticLock retry f s = (Inl e, s')"
  using assms(1) [unfolded retry_laws_def, rule_format, of 9] assms(2,3)
  by (simp add: retryOnOptimisticLock_def)

text \<open>The states the attempts start in, and how many are made.\<close>

primrec attempt :: "('s, 'a) comp \<Rightarrow> nat \<Rightarrow> 's \<Rightarrow> 's" where
  "attempt f 0 s = s"
| "attempt f (Suc n) s = attempt f n (snd (f s))"

definition conflict :: "('s, 'a) comp \<Rightarrow> 's \<Rightarrow> bool" where
  "conflict f s \<longleftrightarrow> (case fst (f s) of Inl e \<Rightarrow> errors_is e ErrOptimisticLockError | Inr x \<Rightarrow> False)"

lemma retry_attempts:
  assumes "retry_laws retry" and "k \<le> n" and "\<forall>i < k. conflict f (attempt f i s)"
    and "k = n \<or> \<not> conflict f (attempt f k s)"
  shows "retry (Suc n) (\<lambda>e. errors_is e ErrOptimisticLockError) f s = f (attempt f k s)"
  using assms(2-4)
proof (induction n arbitrary: s k)
  case 0
  have "retry (Suc 0) (\<lambda>e. errors_is e ErrOptimisticLockError) f s = f s"
    using assms(1) [unfolded retry_laws_def, rule_format, of 0] by (simp split: prod.split sum.split)
  with 0 show ?case
    by simp
next
  case (Suc n)
  obtain r s' where f: "f s = (r, s')"
    by fastforce
  note step = assms(1) [unfolded retry_laws_def, rule_format, of "Suc n" _ f s, unfolded f]
  show ?case
  proof (cases k)
    case 0
    with Suc.prems(3) have "\<not> conflict f s"
      by simp
    then show ?thesis
      using step [of "\<lambda>e. errors_is e ErrOptimisticLockError"] f 0
      by (auto simp: conflict_def split: sum.splits)
  next
    case (Suc k')
    have "conflict f s"
      using Suc.prems(2) Suc by force
    then obtain e where e: "r = Inl e" "errors_is e ErrOptimisticLockError"
      using f by (auto simp: conflict_def split: sum.splits)
    have "retry (Suc n) (\<lambda>e. errors_is e ErrOptimisticLockError) f s' = f (attempt f k' s')"
    proof (rule Suc.IH)
      show "k' \<le> n" "k' = n \<or> \<not> conflict f (attempt f k' s')"
        using Suc.prems(1,3) Suc f by auto
      show "\<forall>i < k'. conflict f (attempt f i s')"
      proof (intro allI impI)
        fix i assume "i < k'"
        then have "conflict f (attempt f (Suc i) s)"
          using Suc.prems(2) Suc by blast
        then show "conflict f (attempt f i s')"
          by (simp add: f)
      qed
    qed
    then show ?thesis
      using step [of "\<lambda>e. errors_is e ErrOptimisticLockError"] e Suc f by simp
  qed
qed

text \<open>
  C20: the retry loop around a handler ends: it returns what the first attempt without an optimistic
  lock conflict returns, and after ten conflicts what the tenth attempt returned.
\<close>

theorem retry_first_without_conflict:
  assumes "retry_laws retry" and "k \<le> 9" and "\<forall>i < k. conflict f (attempt f i s)"
    and "k = 9 \<or> \<not> conflict f (attempt f k s)"
  shows "retryOnOptimisticLock retry f s = f (attempt f k s)"
  using retry_attempts [OF assms(1,2,3,4)] by (simp add: retryOnOptimisticLock_def)

definition busy_twice :: "(nat, nat) comp" where
  "busy_twice n = (if n < 2 then (Inl (Sentinel ErrOptimisticLockError), n + 1) else (Inr n, n))"

theorem retry_first_without_conflict_witness:
  "retryOnOptimisticLock retry_ref busy_twice 0 = (Inr 2, 2)"
proof -
  have "\<forall>i < 2. conflict busy_twice (attempt busy_twice i 0)"
    by (auto simp: less_Suc_eq numeral_2_eq_2 conflict_def busy_twice_def)
  moreover have "\<not> conflict busy_twice (attempt busy_twice 2 0)"
    by (simp add: numeral_2_eq_2 conflict_def busy_twice_def)
  ultimately show ?thesis
    using retry_first_without_conflict [OF retry_laws_ref, of 2 busy_twice 0]
    by (simp add: numeral_2_eq_2 busy_twice_def)
qed

section \<open>The scan for a free address\<close>

lemma Contains_same: "Contains q a \<Longrightarrow> Contains q b \<Longrightarrow> addr_num a = addr_num b \<Longrightarrow> a = b"
  by (rule addr_eqI) (auto simp: Contains_iff)

lemma Contains_Next:
  assumes a: "Contains q a" and b: "Contains q b" "addr_num a < addr_num b"
  shows "Contains q (addr_Next a)" "addr_num (addr_Next a) = Suc (addr_num a)"
proof -
  have q: "IsValid q" and L: "BitLen a = BitLen b" "\<not> hasZone a"
    using a b by (auto simp: Contains_iff)
  have nz: "a \<noteq> ZeroAddr"
    using a IsValidD(1) [OF q] by (auto simp: Contains_iff)
  have "addr_Next a \<noteq> ZeroAddr"
    using addr_Next_num(1) [OF nz] addr_num_bound [of b] b(2) L(1) by auto
  note nx = addr_Next_num(2) [OF nz this]
  then show "addr_num (addr_Next a) = Suc (addr_num a)"
    by simp
  show "Contains q (addr_Next a)"
    using a b nx L(2) unfolding Contains_between [OF q] by auto
qed

lemma next_free_Some:
  "next_free q m ip = Some a \<Longrightarrow> Contains q a \<and> map_lookup m (addr_String a) = None \<and>
     addr_num ip \<le> addr_num a \<and>
     (\<forall>b. Contains q b \<and> addr_num ip \<le> addr_num b \<and> addr_num b < addr_num a \<longrightarrow>
        map_lookup m (addr_String b) \<noteq> None)"
proof (induction q m ip rule: next_free.induct)
  case (1 q m ip)
  show ?case
  proof (cases "Contains q ip \<and> map_lookup m (addr_String ip) \<noteq> None")
    case False
    with 1(2) show ?thesis
      by (auto simp: next_free.simps [of q m ip] split: if_split_asm)
  next
    case True
    with 1 have IH: "Contains q a" "map_lookup m (addr_String a) = None"
        "addr_num (addr_Next ip) \<le> addr_num a"
        "\<And>b. Contains q b \<Longrightarrow> addr_num (addr_Next ip) \<le> addr_num b \<Longrightarrow> addr_num b < addr_num a \<Longrightarrow>
          map_lookup m (addr_String b) \<noteq> None"
      by (auto simp: next_free.simps [of q m ip])
    have "addr_Next ip \<noteq> ZeroAddr"
      using 1(2) True by (auto simp: next_free.simps [of q m ip] next_free.simps [of q m ZeroAddr]
          Contains_iff dest: IsValidD(1))
    then have nx: "addr_num (addr_Next ip) = Suc (addr_num ip)"
      using addr_Next_num(2) [of ip] by (metis addr_Next.simps(1))
    have "map_lookup m (addr_String b) \<noteq> None"
      if "Contains q b" "addr_num ip \<le> addr_num b" "addr_num b < addr_num a" for b
      using that True IH(4) [of b] Contains_same [of q ip b] nx
      by (cases "addr_num ip = addr_num b") auto
    with IH nx show ?thesis
      by auto
  qed
qed

lemma next_free_None:
  "next_free q m ip = None \<Longrightarrow> Contains q ip \<Longrightarrow> Contains q b \<Longrightarrow> addr_num ip \<le> addr_num b \<Longrightarrow>
     map_lookup m (addr_String b) \<noteq> None"
proof (induction q m ip rule: next_free.induct)
  case (1 q m ip)
  then have ip: "map_lookup m (addr_String ip) \<noteq> None" and rec: "next_free q m (addr_Next ip) = None"
    by (auto simp: next_free.simps [of q m ip] split: if_split_asm)
  show ?case
  proof (cases "addr_num ip = addr_num b")
    case True
    with ip 1(3,4) show ?thesis
      using Contains_same by blast
  next
    case False
    with 1(5) have "addr_num ip < addr_num b"
      by simp
    note nx = Contains_Next [OF 1(3,4) this]
    then have "addr_num (addr_Next ip) \<le> addr_num b"
      using \<open>addr_num ip < addr_num b\<close> by simp
    from 1(1) [OF _ ip rec nx(1) 1(4) this] 1(3) show ?thesis
      by simp
  qed
qed

lemma next_free_first:
  assumes "IsValid q"
  shows "next_free q m (first_addr q) = Some a \<Longrightarrow> Contains q a \<and> map_lookup m (addr_String a) = None \<and>
      (\<forall>b. Contains q b \<and> addr_num b < addr_num a \<longrightarrow> map_lookup m (addr_String b) \<noteq> None)"
    and "next_free q m (first_addr q) = None \<Longrightarrow> Contains q b \<Longrightarrow> map_lookup m (addr_String b) \<noteq> None"
  using next_free_Some [of q m "first_addr q" a] next_free_None [of q m "first_addr q" b]
    Contains_first_last(1) [OF assms] Contains_between [OF assms] by blast+

section \<open>Looking up a prefix\<close>

text \<open>The cidr under which the prefix that a text denotes is stored.\<close>

definition key :: "netip_prefix \<Rightarrow> string" where
  "key q = prefix_String (Masked q)"

lemma ParsePrefix_key: "IsValid q \<Longrightarrow> ParsePrefix (key q) = Inr (Masked q)"
  by (simp add: key_def ParsePrefix_String)

lemma key_eq_iff: "IsValid q \<Longrightarrow> IsValid r \<Longrightarrow> key q = key r \<longleftrightarrow> Masked q = Masked r"
  by (simp add: key_def prefix_String_inject)

text \<open>The stored prefix that a text denotes in the namespace of a context.\<close>

definition stored :: "store_view \<Rightarrow> ctx \<Rightarrow> string \<Rightarrow> aprefix option" where
  "stored v ctx cidr = (case ParsePrefix cidr of
      Inl e \<Rightarrow> None
    | Inr q \<Rightarrow> (case v (namespaceFromContext ctx) of None \<Rightarrow> None | Some m \<Rightarrow> m (key q)))"

lemma stored_Some:
  assumes "stored v ctx cidr = Some a"
  obtains q m where "ParsePrefix cidr = Inr q" "v (namespaceFromContext ctx) = Some m" "m (key q) = Some a"
  using assms by (auto simp: stored_def split: sum.split_asm option.split_asm)

text \<open>Writing a prefix to the namespace of a context.\<close>

definition put :: "store_view \<Rightarrow> ctx \<Rightarrow> aprefix \<Rightarrow> store_view" where
  "put v ctx a = (case v (namespaceFromContext ctx) of
      None \<Rightarrow> v
    | Some m \<Rightarrow> v(namespaceFromContext ctx \<mapsto> m(aCidr a \<mapsto> a)))"

definition take_ip :: "addr \<Rightarrow> aprefix \<Rightarrow> aprefix" where
  "take_ip ip a = a\<lparr>aIPs := (aIPs a)(addr_String ip \<mapsto> True), aVersion := aVersion a + 1\<rparr>"

definition drop_ip :: "string \<Rightarrow> aprefix \<Rightarrow> aprefix" where
  "drop_ip ip a = a\<lparr>aIPs := (aIPs a)(ip := None), aVersion := aVersion a + 1\<rparr>"

lemma take_drop_simps [simp]:
  "aCidr (take_ip ip a) = aCidr a" "aIsParent (take_ip ip a) = aIsParent a"
  "aChildren (take_ip ip a) = aChildren a" "aParentCidr (take_ip ip a) = aParentCidr a"
  "aIPs (take_ip ip a) = (aIPs a)(addr_String ip \<mapsto> True)" "aVersion (take_ip ip a) = aVersion a + 1"
  "aCidr (drop_ip i a) = aCidr a" "aIsParent (drop_ip i a) = aIsParent a"
  "aChildren (drop_ip i a) = aChildren a" "aParentCidr (drop_ip i a) = aParentCidr a"
  "aIPs (drop_ip i a) = (aIPs a)(i := None)" "aVersion (drop_ip i a) = aVersion a + 1"
  by (simp_all add: take_ip_def drop_ip_def)

text \<open>The addresses of a prefix that are not allocated.\<close>

definition free_ips :: "netip_prefix \<Rightarrow> aprefix \<Rightarrow> addr set" where
  "free_ips q a = {ip. Contains q ip \<and> aIPs a (addr_String ip) = None}"

context storage_laws
begin

lemma PrefixFrom_found:
  assumes "invar s" "view s (namespaceFromContext ctx) = Some m" "ParsePrefix cidr = Inr q" "m (key q) = Some a"
  obtains p s' where "PrefixFrom st ctx cidr s = (Inr p, s')" "abs_prefix p = a" "wf_prefix p"
    "Cidr p = key q" "invar s'" "view s' = view s"
  using read [OF assms(1,2,4)] view_cidr [OF assms(1,2,4)] assms(3) that
  by (auto simp: PrefixFrom_def key_def Let_def)

lemma PrefixFrom_missing:
  assumes "invar s" "view s (namespaceFromContext ctx) = Some m" "ParsePrefix cidr = Inr q" "m (key q) = None"
  obtains e s' where "PrefixFrom st ctx cidr s = (Inl e, s')" "errors_is e ErrNotFound" "invar s'" "view s' = view s"
  using read_missing [OF assms(1,2,4)] assms(3) that by (auto simp: PrefixFrom_def key_def Let_def)

lemma PrefixFrom_Inl:
  assumes "ParsePrefix cidr = Inl e"
  shows "PrefixFrom st ctx cidr s = (Inl e, s)"
  using assms by (simp add: PrefixFrom_def Let_def)

text \<open>\<open>PrefixFrom\<close> fails and changes nothing unless the text denotes a stored prefix.\<close>

lemma PrefixFrom_not_stored:
  assumes "invar s" "stored (view s) ctx cidr = None"
  obtains e s' where "PrefixFrom st ctx cidr s = (Inl e, s')" "invar s'" "view s' = view s"
proof (cases "ParsePrefix cidr")
  case (Inl e)
  with that PrefixFrom_Inl assms(1) show ?thesis
    by blast
next
  case (Inr q)
  show ?thesis
  proof (cases "view s (namespaceFromContext ctx)")
    case None
    with no_ns_read [OF assms(1), of "namespaceFromContext ctx" "key q"] Inr that show ?thesis
      by (auto simp: PrefixFrom_def key_def Let_def)
  next
    case (Some m)
    with assms(2) Inr have "m (key q) = None"
      by (simp add: stored_def)
    with that PrefixFrom_missing [OF assms(1) Some Inr] show ?thesis
      by metis
  qed
qed

lemma PrefixFrom_stored:
  assumes "invar s" "stored (view s) ctx cidr = Some a"
  obtains p s' m q where "PrefixFrom st ctx cidr s = (Inr p, s')" "abs_prefix p = a" "wf_prefix p"
    "ParsePrefix cidr = Inr q" "Cidr p = key q" "ParsePrefix (Cidr p) = Inr (Masked q)"
    "invar s'" "view s' = view s" "view s (namespaceFromContext ctx) = Some m" "m (Cidr p) = Some a"
proof -
  obtain q m where q: "ParsePrefix cidr = Inr q" "view s (namespaceFromContext ctx) = Some m" "m (key q) = Some a"
    using assms(2) by (rule stored_Some)
  obtain p s' where p: "PrefixFrom st ctx cidr s = (Inr p, s')" "abs_prefix p = a" "wf_prefix p"
      "Cidr p = key q" "invar s'" "view s' = view s"
    using PrefixFrom_found [OF assms(1) q(2,1,3)] .
  with that q ParsePrefix_key [OF ParsePrefix_valid [OF q(1)]] show ?thesis
    by auto
qed

text \<open>Writing back a prefix that was just read.\<close>

lemma update_read:
  assumes "invar s" "view s (namespaceFromContext ctx) = Some m" "m (Cidr p) = Some a"
    "wf_prefix p'" "Cidr p' = Cidr p" "version p' = aVersion a"
  obtains s' where "UpdatePrefix st p' (namespaceFromContext ctx) s = (Inr (next_version p'), s')" "invar s'"
    "view s' = put (view s) ctx (abs_prefix (next_version p'))"
  using update [OF assms(1,2,4), of a] assms(2,3,5,6) that by (auto simp: put_def)

lemma acquireAndStore_ok:
  assumes "invar s" "view s (namespaceFromContext ctx) = Some m" "m (Cidr p) = Some (abs_prefix p)" "wf_prefix p"
  obtains s' where "acquireAndStore st (namespaceFromContext ctx) p ip s = (Inr \<lparr>IP = ip, ParentPrefix = Cidr p\<rparr>, s')"
    "invar s'" "view s' = put (view s) ctx (take_ip ip (abs_prefix p))"
proof -
  have ok: "map_ok (ips p)"
    using assms(4) by (simp add: wf_prefix_def)
  obtain im where im: "map_insert (ips p) (addr_String ip) True = Inr im"
    using map_ok_insert_ex [OF ok] by blast
  have wf: "wf_prefix (p\<lparr>ips := im\<rparr>)"
    using assms(4) map_insert_ok [OF im ok] by (simp add: wf_prefix_def)
  have abs: "abs_prefix (next_version (p\<lparr>ips := im\<rparr>)) = take_ip ip (abs_prefix p)"
    by (simp add: abs_prefix_def next_version_def take_ip_def map_insert_Inr [OF im])
  obtain s' where "UpdatePrefix st (p\<lparr>ips := im\<rparr>) (namespaceFromContext ctx) s =
      (Inr (next_version (p\<lparr>ips := im\<rparr>)), s')" "invar s'"
    "view s' = put (view s) ctx (take_ip ip (abs_prefix p))"
    using update_read [OF assms(1-3) wf] abs by auto
  with that im show ?thesis
    by (simp add: acquireAndStore_def)
qed

text \<open>One attempt to acquire: the first free address, a given address, and the errors.\<close>

lemma acquire_next:
  assumes nx: "netipx_laws nx B BS IS" and s: "invar s" "stored (view s) ctx cidr = Some a" "\<not> aIsParent a"
    and q: "ParsePrefix cidr = Inr q"
  shows "free_ips q a \<noteq> {} \<Longrightarrow> \<exists>ip s'. acquireSpecificIPInternal nx st ctx (namespaceFromContext ctx) cidr [] s =
        (Inr \<lparr>IP = ip, ParentPrefix = key q\<rparr>, s') \<and> ip \<in> free_ips q a \<and>
        (\<forall>b \<in> free_ips q a. addr_num ip \<le> addr_num b) \<and> invar s' \<and> view s' = put (view s) ctx (take_ip ip a)"
    and "free_ips q a = {} \<Longrightarrow> \<exists>e s'. acquireSpecificIPInternal nx st ctx (namespaceFromContext ctx) cidr [] s =
        (Inl e, s') \<and> errors_is e ErrNoIPAvailable \<and> \<not> errors_is e ErrOptimisticLockError \<and> invar s' \<and> view s' = view s"
proof -
  obtain p s1 m where p: "PrefixFrom st ctx cidr s = (Inr p, s1)" "abs_prefix p = a" "wf_prefix p"
    "Cidr p = key q" "ParsePrefix (Cidr p) = Inr (Masked q)" "invar s1" "view s1 = view s"
    "view s (namespaceFromContext ctx) = Some m" "m (Cidr p) = Some a"
    using PrefixFrom_stored [OF s(1,2)] q by (metis sum.inject(2))
  have v: "IsValid q" "IsValid (Masked q)"
    using ParsePrefix_valid [OF q] by simp_all
  have mem: "Contains (Masked q) b \<longleftrightarrow> Contains q b" for b
    using block_Masked [OF v(1)] by (auto simp: block_def)
  have free: "b \<in> free_ips q a \<longleftrightarrow> Contains (Masked q) b \<and> map_lookup (ips p) (addr_String b) = None" for b
    using p(2) by (auto simp: free_ips_def mem)
  have par: "\<not> isParent p"
    using s(3) p(2) by auto
  have range: "fst (RangeOfPrefix nx (Masked q)) = first_addr (Masked q)"
    using netipx_laws.RangeOfPrefix_eq [OF nx v(2)] by simp
  note scan = next_free_first [OF v(2), of "ips p"]
  have unf: "acquireSpecificIPInternal nx st ctx (namespaceFromContext ctx) cidr [] s =
      (case next_free (Masked q) (ips p) (first_addr (Masked q)) of
         Some ip \<Rightarrow> acquireAndStore st (namespaceFromContext ctx) p ip s1
       | None \<Rightarrow> (Inl (Errorf ''%w: no more ips in prefix: %s left, length of prefix.ips: %d''
               [Sentinel ErrNoIPAvailable]), s1))"
    using p(1,5) par range by (simp add: acquireSpecificIPInternal_def)
  show "\<exists>ip s'. acquireSpecificIPInternal nx st ctx (namespaceFromContext ctx) cidr [] s =
      (Inr \<lparr>IP = ip, ParentPrefix = key q\<rparr>, s') \<and> ip \<in> free_ips q a \<and>
      (\<forall>b \<in> free_ips q a. addr_num ip \<le> addr_num b) \<and> invar s' \<and> view s' = put (view s) ctx (take_ip ip a)"
    if ne: "free_ips q a \<noteq> {}"
  proof -
    obtain b where b: "Contains (Masked q) b" "map_lookup (ips p) (addr_String b) = None"
      using ne free by blast
    then obtain ip where ip: "next_free (Masked q) (ips p) (first_addr (Masked q)) = Some ip"
      using scan(2) [OF _ b(1)] by (meson not_Some_eq)
    have least: "addr_num ip \<le> addr_num b" if "b \<in> free_ips q a" for b
      using scan(1) [OF ip] that by (meson free not_le)
    obtain s' where "acquireAndStore st (namespaceFromContext ctx) p ip s1 =
        (Inr \<lparr>IP = ip, ParentPrefix = Cidr p\<rparr>, s')" "invar s'" "view s' = put (view s) ctx (take_ip ip a)"
      using acquireAndStore_ok [OF p(6), of ctx m p ip] p by auto
    with unf ip scan(1) [OF ip] least p(4) show ?thesis
      by (auto simp: free)
  qed
  show "\<exists>e s'. acquireSpecificIPInternal nx st ctx (namespaceFromContext ctx) cidr [] s = (Inl e, s') \<and>
      errors_is e ErrNoIPAvailable \<and> \<not> errors_is e ErrOptimisticLockError \<and> invar s' \<and> view s' = view s"
    if "free_ips q a = {}"
  proof -
    have "next_free (Masked q) (ips p) (first_addr (Masked q)) = None"
      using that scan(1) free by (metis equals0D not_Some_eq)
    with unf p(6,7) show ?thesis
      by simp
  qed
qed

lemma acquire_specific:
  assumes s: "invar s" "stored (view s) ctx cidr = Some a" "\<not> aIsParent a"
    and q: "ParsePrefix cidr = Inr q" and ip: "ParseAddr text = Inr ip" "text \<noteq> []"
  shows "ip \<in> free_ips q a \<Longrightarrow> \<exists>s'. acquireSpecificIPInternal nx st ctx (namespaceFromContext ctx) cidr text s =
        (Inr \<lparr>IP = ip, ParentPrefix = key q\<rparr>, s') \<and> invar s' \<and> view s' = put (view s) ctx (take_ip ip a)"
    and "ip \<notin> free_ips q a \<Longrightarrow> \<exists>e s'. acquireSpecificIPInternal nx st ctx (namespaceFromContext ctx) cidr text s =
        (Inl e, s') \<and> (errors_is e ErrAlreadyAllocated \<longleftrightarrow> Contains q ip) \<and>
        \<not> errors_is e ErrOptimisticLockError \<and> invar s' \<and> view s' = view s"
proof -
  obtain p s1 m where p: "PrefixFrom st ctx cidr s = (Inr p, s1)" "abs_prefix p = a" "wf_prefix p"
    "Cidr p = key q" "ParsePrefix (Cidr p) = Inr (Masked q)" "invar s1" "view s1 = view s"
    "view s (namespaceFromContext ctx) = Some m" "m (Cidr p) = Some a"
    using PrefixFrom_stored [OF s(1,2)] q by (metis sum.inject(2))
  have mem: "Contains (Masked q) ip \<longleftrightarrow> Contains q ip"
    using block_Masked [OF ParsePrefix_valid [OF q]] by (auto simp: block_def)
  have free: "ip \<in> free_ips q a \<longleftrightarrow> Contains q ip \<and> map_lookup (ips p) (addr_String ip) = None"
    using p(2) by (auto simp: free_ips_def)
  have unf: "acquireSpecificIPInternal nx st ctx (namespaceFromContext ctx) cidr text s =
      (if \<not> Contains q ip then (Inl (Errorf ''given ip:%s is not in %s'' []), s1)
       else if map_lookup (ips p) (addr_String ip) \<noteq> None then
         (Inl (Errorf ''%w: given ip:%s is already allocated'' [Sentinel ErrAlreadyAllocated]), s1)
       else acquireAndStore st (namespaceFromContext ctx) p ip s1)"
    using p(1,2,5) s(3) ip mem by (auto simp: acquireSpecificIPInternal_def)
  show "\<exists>s'. acquireSpecificIPInternal nx st ctx (namespaceFromContext ctx) cidr text s =
      (Inr \<lparr>IP = ip, ParentPrefix = key q\<rparr>, s') \<and> invar s' \<and> view s' = put (view s) ctx (take_ip ip a)"
    if "ip \<in> free_ips q a"
  proof -
    obtain s' where "acquireAndStore st (namespaceFromContext ctx) p ip s1 =
        (Inr \<lparr>IP = ip, ParentPrefix = Cidr p\<rparr>, s')" "invar s'" "view s' = put (view s) ctx (take_ip ip a)"
      using acquireAndStore_ok [OF p(6), of ctx m p ip] p by auto
    with unf that p(4) show ?thesis
      by (simp add: free)
  qed
  show "\<exists>e s'. acquireSpecificIPInternal nx st ctx (namespaceFromContext ctx) cidr text s = (Inl e, s') \<and>
      (errors_is e ErrAlreadyAllocated \<longleftrightarrow> Contains q ip) \<and> \<not> errors_is e ErrOptimisticLockError \<and>
      invar s' \<and> view s' = view s" if "ip \<notin> free_ips q a"
    using that unf p(6,7) by (auto simp: free)
qed

lemma acquire_not_stored:
  assumes "invar s" "stored (view s) ctx cidr = None"
  shows "\<exists>e s'. acquireSpecificIPInternal nx st ctx (namespaceFromContext ctx) cidr text s = (Inl e, s') \<and>
    errors_is e ErrNotFound \<and> \<not> errors_is e ErrOptimisticLockError \<and> invar s' \<and> view s' = view s"
proof -
  obtain e s' where "PrefixFrom st ctx cidr s = (Inl e, s')" "invar s'" "view s' = view s"
    using PrefixFrom_not_stored [OF assms] .
  then show ?thesis
    by (simp add: acquireSpecificIPInternal_def)
qed

lemma acquire_parent:
  assumes "invar s" "stored (view s) ctx cidr = Some a" "aIsParent a"
  shows "\<exists>e s'. acquireSpecificIPInternal nx st ctx (namespaceFromContext ctx) cidr text s = (Inl e, s') \<and>
    (\<forall>x. \<not> errors_is e x) \<and> invar s' \<and> view s' = view s"
proof -
  obtain p s1 where "PrefixFrom st ctx cidr s = (Inr p, s1)" "abs_prefix p = a" "invar s1" "view s1 = view s"
    using PrefixFrom_stored [OF assms(1,2)] by metis
  with assms(3) show ?thesis
    by (auto simp: acquireSpecificIPInternal_def)
qed

lemma acquire_bad_text:
  assumes "invar s" "stored (view s) ctx cidr = Some a" "ParseAddr text = Inl err" "text \<noteq> []"
  shows "\<exists>e s'. acquireSpecificIPInternal nx st ctx (namespaceFromContext ctx) cidr text s = (Inl e, s') \<and>
    (\<forall>x. \<not> errors_is e x) \<and> invar s' \<and> view s' = view s"
proof -
  obtain p s1 q where "PrefixFrom st ctx cidr s = (Inr p, s1)" "abs_prefix p = a" "ParsePrefix (Cidr p) = Inr q" "invar s1"
      "view s1 = view s"
    using PrefixFrom_stored [OF assms(1,2)] by metis
  with assms(3,4) show ?thesis
    by (auto simp: acquireSpecificIPInternal_def Let_def)
qed

text \<open>One attempt to release.\<close>

lemma release_ip:
  assumes s: "invar s" "stored (view s) ctx cidr = Some a"
  shows "aIPs a ip \<noteq> None \<Longrightarrow> \<exists>s'. releaseIPFromPrefixInternal st ctx (namespaceFromContext ctx) cidr ip s =
        (Inr (), s') \<and> invar s' \<and> view s' = put (view s) ctx (drop_ip ip a)"
    and "aIPs a ip = None \<Longrightarrow> \<exists>e s'. releaseIPFromPrefixInternal st ctx (namespaceFromContext ctx) cidr ip s =
        (Inl e, s') \<and> errors_is e ErrNotFound \<and> \<not> errors_is e ErrOptimisticLockError \<and> invar s' \<and> view s' = view s"
proof -
  obtain p s1 m where p: "PrefixFrom st ctx cidr s = (Inr p, s1)" "abs_prefix p = a" "wf_prefix p"
    "invar s1" "view s1 = view s" "view s (namespaceFromContext ctx) = Some m" "m (Cidr p) = Some a"
    using PrefixFrom_stored [OF s] by metis
  have lk: "aIPs a ip = map_lookup (ips p) ip"
    using p(2) by auto
  let ?p = "p\<lparr>ips := map_delete (ips p) ip\<rparr>"
  have wf: "wf_prefix ?p"
    using p(3) by (simp add: wf_prefix_def)
  have abs: "abs_prefix (next_version ?p) = drop_ip ip a"
    using p(2) by (auto simp: abs_prefix_def next_version_def drop_ip_def)
  show "\<exists>s'. releaseIPFromPrefixInternal st ctx (namespaceFromContext ctx) cidr ip s = (Inr (), s') \<and>
      invar s' \<and> view s' = put (view s) ctx (drop_ip ip a)" if "aIPs a ip \<noteq> None"
  proof -
    have pre: "view s1 (namespaceFromContext ctx) = Some m" "Cidr ?p = Cidr p" "version ?p = aVersion a"
      using p(2,5,6) by auto
    obtain s' where "UpdatePrefix st ?p (namespaceFromContext ctx) s1 = (Inr (next_version ?p), s')"
        "invar s'" "view s' = put (view s) ctx (drop_ip ip a)"
      using update_read [OF p(4) pre(1) p(7) wf pre(2,3)] unfolding abs p(5) .
    with p(1) that lk show ?thesis
      by (auto simp: releaseIPFromPrefixInternal_def)
  qed
  show "aIPs a ip = None \<Longrightarrow> \<exists>e s'. releaseIPFromPrefixInternal st ctx (namespaceFromContext ctx) cidr ip s =
      (Inl e, s') \<and> errors_is e ErrNotFound \<and> \<not> errors_is e ErrOptimisticLockError \<and> invar s' \<and> view s' = view s"
    using p(1,4,5) lk by (auto simp: releaseIPFromPrefixInternal_def)
qed

lemma release_not_stored:
  assumes "invar s" "stored (view s) ctx cidr = None"
  shows "\<exists>e s'. releaseIPFromPrefixInternal st ctx (namespaceFromContext ctx) cidr ip s = (Inl e, s') \<and>
    errors_is e ErrNotFound \<and> \<not> errors_is e ErrOptimisticLockError \<and> invar s' \<and> view s' = view s"
proof -
  obtain e s' where "PrefixFrom st ctx cidr s = (Inl e, s')" "invar s'" "view s' = view s"
    using PrefixFrom_not_stored [OF assms] .
  then show ?thesis
    by (simp add: releaseIPFromPrefixInternal_def)
qed

end

section \<open>The laws of the address operations\<close>

lemma AcquireIP_law:
  assumes laws: "storage_laws st invar view ok_ns" "netipx_laws nx B BS IS" "retry_laws retry"
    and s: "invar s" "stored (view s) ctx cidr = Some a" "\<not> aIsParent a" and q: "ParsePrefix cidr = Inr q"
  shows "if free_ips q a \<noteq> {}
    then \<exists>ip s'. AcquireIP nx retry st ctx cidr s = (Inr \<lparr>IP = ip, ParentPrefix = key q\<rparr>, s') \<and>
      ip \<in> free_ips q a \<and> (\<forall>b \<in> free_ips q a. addr_num ip \<le> addr_num b) \<and>
      invar s' \<and> view s' = put (view s) ctx (take_ip ip a)
    else \<exists>e s'. AcquireIP nx retry st ctx cidr s = (Inl e, s') \<and> errors_is e ErrNoIPAvailable \<and>
      invar s' \<and> view s' = view s"
proof (cases "free_ips q a = {}")
  case True
  obtain e s' where "acquireSpecificIPInternal nx st ctx (namespaceFromContext ctx) cidr [] s = (Inl e, s')"
      "errors_is e ErrNoIPAvailable" "\<not> errors_is e ErrOptimisticLockError" "invar s'" "view s' = view s"
    using storage_laws.acquire_next(2) [OF laws(1,2) s q True] by blast
  with True retry_Inl [OF laws(3)] show ?thesis
    by (simp add: AcquireIP_def AcquireSpecificIP_def)
next
  case False
  obtain ip s' where "acquireSpecificIPInternal nx st ctx (namespaceFromContext ctx) cidr [] s =
      (Inr \<lparr>IP = ip, ParentPrefix = key q\<rparr>, s')" "ip \<in> free_ips q a"
      "\<forall>b \<in> free_ips q a. addr_num ip \<le> addr_num b" "invar s'" "view s' = put (view s) ctx (take_ip ip a)"
    using storage_laws.acquire_next(1) [OF laws(1,2) s q False] by blast
  with False retry_Inr [OF laws(3)] show ?thesis
    by (simp add: AcquireIP_def AcquireSpecificIP_def)
qed

text \<open>
  C1: \<open>AcquireIP\<close> on a stored prefix without children hands out the lowest address of the prefix
  that is not allocated and records it in the prefix and nothing else; when there is none it fails
  with \<open>ErrNoIPAvailable\<close> and nothing changes.
\<close>

theorem AcquireIP_spec:
  assumes laws: "storage_laws st invar view ok_ns" "netipx_laws nx B BS IS" "retry_laws retry"
    and s: "invar s" "stored (view s) ctx cidr = Some a" "\<not> aIsParent a" and q: "ParsePrefix cidr = Inr q"
  shows "if free_ips q a \<noteq> {}
    then \<exists>ip s'. AcquireIP nx retry st ctx cidr s = (Inr \<lparr>IP = ip, ParentPrefix = key q\<rparr>, s') \<and>
      ip \<in> free_ips q a \<and> (\<forall>b \<in> free_ips q a. addr_num ip \<le> addr_num b) \<and>
      invar s' \<and> view s' = put (view s) ctx (take_ip ip a)
    else \<exists>e s'. AcquireIP nx retry st ctx cidr s = (Inl e, s') \<and> errors_is e ErrNoIPAvailable \<and>
      invar s' \<and> view s' = view s"
  by (rule AcquireIP_law [OF assms])

lemma AcquireSpecificIP_law:
  assumes laws: "storage_laws st invar view ok_ns" "retry_laws retry"
    and s: "invar s" "stored (view s) ctx cidr = Some a" "\<not> aIsParent a" and q: "ParsePrefix cidr = Inr q"
    and ip: "ParseAddr text = Inr ip" "text \<noteq> []"
  shows "if ip \<in> free_ips q a
    then \<exists>s'. AcquireSpecificIP nx retry st ctx cidr text s = (Inr \<lparr>IP = ip, ParentPrefix = key q\<rparr>, s') \<and>
      invar s' \<and> view s' = put (view s) ctx (take_ip ip a)
    else \<exists>e s'. AcquireSpecificIP nx retry st ctx cidr text s = (Inl e, s') \<and>
      (errors_is e ErrAlreadyAllocated \<longleftrightarrow> Contains q ip) \<and> invar s' \<and> view s' = view s"
proof (cases "ip \<in> free_ips q a")
  case True
  obtain s' where "acquireSpecificIPInternal nx st ctx (namespaceFromContext ctx) cidr text s =
      (Inr \<lparr>IP = ip, ParentPrefix = key q\<rparr>, s')" "invar s'" "view s' = put (view s) ctx (take_ip ip a)"
    using storage_laws.acquire_specific(1) [OF laws(1) s q ip True] by blast
  with True retry_Inr [OF laws(2)] show ?thesis
    by (simp add: AcquireSpecificIP_def)
next
  case False
  obtain e s' where "acquireSpecificIPInternal nx st ctx (namespaceFromContext ctx) cidr text s = (Inl e, s')"
      "errors_is e ErrAlreadyAllocated \<longleftrightarrow> Contains q ip" "\<not> errors_is e ErrOptimisticLockError"
      "invar s'" "view s' = view s"
    using storage_laws.acquire_specific(2) [OF laws(1) s q ip False] by blast
  with False retry_Inl [OF laws(2)] show ?thesis
    by (simp add: AcquireSpecificIP_def)
qed

text \<open>A prefix with children refuses every request, and a text that is no address is refused by every prefix.\<close>

lemma AcquireIP_parent:
  assumes laws: "storage_laws st invar view ok_ns" "retry_laws retry"
    and s: "invar s" "stored (view s) ctx cidr = Some a" "aIsParent a"
  shows "\<exists>e s'. AcquireSpecificIP nx retry st ctx cidr text s = (Inl e, s') \<and> (\<forall>x. \<not> errors_is e x) \<and> invar s' \<and> view s' = view s"
proof -
  obtain e s' where e: "acquireSpecificIPInternal nx st ctx (namespaceFromContext ctx) cidr text s = (Inl e, s')"
      "\<forall>x. \<not> errors_is e x" "invar s'" "view s' = view s"
    using storage_laws.acquire_parent [OF laws(1) s] by blast
  from e(2) have "\<not> errors_is e ErrOptimisticLockError"
    by blast
  with e retry_Inl [OF laws(2)] show ?thesis
    by (simp add: AcquireSpecificIP_def)
qed

lemma AcquireSpecificIP_bad_text:
  assumes laws: "storage_laws st invar view ok_ns" "retry_laws retry"
    and s: "invar s" "stored (view s) ctx cidr = Some a" and ip: "ParseAddr text = Inl err" "text \<noteq> []"
  shows "\<exists>e s'. AcquireSpecificIP nx retry st ctx cidr text s = (Inl e, s') \<and> (\<forall>x. \<not> errors_is e x) \<and> invar s' \<and> view s' = view s"
proof -
  obtain e s' where e: "acquireSpecificIPInternal nx st ctx (namespaceFromContext ctx) cidr text s = (Inl e, s')"
      "\<forall>x. \<not> errors_is e x" "invar s'" "view s' = view s"
    using storage_laws.acquire_bad_text [OF laws(1) s ip] by blast
  from e(2) have "\<not> errors_is e ErrOptimisticLockError"
    by blast
  with e retry_Inl [OF laws(2)] show ?thesis
    by (simp add: AcquireSpecificIP_def)
qed

lemma AcquireSpecificIP_full:
  assumes laws: "storage_laws st invar view ok_ns" "retry_laws retry"
    and s: "invar s" "stored (view s) ctx cidr = Some a" and q: "ParsePrefix cidr = Inr q"
    and ip: "ParseAddr text = Inr ip" "text \<noteq> []"
  shows "if \<not> aIsParent a \<and> ip \<in> free_ips q a
    then \<exists>s'. AcquireSpecificIP nx retry st ctx cidr text s = (Inr \<lparr>IP = ip, ParentPrefix = key q\<rparr>, s') \<and>
      invar s' \<and> view s' = put (view s) ctx (take_ip ip a)
    else \<exists>e s'. AcquireSpecificIP nx retry st ctx cidr text s = (Inl e, s') \<and>
      (errors_is e ErrAlreadyAllocated \<longleftrightarrow> \<not> aIsParent a \<and> Contains q ip) \<and> invar s' \<and> view s' = view s"
proof (cases "aIsParent a")
  case True
  then show ?thesis
    using AcquireIP_parent [OF laws s True, of nx "text"] by auto
next
  case False
  then show ?thesis
    using AcquireSpecificIP_law [OF laws s False q ip, of nx] by simp
qed

text \<open>
  C17: \<open>AcquireSpecificIP\<close> on a stored prefix hands out exactly the address asked for when the prefix has no
  children and the address is in it and not allocated; otherwise it fails and nothing changes, with
  \<open>ErrAlreadyAllocated\<close> exactly when the prefix has no children and the address is in it. So a prefix with
  children refuses every address.
\<close>

theorem AcquireSpecificIP_spec:
  assumes laws: "storage_laws st invar view ok_ns" "retry_laws retry"
    and s: "invar s" "stored (view s) ctx cidr = Some a" and q: "ParsePrefix cidr = Inr q"
    and ip: "ParseAddr text = Inr ip" "text \<noteq> []"
  shows "if \<not> aIsParent a \<and> ip \<in> free_ips q a
    then \<exists>s'. AcquireSpecificIP nx retry st ctx cidr text s = (Inr \<lparr>IP = ip, ParentPrefix = key q\<rparr>, s') \<and>
      invar s' \<and> view s' = put (view s) ctx (take_ip ip a)
    else \<exists>e s'. AcquireSpecificIP nx retry st ctx cidr text s = (Inl e, s') \<and>
      (errors_is e ErrAlreadyAllocated \<longleftrightarrow> \<not> aIsParent a \<and> Contains q ip) \<and> invar s' \<and> view s' = view s"
  by (rule AcquireSpecificIP_full [OF assms])

text \<open>
  Acquiring fails and changes nothing when the cidr denotes no stored prefix, with
  \<open>ErrNotFound\<close>, and when the prefix has children.
\<close>

theorem AcquireSpecificIP_rejects:
  assumes laws: "storage_laws st invar view ok_ns" "retry_laws retry" and s: "invar s"
    and a: "stored (view s) ctx cidr = None \<or> (\<exists>a. stored (view s) ctx cidr = Some a \<and> aIsParent a)"
  shows "\<exists>e s'. AcquireSpecificIP nx retry st ctx cidr text s = (Inl e, s') \<and>
    (stored (view s) ctx cidr = None \<longrightarrow> errors_is e ErrNotFound) \<and> invar s' \<and> view s' = view s"
proof -
  obtain e s' where "acquireSpecificIPInternal nx st ctx (namespaceFromContext ctx) cidr text s = (Inl e, s')"
      "stored (view s) ctx cidr = None \<longrightarrow> errors_is e ErrNotFound"
      "\<not> errors_is e ErrOptimisticLockError" "invar s'" "view s' = view s"
    using a storage_laws.acquire_not_stored [OF laws(1) s] storage_laws.acquire_parent [OF laws(1) s]
    by (metis option.distinct(1))
  with retry_Inl [OF laws(2)] show ?thesis
    by (simp add: AcquireSpecificIP_def)
qed

lemma ReleaseIPFromPrefix_law:
  assumes laws: "storage_laws st invar view ok_ns" "retry_laws retry"
    and s: "invar s" "stored (view s) ctx cidr = Some a"
  shows "if aIPs a ip \<noteq> None
    then \<exists>s'. ReleaseIPFromPrefix retry st ctx cidr ip s = (Inr (), s') \<and> invar s' \<and>
      view s' = put (view s) ctx (drop_ip ip a)
    else \<exists>e s'. ReleaseIPFromPrefix retry st ctx cidr ip s = (Inl e, s') \<and> errors_is e ErrNotFound \<and>
      invar s' \<and> view s' = view s"
proof (cases "aIPs a ip = None")
  case True
  obtain e s' where "releaseIPFromPrefixInternal st ctx (namespaceFromContext ctx) cidr ip s = (Inl e, s')"
      "errors_is e ErrNotFound" "\<not> errors_is e ErrOptimisticLockError" "invar s'" "view s' = view s"
    using storage_laws.release_ip(2) [OF laws(1) s True] by blast
  with True retry_Inl [OF laws(2)] show ?thesis
    by (simp add: ReleaseIPFromPrefix_def)
next
  case False
  obtain s' where "releaseIPFromPrefixInternal st ctx (namespaceFromContext ctx) cidr ip s = (Inr (), s')"
      "invar s'" "view s' = put (view s) ctx (drop_ip ip a)"
    using storage_laws.release_ip(1) [OF laws(1) s False] by blast
  with False retry_Inr [OF laws(2)] show ?thesis
    by (simp add: ReleaseIPFromPrefix_def)
qed

text \<open>
  C18: \<open>ReleaseIPFromPrefix\<close> removes exactly the given address from the prefix; an address that is
  not allocated there is \<open>ErrNotFound\<close> and nothing changes.
\<close>

theorem ReleaseIPFromPrefix_spec:
  assumes laws: "storage_laws st invar view ok_ns" "retry_laws retry"
    and s: "invar s" "stored (view s) ctx cidr = Some a"
  shows "if aIPs a ip \<noteq> None
    then \<exists>s'. ReleaseIPFromPrefix retry st ctx cidr ip s = (Inr (), s') \<and> invar s' \<and>
      view s' = put (view s) ctx (drop_ip ip a)
    else \<exists>e s'. ReleaseIPFromPrefix retry st ctx cidr ip s = (Inl e, s') \<and> errors_is e ErrNotFound \<and>
      invar s' \<and> view s' = view s"
  by (rule ReleaseIPFromPrefix_law [OF assms])

lemma stored_put:
  assumes "v (namespaceFromContext ctx) = Some m" "ParsePrefix cidr = Inr q"
  shows "stored (put v ctx a) ctx cidr = (if aCidr a = key q then Some a else m (key q))"
  using assms by (simp add: stored_def put_def)

lemma put_put: "aCidr a = aCidr b \<Longrightarrow> put (put v ctx a) ctx b = put v ctx b"
  by (auto simp: put_def split: option.splits)

lemma key_Masked: "IsValid q \<Longrightarrow> key (Masked q) = key q"
  by (simp add: key_def)

context storage_laws
begin

lemma stored_cidr:
  assumes "invar s" "stored (view s) ctx cidr = Some a" "ParsePrefix cidr = Inr q"
  shows "aCidr a = key q"
  using view_cidr [OF assms(1)] assms(2,3) by (auto simp: stored_def split: option.split_asm)

end

text \<open>
  C14: acquiring an address and releasing it gives the prefix back as it was, but for the version,
  which counts the two writes.
\<close>

theorem acquire_release_roundtrip:
  assumes laws: "storage_laws st invar view ok_ns" "netipx_laws nx B BS IS" "retry_laws retry" "retry_laws retry'"
    and s: "invar s" "stored (view s) ctx cidr = Some a" "\<not> aIsParent a" and q: "ParsePrefix cidr = Inr q"
    and free: "free_ips q a \<noteq> {}"
  shows "\<exists>ip s1 p s2. AcquireIP nx retry st ctx cidr s = (Inr ip, s1) \<and>
    ReleaseIP retry' st ctx ip s1 = (Inr p, s2) \<and> abs_prefix p = a\<lparr>aVersion := aVersion a + 2\<rparr> \<and>
    invar s2 \<and> view s2 = put (view s) ctx (a\<lparr>aVersion := aVersion a + 2\<rparr>)"
proof -
  obtain ip s1 where acq: "AcquireIP nx retry st ctx cidr s = (Inr \<lparr>IP = ip, ParentPrefix = key q\<rparr>, s1)"
      "ip \<in> free_ips q a" "invar s1" "view s1 = put (view s) ctx (take_ip ip a)"
    using AcquireIP_law [OF laws(1-3) s q] free by auto
  obtain m where m: "view s (namespaceFromContext ctx) = Some m"
    using s(2) by (rule stored_Some)
  note v = ParsePrefix_valid [OF q] and c = storage_laws.stored_cidr [OF laws(1) s(1,2) q]
  have st1: "stored (view s1) ctx (key q) = Some (take_ip ip a)"
    using stored_put [of "view s" ctx m "key q" "Masked q" "take_ip ip a", OF m ParsePrefix_key [OF v]] c key_Masked [OF v] acq(4) by simp
  let ?b = "drop_ip (addr_String ip) (take_ip ip a)"
  obtain s2 where rel: "ReleaseIPFromPrefix retry' st ctx (key q) (addr_String ip) s1 = (Inr (), s2)"
      "invar s2" "view s2 = put (view s1) ctx ?b"
    using ReleaseIPFromPrefix_law [OF laws(1,4) acq(3) st1, of "addr_String ip"] by auto
  have b: "?b = a\<lparr>aVersion := aVersion a + 2\<rparr>"
    using acq(2) by (auto simp: take_ip_def drop_ip_def free_ips_def fun_upd_idem)
  have view2: "view s2 = put (view s) ctx (a\<lparr>aVersion := aVersion a + 2\<rparr>)"
    using rel(3) acq(4) put_put [of "take_ip ip a" "a\<lparr>aVersion := aVersion a + 2\<rparr>"] unfolding b by simp
  have "stored (view s2) ctx (key q) = Some (a\<lparr>aVersion := aVersion a + 2\<rparr>)"
    using stored_put [of "view s" ctx m "key q" "Masked q", OF m ParsePrefix_key [OF v]] c key_Masked [OF v] view2 by simp
  then obtain p s3 where p: "PrefixFrom st ctx (key q) s2 = (Inr p, s3)"
      "abs_prefix p = a\<lparr>aVersion := aVersion a + 2\<rparr>" "invar s3" "view s3 = view s2"
    using storage_laws.PrefixFrom_stored [OF laws(1) rel(2)] by metis
  with acq(1) rel(1) view2 show ?thesis
    by (intro exI [of _ "\<lparr>IP = ip, ParentPrefix = key q\<rparr>"] exI [of _ s1] exI [of _ p] exI [of _ s3])
      (simp add: ReleaseIP_def)
qed

section \<open>An instance\<close>

text \<open>A storage with one IPv4 prefix of four addresses, of which two are free.\<close>

definition sample_prefix :: Prefix where
  "sample_prefix = \<lparr>Cidr = ''10.0.0.0/30'', ParentCidr = [], isParent = False,
     availableChildPrefixes = GoMap [], childPrefixLength = 0,
     ips = GoMap [(''10.0.0.0'', True), (''10.0.0.3'', True)], version = 0\<rparr>"

definition sample_memory :: memory where
  "sample_memory = GoMap [(''root'', GoMap [(''10.0.0.0/30'', sample_prefix)])]"

definition sample_net :: netip_prefix where
  "sample_net = \<lparr>Addr = IPv4 0x0A000000, Bits = 30\<rparr>"

lemma sample_parse: "ParsePrefix ''10.0.0.0/30'' = Inr sample_net"
  by code_simp

lemma sample_key: "key sample_net = ''10.0.0.0/30''"
  by code_simp

lemma sample_inv: "memory_inv sample_memory"
  by code_simp

lemma sample_stored: "stored (memory_view sample_memory) None ''10.0.0.0/30'' = Some (abs_prefix sample_prefix)"
  by (simp add: stored_def sample_parse sample_key memory_view_def sample_memory_def map_lookup_def
      namespaceFromContext_def defaultNamespace_def inner_view_def)

lemma sample_not_parent: "\<not> aIsParent (abs_prefix sample_prefix)"
  by (simp add: sample_prefix_def)

lemma sample_free: "IPv4 0x0A000001 \<in> free_ips sample_net (abs_prefix sample_prefix)"
proof -
  have "Contains sample_net (IPv4 0x0A000001)"
    "map_lookup (ips sample_prefix) (addr_String (IPv4 0x0A000001)) = None"
    by code_simp+
  then show ?thesis
    by (simp add: free_ips_def)
qed

lemmas sample_laws = mem.storage_laws_axioms rx.netipx_laws_axioms retry_laws_ref

theorem AcquireIP_spec_witness:
  "\<exists>ip s'. AcquireIP ref_netipx retry_ref memory_storage None ''10.0.0.0/30'' sample_memory =
     (Inr \<lparr>IP = ip, ParentPrefix = ''10.0.0.0/30''\<rparr>, s') \<and>
     ip \<in> free_ips sample_net (abs_prefix sample_prefix)"
  using AcquireIP_spec [OF sample_laws sample_inv sample_stored sample_not_parent sample_parse]
    sample_free unfolding sample_key by (auto split: if_split_asm)

theorem AcquireSpecificIP_spec_witness:
  "\<exists>s'. AcquireSpecificIP ref_netipx retry_ref memory_storage None ''10.0.0.0/30'' ''10.0.0.1'' sample_memory =
     (Inr \<lparr>IP = IPv4 0x0A000001, ParentPrefix = ''10.0.0.0/30''\<rparr>, s')"
proof -
  have "ParseAddr ''10.0.0.1'' = Inr (IPv4 0x0A000001)"
    by code_simp
  from AcquireSpecificIP_spec [OF sample_laws(1,3) sample_inv sample_stored sample_parse this]
  show ?thesis
    using sample_free sample_not_parent unfolding sample_key by (auto split: if_split_asm)
qed

theorem AcquireSpecificIP_rejects_witness:
  "\<exists>e s'. AcquireSpecificIP ref_netipx retry_ref memory_storage None ''10.1.0.0/30'' [] sample_memory = (Inl e, s') \<and>
     errors_is e ErrNotFound"
proof -
  have "ParsePrefix ''10.1.0.0/30'' = Inr \<lparr>Addr = IPv4 0x0A010000, Bits = 30\<rparr>"
    "key \<lparr>Addr = IPv4 0x0A010000, Bits = 30\<rparr> = ''10.1.0.0/30''"
    by code_simp+
  then have "stored (memory_view sample_memory) None ''10.1.0.0/30'' = None"
    by (simp add: stored_def memory_view_def sample_memory_def map_lookup_def
        namespaceFromContext_def defaultNamespace_def inner_view_def)
  with AcquireSpecificIP_rejects [OF sample_laws(1,3) sample_inv] show ?thesis
    by blast
qed

theorem ReleaseIPFromPrefix_spec_witness:
  "\<exists>e s'. ReleaseIPFromPrefix retry_ref memory_storage None ''10.0.0.0/30'' ''10.0.0.1'' sample_memory = (Inl e, s') \<and>
     errors_is e ErrNotFound"
proof -
  have "aIPs (abs_prefix sample_prefix) ''10.0.0.1'' = None"
    by (simp add: sample_prefix_def map_lookup_def)
  with ReleaseIPFromPrefix_spec [OF sample_laws(1,3) sample_inv sample_stored, of "''10.0.0.1''"] show ?thesis
    by (auto split: if_split_asm)
qed

theorem acquire_release_roundtrip_witness:
  "\<exists>ip s1 p s2. AcquireIP ref_netipx retry_ref memory_storage None ''10.0.0.0/30'' sample_memory = (Inr ip, s1) \<and>
     ReleaseIP retry_ref memory_storage None ip s1 = (Inr p, s2) \<and>
     abs_prefix p = (abs_prefix sample_prefix)\<lparr>aVersion := 2\<rparr>"
proof -
  have "aVersion (abs_prefix sample_prefix) + 2 = 2"
    by (simp add: sample_prefix_def)
  moreover have "free_ips sample_net (abs_prefix sample_prefix) \<noteq> {}"
    using sample_free by blast
  ultimately show ?thesis
    using acquire_release_roundtrip [OF sample_laws sample_laws(3) sample_inv sample_stored sample_not_parent sample_parse]
    by fastforce
qed

end
