(* ===== verification/Ipamer_Prefixes.thy ===== *)
theory Ipamer_Prefixes
  imports Ipamer_IPs
begin

text \<open>
  The laws of the prefix operations of the \<open>ipamer\<close>: creating and deleting prefixes, acquiring and
  releasing child prefixes, and the invariant of the tree of prefixes that they keep.
\<close>

section \<open>Overlaps\<close>

lemma overlaps_new_iff:
  assumes "IsValid eip"
  shows "overlaps_new eip nps = Inr () \<longleftrightarrow>
    (\<forall>np \<in> set nps. \<exists>nip. ParsePrefix np = Inr nip \<and> block eip \<inter> block nip = {})"
proof (induction nps)
  case (Cons np nps)
  show ?case
  proof (cases "ParsePrefix np")
    case (Inr nip)
    have v: "IsValid nip"
      by (rule ParsePrefix_valid [OF Inr])
    show ?thesis
      using Cons Inr Overlaps_iff [OF assms v] Overlaps_sym [OF assms v] by auto
  qed auto
qed simp

text \<open>
  C22: \<open>PrefixesOverlapping\<close> returns nil exactly when all the existing prefixes parse and, against
  each of them, every new prefix parses and has no address in common with it. Without existing prefixes it
  accepts any new ones, whether they parse or not.
\<close>

theorem PrefixesOverlapping_iff:
  "PrefixesOverlapping eps nps = Inr () \<longleftrightarrow>
    (\<forall>ep \<in> set eps. \<exists>eip. ParsePrefix ep = Inr eip \<and>
      (\<forall>np \<in> set nps. \<exists>nip. ParsePrefix np = Inr nip \<and> block eip \<inter> block nip = {}))"
proof (induction eps)
  case (Cons ep eps)
  show ?case
  proof (cases "ParsePrefix ep")
    case (Inr eip)
    have "overlaps_new eip nps = Inr () \<longleftrightarrow>
        (\<forall>np \<in> set nps. \<exists>nip. ParsePrefix np = Inr nip \<and> block eip \<inter> block nip = {})"
      by (rule overlaps_new_iff [OF ParsePrefix_valid [OF Inr]])
    with Cons Inr show ?thesis
      by (cases "overlaps_new eip nps") auto
  qed auto
qed simp

theorem PrefixesOverlapping_iff_witness:
  "PrefixesOverlapping [''10.0.0.0/24'', ''10.0.2.0/24''] [''10.0.1.0/24''] = Inr () \<and>
   PrefixesOverlapping [''10.0.0.0/23''] [''10.0.1.0/24''] \<noteq> Inr ()"
proof -
  let ?n = "\<lambda>a b. \<lparr>Addr = IPv4 a, Bits = b\<rparr>"
  have p: "ParsePrefix ''10.0.0.0/24'' = Inr (?n 0x0A000000 24)" "ParsePrefix ''10.0.2.0/24'' = Inr (?n 0x0A000200 24)"
    "ParsePrefix ''10.0.1.0/24'' = Inr (?n 0x0A000100 24)" "ParsePrefix ''10.0.0.0/23'' = Inr (?n 0x0A000000 23)"
    by code_simp+
  have o: "\<not> Overlaps (?n 0x0A000000 24) (?n 0x0A000100 24)" "\<not> Overlaps (?n 0x0A000200 24) (?n 0x0A000100 24)"
    "Overlaps (?n 0x0A000000 23) (?n 0x0A000100 24)"
    by code_simp+
  note b = o [unfolded Overlaps_iff [OF ParsePrefix_valid [OF p(1)] ParsePrefix_valid [OF p(3)]]
      Overlaps_iff [OF ParsePrefix_valid [OF p(2)] ParsePrefix_valid [OF p(3)]]
      Overlaps_iff [OF ParsePrefix_valid [OF p(4)] ParsePrefix_valid [OF p(3)]], simplified]
  show ?thesis
    using PrefixesOverlapping_iff [of "[''10.0.0.0/24'', ''10.0.2.0/24'']" "[''10.0.1.0/24'']"]
      PrefixesOverlapping_iff [of "[''10.0.0.0/23'']" "[''10.0.1.0/24'']"] b by (simp add: p)
qed

section \<open>New prefixes\<close>

text \<open>The addresses a new prefix reserves, and the prefix as it is stored.\<close>

definition reserved :: "netip_prefix \<Rightarrow> string \<rightharpoonup> bool" where
  "reserved q = (\<lambda>c. if c = addr_String (first_addr q) \<or> Is4 (Addr q) \<and> c = addr_String (last_addr q)
     then Some True else None)"

definition fresh :: "netip_prefix \<Rightarrow> string \<Rightarrow> aprefix" where
  "fresh q parent = \<lparr>aCidr = key q, aParentCidr = parent, aIsParent = False,
     aChildren = Map.empty, aIPs = reserved q, aVersion = 0\<rparr>"

lemma fresh_simps [simp]:
  "aCidr (fresh q p) = key q" "aParentCidr (fresh q p) = p" "aIsParent (fresh q p) = False"
  "aChildren (fresh q p) = Map.empty" "aIPs (fresh q p) = reserved q" "aVersion (fresh q p) = 0"
  by (simp_all add: fresh_def)

lemma newPrefix_fresh:
  assumes nx: "netipx_laws nx B BS IS" and q: "ParsePrefix cidr = Inr q"
    and parent: "if parentCidr = [] then pk = [] else \<exists>r. ParsePrefix parentCidr = Inr r \<and> pk = key r"
  obtains p where "newPrefix nx cidr parentCidr = Inr p" "abs_prefix p = fresh q pk" "wf_prefix p"
    "version p = 0" "Cidr p = key q"
proof -
  have ok: "map_ok (make_map :: bool gomap)"
    by simp
  obtain m where m: "map_insert (make_map :: bool gomap) (addr_String (first_addr q)) True = Inr m"
    using map_ok_insert_ex [OF ok] by blast
  note okm = map_insert_ok [OF m ok]
  obtain m' where m': "map_insert m (addr_String (last_addr q)) True = Inr m'"
    using map_ok_insert_ex [OF okm] by blast
  note okm' = map_insert_ok [OF m' okm]
  have range: "RangeOfPrefix nx q = (first_addr q, last_addr q)"
    by (rule netipx_laws.RangeOfPrefix_eq [OF nx ParsePrefix_valid [OF q]])
  let ?p = "\<lparr>Cidr = key q, ParentCidr = pk, isParent = False, availableChildPrefixes = make_map,
    childPrefixLength = 0, ips = (if Is4 (Addr q) then m' else m), version = 0\<rparr>"
  have "newPrefix nx cidr parentCidr = Inr ?p"
    using q parent m m' range by (auto simp: newPrefix_def key_def Let_def split: if_split_asm)
  moreover have "abs_prefix ?p = fresh q pk"
    using map_insert_Inr [OF m] map_insert_Inr [OF m']
    by (auto simp: abs_prefix_def fresh_def reserved_def fun_eq_iff)
  moreover have "wf_prefix ?p"
    using okm okm' by (simp add: wf_prefix_def)
  ultimately show ?thesis
    using that by simp
qed

text \<open>The addresses of the prefix a stored cidr denotes.\<close>

definition cidr_block :: "string \<Rightarrow> addr set" where
  "cidr_block c = (case ParsePrefix c of Inl e \<Rightarrow> {} | Inr q \<Rightarrow> block q)"

lemma cidr_block_key [simp]: "IsValid q \<Longrightarrow> cidr_block (key q) = block q"
  by (simp add: cidr_block_def ParsePrefix_key)

lemma cidr_block_String [simp]: "IsValid q \<Longrightarrow> cidr_block (prefix_String q) = block q"
  by (simp add: cidr_block_def ParsePrefix_String)

lemma taken_cidr_block: "taken m = (\<Union>c \<in> {c. m c = Some False}. cidr_block c)"
  by (auto simp: taken_def cidr_block_def mem_block split: sum.splits)

definition keys_ok :: "namespace_view \<Rightarrow> bool" where
  "keys_ok m \<longleftrightarrow> (\<forall>c \<in> dom m. \<exists>q. IsValid q \<and> c = key q)"

text \<open>No stored prefix has an address of \<open>q\<close>.\<close>

definition unused :: "namespace_view \<Rightarrow> netip_prefix \<Rightarrow> bool" where
  "unused m q \<longleftrightarrow> (\<forall>c \<in> dom m. cidr_block c \<inter> block q = {})"

lemma unused_key:
  assumes "unused m q" "IsValid q"
  shows "m (key q) = None"
proof (rule ccontr)
  assume "m (key q) \<noteq> None"
  then have "cidr_block (key q) \<inter> block q = {}"
    using assms(1) by (auto simp: unused_def)
  then show False
    using assms(2) block_nonempty by simp
qed

lemma PrefixesOverlapping_unused:
  assumes "keys_ok m" "set cs = dom m" "IsValid q"
  shows "PrefixesOverlapping cs [key q] = Inr () \<longleftrightarrow> unused m q"
proof -
  have "(\<exists>eip. ParsePrefix c = Inr eip \<and> block eip \<inter> block q = {}) \<longleftrightarrow> cidr_block c \<inter> block q = {}"
    if c: "c \<in> dom m" for c
  proof -
    obtain r where "IsValid r" "c = key r"
      using assms(1) c unfolding keys_ok_def by blast
    then show ?thesis
      by (simp add: ParsePrefix_key)
  qed
  then have "(\<forall>c \<in> dom m. \<exists>eip. ParsePrefix c = Inr eip \<and> block eip \<inter> block q = {}) \<longleftrightarrow> unused m q"
    unfolding unused_def by (intro ball_cong) auto
  then show ?thesis
    unfolding PrefixesOverlapping_iff assms(2) by (simp add: ParsePrefix_key assms(3))
qed

lemma NewPrefix_law:
  assumes laws: "storage_laws st invar view ok_ns" "netipx_laws nx B BS IS"
    and s: "invar s" "view s (namespaceFromContext ctx) = Some m" "keys_ok m" and q: "ParsePrefix cidr = Inr q"
  shows "if unused m q
    then \<exists>p s'. ipamer_NewPrefix nx st ctx cidr s = (Inr p, s') \<and> abs_prefix p = fresh q [] \<and>
      invar s' \<and> view s' = put (view s) ctx (fresh q [])
    else \<exists>e s'. ipamer_NewPrefix nx st ctx cidr s = (Inl e, s') \<and> invar s' \<and> view s' = view s"
proof -
  have v: "IsValid q"
    by (rule ParsePrefix_valid [OF q])
  obtain cs s1 where cs: "ReadAllPrefixCidrs st (namespaceFromContext ctx) s = (Inr cs, s1)"
      "set cs = dom m" "invar s1" "view s1 = view s"
    using storage_laws.read_cidrs [OF laws(1) s(1,2)] by blast
  obtain p where p: "newPrefix nx cidr [] = Inr p" "abs_prefix p = fresh q []" "wf_prefix p"
      "version p = 0" "Cidr p = key q"
    using newPrefix_fresh [OF laws(2) q, of "[]" "[]"] by auto
  have ov: "PrefixesOverlapping cs [Cidr p] = Inr () \<longleftrightarrow> unused m q"
    using PrefixesOverlapping_unused [OF s(3) cs(2) v] p(5) by simp
  show ?thesis
  proof (cases "unused m q")
    case True
    have "Cidr p \<noteq> []" "m (Cidr p) = None" "view s1 (namespaceFromContext ctx) = Some m"
      using unused_key [OF True v] p(5) cs(4) s(2) by (auto simp: key_def prefix_String_def)
    from storage_laws.create [OF laws(1) cs(3) this(3) p(3,4) this(1,2)]
    obtain s2 where "CreatePrefix st p (namespaceFromContext ctx) s1 = (Inr p, s2)" "invar s2"
        "view s2 = put (view s) ctx (fresh q [])"
      using cs(4) s(2) p(2,5) by (auto simp: put_def)
    with True cs(1) p(1,2) ov show ?thesis
      by (simp add: ipamer_NewPrefix_def)
  next
    case False
    then obtain e where "PrefixesOverlapping cs [Cidr p] = Inl e"
      using ov by (cases "PrefixesOverlapping cs [Cidr p]") auto
    with False cs p(1) show ?thesis
      by (simp add: ipamer_NewPrefix_def)
  qed
qed

text \<open>
  C12: \<open>NewPrefix\<close> succeeds exactly when no stored prefix of the namespace, children included, has an
  address in common with the new one; it then stores the masked prefix with its reserved addresses,
  without parent and children, and leaves everything else as it was. Otherwise nothing changes.
\<close>

theorem NewPrefix_spec:
  assumes laws: "storage_laws st invar view ok_ns" "netipx_laws nx B BS IS"
    and s: "invar s" "view s (namespaceFromContext ctx) = Some m" "keys_ok m" and q: "ParsePrefix cidr = Inr q"
  shows "if unused m q
    then \<exists>p s'. ipamer_NewPrefix nx st ctx cidr s = (Inr p, s') \<and> abs_prefix p = fresh q [] \<and>
      invar s' \<and> view s' = put (view s) ctx (fresh q [])
    else \<exists>e s'. ipamer_NewPrefix nx st ctx cidr s = (Inl e, s') \<and> invar s' \<and> view s' = view s"
  by (rule NewPrefix_law [OF assms])

section \<open>The tree of prefixes\<close>

text \<open>The cidrs of the unavailable children of a prefix parse.\<close>

definition children_ok :: "aprefix \<Rightarrow> bool" where
  "children_ok a \<longleftrightarrow> (\<forall>cp. aChildren a cp = Some False \<longrightarrow> (\<exists>r. ParsePrefix cp = Inr r))"

text \<open>
  Two stored prefixes have no address in common, or one of them lies inside the other and in the
  space that the other has given to children.
\<close>

definition below :: "string \<Rightarrow> string \<Rightarrow> aprefix \<Rightarrow> bool" where
  "below c' c a \<longleftrightarrow> cidr_block c' \<subset> cidr_block c \<and> cidr_block c' \<subseteq> taken (aChildren a)"

definition apart :: "string \<Rightarrow> aprefix \<Rightarrow> string \<Rightarrow> aprefix \<Rightarrow> bool" where
  "apart c a c' a' \<longleftrightarrow> cidr_block c \<inter> cidr_block c' = {} \<or> below c' c a \<or> below c c' a'"

definition tree_ok :: "namespace_view \<Rightarrow> bool" where
  "tree_ok m \<longleftrightarrow> keys_ok m \<and> (\<forall>a \<in> ran m. children_ok a) \<and>
     (\<forall>c a c' a'. m c = Some a \<and> m c' = Some a' \<and> c \<noteq> c' \<longrightarrow> apart c a c' a')"

lemma apart_sym: "apart c a c' a' \<longleftrightarrow> apart c' a' c a"
  by (auto simp: apart_def)

lemma tree_okD:
  assumes "tree_ok m"
  shows "keys_ok m" "m c = Some a \<Longrightarrow> m c' = Some a' \<Longrightarrow> c \<noteq> c' \<Longrightarrow> apart c a c' a'"
    "m c = Some a \<Longrightarrow> children_ok a"
  using assms by (auto simp: tree_ok_def ran_def)

text \<open>Writing one prefix keeps the invariant when the new value is apart from all others.\<close>

lemma tree_ok_upd:
  assumes m: "tree_ok m" and q: "IsValid q" and ch: "children_ok a"
    and new: "\<And>c' a'. m c' = Some a' \<Longrightarrow> c' \<noteq> key q \<Longrightarrow> apart (key q) a c' a'"
  shows "tree_ok (m(key q \<mapsto> a))"
proof -
  have "keys_ok (m(key q \<mapsto> a))"
    using tree_okD(1) [OF m] q by (auto simp: keys_ok_def)
  moreover have "apart c b c' b'"
    if "(m(key q \<mapsto> a)) c = Some b" "(m(key q \<mapsto> a)) c' = Some b'" "c \<noteq> c'" for c b c' b'
    using that new tree_okD(2) [OF m] apart_sym
    by (metis fun_upd_apply option.sel)
  moreover have "\<forall>b \<in> ran (m(key q \<mapsto> a)). children_ok b"
    using ch tree_okD(3) [OF m] by (auto simp: ran_def split: if_split_asm)
  ultimately show ?thesis
    unfolding tree_ok_def by blast
qed

lemma apart_mono:
  assumes "apart c a c' a'" "taken (aChildren a) \<subseteq> taken (aChildren b)"
  shows "apart c b c' a'"
  using assms by (auto simp: apart_def below_def)

text \<open>Writing to the addresses of a prefix, or giving more space to children, keeps it too.\<close>

lemma tree_ok_grow:
  assumes m: "tree_ok m" "m c = Some a" and t: "taken (aChildren a) \<subseteq> taken (aChildren b)"
    and ch: "children_ok b"
  shows "tree_ok (m(c \<mapsto> b))"
proof -
  obtain q where "IsValid q" "c = key q"
    using tree_okD(1) [OF m(1)] m(2) unfolding keys_ok_def by blast
  then show ?thesis
    using tree_ok_upd [OF m(1) _ ch, of q] tree_okD(2) [OF m(1) m(2)] apart_mono [OF _ t] by auto
qed

lemma tree_ok_unused:
  assumes "tree_ok m" "IsValid q" "unused m q"
  shows "tree_ok (m(key q \<mapsto> fresh q parent))"
proof (rule tree_ok_upd [OF assms(1,2)])
  show "children_ok (fresh q parent)"
    by (simp add: children_ok_def)
  fix c' a' assume "m c' = Some a'" "c' \<noteq> key q"
  then have "cidr_block c' \<inter> block q = {}"
    using assms(3) by (auto simp: unused_def)
  then show "apart (key q) (fresh q parent) c' a'"
    using assms(2) by (auto simp: apart_def)
qed

text \<open>
  A child cut out of the free space of a stored prefix is not stored yet, and it can be written
  once it is marked unavailable in that prefix.
\<close>

lemma free_child_apart:
  assumes m: "tree_ok m" "m (key q) = Some a" and q: "IsValid q" and r: "IsValid r"
    and sub: "block r \<subseteq> free_space q (aChildren a)"
    and e: "m c = Some b" "c \<noteq> key q"
  shows "cidr_block c \<inter> block r = {} \<or> below (key r) c b"
proof -
  have "apart (key q) a c b"
    using tree_okD(2) [OF m(1) m(2) e(1)] e(2) by blast
  with sub q r show ?thesis
    by (auto simp: apart_def below_def free_space_def)
qed

lemma free_child_new:
  assumes "tree_ok m" "m (key q) = Some a" "IsValid q" "IsValid r"
    "block r \<subseteq> free_space q (aChildren a)" "Bits q < Bits r"
  shows "m (key r) = None" "key r \<noteq> key q" "block r \<subset> block q"
proof -
  have sub: "block r \<subseteq> block q"
    using assms(5) by (auto simp: free_space_def)
  have "\<not> block q \<subseteq> block r"
    using assms(6) block_subset_iff [OF assms(4,3)] by auto
  with sub show "block r \<subset> block q"
    by blast
  then have "block q \<noteq> block r"
    by blast
  then show ne: "key r \<noteq> key q"
    using assms(3,4) by (metis cidr_block_key)
  show "m (key r) = None"
  proof (rule ccontr)
    assume "m (key r) \<noteq> None"
    then obtain b where "m (key r) = Some b"
      by blast
    with free_child_apart [OF assms(1-5) _ ne] assms(4) block_nonempty [OF assms(4)] show False
      by (auto simp: below_def)
  qed
qed

definition give_child :: "string \<Rightarrow> aprefix \<Rightarrow> aprefix" where
  "give_child cp a = a\<lparr>aChildren := (aChildren a)(cp \<mapsto> False), aIsParent := True, aVersion := aVersion a + 1\<rparr>"

lemma give_child_simps [simp]:
  "aCidr (give_child cp a) = aCidr a" "aChildren (give_child cp a) = (aChildren a)(cp \<mapsto> False)"
  "aIPs (give_child cp a) = aIPs a" "aIsParent (give_child cp a) = True"
  "aParentCidr (give_child cp a) = aParentCidr a" "aVersion (give_child cp a) = aVersion a + 1"
  by (simp_all add: give_child_def)

lemma taken_give_child:
  assumes "IsValid cp"
  shows "taken (aChildren (give_child (prefix_String cp) a)) = taken (aChildren a) \<union> block cp"
  using taken_upd_False [OF ParsePrefix_String [OF assms], of "aChildren a"] by simp

lemma tree_ok_child:
  assumes m: "tree_ok m" "m (key q) = Some a" and q: "IsValid q" and r: "IsValid r"
    and sub: "block r \<subseteq> free_space q (aChildren a)" and bits: "Bits q < Bits r"
  shows "tree_ok (m(key q \<mapsto> give_child (prefix_String r) a, key r \<mapsto> fresh r (key q)))"
proof (rule tree_ok_upd [OF _ r])
  note t = taken_give_child [OF r, of a]
  note new = free_child_new [OF m q r sub bits]
  show "tree_ok (m(key q \<mapsto> give_child (prefix_String r) a))"
    using t r tree_okD(3) [OF m]
    by (intro tree_ok_grow [OF m]) (auto simp: children_ok_def ParsePrefix_String)
  show "children_ok (fresh r (key q))"
    by (simp add: children_ok_def)
  fix c' a' assume e: "(m(key q \<mapsto> give_child (prefix_String r) a)) c' = Some a'" "c' \<noteq> key r"
  show "apart (key r) (fresh r (key q)) c' a'"
  proof (cases "c' = key q")
    case True
    with e(1) have "a' = give_child (prefix_String r) a"
      by simp
    then have "below (key r) c' a'"
      using True t new(3) q r by (auto simp: below_def)
    then show ?thesis
      by (simp add: apart_def)
  next
    case False
    with e(1) free_child_apart [OF m q r sub] r show ?thesis
      by (auto simp: apart_def)
  qed
qed

section \<open>Acquiring child prefixes\<close>

text \<open>Whether more addresses are allocated than a prefix of the family reserves.\<close>

definition has_ips :: "netip_prefix \<Rightarrow> aprefix \<Rightarrow> bool" where
  "has_ips q a \<longleftrightarrow> Is4 (Addr q) \<and> 2 < card (dom (aIPs a)) \<or> Is6 (Addr q) \<and> 1 < card (dom (aIPs a))"

lemma family_Masked: "IsValid q \<Longrightarrow> Is4 (Addr (Masked q)) = Is4 (Addr q)" "IsValid q \<Longrightarrow> Is6 (Addr (Masked q)) = Is6 (Addr q)"
  by (simp_all flip: BitLen_Is4 BitLen_Is6)

lemma hasIPs_abs:
  assumes "wf_prefix p" "Cidr p = key q" "IsValid q"
  shows "hasIPs p \<longleftrightarrow> has_ips q (abs_prefix p)"
  using assms map_len_card [of "ips p"]
  by (simp add: hasIPs_def has_ips_def ParsePrefix_key family_Masked wf_prefix_def map_keys_def)

lemma free_space_Masked: "IsValid q \<Longrightarrow> free_space (Masked q) m = free_space q m"
  by (simp add: free_space_def)

context netipx_laws
begin

lemma remove_children_unavailable:
  "(\<forall>cp. (cp, False) \<in> set cs \<longrightarrow> (\<exists>r. ParsePrefix cp = Inr r)) \<Longrightarrow>
   remove_children nx cs b = Inr (remove_unavailable nx cs b)"
proof (induction cs arbitrary: b)
  case (Cons c cs)
  obtain cp av where c: "c = (cp, av)"
    by fastforce
  show ?case
  proof (cases av)
    case False
    then obtain r where "ParsePrefix cp = Inr r"
      using Cons.prems c by auto
    with Cons c False show ?thesis
      by simp
  qed (use Cons c in auto)
qed simp

lemma children_ipset:
  assumes p: "wf_prefix p" "Cidr p = key q" "IsValid q" and ok: "children_ok (abs_prefix p)"
  obtains b s where
    "remove_children nx (map_entries (availableChildPrefixes p)) (AddPrefix nx (emptyBuilder nx) (Masked q)) = Inr b"
    "IPSet nx b = Inr s" "ipset_set s = free_space q (aChildren (abs_prefix p))"
proof -
  have m: "map_ok (availableChildPrefixes p)"
    using p(1) by (simp add: wf_prefix_def)
  have v: "IsValid (Masked q)"
    using p(3) by simp
  obtain s where s: "IPSet nx (remove_unavailable nx (map_entries (availableChildPrefixes p))
        (AddPrefix nx (emptyBuilder nx) (Masked q))) = Inr s"
      "ipset_set s = free_space (Masked q) (map_lookup (availableChildPrefixes p))"
    using available_ipset [OF v m] .
  have "\<forall>cp. (cp, False) \<in> set (map_entries (availableChildPrefixes p)) \<longrightarrow> (\<exists>r. ParsePrefix cp = Inr r)"
    using ok map_entries_lookup [OF m] by (auto simp: children_ok_def)
  from remove_children_unavailable [OF this] s that p(3) show ?thesis
    by (simp add: free_space_Masked)
qed

text \<open>The choice of a child of a given length succeeds exactly when a free block of it exists.\<close>

lemma choose_length:
  fixes n :: "8 word"
  assumes q: "IsValid q" and s: "ipset_set s = free_space q m"
  shows "\<exists>r. IsValid r \<and> Bits r = uint n \<and> block r \<subseteq> free_space q m \<Longrightarrow>
      \<exists>r. choose_child nx s None (uint n) = Inr r \<and> IsValid r \<and> Bits r = uint n \<and> Masked r = r \<and>
        block r \<subseteq> free_space q m"
    and "\<nexists>r. IsValid r \<and> Bits r = uint n \<and> block r \<subseteq> free_space q m \<Longrightarrow>
      (\<exists>e. choose_child nx s None (uint n) = Inl e \<and> \<not> errors_is e ErrOptimisticLockError) \<or>
      (\<exists>r. choose_child nx s None (uint n) = Inr r \<and> \<not> IsValid r)"
proof -
  obtain cp s' ok where r: "RemoveFreePrefix nx s n = (cp, s', ok)"
    by (metis prod_cases3)
  have sub: "ipset_set s \<subseteq> block q"
    by (auto simp: s free_space_def)
  show "\<exists>r. choose_child nx s None (uint n) = Inr r \<and> IsValid r \<and> Bits r = uint n \<and> Masked r = r \<and>
      block r \<subseteq> free_space q m" if ex: "\<exists>r. IsValid r \<and> Bits r = uint n \<and> block r \<subseteq> free_space q m"
  proof -
    obtain t where t: "IsValid t" "Bits t = uint n" "block t \<subseteq> ipset_set s"
      using ex s by auto
    have "ok"
      using remove_free_none [of s n cp s' t] r t by (cases ok) auto
    have "BitLen (Addr t) = BitLen (Addr q)"
      using Contains_self [OF t(1)] t(3) sub by (auto simp: block_def Contains_iff [of q])
    then have "unat n \<le> BitLen (Addr q)"
      using IsValidD(4) [OF t(1)] t(2) by simp
    then have v: "IsValid cp"
      using remove_free_valid [of s n cp s' q] r \<open>ok\<close> q sub by simp
    then show ?thesis
      using remove_free [of s n cp s'] r \<open>ok\<close> s by (simp add: choose_child_def)
  qed
  show "(\<exists>e. choose_child nx s None (uint n) = Inl e \<and> \<not> errors_is e ErrOptimisticLockError) \<or>
      (\<exists>r. choose_child nx s None (uint n) = Inr r \<and> \<not> IsValid r)"
    if "\<nexists>r. IsValid r \<and> Bits r = uint n \<and> block r \<subseteq> free_space q m"
    using that remove_free [of s n cp s'] r s by (auto simp: choose_child_def)
qed

end

context storage_laws
begin

text \<open>The two writes.\<close>

lemma store_child_ok:
  assumes nx: "netipx_laws nx B BS IS" and s: "invar s" "view s (namespaceFromContext ctx) = Some m"
    and p: "m (key q) = Some (abs_prefix p)" "wf_prefix p" "Cidr p = key q" and q: "ParsePrefix parentCidr = Inr q"
    and r: "IsValid r" "m (key r) = None" "key r \<noteq> key q"
  obtains c s' where "store_child nx st (namespaceFromContext ctx) parentCidr p r s = (Inr c, s')"
    "abs_prefix c = fresh r (key q)" "wf_prefix c" "invar s'"
    "view s' = put (put (view s) ctx (give_child (prefix_String r) (abs_prefix p))) ctx (fresh r (key q))"
proof -
  have ok: "map_ok (availableChildPrefixes p)"
    using p(2) by (simp add: wf_prefix_def)
  obtain acp where acp: "map_insert (availableChildPrefixes p) (prefix_String r) False = Inr acp"
    using map_ok_insert_ex [OF ok] by blast
  let ?p = "p\<lparr>availableChildPrefixes := acp, isParent := True\<rparr>"
  have wf: "wf_prefix ?p"
    using p(2) map_insert_ok [OF acp ok] by (simp add: wf_prefix_def)
  have abs: "abs_prefix (next_version ?p) = give_child (prefix_String r) (abs_prefix p)"
    by (simp add: abs_prefix_def next_version_def give_child_def map_insert_Inr [OF acp])
  have mp: "m (Cidr p) = Some (abs_prefix p)"
    using p(1,3) by simp
  obtain s1 where s1: "UpdatePrefix st ?p (namespaceFromContext ctx) s = (Inr (next_version ?p), s1)" "invar s1"
      "view s1 = put (view s) ctx (give_child (prefix_String r) (abs_prefix p))"
    using update_read [OF s mp wf] unfolding abs by auto
  define m1 where "m1 = m(key q \<mapsto> give_child (prefix_String r) (abs_prefix p))"
  have view1: "view s1 (namespaceFromContext ctx) = Some m1"
    using s1(3) s(2) p(3) by (simp add: put_def m1_def)
  have nonempty: "parentCidr \<noteq> []"
    using q by (auto simp: ParsePrefix_def)
  obtain c where c: "newPrefix nx (prefix_String r) parentCidr = Inr c" "abs_prefix c = fresh r (key q)"
      "wf_prefix c" "version c = 0" "Cidr c = key r"
    using newPrefix_fresh [OF nx ParsePrefix_String [OF r(1)], of parentCidr "key q"] q nonempty by auto
  have pre: "Cidr c \<noteq> []" "m1 (Cidr c) = None"
    using c(5) r(2,3) by (simp_all add: key_def prefix_String_def m1_def)
  obtain s2 where "CreatePrefix st c (namespaceFromContext ctx) s1 = (Inr c, s2)" "invar s2"
      "view s2 = put (view s1) ctx (fresh r (key q))"
    using create [OF s1(2) view1 c(3,4) pre] c(5) unfolding put_def view1 c(2) fresh_simps option.case
    by auto
  with that s1 c acp r(1) show ?thesis
    by (simp add: store_child_def)
qed

text \<open>What \<open>acquireChildPrefixInternal\<close> does before the choice.\<close>

lemma acquire_child_unfold:
  assumes nx: "netipx_laws nx B BS IS" and s: "invar s" "stored (view s) ctx cidr = Some a" "children_ok a"
    and q: "ParsePrefix cidr = Inr q"
    and req: "(if child = [] then creq = None \<and> n = len else \<exists>r. ParsePrefix child = Inr r \<and> creq = Some r \<and> n = Bits r)"
  obtains p s1 fs m where "IS fs = free_space q (aChildren a)" "abs_prefix p = a" "wf_prefix p" "Cidr p = key q"
    "invar s1" "view s1 = view s" "view s (namespaceFromContext ctx) = Some m" "m (key q) = Some a"
    "acquireChildPrefixInternal nx st ctx (namespaceFromContext ctx) cidr child len s =
      (if n \<le> Bits q then (Inl (Errorf ''given length:%d must be greater than prefix length:%d'' []), s1)
       else if has_ips q a then (Inl (Errorf ''prefix %s has ips, acquire child prefix not possible'' []), s1)
       else (case choose_child nx fs creq n of
           Inl err \<Rightarrow> (Inl err, s1)
         | Inr cp \<Rightarrow> store_child nx st (namespaceFromContext ctx) cidr p cp s1))"
proof -
  obtain p s1 m where p: "PrefixFrom st ctx cidr s = (Inr p, s1)" "abs_prefix p = a" "wf_prefix p"
    "Cidr p = key q" "ParsePrefix (Cidr p) = Inr (Masked q)" "invar s1" "view s1 = view s"
    "view s (namespaceFromContext ctx) = Some m" "m (Cidr p) = Some a"
    using PrefixFrom_stored [OF s(1,2)] q by (metis sum.inject(2))
  have v: "IsValid q"
    by (rule ParsePrefix_valid [OF q])
  obtain b fs where b: "remove_children nx (map_entries (availableChildPrefixes p))
        (AddPrefix nx (emptyBuilder nx) (Masked q)) = Inr b" "IPSet nx b = Inr fs"
      "IS fs = free_space q (aChildren a)"
    using netipx_laws.children_ipset [OF nx p(3,4) v] s(3) p(2) by auto
  have "acquireChildPrefixInternal nx st ctx (namespaceFromContext ctx) cidr child len s =
      (if n \<le> Bits q then (Inl (Errorf ''given length:%d must be greater than prefix length:%d'' []), s1)
       else if has_ips q a then (Inl (Errorf ''prefix %s has ips, acquire child prefix not possible'' []), s1)
       else (case choose_child nx fs creq n of
           Inl err \<Rightarrow> (Inl err, s1)
         | Inr cp \<Rightarrow> store_child nx st (namespaceFromContext ctx) cidr p cp s1))"
    using p(1,5) b req v hasIPs_abs [OF p(3,4) v] p(2)
    by (auto simp: acquireChildPrefixInternal_def Let_def split: if_split_asm)
  with that b(3) p show ?thesis
    by auto
qed

end

lemma put_child:
  assumes "v (namespaceFromContext ctx) = Some m" "aCidr a = c"
  shows "put (put v ctx (give_child cp a)) ctx (fresh r parent) =
     v(namespaceFromContext ctx \<mapsto> m(c \<mapsto> give_child cp a, key r \<mapsto> fresh r parent))"
  using assms by (simp add: put_def)

text \<open>
  The two ends of an attempt, once the set of free addresses is built: a valid choice inside the
  free space is stored; without one, or when a check fails, the attempt fails in the state \<open>s1\<close>.
\<close>

definition child_result where
  "child_result nx st view invar ctx m q a cidr child len creq n s fs s1 \<longleftrightarrow>
     invar s1 \<and> view s1 = view s \<and>
     (\<forall>r. Bits q < n \<and> \<not> has_ips q a \<and> choose_child nx fs creq n = Inr r \<and> IsValid r \<and> Bits r = n \<and>
        block r \<subseteq> free_space q (aChildren a) \<and> m (key r) = None \<and> key r \<noteq> key q \<longrightarrow>
        (\<exists>c s'. acquireChildPrefixInternal nx st ctx (namespaceFromContext ctx) cidr child len s = (Inr c, s') \<and>
           abs_prefix c = fresh r (key q) \<and> wf_prefix c \<and> invar s' \<and>
           view s' = (view s)(namespaceFromContext ctx \<mapsto>
             m(key q \<mapsto> give_child (prefix_String r) a, key r \<mapsto> fresh r (key q))))) \<and>
     (\<not> (Bits q < n \<and> \<not> has_ips q a) \<or>
        (\<exists>e. choose_child nx fs creq n = Inl e \<and> \<not> errors_is e ErrOptimisticLockError) \<or>
        (\<exists>r. choose_child nx fs creq n = Inr r \<and> \<not> IsValid r) \<longrightarrow>
        (\<exists>e. acquireChildPrefixInternal nx st ctx (namespaceFromContext ctx) cidr child len s = (Inl e, s1) \<and>
           \<not> errors_is e ErrOptimisticLockError))"

lemma child_resultD:
  assumes "child_result nx st view invar ctx m q a cidr child len creq n s fs s1"
  shows "Bits q < n \<Longrightarrow> \<not> has_ips q a \<Longrightarrow> choose_child nx fs creq n = Inr r \<Longrightarrow> IsValid r \<Longrightarrow>
      Bits r = n \<Longrightarrow> block r \<subseteq> free_space q (aChildren a) \<Longrightarrow> m (key r) = None \<Longrightarrow> key r \<noteq> key q \<Longrightarrow>
      \<exists>c s'. acquireChildPrefixInternal nx st ctx (namespaceFromContext ctx) cidr child len s = (Inr c, s') \<and>
         abs_prefix c = fresh r (key q) \<and> wf_prefix c \<and> invar s' \<and>
         view s' = (view s)(namespaceFromContext ctx \<mapsto>
           m(key q \<mapsto> give_child (prefix_String r) a, key r \<mapsto> fresh r (key q)))"
    and "\<not> (Bits q < n \<and> \<not> has_ips q a) \<or>
        (\<exists>e. choose_child nx fs creq n = Inl e \<and> \<not> errors_is e ErrOptimisticLockError) \<or>
        (\<exists>r. choose_child nx fs creq n = Inr r \<and> \<not> IsValid r) \<Longrightarrow>
      \<exists>e. acquireChildPrefixInternal nx st ctx (namespaceFromContext ctx) cidr child len s = (Inl e, s1) \<and>
         \<not> errors_is e ErrOptimisticLockError \<and> invar s1 \<and> view s1 = view s"
  using assms unfolding child_result_def by blast+

context storage_laws
begin

lemma acquire_child_result:
  assumes nx: "netipx_laws nx B BS IS" and s: "invar s" "view s (namespaceFromContext ctx) = Some m" "children_ok a"
    and q: "ParsePrefix cidr = Inr q" "m (key q) = Some a"
    and req: "(if child = [] then creq = None \<and> n = len else \<exists>r. ParsePrefix child = Inr r \<and> creq = Some r \<and> n = Bits r)"
  obtains fs s1 where "child_result nx st view invar ctx m q a cidr child len creq n s fs s1"
    "IS fs = free_space q (aChildren a)"
proof -
  have st: "stored (view s) ctx cidr = Some a"
    using s(2) q by (simp add: stored_def)
  have v: "IsValid q" and cid: "aCidr a = key q"
    using ParsePrefix_valid [OF q(1)] view_cidr [OF s(1,2) q(2)] by auto
  obtain p s1 fs m' where p: "IS fs = free_space q (aChildren a)" "abs_prefix p = a" "wf_prefix p" "Cidr p = key q"
    "invar s1" "view s1 = view s" "view s (namespaceFromContext ctx) = Some m'" "m' (key q) = Some a"
    "acquireChildPrefixInternal nx st ctx (namespaceFromContext ctx) cidr child len s =
      (if n \<le> Bits q then (Inl (Errorf ''given length:%d must be greater than prefix length:%d'' []), s1)
       else if has_ips q a then (Inl (Errorf ''prefix %s has ips, acquire child prefix not possible'' []), s1)
       else (case choose_child nx fs creq n of
           Inl err \<Rightarrow> (Inl err, s1)
         | Inr cp \<Rightarrow> store_child nx st (namespaceFromContext ctx) cidr p cp s1))"
    by (rule acquire_child_unfold [OF nx s(1) st s(3) q(1) req]) (erule that, assumption+)
  have vm: "view s1 (namespaceFromContext ctx) = Some m" "m (key q) = Some (abs_prefix p)"
    using p(2,6) s(2) q(2) by auto
  have succ: "\<exists>c s'. acquireChildPrefixInternal nx st ctx (namespaceFromContext ctx) cidr child len s = (Inr c, s') \<and>
      abs_prefix c = fresh r (key q) \<and> wf_prefix c \<and> invar s' \<and> view s' = (view s)(namespaceFromContext ctx \<mapsto>
        m(key q \<mapsto> give_child (prefix_String r) a, key r \<mapsto> fresh r (key q)))"
    if r: "Bits q < n" "\<not> has_ips q a" "choose_child nx fs creq n = Inr r" "IsValid r" "Bits r = n"
      "block r \<subseteq> free_space q (aChildren a)" and new: "m (key r) = None" "key r \<noteq> key q" for r
  proof -
    obtain c s' where c: "store_child nx st (namespaceFromContext ctx) cidr p r s1 = (Inr c, s')"
        "abs_prefix c = fresh r (key q)" "wf_prefix c" "invar s'"
        "view s' = put (put (view s) ctx (give_child (prefix_String r) a)) ctx (fresh r (key q))"
      using store_child_ok [OF nx p(5) vm(1,2) p(3,4) q(1) r(4) new] p(2,6) by metis
    then show ?thesis
      using p(9) r(1-3) put_child [of "view s" ctx m a "key q", OF s(2) cid] by simp
  qed
  have fail: "\<exists>e. acquireChildPrefixInternal nx st ctx (namespaceFromContext ctx) cidr child len s = (Inl e, s1) \<and>
      \<not> errors_is e ErrOptimisticLockError"
    if "\<not> (Bits q < n \<and> \<not> has_ips q a) \<or>
        (\<exists>e. choose_child nx fs creq n = Inl e \<and> \<not> errors_is e ErrOptimisticLockError) \<or>
        (\<exists>r. choose_child nx fs creq n = Inr r \<and> \<not> IsValid r)"
    using that unfolding p(9) by (auto simp: store_child_def)
  show ?thesis
  proof (rule that [of fs s1])
    show "child_result nx st view invar ctx m q a cidr child len creq n s fs s1"
      using p(5,6) succ fail unfolding child_result_def by blast
  qed (rule p(1))
qed

end

lemma AcquireChildPrefix_law:
  assumes laws: "storage_laws st invar view ok_ns" "netipx_laws nx B BS IS" "retry_laws retry"
    and s: "invar s" "view s (namespaceFromContext ctx) = Some m" "tree_ok m"
    and q: "ParsePrefix cidr = Inr q" "m (key q) = Some a"
  shows "if Bits q < uint n \<and> \<not> has_ips q a \<and>
      (\<exists>r. IsValid r \<and> Bits r = uint n \<and> block r \<subseteq> free_space q (aChildren a))
    then \<exists>r p s'. AcquireChildPrefix nx retry st ctx cidr n s = (Inr p, s') \<and> abs_prefix p = fresh r (key q) \<and> wf_prefix p \<and>
      IsValid r \<and> Masked r = r \<and> Bits r = uint n \<and> block r \<subseteq> free_space q (aChildren a) \<and> invar s' \<and>
      view s' = (view s)(namespaceFromContext ctx \<mapsto> m(key q \<mapsto> give_child (prefix_String r) a, key r \<mapsto> fresh r (key q)))
    else \<exists>e s'. AcquireChildPrefix nx retry st ctx cidr n s = (Inl e, s') \<and> invar s' \<and> view s' = view s"
proof (cases "Bits q < uint n \<and> \<not> has_ips q a \<and>
    (\<exists>r. IsValid r \<and> Bits r = uint n \<and> block r \<subseteq> free_space q (aChildren a))")
  note s3 = s(1,2) tree_okD(3) [OF s(3) q(2)]
  case True
  obtain fs s1 where res: "child_result nx st view invar ctx m q a cidr [] (uint n) None (uint n) s fs s1"
      "IS fs = free_space q (aChildren a)"
    by (rule storage_laws.acquire_child_result [OF laws(1,2) s3 q, of "[]" None "uint n" "uint n"])
      (simp, erule that)
  obtain r where r: "choose_child nx fs None (uint n) = Inr r" "IsValid r" "Bits r = uint n" "Masked r = r"
      "block r \<subseteq> free_space q (aChildren a)"
    using netipx_laws.choose_length(1) [OF laws(2) ParsePrefix_valid [OF q(1)] res(2)] True by blast
  have "Bits q < Bits r"
    using True r(3) by simp
  note new = free_child_new(1,2) [OF s(3) q(2) ParsePrefix_valid [OF q(1)] r(2,5) this]
  show ?thesis
    using child_resultD(1) [OF res(1) _ _ r(1,2,3,5) new] True r retry_Inr [OF laws(3)]
    by (auto simp: AcquireChildPrefix_def)
next
  note s3 = s(1,2) tree_okD(3) [OF s(3) q(2)]
  case no: False
  obtain fs s1 where res: "child_result nx st view invar ctx m q a cidr [] (uint n) None (uint n) s fs s1"
      "IS fs = free_space q (aChildren a)"
    by (rule storage_laws.acquire_child_result [OF laws(1,2) s3 q, of "[]" None "uint n" "uint n"])
      (simp, erule that)
  have "\<not> (Bits q < uint n \<and> \<not> has_ips q a) \<or>
      (\<exists>e. choose_child nx fs None (uint n) = Inl e \<and> \<not> errors_is e ErrOptimisticLockError) \<or>
      (\<exists>r. choose_child nx fs None (uint n) = Inr r \<and> \<not> IsValid r)"
    using no netipx_laws.choose_length(2) [OF laws(2) ParsePrefix_valid [OF q(1)] res(2)] by blast
  from child_resultD(2) [OF res(1) this] show ?thesis
    using no retry_Inl [OF laws(3)] by (auto simp: AcquireChildPrefix_def)
qed

text \<open>
  C11: \<open>AcquireChildPrefix\<close> succeeds exactly when the length is longer than that of the parent, the
  parent has no allocated addresses and its free space has a block of that length; the child it
  creates is such a block, so it lies in the parent and apart from all other children, and it is
  marked unavailable in the parent. Otherwise nothing changes.
\<close>

theorem AcquireChildPrefix_spec:
  assumes laws: "storage_laws st invar view ok_ns" "netipx_laws nx B BS IS" "retry_laws retry"
    and s: "invar s" "view s (namespaceFromContext ctx) = Some m" "tree_ok m"
    and q: "ParsePrefix cidr = Inr q" "m (key q) = Some a"
  shows "if Bits q < uint n \<and> \<not> has_ips q a \<and>
      (\<exists>r. IsValid r \<and> Bits r = uint n \<and> block r \<subseteq> free_space q (aChildren a))
    then \<exists>r p s'. AcquireChildPrefix nx retry st ctx cidr n s = (Inr p, s') \<and> abs_prefix p = fresh r (key q) \<and> wf_prefix p \<and>
      IsValid r \<and> Masked r = r \<and> Bits r = uint n \<and> block r \<subseteq> free_space q (aChildren a) \<and> invar s' \<and>
      view s' = (view s)(namespaceFromContext ctx \<mapsto> m(key q \<mapsto> give_child (prefix_String r) a, key r \<mapsto> fresh r (key q)))
    else \<exists>e s'. AcquireChildPrefix nx retry st ctx cidr n s = (Inl e, s') \<and> invar s' \<and> view s' = view s"
  by (rule AcquireChildPrefix_law [OF assms])

text \<open>The law needs of the other prefixes only that the child is not stored yet.\<close>

lemma AcquireSpecificChildPrefix_any:
  assumes laws: "storage_laws st invar view ok_ns" "netipx_laws nx B BS IS" "retry_laws retry"
    and s: "invar s" "view s (namespaceFromContext ctx) = Some m" "children_ok a"
    and q: "ParsePrefix cidr = Inr q" "m (key q) = Some a" and r: "ParsePrefix child = Inr r"
    and new: "Bits q < Bits r \<Longrightarrow> block r \<subseteq> free_space q (aChildren a) \<Longrightarrow> m (key r) = None \<and> key r \<noteq> key q"
  shows "if Bits q < Bits r \<and> \<not> has_ips q a \<and> block r \<subseteq> free_space q (aChildren a)
    then \<exists>p s'. AcquireSpecificChildPrefix nx retry st ctx cidr child s = (Inr p, s') \<and>
      abs_prefix p = fresh r (key q) \<and> wf_prefix p \<and> invar s' \<and>
      view s' = (view s)(namespaceFromContext ctx \<mapsto> m(key q \<mapsto> give_child (prefix_String r) a, key r \<mapsto> fresh r (key q)))
    else \<exists>e s'. AcquireSpecificChildPrefix nx retry st ctx cidr child s = (Inl e, s') \<and> invar s' \<and> view s' = view s"
proof -
  have v: "IsValid r" and ne: "child \<noteq> []"
    using ParsePrefix_valid [OF r] r by (auto simp: ParsePrefix_def)
  obtain fs s1 where res: "child_result nx st view invar ctx m q a cidr child 0 (Some r) (Bits r) s fs s1"
      "IS fs = free_space q (aChildren a)"
    by (rule storage_laws.acquire_child_result [OF laws(1,2) s q, of child "Some r" "Bits r" 0])
      (simp add: r ne, erule that)
  have ch: "choose_child nx fs (Some r) (Bits r) =
      (if block r \<subseteq> free_space q (aChildren a) then Inr r
       else Inl (Errorf ''specific prefix %s is not available in prefix %s'' []))"
    using netipx_laws.contains_prefix [OF laws(2), of fs r] v res(2) by (simp add: choose_child_def)
  show ?thesis
  proof (cases "Bits q < Bits r \<and> \<not> has_ips q a \<and> block r \<subseteq> free_space q (aChildren a)")
    case True
    with child_resultD(1) [OF res(1) _ _ _ v refl] ch new retry_Inr [OF laws(3)] show ?thesis
      by (auto simp: AcquireSpecificChildPrefix_def)
  next
    case no: False
    with ch have "\<not> (Bits q < Bits r \<and> \<not> has_ips q a) \<or>
        (\<exists>e. choose_child nx fs (Some r) (Bits r) = Inl e \<and> \<not> errors_is e ErrOptimisticLockError) \<or>
        (\<exists>r'. choose_child nx fs (Some r) (Bits r) = Inr r' \<and> \<not> IsValid r')"
      by auto
    from child_resultD(2) [OF res(1) this] show ?thesis
      using no retry_Inl [OF laws(3)] by (auto simp: AcquireSpecificChildPrefix_def)
  qed
qed

lemma AcquireSpecificChildPrefix_law:
  assumes laws: "storage_laws st invar view ok_ns" "netipx_laws nx B BS IS" "retry_laws retry"
    and s: "invar s" "view s (namespaceFromContext ctx) = Some m" "tree_ok m"
    and q: "ParsePrefix cidr = Inr q" "m (key q) = Some a" and r: "ParsePrefix child = Inr r"
  shows "if Bits q < Bits r \<and> \<not> has_ips q a \<and> block r \<subseteq> free_space q (aChildren a)
    then \<exists>p s'. AcquireSpecificChildPrefix nx retry st ctx cidr child s = (Inr p, s') \<and>
      abs_prefix p = fresh r (key q) \<and> wf_prefix p \<and> invar s' \<and>
      view s' = (view s)(namespaceFromContext ctx \<mapsto> m(key q \<mapsto> give_child (prefix_String r) a, key r \<mapsto> fresh r (key q)))
    else \<exists>e s'. AcquireSpecificChildPrefix nx retry st ctx cidr child s = (Inl e, s') \<and> invar s' \<and> view s' = view s"
  using AcquireSpecificChildPrefix_any [OF laws s(1,2) tree_okD(3) [OF s(3) q(2)] q r]
    free_child_new(1,2) [OF s(3) q(2) ParsePrefix_valid [OF q(1)] ParsePrefix_valid [OF r]] by blast

text \<open>
  C15: \<open>AcquireSpecificChildPrefix\<close> succeeds exactly when the wanted prefix is longer than its parent,
  the parent has no allocated addresses, and all addresses of the wanted prefix are in the free
  space of the parent; it then creates that prefix. Otherwise nothing changes.
\<close>

theorem AcquireSpecificChildPrefix_spec:
  assumes laws: "storage_laws st invar view ok_ns" "netipx_laws nx B BS IS" "retry_laws retry"
    and s: "invar s" "view s (namespaceFromContext ctx) = Some m" "tree_ok m"
    and q: "ParsePrefix cidr = Inr q" "m (key q) = Some a" and r: "ParsePrefix child = Inr r"
  shows "if Bits q < Bits r \<and> \<not> has_ips q a \<and> block r \<subseteq> free_space q (aChildren a)
    then \<exists>p s'. AcquireSpecificChildPrefix nx retry st ctx cidr child s = (Inr p, s') \<and>
      abs_prefix p = fresh r (key q) \<and> wf_prefix p \<and> invar s' \<and>
      view s' = (view s)(namespaceFromContext ctx \<mapsto> m(key q \<mapsto> give_child (prefix_String r) a, key r \<mapsto> fresh r (key q)))
    else \<exists>e s'. AcquireSpecificChildPrefix nx retry st ctx cidr child s = (Inl e, s') \<and> invar s' \<and> view s' = view s"
  by (rule AcquireSpecificChildPrefix_law [OF assms])

section \<open>The operations keep the tree\<close>

text \<open>
  Creating prefixes and cutting children out of them, by length or by cidr, keeps the invariant
  of the tree whether the operation succeeds or fails: any two stored prefixes of the namespace have
  no address in common, or one lies in space that the other has given to its children.
\<close>

theorem prefix_operations_keep_tree:
  assumes laws: "storage_laws st invar view ok_ns" "netipx_laws nx B BS IS" "retry_laws retry"
    and s: "invar s" "view s (namespaceFromContext ctx) = Some m" "tree_ok m"
    and q: "ParsePrefix cidr = Inr q"
    and step: "s' = snd (ipamer_NewPrefix nx st ctx cidr s) \<or>
      m (key q) \<noteq> None \<and> s' = snd (AcquireChildPrefix nx retry st ctx cidr n s) \<or>
      m (key q) \<noteq> None \<and> ParsePrefix child = Inr r \<and> s' = snd (AcquireSpecificChildPrefix nx retry st ctx cidr child s)"
  shows "\<exists>m'. invar s' \<and> view s' (namespaceFromContext ctx) = Some m' \<and> tree_ok m'"
proof -
  have v: "IsValid q"
    by (rule ParsePrefix_valid [OF q])
  consider (new) "s' = snd (ipamer_NewPrefix nx st ctx cidr s)"
    | (child) a where "m (key q) = Some a" "s' = snd (AcquireChildPrefix nx retry st ctx cidr n s)"
    | (specific) a where "m (key q) = Some a" "ParsePrefix child = Inr r"
        "s' = snd (AcquireSpecificChildPrefix nx retry st ctx cidr child s)"
    using step by blast
  then show ?thesis
  proof cases
    case new
    have "(invar s' \<and> view s' = view s) \<or> (unused m q \<and> invar s' \<and> view s' = put (view s) ctx (fresh q []))"
      using NewPrefix_law [OF laws(1,2) s(1,2) tree_okD(1) [OF s(3)] q] new by (auto split: if_split_asm)
    then show ?thesis
      using s(2,3) tree_ok_unused [OF s(3) v] by (auto simp: put_def)
  next
    case child
    have "(invar s' \<and> view s' = view s) \<or> (\<exists>r. IsValid r \<and> block r \<subseteq> free_space q (aChildren a) \<and> Bits q < Bits r \<and>
        invar s' \<and> view s' (namespaceFromContext ctx) =
          Some (m(key q \<mapsto> give_child (prefix_String r) a, key r \<mapsto> fresh r (key q))))"
      using AcquireChildPrefix_law [OF laws s q child(1), of n] child(2) by (auto split: if_split_asm)
    then show ?thesis
      using s(2,3) tree_ok_child [OF s(3) child(1) v] by auto
  next
    case specific
    have "(invar s' \<and> view s' = view s) \<or> (block r \<subseteq> free_space q (aChildren a) \<and> Bits q < Bits r \<and>
        invar s' \<and> view s' (namespaceFromContext ctx) =
          Some (m(key q \<mapsto> give_child (prefix_String r) a, key r \<mapsto> fresh r (key q))))"
      using AcquireSpecificChildPrefix_law [OF laws s q specific(1,2)] specific(3) by (auto split: if_split_asm)
    then show ?thesis
      using s(2,3) tree_ok_child [OF s(3) specific(1) v ParsePrefix_valid [OF specific(2)]] by auto
  qed
qed

section \<open>Deleting and releasing\<close>

lemma DeletePrefix_law:
  assumes laws: "storage_laws st invar view ok_ns" and s: "invar s" "view s (namespaceFromContext ctx) = Some m"
    and q: "ParsePrefix cidr = Inr q" "m (key q) = Some a"
  shows "if has_ips q a
    then \<exists>e s'. ipamer_DeletePrefix st ctx cidr s = (Inl e, s') \<and> invar s' \<and> view s' = view s
    else \<exists>p s'. ipamer_DeletePrefix st ctx cidr s = (Inr p, s') \<and> abs_prefix p = a \<and> invar s' \<and>
      view s' = (view s)(namespaceFromContext ctx \<mapsto> m(key q := None))"
proof -
  have st: "stored (view s) ctx cidr = Some a"
    using s(2) q by (simp add: stored_def)
  obtain p s1 where p: "PrefixFrom st ctx cidr s = (Inr p, s1)" "abs_prefix p = a" "wf_prefix p"
    "Cidr p = key q" "invar s1" "view s1 = view s"
    using storage_laws.PrefixFrom_stored [OF laws s(1) st] q(1) by (metis sum.inject(2))
  note ips = hasIPs_abs [OF p(3,4) ParsePrefix_valid [OF q(1)]]
  have m: "view s1 (namespaceFromContext ctx) = Some m" "m (Cidr p) = Some a"
    using p(4,6) s(2) q(2) by auto
  obtain p' s2 where "DeletePrefix st p (namespaceFromContext ctx) s1 = (Inr p', s2)" "abs_prefix p' = a" "invar s2"
      "view s2 = (view s)(namespaceFromContext ctx \<mapsto> m(key q := None))"
    using storage_laws.delete [OF laws p(5) m(1) p(3) m(2)] p(2,4,6) by auto
  with p ips show ?thesis
    by (auto simp: ipamer_DeletePrefix_def)
qed

text \<open>
  C19: \<open>DeletePrefix\<close> removes exactly the prefix the cidr denotes; it refuses, and nothing changes,
  when more addresses are allocated in it than the prefix reserves.
\<close>

theorem DeletePrefix_spec:
  assumes laws: "storage_laws st invar view ok_ns" and s: "invar s" "view s (namespaceFromContext ctx) = Some m"
    and q: "ParsePrefix cidr = Inr q" "m (key q) = Some a"
  shows "if has_ips q a
    then \<exists>e s'. ipamer_DeletePrefix st ctx cidr s = (Inl e, s') \<and> invar s' \<and> view s' = view s
    else \<exists>p s'. ipamer_DeletePrefix st ctx cidr s = (Inr p, s') \<and> abs_prefix p = a \<and> invar s' \<and>
      view s' = (view s)(namespaceFromContext ctx \<mapsto> m(key q := None))"
  by (rule DeletePrefix_law [OF assms])

definition take_back :: "string \<Rightarrow> aprefix \<Rightarrow> aprefix" where
  "take_back cp a = a\<lparr>aChildren := (aChildren a)(cp \<mapsto> True), aVersion := aVersion a + 1\<rparr>"

lemma take_back_simps [simp]:
  "aCidr (take_back cp a) = aCidr a" "aChildren (take_back cp a) = (aChildren a)(cp \<mapsto> True)"
  "aIPs (take_back cp a) = aIPs a" "aIsParent (take_back cp a) = aIsParent a"
  "aVersion (take_back cp a) = aVersion a + 1"
  by (simp_all add: take_back_def)

context storage_laws
begin

lemma mark_available:
  assumes s: "invar s" "view s (namespaceFromContext ctx) = Some m" "m (key q) = Some a"
    and p: "invar s1" "view s1 = view s" "abs_prefix p = a" "wf_prefix p" "Cidr p = key q"
  obtains acp s2 where "map_insert (availableChildPrefixes p) cp True = Inr acp"
    "UpdatePrefix st (p\<lparr>availableChildPrefixes := acp\<rparr>) (namespaceFromContext ctx) s1 =
      (Inr (next_version (p\<lparr>availableChildPrefixes := acp\<rparr>)), s2)" "invar s2"
    "view s2 = (view s)(namespaceFromContext ctx \<mapsto> m(key q \<mapsto> take_back cp a))"
proof -
  have ok: "map_ok (availableChildPrefixes p)"
    using p(4) by (simp add: wf_prefix_def)
  obtain acp where acp: "map_insert (availableChildPrefixes p) cp True = Inr acp"
    using map_ok_insert_ex [OF ok] by blast
  let ?p = "p\<lparr>availableChildPrefixes := acp\<rparr>"
  have wf: "wf_prefix ?p"
    using p(4) map_insert_ok [OF acp ok] by (simp add: wf_prefix_def)
  have abs: "abs_prefix (next_version ?p) = take_back cp a"
    using p(3) by (auto simp: abs_prefix_def next_version_def take_back_def map_insert_Inr [OF acp])
  have pre: "view s1 (namespaceFromContext ctx) = Some m" "m (Cidr p) = Some a" "Cidr ?p = Cidr p" "version ?p = aVersion a"
    using p(2,3,5) s(2,3) by auto
  obtain s2 where s2: "UpdatePrefix st ?p (namespaceFromContext ctx) s1 = (Inr (next_version ?p), s2)" "invar s2"
      "view s2 = put (view s1) ctx (take_back cp a)"
    using update_read [OF p(1) pre(1,2) wf pre(3,4)] unfolding abs .
  have "aCidr a = key q"
    using view_cidr [OF s] by simp
  then have "view s2 = (view s)(namespaceFromContext ctx \<mapsto> m(key q \<mapsto> take_back cp a))"
    using s2(3) p(2) s(2) by (simp add: put_def)
  with that acp s2(1,2) show ?thesis
    by blast
qed

lemma delete_refused:
  assumes s: "invar s" "view s (namespaceFromContext ctx) = Some m"
    and q: "ParsePrefix cidr = Inr q" "m (key q) = Some a" and ips: "has_ips q a"
  obtains s' where "ipamer_DeletePrefix st ctx cidr s =
      (Inl (Errorf ''prefix %s has ips, delete prefix not possible'' []), s')" "invar s'" "view s' = view s"
proof -
  have st: "stored (view s) ctx cidr = Some a"
    using s(2) q by (simp add: stored_def)
  obtain p s1 where p: "PrefixFrom st ctx cidr s = (Inr p, s1)" "abs_prefix p = a" "wf_prefix p"
    "Cidr p = key q" "invar s1" "view s1 = view s"
    using PrefixFrom_stored [OF s(1) st] q(1) by (metis sum.inject(2))
  with that hasIPs_abs [OF p(3,4) ParsePrefix_valid [OF q(1)]] ips show ?thesis
    by (auto simp: ipamer_DeletePrefix_def)
qed

end

lemma ReleaseChildPrefix_law:
  assumes laws: "storage_laws st invar view ok_ns" "retry_laws retry"
    and s: "invar s" "view s (namespaceFromContext ctx) = Some m"
    and q: "ParsePrefix (ParentCidr c) = Inr q" "m (key q) = Some a" "aIsParent a"
    and r: "ParsePrefix (Cidr c) = Inr r" "m (key r) = Some b" "key r \<noteq> key q"
    and ips: "map_len (ips c) \<le> 2" "\<not> has_ips r b"
  shows "\<exists>s'. ReleaseChildPrefix retry st ctx c s = (Inr (), s') \<and> invar s' \<and>
    view s' = (view s)(namespaceFromContext ctx \<mapsto> m(key q \<mapsto> take_back (Cidr c) a, key r := None))"
proof -
  have st: "stored (view s) ctx (ParentCidr c) = Some a"
    using s(2) q by (simp add: stored_def)
  obtain p s1 where p: "PrefixFrom st ctx (ParentCidr c) s = (Inr p, s1)" "abs_prefix p = a" "wf_prefix p"
    "Cidr p = key q" "invar s1" "view s1 = view s"
    using storage_laws.PrefixFrom_stored [OF laws(1) s(1) st] q(1) by (metis sum.inject(2))
  obtain acp s2 where s2: "map_insert (availableChildPrefixes p) (Cidr c) True = Inr acp"
      "UpdatePrefix st (p\<lparr>availableChildPrefixes := acp\<rparr>) (namespaceFromContext ctx) s1 =
         (Inr (next_version (p\<lparr>availableChildPrefixes := acp\<rparr>)), s2)" "invar s2"
      "view s2 = (view s)(namespaceFromContext ctx \<mapsto> m(key q \<mapsto> take_back (Cidr c) a))"
    using storage_laws.mark_available [OF laws(1) s q(2) p(5,6,2-4)] .
  have m2: "view s2 (namespaceFromContext ctx) = Some (m(key q \<mapsto> take_back (Cidr c) a))"
    using s2(4) by simp
  have b2: "(m(key q \<mapsto> take_back (Cidr c) a)) (key r) = Some b"
    using r(2,3) by simp
  obtain p' s3 where "ipamer_DeletePrefix st ctx (Cidr c) s2 = (Inr p', s3)" "invar s3"
      "view s3 = (view s)(namespaceFromContext ctx \<mapsto> m(key q \<mapsto> take_back (Cidr c) a, key r := None))"
    using DeletePrefix_law [OF laws(1) s2(3) m2 r(1) b2] ips(2) s2(4) by auto
  then have "releaseChildPrefixInternal st ctx (namespaceFromContext ctx) c s = (Inr (), s3)"
    using p(1,2) s2(1,2) q(3) ips(1) by (auto simp: releaseChildPrefixInternal_def)
  with \<open>invar s3\<close> \<open>view s3 = _\<close> retry_Inr [OF laws(2)] show ?thesis
    by (simp add: ReleaseChildPrefix_def)
qed

text \<open>
  C16: \<open>ReleaseChildPrefix\<close> of a stored child without allocated addresses removes the child and marks
  its cidr as available in the parent it names.
\<close>

theorem ReleaseChildPrefix_spec:
  assumes laws: "storage_laws st invar view ok_ns" "retry_laws retry"
    and s: "invar s" "view s (namespaceFromContext ctx) = Some m"
    and q: "ParsePrefix (ParentCidr c) = Inr q" "m (key q) = Some a" "aIsParent a"
    and r: "ParsePrefix (Cidr c) = Inr r" "m (key r) = Some b" "key r \<noteq> key q"
    and ips: "map_len (ips c) \<le> 2" "\<not> has_ips r b"
  shows "\<exists>s'. ReleaseChildPrefix retry st ctx c s = (Inr (), s') \<and> invar s' \<and>
    view s' = (view s)(namespaceFromContext ctx \<mapsto> m(key q \<mapsto> take_back (Cidr c) a, key r := None))"
  by (rule ReleaseChildPrefix_law [OF assms])

lemma taken_upd_True_eq:
  assumes "m cp \<noteq> Some False"
  shows "taken (m(cp \<mapsto> False, cp \<mapsto> True)) = taken m"
proof -
  have "((m(cp \<mapsto> False, cp \<mapsto> True)) c = Some False) = (m c = Some False)" for c
    using assms by auto
  then show ?thesis
    by (simp add: taken_def del: fun_upd_apply)
qed

lemma card_reserved: "card (dom (reserved q)) \<le> 2" "\<not> Is4 (Addr q) \<Longrightarrow> card (dom (reserved q)) = 1"
proof -
  have d: "dom (reserved q) = insert (addr_String (first_addr q)) (if Is4 (Addr q) then {addr_String (last_addr q)} else {})"
    by (auto simp: reserved_def split: if_split_asm)
  show "card (dom (reserved q)) \<le> 2"
    unfolding d by (simp add: card_insert_if)
  show "\<not> Is4 (Addr q) \<Longrightarrow> card (dom (reserved q)) = 1"
    unfolding d by simp
qed

lemma fresh_no_ips: "\<not> has_ips q (fresh q p)"
  using card_reserved [of q] Is4_Is6 [of "Addr q"]
  by (cases "Is4 (Addr q)") (auto simp: has_ips_def)

text \<open>
  C13: acquiring a child and releasing it again gives all its space back: the child is deleted, the free space
  of the parent is what it was, and no other prefix has changed. The parent keeps a trace: it counts as a parent
  from then on, lists the cidr of the child as available, and has two new versions; nothing else of it changes.
\<close>

theorem child_roundtrip:
  assumes laws: "storage_laws st invar view ok_ns" "netipx_laws nx B BS IS" "retry_laws retry" "retry_laws retry'"
    and s: "invar s" "view s (namespaceFromContext ctx) = Some m" "tree_ok m"
    and q: "ParsePrefix cidr = Inr q" "m (key q) = Some a"
    and free: "Bits q < uint n" "\<not> has_ips q a" "\<exists>r. IsValid r \<and> Bits r = uint n \<and> block r \<subseteq> free_space q (aChildren a)"
  shows "\<exists>p s1 s2. AcquireChildPrefix nx retry st ctx cidr n s = (Inr p, s1) \<and>
    ReleaseChildPrefix retry' st ctx p s1 = (Inr (), s2) \<and> m (Cidr p) = None \<and> Cidr p \<noteq> key q \<and>
    view s2 = (view s)(namespaceFromContext ctx \<mapsto> m(key q \<mapsto>
      a\<lparr>aChildren := (aChildren a)(Cidr p \<mapsto> True), aIsParent := True, aVersion := aVersion a + 2\<rparr>)) \<and>
    free_space q ((aChildren a)(Cidr p \<mapsto> True)) = free_space q (aChildren a)"
proof -
  obtain r p s1 where acq: "AcquireChildPrefix nx retry st ctx cidr n s = (Inr p, s1)" "abs_prefix p = fresh r (key q)"
      "IsValid r" "Masked r = r" "Bits r = uint n" "block r \<subseteq> free_space q (aChildren a)" "invar s1"
      and wf: "wf_prefix p" and view1: "view s1 = (view s)(namespaceFromContext ctx \<mapsto> m(key q \<mapsto> give_child (prefix_String r) a, key r \<mapsto> fresh r (key q)))"
    using AcquireChildPrefix_law [OF laws(1-3) s q, of n] free by auto
  have vq: "IsValid q"
    by (rule ParsePrefix_valid [OF q(1)])
  have bits: "Bits q < Bits r"
    using free(1) acq(5) by simp
  note new = free_child_new [OF s(3) q(2) vq acq(3,6) bits]
  have c: "Cidr p = key r" "ParentCidr p = key q" "map_lookup (ips p) = reserved r"
    using acq(2) by (metis abs_prefix_simps fresh_simps)+
  have kr: "key r = prefix_String r"
    by (simp add: key_def acq(4))
  let ?m = "m(key q \<mapsto> give_child (prefix_String r) a, key r \<mapsto> fresh r (key q))"
  have len: "map_len (ips p) \<le> 2"
    using map_len_card [of "ips p"] wf card_reserved(1) [of r] c(3) by (simp add: wf_prefix_def map_keys_def)
  obtain s2 where s2: "ReleaseChildPrefix retry' st ctx p s1 = (Inr (), s2)"
      "view s2 = (view s1)(namespaceFromContext ctx \<mapsto> ?m(key q \<mapsto> take_back (Cidr p) (give_child (prefix_String r) a), key r := None))"
    using ReleaseChildPrefix_law [OF laws(1,4) acq(7), of ctx ?m p "Masked q" "give_child (prefix_String r) a" r "fresh r (key q)"]
      view1 c ParsePrefix_key [OF vq] ParsePrefix_key [OF acq(3)] acq(4) key_Masked [OF vq] new(2) len
      fresh_no_ips by auto
  let ?a = "take_back (Cidr p) (give_child (prefix_String r) a)"
  have "aChildren a (prefix_String r) \<noteq> Some False"
  proof
    assume "aChildren a (prefix_String r) = Some False"
    then have "block r \<subseteq> taken (aChildren a)"
      using acq(3) by (auto simp: taken_cidr_block intro!: exI [of _ "prefix_String r"])
    with acq(6) block_nonempty [OF acq(3)] show False
      by (auto simp: free_space_def)
  qed
  then have "taken ((aChildren a)(Cidr p \<mapsto> True)) = taken (aChildren a)"
    using taken_upd_True_eq [of "aChildren a" "prefix_String r"] c(1) kr by simp
  moreover have "?m(key q \<mapsto> ?a, key r := None) = m(key q \<mapsto> ?a)"
    using new(1,2) by (auto simp: fun_eq_iff)
  moreover have "?a = a\<lparr>aChildren := (aChildren a)(Cidr p \<mapsto> True), aIsParent := True, aVersion := aVersion a + 2\<rparr>"
    using c(1) kr by (simp add: take_back_def give_child_def)
  ultimately show ?thesis
    using acq(1) s2 view1 new(1,2) c(1)
    by (intro exI [of _ p] exI [of _ s1] exI [of _ s2]) (simp add: free_space_def)
qed

section \<open>Instances\<close>

text \<open>A storage with one prefix of 256 addresses, and the same after a child was cut out of it.\<close>

definition net24 :: netip_prefix where
  "net24 = \<lparr>Addr = IPv4 0x0A000000, Bits = 24\<rparr>"

definition net26 :: netip_prefix where
  "net26 = \<lparr>Addr = IPv4 0x0A000000, Bits = 26\<rparr>"

definition prefix24 :: Prefix where
  "prefix24 = \<lparr>Cidr = ''10.0.0.0/24'', ParentCidr = [], isParent = False,
     availableChildPrefixes = GoMap [], childPrefixLength = 0,
     ips = GoMap [(''10.0.0.0'', True), (''10.0.0.255'', True)], version = 0\<rparr>"

definition parent24 :: Prefix where
  "parent24 = prefix24\<lparr>isParent := True, availableChildPrefixes := GoMap [(''10.0.0.0/26'', False)], version := 1\<rparr>"

definition child26 :: Prefix where
  "child26 = \<lparr>Cidr = ''10.0.0.0/26'', ParentCidr = ''10.0.0.0/24'', isParent = False,
     availableChildPrefixes = GoMap [], childPrefixLength = 0,
     ips = GoMap [(''10.0.0.0'', True), (''10.0.0.63'', True)], version = 0\<rparr>"

definition inner24 :: "Prefix gomap" where
  "inner24 = GoMap [(''10.0.0.0/24'', prefix24)]"

definition inner_tree :: "Prefix gomap" where
  "inner_tree = GoMap [(''10.0.0.0/24'', parent24), (''10.0.0.0/26'', child26)]"

definition memory_of :: "Prefix gomap \<Rightarrow> memory" where
  "memory_of ps = GoMap [(''root'', ps)]"

lemma sample_nets:
  "ParsePrefix ''10.0.0.0/24'' = Inr net24" "key net24 = ''10.0.0.0/24''"
  "ParsePrefix ''10.0.0.0/26'' = Inr net26" "key net26 = ''10.0.0.0/26''"
  by code_simp+

lemma sample_memories: "memory_inv (memory_of inner24)" "memory_inv (memory_of inner_tree)"
  by code_simp+

lemma view_memory_of: "memory_view (memory_of ps) (namespaceFromContext None) = Some (inner_view ps)"
  by (simp add: memory_view_def memory_of_def map_lookup_def namespaceFromContext_def defaultNamespace_def)

lemma sample_lookups:
  "inner_view inner24 = [key net24 \<mapsto> abs_prefix prefix24]"
  "inner_view inner_tree (key net24) = Some (abs_prefix parent24)"
  "inner_view inner_tree (key net26) = Some (abs_prefix child26)"
  by (simp_all add: inner_view_def inner24_def inner_tree_def map_lookup_def sample_nets fun_eq_iff)

lemma sample_valid: "IsValid net24" "IsValid net26" "Bits net24 = 24" "Bits net26 = 26"
  by (simp_all add: net24_def net26_def IsValid_def)

lemma sample_tree: "tree_ok (inner_view inner24)"
proof -
  have "keys_ok (inner_view inner24)"
    using sample_valid(1) by (auto simp: keys_ok_def sample_lookups)
  moreover have "children_ok (abs_prefix prefix24)"
    by (simp add: children_ok_def prefix24_def map_lookup_def)
  ultimately show ?thesis
    by (auto simp: tree_ok_def sample_lookups ran_def split: if_split_asm)
qed

lemma sample_free_block:
  "IsValid net26 \<and> Bits net26 = uint (26 :: 8 word) \<and>
   block net26 \<subseteq> free_space net24 (aChildren (abs_prefix prefix24))"
proof -
  have "Overlaps net24 net26"
    by code_simp
  then have "block net26 \<subseteq> block net24"
    using block_subset_iff [of net24 net26] sample_valid by simp
  moreover have "aChildren (abs_prefix prefix24) = Map.empty"
    by (simp add: prefix24_def map_lookup_def fun_eq_iff)
  ultimately show ?thesis
    using sample_valid by (simp add: free_space_def)
qed

lemma sample_no_ips: "\<not> has_ips net24 (abs_prefix prefix24)" "\<not> has_ips net26 (abs_prefix child26)"
proof -
  have h: "\<not> hasIPs prefix24" "\<not> hasIPs child26" and w: "wf_prefix prefix24" "wf_prefix child26"
    by code_simp+
  have c: "Cidr prefix24 = key net24" "Cidr child26 = key net26"
    by (simp_all add: prefix24_def child26_def sample_nets)
  show "\<not> has_ips net24 (abs_prefix prefix24)" "\<not> has_ips net26 (abs_prefix child26)"
    using h hasIPs_abs [OF w(1) c(1) sample_valid(1)] hasIPs_abs [OF w(2) c(2) sample_valid(2)] by simp_all
qed

lemma sample_unused: "unused Map.empty net24"
  by (simp add: unused_def)

theorem NewPrefix_spec_witness:
  "\<exists>p s'. ipamer_NewPrefix ref_netipx memory_storage None ''10.0.0.0/24'' NewMemory = (Inr p, s') \<and>
     abs_prefix p = fresh net24 []"
proof -
  have "memory_view NewMemory (namespaceFromContext None) = Some Map.empty"
    by (simp add: memory_inv_NewMemory namespaceFromContext_def)
  moreover have "keys_ok Map.empty"
    by (simp add: keys_ok_def)
  ultimately show ?thesis
    using NewPrefix_spec [OF sample_laws(1,2) memory_inv_NewMemory(1) _ _ sample_nets(1)] sample_unused
    by fastforce
qed

theorem AcquireChildPrefix_spec_witness:
  "\<exists>r p s'. AcquireChildPrefix ref_netipx retry_ref memory_storage None ''10.0.0.0/24'' 26 (memory_of inner24) = (Inr p, s') \<and>
     abs_prefix p = fresh r ''10.0.0.0/24'' \<and> Bits r = 26"
proof -
  have "inner_view inner24 (key net24) = Some (abs_prefix prefix24)"
    by (simp add: sample_lookups)
  note spec = AcquireChildPrefix_spec [OF sample_laws sample_memories(1) view_memory_of sample_tree sample_nets(1) this, of 26]
  have "Bits net24 < uint (26 :: 8 word) \<and> \<not> has_ips net24 (abs_prefix prefix24) \<and>
      (\<exists>r. IsValid r \<and> Bits r = uint (26 :: 8 word) \<and> block r \<subseteq> free_space net24 (aChildren (abs_prefix prefix24)))"
    using sample_free_block sample_no_ips(1) sample_valid(3) by (intro conjI exI [of _ net26]) simp_all
  from spec [unfolded if_P [OF this] sample_nets] show ?thesis
    by auto
qed

theorem AcquireSpecificChildPrefix_spec_witness:
  "\<exists>p s'. AcquireSpecificChildPrefix ref_netipx retry_ref memory_storage None ''10.0.0.0/24'' ''10.0.0.0/26''
     (memory_of inner24) = (Inr p, s') \<and> abs_prefix p = fresh net26 ''10.0.0.0/24''"
proof -
  have "inner_view inner24 (key net24) = Some (abs_prefix prefix24)"
    by (simp add: sample_lookups)
  from AcquireSpecificChildPrefix_spec [OF sample_laws sample_memories(1) view_memory_of sample_tree sample_nets(1) this sample_nets(3)]
  show ?thesis
    using sample_free_block sample_no_ips(1) sample_valid(3,4) unfolding sample_nets by auto
qed

theorem prefix_operations_keep_tree_witness:
  "\<exists>m'. memory_view (snd (ipamer_NewPrefix ref_netipx memory_storage None ''10.0.0.0/26'' (memory_of inner24)))
     (namespaceFromContext None) = Some m' \<and> tree_ok m'"
  using prefix_operations_keep_tree [OF sample_laws sample_memories(1) view_memory_of sample_tree sample_nets(3)]
  by blast

theorem DeletePrefix_spec_witness:
  "\<exists>p s'. ipamer_DeletePrefix memory_storage None ''10.0.0.0/24'' (memory_of inner24) = (Inr p, s') \<and>
     memory_view s' (namespaceFromContext None) = Some Map.empty"
proof -
  have "inner_view inner24 (key net24) = Some (abs_prefix prefix24)"
    by (simp add: sample_lookups)
  from DeletePrefix_spec [OF sample_laws(1) sample_memories(1) view_memory_of sample_nets(1) this]
  show ?thesis
    using sample_no_ips(1) by (auto simp: sample_lookups)
qed

theorem ReleaseChildPrefix_spec_witness:
  "\<exists>s'. ReleaseChildPrefix retry_ref memory_storage None child26 (memory_of inner_tree) = (Inr (), s')"
proof -
  have c: "ParentCidr child26 = ''10.0.0.0/24''" "Cidr child26 = ''10.0.0.0/26''" "map_len (ips child26) \<le> 2"
    "aIsParent (abs_prefix parent24)" "key net26 \<noteq> key net24"
    by (simp_all add: child26_def map_len_def parent24_def sample_nets)
  show ?thesis
    using ReleaseChildPrefix_spec [OF sample_laws(1,3) sample_memories(2) view_memory_of _ sample_lookups(2) c(4) _
        sample_lookups(3) c(5,3) sample_no_ips(2)] sample_nets(1,3) c(1,2) by auto
qed

theorem child_roundtrip_witness:
  "\<exists>p s1 s2. AcquireChildPrefix ref_netipx retry_ref memory_storage None ''10.0.0.0/24'' 26 (memory_of inner24) = (Inr p, s1) \<and>
     ReleaseChildPrefix retry_ref memory_storage None p s1 = (Inr (), s2)"
proof -
  have "inner_view inner24 (key net24) = Some (abs_prefix prefix24)" "Bits net24 < uint (26 :: 8 word)"
    by (simp_all add: sample_lookups sample_valid)
  with child_roundtrip [OF sample_laws sample_laws(3) sample_memories(1) view_memory_of sample_tree sample_nets(1), of _ 26]
    sample_free_block sample_no_ips(1) show ?thesis
    by blast
qed

end
