(* ===== verification/Ipamer_Limits.thy ===== *)
theory Ipamer_Limits
  imports Ipamer_Prefixes
begin

text \<open>
  Compositions of the operations: what a new prefix hands out, and three
  behaviours a user of the library has to know because no check of the code prevents them.
\<close>

section \<open>The first addresses of a new prefix\<close>

lemma second_addr:
  assumes q: "IsValid q" and h: "2 \<le> host_bits q"
  shows "Contains q (addr_Next (first_addr q))" "addr_num (addr_Next (first_addr q)) = Suc (addr_num (first_addr q))"
    "addr_Next (first_addr q) \<noteq> last_addr q"
proof -
  have "(2::nat) ^ 2 \<le> 2 ^ host_bits q"
    using h by (intro power_increasing) auto
  then have lt: "Suc (addr_num (first_addr q)) < addr_num (last_addr q)"
    using first_addr_num [OF q] last_addr_num [OF q] by simp
  note n = Contains_Next [OF Contains_first_last [OF q]]
  show "Contains q (addr_Next (first_addr q))" and
    num: "addr_num (addr_Next (first_addr q)) = Suc (addr_num (first_addr q))"
    using n lt by auto
  with lt show "addr_Next (first_addr q) \<noteq> last_addr q"
    by auto
qed

lemma reserved_free:
  assumes q: "IsValid q" and h: "2 \<le> host_bits q"
  shows "addr_Next (first_addr q) \<in> free_ips q (fresh q p)"
    "b \<in> free_ips q (fresh q p) \<Longrightarrow> addr_num (addr_Next (first_addr q)) \<le> addr_num b"
proof -
  note s = second_addr [OF q h]
  have "addr_Next (first_addr q) \<noteq> first_addr q"
    using s(2) by auto
  with s(1,3) show "addr_Next (first_addr q) \<in> free_ips q (fresh q p)"
    by (simp add: free_ips_def reserved_def)
  assume b: "b \<in> free_ips q (fresh q p)"
  then have "b \<noteq> first_addr q" "Contains q b"
    by (auto simp: free_ips_def reserved_def split: if_split_asm)
  then have "addr_num b \<noteq> addr_num (first_addr q)" "addr_num (first_addr q) \<le> addr_num b"
    using Contains_same [OF _ Contains_first_last(1) [OF q]] Contains_between [OF q] by auto
  then show "addr_num (addr_Next (first_addr q)) \<le> addr_num b"
    using s(2) by simp
qed

lemma least_free_unique:
  assumes "ip \<in> free_ips q a" "\<forall>b \<in> free_ips q a. addr_num ip \<le> addr_num b"
    "ip' \<in> free_ips q a" "\<And>b. b \<in> free_ips q a \<Longrightarrow> addr_num ip' \<le> addr_num b"
  shows "ip = ip'"
  using assms by (intro Contains_same [of q]) (auto simp: free_ips_def intro: order_antisym)

text \<open>
  The first address a new prefix with at least four addresses hands out is the one after its
  network address, never the reserved network or broadcast address.
\<close>

theorem first_acquired_is_second:
  assumes laws: "storage_laws st invar view ok_ns" "netipx_laws nx B BS IS" "retry_laws retry"
    and s: "invar s" "view s (namespaceFromContext ctx) = Some m" "keys_ok m" and q: "ParsePrefix cidr = Inr q"
    and u: "unused m q" and h: "2 \<le> host_bits q"
  shows "\<exists>p s1 s2. ipamer_NewPrefix nx st ctx cidr s = (Inr p, s1) \<and>
    AcquireIP nx retry st ctx cidr s1 = (Inr \<lparr>IP = addr_Next (first_addr q), ParentPrefix = key q\<rparr>, s2)"
proof -
  obtain p s1 where p: "ipamer_NewPrefix nx st ctx cidr s = (Inr p, s1)" "invar s1"
      "view s1 = put (view s) ctx (fresh q [])"
    using NewPrefix_law [OF laws(1,2) s q] u by auto
  have st: "stored (view s1) ctx cidr = Some (fresh q [])"
    using stored_put [of "view s" ctx m cidr q, OF s(2) q] p(3) by simp
  have np: "\<not> aIsParent (fresh q [])"
    by simp
  note r = reserved_free [OF ParsePrefix_valid [OF q] h]
  have ne: "free_ips q (fresh q []) \<noteq> {}"
    using r(1) by blast
  obtain ip s2 where ip: "AcquireIP nx retry st ctx cidr s1 = (Inr \<lparr>IP = ip, ParentPrefix = key q\<rparr>, s2)"
      "ip \<in> free_ips q (fresh q [])" "\<forall>b \<in> free_ips q (fresh q []). addr_num ip \<le> addr_num b"
    using AcquireIP_law [OF laws p(2) st np q] ne by auto
  have "ip = addr_Next (first_addr q)"
    by (rule least_free_unique [OF ip(2,3) r])
  with p(1) ip(1) show ?thesis
    by blast
qed

theorem first_acquired_is_second_witness:
  "\<exists>p s1 s2. ipamer_NewPrefix ref_netipx memory_storage None ''10.0.0.0/24'' NewMemory = (Inr p, s1) \<and>
     AcquireIP ref_netipx retry_ref memory_storage None ''10.0.0.0/24'' s1 =
       (Inr \<lparr>IP = addr_Next (first_addr net24), ParentPrefix = ''10.0.0.0/24''\<rparr>, s2)"
proof -
  have "memory_view NewMemory (namespaceFromContext None) = Some Map.empty" "keys_ok Map.empty"
    by (simp_all add: memory_inv_NewMemory namespaceFromContext_def keys_ok_def)
  moreover have "2 \<le> host_bits net24"
    by (simp add: host_bits_def net24_def)
  ultimately show ?thesis
    using first_acquired_is_second [OF sample_laws memory_inv_NewMemory(1) _ _ sample_nets(1) sample_unused]
    unfolding sample_nets by blast
qed

text \<open>
  The reservation of the network address is not protected: \<open>ReleaseIPFromPrefix\<close> accepts it, and
  the next \<open>AcquireIP\<close> hands it out.
\<close>

theorem released_network_address_is_handed_out:
  assumes laws: "storage_laws st invar view ok_ns" "netipx_laws nx B BS IS" "retry_laws retry" "retry_laws retry'"
    and s: "invar s" "stored (view s) ctx cidr = Some a" "\<not> aIsParent a" and q: "ParsePrefix cidr = Inr q"
    and res: "aIPs a (addr_String (first_addr q)) \<noteq> None"
  shows "\<exists>s1 s2. ReleaseIPFromPrefix retry' st ctx cidr (addr_String (first_addr q)) s = (Inr (), s1) \<and>
    AcquireIP nx retry st ctx cidr s1 = (Inr \<lparr>IP = first_addr q, ParentPrefix = key q\<rparr>, s2)"
proof -
  let ?b = "drop_ip (addr_String (first_addr q)) a"
  obtain s1 where s1: "ReleaseIPFromPrefix retry' st ctx cidr (addr_String (first_addr q)) s = (Inr (), s1)"
      "invar s1" "view s1 = put (view s) ctx ?b"
    using ReleaseIPFromPrefix_law [OF laws(1,4) s(1,2), of "addr_String (first_addr q)"] res by auto
  obtain m where m: "view s (namespaceFromContext ctx) = Some m"
    using s(2) by (rule stored_Some)
  have st1: "stored (view s1) ctx cidr = Some ?b"
    using stored_put [of "view s" ctx m cidr q, OF m q] s1(3) storage_laws.stored_cidr [OF laws(1) s(1,2) q] by simp
  have np: "\<not> aIsParent ?b"
    using s(3) by simp
  note v = ParsePrefix_valid [OF q]
  have first: "first_addr q \<in> free_ips q ?b" "\<And>b. b \<in> free_ips q ?b \<Longrightarrow> addr_num (first_addr q) \<le> addr_num b"
    using Contains_first_last(1) [OF v] Contains_between [OF v] by (auto simp: free_ips_def)
  then have ne: "free_ips q ?b \<noteq> {}"
    by blast
  obtain ip s2 where ip: "AcquireIP nx retry st ctx cidr s1 = (Inr \<lparr>IP = ip, ParentPrefix = key q\<rparr>, s2)"
      "ip \<in> free_ips q ?b" "\<forall>b \<in> free_ips q ?b. addr_num ip \<le> addr_num b"
    using AcquireIP_law [OF laws(1-3) s1(2) st1 np q] ne by auto
  have "ip = first_addr q"
    by (rule least_free_unique [OF ip(2,3) first])
  with s1(1) ip(1) show ?thesis
    by blast
qed

theorem released_network_address_is_handed_out_witness:
  "\<exists>s1 s2. ReleaseIPFromPrefix retry_ref memory_storage None ''10.0.0.0/30'' (addr_String (first_addr sample_net)) sample_memory = (Inr (), s1) \<and>
     AcquireIP ref_netipx retry_ref memory_storage None ''10.0.0.0/30'' s1 =
       (Inr \<lparr>IP = first_addr sample_net, ParentPrefix = ''10.0.0.0/30''\<rparr>, s2)"
proof -
  have "addr_String (first_addr sample_net) = ''10.0.0.0''"
    by code_simp
  then have "aIPs (abs_prefix sample_prefix) (addr_String (first_addr sample_net)) \<noteq> None"
    by (simp add: sample_prefix_def map_lookup_def)
  from released_network_address_is_handed_out [OF sample_laws sample_laws(3) sample_inv sample_stored sample_not_parent sample_parse this]
  show ?thesis
    unfolding sample_key .
qed

section \<open>Space that is lost, and space that is given away twice\<close>

text \<open>
  A specific child that is asked for with host bits set is marked unavailable under the text with
  the host bits, but created and released under the masked one: after its release its addresses
  stay unavailable in the parent, although no child uses them.
\<close>

theorem unmasked_child_is_lost:
  assumes laws: "storage_laws st invar view ok_ns" "netipx_laws nx B BS IS" "retry_laws retry" "retry_laws retry'"
    and s: "invar s" "view s (namespaceFromContext ctx) = Some m" "tree_ok m"
    and q: "ParsePrefix cidr = Inr q" "m (key q) = Some a" and r: "ParsePrefix child = Inr r" "Masked r \<noteq> r"
    and free: "Bits q < Bits r" "\<not> has_ips q a" "block r \<subseteq> free_space q (aChildren a)"
  shows "\<exists>p s1 s2 a2. AcquireSpecificChildPrefix nx retry st ctx cidr child s = (Inr p, s1) \<and>
    ReleaseChildPrefix retry' st ctx p s1 = (Inr (), s2) \<and>
    view s2 = (view s)(namespaceFromContext ctx \<mapsto> m(key q \<mapsto> a2)) \<and> block r \<inter> free_space q (aChildren a2) = {}"
proof -
  have v: "IsValid q" "IsValid r"
    using ParsePrefix_valid q(1) r(1) by blast+
  let ?m = "m(key q \<mapsto> give_child (prefix_String r) a, key r \<mapsto> fresh r (key q))"
  obtain p s1 where acq: "AcquireSpecificChildPrefix nx retry st ctx cidr child s = (Inr p, s1)"
      "abs_prefix p = fresh r (key q)" "wf_prefix p" "invar s1" "view s1 = (view s)(namespaceFromContext ctx \<mapsto> ?m)"
    using AcquireSpecificChildPrefix_law [OF laws(1-3) s q r(1)] free by auto
  note new = free_child_new [OF s(3) q(2) v free(3,1)]
  have c: "Cidr p = key r" "ParentCidr p = key q" "map_lookup (ips p) = reserved r"
    using acq(2) by (metis abs_prefix_simps fresh_simps)+
  have len: "map_len (ips p) \<le> 2"
    using map_len_card [of "ips p"] acq(3) card_reserved(1) [of r] c(3) by (simp add: wf_prefix_def map_keys_def)
  let ?a = "take_back (key r) (give_child (prefix_String r) a)"
  obtain s2 where s2: "ReleaseChildPrefix retry' st ctx p s1 = (Inr (), s2)"
      "view s2 = (view s1)(namespaceFromContext ctx \<mapsto> ?m(key q \<mapsto> ?a, key r := None))"
    using ReleaseChildPrefix_law [OF laws(1,4) acq(4), of ctx ?m p "Masked q" "give_child (prefix_String r) a" "Masked r" "fresh r (key q)"]
      acq(5) c ParsePrefix_key v key_Masked new(2) len fresh_no_ips [of r] by (auto simp: has_ips_def family_Masked)
  have "key r \<noteq> prefix_String r"
    using r(2) v(2) by (simp add: key_def prefix_String_inject)
  then have "aChildren ?a (prefix_String r) = Some False"
    by simp
  then have "block r \<subseteq> taken (aChildren ?a)"
    using v(2) by (auto simp: taken_cidr_block simp del: take_back_simps give_child_simps intro!: exI [of _ "prefix_String r"])
  then have "block r \<inter> free_space q (aChildren ?a) = {}"
    by (auto simp: free_space_def)
  moreover have "?m(key q \<mapsto> ?a, key r := None) = m(key q \<mapsto> ?a)"
    using new(1,2) by (auto simp: fun_eq_iff)
  ultimately show ?thesis
    using acq(1,5) s2 by (intro exI [of _ p] exI [of _ s1] exI [of _ s2] exI [of _ ?a]) simp
qed

definition net26_host :: netip_prefix where
  "net26_host = \<lparr>Addr = IPv4 0x0A000005, Bits = 26\<rparr>"

lemma net26_host_facts:
  "ParsePrefix ''10.0.0.5/26'' = Inr net26_host" "Masked net26_host = net26" "Masked net26_host \<noteq> net26_host"
  by code_simp+

theorem unmasked_child_is_lost_witness:
  "\<exists>p s1 s2. AcquireSpecificChildPrefix ref_netipx retry_ref memory_storage None ''10.0.0.0/24'' ''10.0.0.5/26''
     (memory_of inner24) = (Inr p, s1) \<and>
     ReleaseChildPrefix retry_ref memory_storage None p s1 = (Inr (), s2) \<and>
     (\<exists>a2. memory_view s2 (namespaceFromContext None) = Some [key net24 \<mapsto> a2] \<and>
       block net26 \<inter> free_space net24 (aChildren a2) = {})"
proof -
  have v: "IsValid net26_host"
    by (rule ParsePrefix_valid [OF net26_host_facts(1)])
  have b: "block net26_host = block net26"
    using block_Masked [OF v] by (simp add: net26_host_facts(2))
  have m: "inner_view inner24 (key net24) = Some (abs_prefix prefix24)"
    by (simp add: sample_lookups)
  have "Bits net24 < Bits net26_host" "block net26_host \<subseteq> free_space net24 (aChildren (abs_prefix prefix24))"
    using sample_free_block unfolding b by (simp_all add: net26_host_def net24_def)
  with unmasked_child_is_lost [OF sample_laws sample_laws(3) sample_memories(1) view_memory_of sample_tree
      sample_nets(1) m net26_host_facts(1,3) _ sample_no_ips(1)]
  obtain p s1 s2 a2 where r: "AcquireSpecificChildPrefix ref_netipx retry_ref memory_storage None ''10.0.0.0/24''
      ''10.0.0.5/26'' (memory_of inner24) = (Inr p, s1)" "ReleaseChildPrefix retry_ref memory_storage None p s1 = (Inr (), s2)"
      "memory_view s2 = (memory_view (memory_of inner24))(namespaceFromContext None \<mapsto> (inner_view inner24)(key net24 \<mapsto> a2))"
      "block net26_host \<inter> free_space net24 (aChildren a2) = {}"
    by blast
  then have "memory_view s2 (namespaceFromContext None) = Some [key net24 \<mapsto> a2]"
    by (simp add: sample_lookups)
  with r(1,2,4) show ?thesis
    unfolding b by blast
qed

text \<open>
  C36: \<open>ReleaseChildPrefix\<close> does not undo the mark in the parent when it cannot delete the child: for a
  child with up to two entries in \<open>ips\<close> of which \<open>DeletePrefix\<close> still says that it has addresses (an IPv6
  child with one address), it fails, the child stays, and its cidr is available again in the parent.
\<close>

theorem failed_release_keeps_mark:
  assumes laws: "storage_laws st invar view ok_ns" "retry_laws retry"
    and s: "invar s" "view s (namespaceFromContext ctx) = Some m"
    and q: "ParsePrefix (ParentCidr c) = Inr q" "m (key q) = Some a" "aIsParent a"
    and r: "ParsePrefix (Cidr c) = Inr r" "m (key r) = Some b" "key r \<noteq> key q"
    and ips: "map_len (ips c) \<le> 2" "has_ips r b"
  shows "\<exists>e s'. ReleaseChildPrefix retry st ctx c s = (Inl e, s') \<and> invar s' \<and>
    view s' = (view s)(namespaceFromContext ctx \<mapsto> m(key q \<mapsto> take_back (Cidr c) a))"
proof -
  have st: "stored (view s) ctx (ParentCidr c) = Some a"
    using s(2) q by (simp add: stored_def)
  obtain p s1 where p: "PrefixFrom st ctx (ParentCidr c) s = (Inr p, s1)" "abs_prefix p = a" "wf_prefix p"
    "Cidr p = key q" "invar s1" "view s1 = view s"
    using storage_laws.PrefixFrom_stored [OF laws(1) s(1) st] q(1) by (metis sum.inject(2))
  obtain acp s2 where s2: "map_insert (availableChildPrefixes p) (Cidr c) True = Inr acp"
      "UpdatePrefix st (p\<lparr>availableChildPrefixes := acp\<rparr>) (namespaceFromContext ctx) s1 =
         (Inr (next_version (p\<lparr>availableChildPrefixes := acp\<rparr>)), s2)" "invar s2"
      "view s2 = (view s)(namespaceFromContext ctx \<mapsto> m(key q \<mapsto> take_back (Cidr c) a))"
    using storage_laws.mark_available [OF laws(1) s q(2) p(5,6,2-4)] .
  have m2: "view s2 (namespaceFromContext ctx) = Some (m(key q \<mapsto> take_back (Cidr c) a))"
    using s2(4) by simp
  have b2: "(m(key q \<mapsto> take_back (Cidr c) a)) (key r) = Some b"
    using r(2,3) by simp
  obtain s3 where "ipamer_DeletePrefix st ctx (Cidr c) s2 =
      (Inl (Errorf ''prefix %s has ips, delete prefix not possible'' []), s3)" "invar s3" "view s3 = view s2"
    using storage_laws.delete_refused [OF laws(1) s2(3) m2 r(1) b2 ips(2)] .
  then have "releaseChildPrefixInternal st ctx (namespaceFromContext ctx) c s =
      (Inl (Errorf ''unable to delete child prefix:%q :%w''
         [Errorf ''prefix %s has ips, delete prefix not possible'' []]), s3)"
    using p(1,2) s2(1,2) q(3) ips(1) by (auto simp: releaseChildPrefixInternal_def)
  with retry_Inl [OF laws(2)] show ?thesis
    using s2(4) \<open>invar s3\<close> \<open>view s3 = view s2\<close> by (simp add: ReleaseChildPrefix_def)
qed

definition net48 :: netip_prefix where
  "net48 = \<lparr>Addr = IPv6 0xFD000000000000000000000000000000 [], Bits = 48\<rparr>"

definition net64 :: netip_prefix where
  "net64 = \<lparr>Addr = IPv6 0xFD000000000000000000000000000000 [], Bits = 64\<rparr>"

definition host64 :: addr where
  "host64 = IPv6 0xFD000000000000000000000000000001 []"

definition parent48 :: Prefix where
  "parent48 = \<lparr>Cidr = key net48, ParentCidr = [], isParent = True,
     availableChildPrefixes = GoMap [(key net64, False)], childPrefixLength = 0,
     ips = GoMap [(addr_String (Addr net48), True)], version = 1\<rparr>"

definition child64 :: Prefix where
  "child64 = \<lparr>Cidr = key net64, ParentCidr = key net48, isParent = False,
     availableChildPrefixes = GoMap [], childPrefixLength = 0,
     ips = GoMap [(addr_String (Addr net64), True),
       (addr_String host64, True)], version = 1\<rparr>"

definition inner48 :: "Prefix gomap" where
  "inner48 = GoMap [(key net48, parent48), (key net64, child64)]"

lemma sample48:
  "IsValid net48" "IsValid net64" "Masked net48 = net48" "Masked net64 = net64" "key net64 \<noteq> key net48"
proof -
  show v: "IsValid net48" "IsValid net64"
    by (simp_all add: net48_def net64_def IsValid_def)
  show m: "Masked net48 = net48" "Masked net64 = net64"
    using v by (auto intro!: Masked_selfI simp: net48_def net64_def host_bits_def)
  have "net48 \<noteq> net64"
    by (simp add: net48_def net64_def)
  then show "key net64 \<noteq> key net48"
    using v m by (simp add: key_eq_iff)
qed

lemma host64_new: "addr_String (Addr net64) \<noteq> addr_String host64" "Is6 (Addr net64)"
  unfolding addr_String_inject by (simp_all add: net64_def host64_def)

lemma sample48_inv: "memory_inv (memory_of inner48)"
proof -
  have "key q \<noteq> []" for q
    by (simp add: key_def prefix_String_def)
  then have "inner_ok inner48"
    using sample48(5) host64_new by (simp add: inner_ok_def inner48_def map_ok_def entry_ok_def wf_prefix_def
        parent48_def child64_def)
  then show ?thesis
    by (simp add: memory_inv_def memory_of_def map_ok_def)
qed

theorem failed_release_keeps_mark_witness:
  "\<exists>e s' m. ReleaseChildPrefix retry_ref memory_storage None child64 (memory_of inner48) = (Inl e, s') \<and>
     memory_view s' (namespaceFromContext None) = Some m \<and> m (key net64) = Some (abs_prefix child64) \<and>
     m (key net48) = Some (take_back (key net64) (abs_prefix parent48))"
proof -
  have l: "inner_view inner48 (key net48) = Some (abs_prefix parent48)"
      "inner_view inner48 (key net64) = Some (abs_prefix child64)"
    using sample48(5) by (simp_all add: inner_view_def inner48_def map_lookup_def)
  have c: "ParentCidr child64 = key net48" "Cidr child64 = key net64" "map_len (ips child64) \<le> 2"
    "aIsParent (abs_prefix parent48)"
    by (simp_all add: child64_def map_len_def parent48_def)
  have "dom (aIPs (abs_prefix child64)) =
      {addr_String (Addr net64), addr_String host64}"
    by (auto simp: child64_def map_lookup_def split: if_split_asm)
  then have "has_ips net64 (abs_prefix child64)"
    using host64_new by (simp add: has_ips_def)
  from failed_release_keeps_mark [OF sample_laws(1,3) sample48_inv view_memory_of _ l(1) c(4) _ l(2) sample48(5) c(3) this]
  show ?thesis
    using sample48 ParsePrefix_key [of net48] ParsePrefix_key [of net64] c(1,2) l(2) by fastforce
qed

end
