(* ===== verification/Api.thy ===== *)
theory Api
  imports Ipamer
begin

text \<open>
  The messages of the service, \<^verbatim>\<open>src/api/v1/ipam.pb.go\<close>: the fields that the messages carry, without
  the bookkeeping of the protobuf runtime, and the getters of the optional fields, which return the
  empty string for a field that is not set. A field is named by its message and its Go name. The
  dump of a load request is the JSON document (see \<open>Json\<close>). The interface \<open>Ipamer\<close> of
  \<^verbatim>\<open>src/ipam.go\<close>, through which the service works, is a record of operations.
\<close>

section \<open>Messages\<close>

record Prefix_msg =
  Prefix_msg_Cidr :: string
  Prefix_msg_ParentCidr :: string

record IP_msg =
  IP_msg_Ip :: string
  IP_msg_ParentPrefix :: string

record CreatePrefixRequest =
  CreatePrefixRequest_Cidr :: string
  CreatePrefixRequest_Namespace :: "string option"

definition CreatePrefixRequest_GetNamespace :: "CreatePrefixRequest \<Rightarrow> string" where
  "CreatePrefixRequest_GetNamespace x = (case CreatePrefixRequest_Namespace x of Some s \<Rightarrow> s | None \<Rightarrow> [])"

record DeletePrefixRequest =
  DeletePrefixRequest_Cidr :: string
  DeletePrefixRequest_Namespace :: "string option"

definition DeletePrefixRequest_GetNamespace :: "DeletePrefixRequest \<Rightarrow> string" where
  "DeletePrefixRequest_GetNamespace x = (case DeletePrefixRequest_Namespace x of Some s \<Rightarrow> s | None \<Rightarrow> [])"

record GetPrefixRequest =
  GetPrefixRequest_Cidr :: string
  GetPrefixRequest_Namespace :: "string option"

definition GetPrefixRequest_GetNamespace :: "GetPrefixRequest \<Rightarrow> string" where
  "GetPrefixRequest_GetNamespace x = (case GetPrefixRequest_Namespace x of Some s \<Rightarrow> s | None \<Rightarrow> [])"

record ListPrefixesRequest =
  ListPrefixesRequest_Namespace :: "string option"

definition ListPrefixesRequest_GetNamespace :: "ListPrefixesRequest \<Rightarrow> string" where
  "ListPrefixesRequest_GetNamespace x = (case ListPrefixesRequest_Namespace x of Some s \<Rightarrow> s | None \<Rightarrow> [])"

record PrefixUsageRequest =
  PrefixUsageRequest_Cidr :: string
  PrefixUsageRequest_Namespace :: "string option"

definition PrefixUsageRequest_GetNamespace :: "PrefixUsageRequest \<Rightarrow> string" where
  "PrefixUsageRequest_GetNamespace x = (case PrefixUsageRequest_Namespace x of Some s \<Rightarrow> s | None \<Rightarrow> [])"

record PrefixUsageResponse =
  PrefixUsageResponse_AvailableIps :: "64 word"
  PrefixUsageResponse_AcquiredIps :: "64 word"
  PrefixUsageResponse_AvailableSmallestPrefixes :: "64 word"
  PrefixUsageResponse_AvailablePrefixes :: "string list"
  PrefixUsageResponse_AcquiredPrefixes :: "64 word"

record AcquireChildPrefixRequest =
  AcquireChildPrefixRequest_Cidr :: string
  AcquireChildPrefixRequest_Length :: "32 word"
  AcquireChildPrefixRequest_ChildCidr :: "string option"
  AcquireChildPrefixRequest_Namespace :: "string option"

definition AcquireChildPrefixRequest_GetChildCidr :: "AcquireChildPrefixRequest \<Rightarrow> string" where
  "AcquireChildPrefixRequest_GetChildCidr x = (case AcquireChildPrefixRequest_ChildCidr x of Some s \<Rightarrow> s | None \<Rightarrow> [])"

definition AcquireChildPrefixRequest_GetNamespace :: "AcquireChildPrefixRequest \<Rightarrow> string" where
  "AcquireChildPrefixRequest_GetNamespace x = (case AcquireChildPrefixRequest_Namespace x of Some s \<Rightarrow> s | None \<Rightarrow> [])"

record ReleaseChildPrefixRequest =
  ReleaseChildPrefixRequest_Cidr :: string
  ReleaseChildPrefixRequest_Namespace :: "string option"

definition ReleaseChildPrefixRequest_GetNamespace :: "ReleaseChildPrefixRequest \<Rightarrow> string" where
  "ReleaseChildPrefixRequest_GetNamespace x = (case ReleaseChildPrefixRequest_Namespace x of Some s \<Rightarrow> s | None \<Rightarrow> [])"

record AcquireIPRequest =
  AcquireIPRequest_PrefixCidr :: string
  AcquireIPRequest_Ip :: "string option"
  AcquireIPRequest_Namespace :: "string option"

definition AcquireIPRequest_GetIp :: "AcquireIPRequest \<Rightarrow> string" where
  "AcquireIPRequest_GetIp x = (case AcquireIPRequest_Ip x of Some s \<Rightarrow> s | None \<Rightarrow> [])"

definition AcquireIPRequest_GetNamespace :: "AcquireIPRequest \<Rightarrow> string" where
  "AcquireIPRequest_GetNamespace x = (case AcquireIPRequest_Namespace x of Some s \<Rightarrow> s | None \<Rightarrow> [])"

record ReleaseIPRequest =
  ReleaseIPRequest_PrefixCidr :: string
  ReleaseIPRequest_Ip :: string
  ReleaseIPRequest_Namespace :: "string option"

definition ReleaseIPRequest_GetNamespace :: "ReleaseIPRequest \<Rightarrow> string" where
  "ReleaseIPRequest_GetNamespace x = (case ReleaseIPRequest_Namespace x of Some s \<Rightarrow> s | None \<Rightarrow> [])"

record DumpRequest =
  DumpRequest_Namespace :: "string option"

definition DumpRequest_GetNamespace :: "DumpRequest \<Rightarrow> string" where
  "DumpRequest_GetNamespace x = (case DumpRequest_Namespace x of Some s \<Rightarrow> s | None \<Rightarrow> [])"

record LoadRequest =
  LoadRequest_Dump :: json
  LoadRequest_Namespace :: "string option"

definition LoadRequest_GetNamespace :: "LoadRequest \<Rightarrow> string" where
  "LoadRequest_GetNamespace x = (case LoadRequest_Namespace x of Some s \<Rightarrow> s | None \<Rightarrow> [])"

record CreateNamespaceRequest =
  CreateNamespaceRequest_Namespace :: string

record DeleteNamespaceRequest =
  DeleteNamespaceRequest_Namespace :: string

record VersionResponse =
  VersionResponse_Version :: string
  VersionResponse_Revision :: string
  VersionResponse_GitSha1 :: string
  VersionResponse_BuildDate :: string


section \<open>The interface of the ipamer\<close>

record 's ipamer =
  api_NewPrefix :: "ctx \<Rightarrow> string \<Rightarrow> ('s, Prefix) comp"
  api_DeletePrefix :: "ctx \<Rightarrow> string \<Rightarrow> ('s, Prefix) comp"
  api_AcquireChildPrefix :: "ctx \<Rightarrow> string \<Rightarrow> 8 word \<Rightarrow> ('s, Prefix) comp"
  api_AcquireSpecificChildPrefix :: "ctx \<Rightarrow> string \<Rightarrow> string \<Rightarrow> ('s, Prefix) comp"
  api_ReleaseChildPrefix :: "ctx \<Rightarrow> Prefix \<Rightarrow> ('s, unit) comp"
  api_PrefixFrom :: "ctx \<Rightarrow> string \<Rightarrow> ('s, Prefix) comp"
  api_AcquireSpecificIP :: "ctx \<Rightarrow> string \<Rightarrow> string \<Rightarrow> ('s, IP) comp"
  api_AcquireIP :: "ctx \<Rightarrow> string \<Rightarrow> ('s, IP) comp"
  api_ReleaseIP :: "ctx \<Rightarrow> IP \<Rightarrow> ('s, Prefix) comp"
  api_ReleaseIPFromPrefix :: "ctx \<Rightarrow> string \<Rightarrow> string \<Rightarrow> ('s, unit) comp"
  api_Dump :: "ctx \<Rightarrow> ('s, json) comp"
  api_Load :: "ctx \<Rightarrow> json \<Rightarrow> ('s, unit) comp"
  api_ReadAllPrefixCidrs :: "ctx \<Rightarrow> ('s, string list) comp"
  api_CreateNamespace :: "string \<Rightarrow> ('s, unit) comp"
  api_ListNamespaces :: "('s, string list) comp"
  api_DeleteNamespace :: "string \<Rightarrow> ('s, unit) comp"

text \<open>\<open>NewWithStorage\<close>: the operations of \<open>Ipamer\<close> on a storage.\<close>

definition NewWithStorage ::
  "('b, 't) netipx \<Rightarrow> ('s, Prefix) retry_do \<Rightarrow> ('s, unit) retry_do \<Rightarrow> ('s, IP) retry_do \<Rightarrow> 's storage \<Rightarrow> 's ipamer" where
  "NewWithStorage nx rp ru ri st = \<lparr>
     api_NewPrefix = ipamer_NewPrefix nx st,
     api_DeletePrefix = ipamer_DeletePrefix st,
     api_AcquireChildPrefix = AcquireChildPrefix nx rp st,
     api_AcquireSpecificChildPrefix = AcquireSpecificChildPrefix nx rp st,
     api_ReleaseChildPrefix = ReleaseChildPrefix ru st,
     api_PrefixFrom = PrefixFrom st,
     api_AcquireSpecificIP = AcquireSpecificIP nx ri st,
     api_AcquireIP = AcquireIP nx ri st,
     api_ReleaseIP = ReleaseIP ru st,
     api_ReleaseIPFromPrefix = ReleaseIPFromPrefix ru st,
     api_Dump = Dump st,
     api_Load = Load st,
     api_ReadAllPrefixCidrs = ipamer_ReadAllPrefixCidrs st,
     api_CreateNamespace = ipamer_CreateNamespace st,
     api_ListNamespaces = ipamer_ListNamespaces st,
     api_DeleteNamespace = ipamer_DeleteNamespace st\<rparr>"

end
