(* ===== verification/Service.thy ===== *)
theory Service
  imports Api Ipamer_Limits
begin

text \<open>
  The handlers of the service, \<^verbatim>\<open>src/pkg/service/ipam-service.go\<close>, over the interface of the
  ipamer. A handler returns a response or an error: \<open>ConnectError\<close> carries the code it answers with,
  \<open>PlainError\<close> is an error returned as it is. The responses that hold one message are that message.
\<close>

section \<open>Handlers\<close>

datatype connect_code = CodeNotFound | CodeInvalidArgument | CodeInternal | CodeAlreadyExists | CodeUnimplemented

datatype service_error = ConnectError connect_code go_error | PlainError go_error

type_synonym ('s, 'r) handler = "'s \<Rightarrow> (service_error + 'r) \<times> 's"

definition request_ctx :: "ctx \<Rightarrow> string \<Rightarrow> ctx" where
  "request_ctx ctx namespace = (if namespace \<noteq> [] then NewContextWithNamespace ctx namespace else ctx)"

text \<open>\<open>v1.Prefix\<close> of a prefix.\<close>

definition prefix_msg :: "Prefix \<Rightarrow> Prefix_msg" where
  "prefix_msg p = \<lparr>Prefix_msg_Cidr = Cidr p, Prefix_msg_ParentCidr = ParentCidr p\<rparr>"

definition not_found_or_invalid :: "go_error \<Rightarrow> service_error" where
  "not_found_or_invalid err =
     (if errors_is err ErrNotFound then ConnectError CodeNotFound err else ConnectError CodeInvalidArgument err)"

definition svc_Version :: "VersionResponse \<Rightarrow> ('s, VersionResponse) handler" where
  "svc_Version v s = (Inr v, s)"

definition svc_CreatePrefix :: "'s ipamer \<Rightarrow> ctx \<Rightarrow> CreatePrefixRequest \<Rightarrow> ('s, Prefix_msg) handler" where
  "svc_CreatePrefix i ctx req s =
     (let ctx = request_ctx ctx (CreatePrefixRequest_GetNamespace req) in
      case api_NewPrefix i ctx (CreatePrefixRequest_Cidr req) s of
        (Inl err, s) \<Rightarrow> (Inl (not_found_or_invalid err), s)
      | (Inr resp, s) \<Rightarrow> (Inr (prefix_msg resp), s))"

definition svc_DeletePrefix :: "'s ipamer \<Rightarrow> ctx \<Rightarrow> DeletePrefixRequest \<Rightarrow> ('s, Prefix_msg) handler" where
  "svc_DeletePrefix i ctx req s =
     (let ctx = request_ctx ctx (DeletePrefixRequest_GetNamespace req) in
      case api_DeletePrefix i ctx (DeletePrefixRequest_Cidr req) s of
        (Inl err, s) \<Rightarrow> (Inl (not_found_or_invalid err), s)
      | (Inr resp, s) \<Rightarrow> (Inr (prefix_msg resp), s))"

definition svc_GetPrefix :: "'s ipamer \<Rightarrow> ctx \<Rightarrow> GetPrefixRequest \<Rightarrow> ('s, Prefix_msg) handler" where
  "svc_GetPrefix i ctx req s =
     (let ctx = request_ctx ctx (GetPrefixRequest_GetNamespace req) in
      case api_PrefixFrom i ctx (GetPrefixRequest_Cidr req) s of
        (Inl err, s) \<Rightarrow> (Inl (not_found_or_invalid err), s)
      | (Inr resp, s) \<Rightarrow> (Inr (prefix_msg resp), s))"

text \<open>The loop of \<open>ListPrefixes\<close> over the cidrs.\<close>

primrec list_prefixes :: "'s ipamer \<Rightarrow> ctx \<Rightarrow> string list \<Rightarrow> Prefix_msg list \<Rightarrow> ('s, Prefix_msg list) handler" where
  "list_prefixes i ctx [] result s = (Inr result, s)"
| "list_prefixes i ctx (cidr # cidrs) result s =
     (case api_PrefixFrom i ctx cidr s of
        (Inl err, s) \<Rightarrow> (Inl (ConnectError CodeInternal err), s)
      | (Inr p, s) \<Rightarrow> list_prefixes i ctx cidrs
          (result @ [\<lparr>Prefix_msg_Cidr = cidr, Prefix_msg_ParentCidr = ParentCidr p\<rparr>]) s)"

definition svc_ListPrefixes :: "'s ipamer \<Rightarrow> ctx \<Rightarrow> ListPrefixesRequest \<Rightarrow> ('s, Prefix_msg list) handler" where
  "svc_ListPrefixes i ctx req s =
     (let ctx = request_ctx ctx (ListPrefixesRequest_GetNamespace req) in
      case api_ReadAllPrefixCidrs i ctx s of
        (Inl err, s) \<Rightarrow> (Inl (ConnectError CodeInvalidArgument err), s)
      | (Inr resp, s) \<Rightarrow> list_prefixes i ctx resp [] s)"

definition svc_AcquireChildPrefix :: "'s ipamer \<Rightarrow> ctx \<Rightarrow> AcquireChildPrefixRequest \<Rightarrow> ('s, Prefix_msg) handler" where
  "svc_AcquireChildPrefix i ctx req s =
     (let ctx = request_ctx ctx (AcquireChildPrefixRequest_GetNamespace req);
          parentCidr = AcquireChildPrefixRequest_Cidr req;
          childCidr = AcquireChildPrefixRequest_GetChildCidr req;
          len = AcquireChildPrefixRequest_Length req in
      if 128 < len then
        (Inl (ConnectError CodeInvalidArgument (Errorf ''length must not be greater than 128'' [])), s)
      else
      (case (if childCidr \<noteq> [] then api_AcquireSpecificChildPrefix i ctx parentCidr childCidr s
             else api_AcquireChildPrefix i ctx parentCidr (ucast len) s) of
        (Inl err, s) \<Rightarrow> (Inl (ConnectError CodeInvalidArgument err), s)
      | (Inr resp, s) \<Rightarrow> (Inr (prefix_msg resp), s)))"

definition svc_ReleaseChildPrefix :: "'s ipamer \<Rightarrow> ctx \<Rightarrow> ReleaseChildPrefixRequest \<Rightarrow> ('s, Prefix_msg) handler" where
  "svc_ReleaseChildPrefix i ctx req s =
     (let ctx = request_ctx ctx (ReleaseChildPrefixRequest_GetNamespace req) in
      case api_PrefixFrom i ctx (ReleaseChildPrefixRequest_Cidr req) s of
        (Inl err, s) \<Rightarrow> (Inl (not_found_or_invalid err), s)
      | (Inr prefix, s) \<Rightarrow>
      (case api_ReleaseChildPrefix i ctx prefix s of
        (Inl err, s) \<Rightarrow> (Inl (ConnectError CodeInvalidArgument err), s)
      | (Inr _, s) \<Rightarrow> (Inr (prefix_msg prefix), s)))"

definition svc_AcquireIP :: "'s ipamer \<Rightarrow> ctx \<Rightarrow> AcquireIPRequest \<Rightarrow> ('s, IP_msg) handler" where
  "svc_AcquireIP i ctx req s =
     (let ctx = request_ctx ctx (AcquireIPRequest_GetNamespace req) in
      case (if AcquireIPRequest_GetIp req \<noteq> [] then
              (case api_AcquireSpecificIP i ctx (AcquireIPRequest_PrefixCidr req) (AcquireIPRequest_GetIp req) s of
                 (Inl err, s) \<Rightarrow>
                   (Inl (if errors_is err ErrAlreadyAllocated then ConnectError CodeAlreadyExists err
                         else ConnectError CodeInvalidArgument err), s)
               | (Inr resp, s) \<Rightarrow> (Inr resp, s))
            else
              (case api_AcquireIP i ctx (AcquireIPRequest_PrefixCidr req) s of
                 (Inl err, s) \<Rightarrow>
                   (Inl (if errors_is err ErrNoIPAvailable then ConnectError CodeNotFound err
                         else ConnectError CodeInvalidArgument err), s)
               | (Inr resp, s) \<Rightarrow> (Inr resp, s))) of
        (Inl err, s) \<Rightarrow> (Inl err, s)
      | (Inr resp, s) \<Rightarrow> (Inr \<lparr>IP_msg_Ip = addr_String (IP resp), IP_msg_ParentPrefix = ParentPrefix resp\<rparr>, s))"

definition svc_ReleaseIP :: "'s ipamer \<Rightarrow> ctx \<Rightarrow> ReleaseIPRequest \<Rightarrow> ('s, IP_msg) handler" where
  "svc_ReleaseIP i ctx req s =
     (let ctx = request_ctx ctx (ReleaseIPRequest_GetNamespace req) in
      case ParseAddr (ReleaseIPRequest_Ip req) of
        Inl err \<Rightarrow> (Inl (ConnectError CodeInvalidArgument err), s)
      | Inr netip \<Rightarrow>
      (case api_ReleaseIP i ctx \<lparr>IP = netip, ParentPrefix = ReleaseIPRequest_PrefixCidr req\<rparr> s of
        (Inl err, s) \<Rightarrow> (Inl (not_found_or_invalid err), s)
      | (Inr resp, s) \<Rightarrow>
          (Inr \<lparr>IP_msg_Ip = ReleaseIPRequest_Ip req, IP_msg_ParentPrefix = ParentCidr resp\<rparr>, s)))"

definition svc_Dump :: "'s ipamer \<Rightarrow> ctx \<Rightarrow> DumpRequest \<Rightarrow> ('s, json) handler" where
  "svc_Dump i ctx req s =
     (let ctx = request_ctx ctx (DumpRequest_GetNamespace req) in
      case api_Dump i ctx s of
        (Inl err, s) \<Rightarrow> (Inl (ConnectError CodeInvalidArgument err), s)
      | (Inr dump, s) \<Rightarrow> (Inr dump, s))"

definition svc_Load :: "'s ipamer \<Rightarrow> ctx \<Rightarrow> LoadRequest \<Rightarrow> ('s, unit) handler" where
  "svc_Load i ctx req s =
     (let ctx = request_ctx ctx (LoadRequest_GetNamespace req) in
      case api_Load i ctx (LoadRequest_Dump req) s of
        (Inl err, s) \<Rightarrow> (Inl (ConnectError CodeInvalidArgument err), s)
      | (Inr _, s) \<Rightarrow> (Inr (), s))"

definition svc_PrefixUsage ::
  "('b, 't) netipx \<Rightarrow> 's ipamer \<Rightarrow> ctx \<Rightarrow> PrefixUsageRequest \<Rightarrow> ('s, PrefixUsageResponse) handler" where
  "svc_PrefixUsage nx i ctx req s =
     (let ctx = request_ctx ctx (PrefixUsageRequest_GetNamespace req) in
      case api_PrefixFrom i ctx (PrefixUsageRequest_Cidr req) s of
        (Inl err, s) \<Rightarrow> (Inl (not_found_or_invalid err), s)
      | (Inr p, s) \<Rightarrow>
          let u = Prefix_Usage nx p in
          (Inr \<lparr>PrefixUsageResponse_AvailableIps = AvailableIPs u,
                PrefixUsageResponse_AcquiredIps = AcquiredIPs u,
                PrefixUsageResponse_AvailableSmallestPrefixes = AvailableSmallestPrefixes u,
                PrefixUsageResponse_AvailablePrefixes = AvailablePrefixes u,
                PrefixUsageResponse_AcquiredPrefixes = AcquiredPrefixes u\<rparr>, s))"

definition svc_CreateNamespace :: "'s ipamer \<Rightarrow> CreateNamespaceRequest \<Rightarrow> ('s, unit) handler" where
  "svc_CreateNamespace i req s = (case api_CreateNamespace i (CreateNamespaceRequest_Namespace req) s of
      (Inl err, s) \<Rightarrow> (Inl (PlainError err), s)
    | (Inr _, s) \<Rightarrow> (Inr (), s))"

definition svc_DeleteNamespace :: "'s ipamer \<Rightarrow> DeleteNamespaceRequest \<Rightarrow> ('s, unit) handler" where
  "svc_DeleteNamespace i req s = (case api_DeleteNamespace i (DeleteNamespaceRequest_Namespace req) s of
      (Inl err, s) \<Rightarrow> (Inl (PlainError err), s)
    | (Inr _, s) \<Rightarrow> (Inr (), s))"

definition svc_ListNamespaces :: "'s ipamer \<Rightarrow> ('s, string list) handler" where
  "svc_ListNamespaces i s = (case api_ListNamespaces i s of
      (Inl err, s) \<Rightarrow> (Inl (PlainError err), s)
    | (Inr res, s) \<Rightarrow> (Inr res, s))"

section \<open>Requests through to the storage\<close>

lemma api_simps:
  "api_NewPrefix (NewWithStorage nx rp ru ri st) = ipamer_NewPrefix nx st"
  "api_AcquireChildPrefix (NewWithStorage nx rp ru ri st) = AcquireChildPrefix nx rp st"
  "api_PrefixFrom (NewWithStorage nx rp ru ri st) = PrefixFrom st"
  "api_AcquireSpecificIP (NewWithStorage nx rp ru ri st) = AcquireSpecificIP nx ri st"
  "api_AcquireIP (NewWithStorage nx rp ru ri st) = AcquireIP nx ri st"
  "api_ReleaseIP (NewWithStorage nx rp ru ri st) = ReleaseIP ru st"
  "api_ReadAllPrefixCidrs (NewWithStorage nx rp ru ri st) = ipamer_ReadAllPrefixCidrs st"
  by (simp_all add: NewWithStorage_def)

text \<open>
  C32: On a stored prefix the handler \<open>AcquireIP\<close> does one of four things, and changes nothing in the last three.
  Without an address in the request it answers with the lowest free address and records it, and with one it
  answers with that address, when it is free, and records it. It answers with \<open>CodeNotFound\<close> when no address was
  asked for and the prefix is exhausted, with \<open>CodeAlreadyExists\<close> when the address is in the prefix and
  allocated, and with \<open>CodeInvalidArgument\<close> when the text is no address, the address is not in the prefix, or
  the prefix has children.
\<close>

theorem svc_AcquireIP_spec:
  assumes laws: "storage_laws st invar view ok_ns" "netipx_laws nx B BS IS" "retry_laws ri"
    and c: "c = request_ctx ctx (AcquireIPRequest_GetNamespace req)"
    and s: "invar s" "stored (view s) c (AcquireIPRequest_PrefixCidr req) = Some a"
    and q: "ParsePrefix (AcquireIPRequest_PrefixCidr req) = Inr q"
    and asked: "asked = ParseAddr (AcquireIPRequest_GetIp req)"
    and free: "F = (if aIsParent a then {} else free_ips q a)"
    and code: "code = (if aIsParent a then CodeInvalidArgument
      else if AcquireIPRequest_GetIp req = [] then CodeNotFound
      else if (\<exists>ip. asked = Inr ip \<and> Contains q ip) then CodeAlreadyExists
      else CodeInvalidArgument)"
  shows "if (if AcquireIPRequest_GetIp req = [] then F \<noteq> {} else \<exists>ip \<in> F. asked = Inr ip)
    then \<exists>ip s'. svc_AcquireIP (NewWithStorage nx rp ru ri st) ctx req s =
        (Inr \<lparr>IP_msg_Ip = addr_String ip, IP_msg_ParentPrefix = key q\<rparr>, s') \<and> ip \<in> F \<and>
      (if AcquireIPRequest_GetIp req = [] then \<forall>b \<in> F. addr_num ip \<le> addr_num b else asked = Inr ip) \<and>
      invar s' \<and> view s' = put (view s) c (take_ip ip a)
    else \<exists>e s'. svc_AcquireIP (NewWithStorage nx rp ru ri st) ctx req s = (Inl (ConnectError code e), s') \<and>
      invar s' \<and> view s' = view s"
proof (cases "AcquireIPRequest_GetIp req = []")
  case none: True
  show ?thesis
  proof (cases "aIsParent a")
    case True
    with AcquireIP_parent [OF laws(1,3) s True, of nx "[]"] none show ?thesis
      by (auto simp: svc_AcquireIP_def Let_def api_simps AcquireIP_def free code c)
  next
    case False
    with AcquireIP_law [OF laws s False q] none show ?thesis
      by (auto simp: svc_AcquireIP_def Let_def api_simps free code c split: if_split_asm)
  qed
next
  case some: False
  show ?thesis
  proof (cases "ParseAddr (AcquireIPRequest_GetIp req)")
    case (Inl err)
    with AcquireSpecificIP_bad_text [OF laws(1,3) s Inl some, of nx] some show ?thesis
      by (auto simp: svc_AcquireIP_def Let_def api_simps code c asked)
  next
    case (Inr ip)
    with AcquireSpecificIP_full [OF laws(1,3) s q Inr some, of nx] some show ?thesis
      by (auto simp: svc_AcquireIP_def Let_def api_simps free code c asked split: if_split_asm)
  qed
qed

lemma svc_AcquireChildPrefix_law:
  assumes laws: "storage_laws st invar view ok_ns" "netipx_laws nx B BS IS" "retry_laws rp"
    and c: "c = request_ctx ctx (AcquireChildPrefixRequest_GetNamespace req)"
    and s: "invar s" "view s (namespaceFromContext c) = Some m" "tree_ok m"
    and q: "ParsePrefix (AcquireChildPrefixRequest_Cidr req) = Inr q" "m (key q) = Some a"
    and req: "AcquireChildPrefixRequest_GetChildCidr req = []"
    and ok: "svc_AcquireChildPrefix (NewWithStorage nx rp ru ri st) ctx req s = (Inr msg, s')"
  shows "AcquireChildPrefixRequest_Length req \<le> 128 \<and>
    (\<exists>r. Prefix_msg_Cidr msg = prefix_String r \<and> Bits r = uint (AcquireChildPrefixRequest_Length req) \<and>
       block r \<subseteq> free_space q (aChildren a))"
proof -
  let ?n = "AcquireChildPrefixRequest_Length req"
  have le: "?n \<le> 128"
    using ok by (simp add: svc_AcquireChildPrefix_def Let_def not_less split: if_split_asm)
  then have n: "uint (ucast ?n :: 8 word) = uint ?n"
    by (simp add: unsigned_ucast_eq take_bit_int_eq_self word_le_def)
  obtain p where p: "AcquireChildPrefix nx rp st c (AcquireChildPrefixRequest_Cidr req) (ucast ?n) s = (Inr p, s')"
      "msg = prefix_msg p"
    using ok le [folded not_less] req c
    by (auto simp: svc_AcquireChildPrefix_def Let_def api_simps split: prod.split_asm sum.split_asm)
  obtain r where r: "abs_prefix p = fresh r (key q)" "Masked r = r" "Bits r = uint ?n"
      "block r \<subseteq> free_space q (aChildren a)"
    using AcquireChildPrefix_law [OF laws s q, of "ucast ?n"] p(1) n by (auto split: if_split_asm)
  have "Cidr p = prefix_String r"
    using r(1,2) by (metis abs_prefix_simps(1) fresh_simps(1) key_def)
  with le r p(2) show ?thesis
    by (auto simp: prefix_msg_def)
qed

text \<open>
  The handler \<open>AcquireChildPrefix\<close> refuses lengths above 128, and for the others the conversion to
  8 bits loses nothing: a child it creates by length has exactly the length of the request.
\<close>

theorem svc_AcquireChildPrefix_length:
  assumes laws: "storage_laws st invar view ok_ns" "netipx_laws nx B BS IS" "retry_laws rp"
    and c: "c = request_ctx ctx (AcquireChildPrefixRequest_GetNamespace req)"
    and s: "invar s" "view s (namespaceFromContext c) = Some m" "tree_ok m"
    and q: "ParsePrefix (AcquireChildPrefixRequest_Cidr req) = Inr q" "m (key q) = Some a"
    and req: "AcquireChildPrefixRequest_GetChildCidr req = []"
    and ok: "svc_AcquireChildPrefix (NewWithStorage nx rp ru ri st) ctx req s = (Inr msg, s')"
  shows "AcquireChildPrefixRequest_Length req \<le> 128 \<and>
    (\<exists>r. Prefix_msg_Cidr msg = prefix_String r \<and> Bits r = uint (AcquireChildPrefixRequest_Length req) \<and>
       block r \<subseteq> free_space q (aChildren a))"
  by (rule svc_AcquireChildPrefix_law [OF assms])

theorem svc_AcquireIP_spec_witness:
  "\<exists>ip s'. svc_AcquireIP (NewWithStorage ref_netipx retry_ref retry_ref retry_ref memory_storage) None
      \<lparr>AcquireIPRequest_PrefixCidr = ''10.0.0.0/30'', AcquireIPRequest_Ip = None, AcquireIPRequest_Namespace = None\<rparr> sample_memory =
    (Inr \<lparr>IP_msg_Ip = addr_String ip, IP_msg_ParentPrefix = ''10.0.0.0/30''\<rparr>, s') \<and>
    ip \<in> free_ips sample_net (abs_prefix sample_prefix) \<and> memory_view s' = put (memory_view sample_memory) None (take_ip ip (abs_prefix sample_prefix))"
proof -
  let ?req = "\<lparr>AcquireIPRequest_PrefixCidr = ''10.0.0.0/30'', AcquireIPRequest_Ip = None, AcquireIPRequest_Namespace = None\<rparr>"
  have req: "AcquireIPRequest_GetIp ?req = []" "None = request_ctx None (AcquireIPRequest_GetNamespace ?req)"
    "AcquireIPRequest_PrefixCidr ?req = ''10.0.0.0/30''"
    by (simp_all add: AcquireIPRequest_GetIp_def AcquireIPRequest_GetNamespace_def request_ctx_def)
  have ne: "free_ips sample_net (abs_prefix sample_prefix) \<noteq> {}"
    using sample_free by blast
  from svc_AcquireIP_spec [where rp = retry_ref and ru = retry_ref, OF sample_laws req(2) sample_inv, unfolded req(1,3),
      OF sample_stored sample_parse refl refl refl] ne
    sample_not_parent
  show ?thesis
    unfolding sample_key by (simp split: if_split_asm) blast
qed

text \<open>The loop of \<open>ListPrefixes\<close> over cidrs of the storage.\<close>

context storage_laws
begin

lemma list_prefixes_found:
  assumes s: "invar s" "view s (namespaceFromContext ctx) = Some m"
    and cs: "\<forall>c \<in> set cs. c \<in> dom m \<and> (\<exists>q. IsValid q \<and> c = key q)"
  shows "\<exists>s'. list_prefixes (NewWithStorage nx rp ru ri st) ctx cs acc s =
      (Inr (acc @ map (\<lambda>c. \<lparr>Prefix_msg_Cidr = c, Prefix_msg_ParentCidr = aParentCidr (the (m c))\<rparr>) cs), s') \<and>
    invar s' \<and> view s' = view s"
  using assms
proof (induction cs arbitrary: acc s)
  case (Cons c cs)
  obtain q a where q: "IsValid q" "c = key q" "m c = Some a"
    using Cons.prems(3) by auto
  have "m (key (Masked q)) = Some a"
    using q by (simp add: key_Masked)
  with PrefixFrom_found [OF Cons.prems(1,2), of c "Masked q" a]
  obtain p s1 where p: "PrefixFrom st ctx c s = (Inr p, s1)" "abs_prefix p = a" "invar s1" "view s1 = view s"
    using ParsePrefix_key [OF q(1)] q(2) by metis
  have "ParentCidr p = aParentCidr a"
    using p(2) by auto
  then show ?case
    using Cons.IH [of s1 "acc @ [\<lparr>Prefix_msg_Cidr = c, Prefix_msg_ParentCidr = ParentCidr p\<rparr>]"] Cons.prems p q(3)
    by (simp add: api_simps)
qed simp

lemma list_prefixes_missing:
  assumes s: "invar s" "view s (namespaceFromContext ctx) = Some m"
    and cs: "\<forall>c \<in> set cs. \<exists>q. IsValid q \<and> c = key q" "\<not> set cs \<subseteq> dom m"
  shows "\<exists>e s'. list_prefixes (NewWithStorage nx rp ru ri st) ctx cs acc s = (Inl (ConnectError CodeInternal e), s') \<and>
    invar s' \<and> view s' = view s"
  using assms
proof (induction cs arbitrary: acc s)
  case (Cons c cs)
  obtain q where q: "IsValid q" "c = key q"
    using Cons.prems(3) by auto
  have parse: "ParsePrefix c = Inr (Masked q)" "key (Masked q) = c"
    using q by (simp_all add: ParsePrefix_key key_Masked)
  show ?case
  proof (cases "m c")
    case None
    with PrefixFrom_missing [OF Cons.prems(1,2) parse(1)] parse(2)
    obtain e s' where "PrefixFrom st ctx c s = (Inl e, s')" "invar s'" "view s' = view s"
      by metis
    then show ?thesis
      by (simp add: api_simps)
  next
    case (Some a)
    with PrefixFrom_found [OF Cons.prems(1,2) parse(1)] parse(2)
    obtain p s1 where p: "PrefixFrom st ctx c s = (Inr p, s1)" "invar s1" "view s1 = view s"
      by metis
    have "\<not> set cs \<subseteq> dom m"
      using Cons.prems(4) Some by auto
    then show ?thesis
      using Cons.IH [of s1 "acc @ [\<lparr>Prefix_msg_Cidr = c, Prefix_msg_ParentCidr = ParentCidr p\<rparr>]"] Cons.prems(2,3) p
      by (simp add: api_simps)
  qed
qed simp

end

text \<open>
  C33: the handler \<open>ListPrefixes\<close> lists the cidrs of the default namespace with their parents in the
  namespace of the request: for a request for another namespace that lacks one of those cidrs it answers
  \<open>CodeInternal\<close>, and prefixes only the requested namespace has are never listed.
\<close>

theorem svc_ListPrefixes_spec:
  assumes laws: "storage_laws st invar view ok_ns"
    and s: "invar s" "view s defaultNamespace = Some root" "keys_ok root"
      "view s (namespaceFromContext (request_ctx ctx (ListPrefixesRequest_GetNamespace req))) = Some m"
  shows "if dom root \<subseteq> dom m
    then \<exists>cs s'. svc_ListPrefixes (NewWithStorage nx rp ru ri st) ctx req s =
        (Inr (map (\<lambda>c. \<lparr>Prefix_msg_Cidr = c, Prefix_msg_ParentCidr = aParentCidr (the (m c))\<rparr>) cs), s') \<and>
        distinct cs \<and> set cs = dom root \<and> view s' = view s
    else \<exists>e s'. svc_ListPrefixes (NewWithStorage nx rp ru ri st) ctx req s = (Inl (ConnectError CodeInternal e), s') \<and>
        view s' = view s"
proof -
  obtain cs s1 where cs: "ReadAllPrefixCidrs st defaultNamespace s = (Inr cs, s1)" "distinct cs" "set cs = dom root"
      "invar s1" "view s1 = view s"
    using storage_laws.read_cidrs [OF laws s(1,2)] by blast
  have m: "view s1 (namespaceFromContext (request_ctx ctx (ListPrefixesRequest_GetNamespace req))) = Some m"
    using s(4) cs(5) by simp
  have keys: "\<forall>c \<in> set cs. \<exists>q. IsValid q \<and> c = key q"
    using s(3) cs(3) by (simp add: keys_ok_def)
  note found = storage_laws.list_prefixes_found [OF laws cs(4) m, of cs nx rp ru ri "[]"]
    and missing = storage_laws.list_prefixes_missing [OF laws cs(4) m keys, of nx rp ru ri "[]"]
  show ?thesis
  proof (cases "dom root \<subseteq> dom m")
    case True
    then have "\<forall>c \<in> set cs. c \<in> dom m \<and> (\<exists>q. IsValid q \<and> c = key q)"
      using keys cs(3) by blast
    from found [OF this] True show ?thesis
      using cs by (auto simp: svc_ListPrefixes_def Let_def api_simps ipamer_ReadAllPrefixCidrs_def
          ReadAllNamespacedPrefixCidrs_def)
  next
    case False
    with missing cs show ?thesis
      by (auto simp: svc_ListPrefixes_def Let_def api_simps ipamer_ReadAllPrefixCidrs_def
          ReadAllNamespacedPrefixCidrs_def)
  qed
qed

definition two_namespaces :: memory where
  "two_namespaces = GoMap [(''root'', GoMap [(''10.0.0.0/30'', sample_prefix)]), (''tenant'', inner24)]"

theorem svc_ListPrefixes_spec_witness:
  "\<exists>e s'. svc_ListPrefixes (NewWithStorage ref_netipx retry_ref retry_ref retry_ref memory_storage) None
      \<lparr>ListPrefixesRequest_Namespace = Some ''tenant''\<rparr> two_namespaces = (Inl (ConnectError CodeInternal e), s') \<and>
    memory_view s' = memory_view two_namespaces"
proof -
  let ?req = "\<lparr>ListPrefixesRequest_Namespace = Some ''tenant''\<rparr>"
  let ?root = "inner_view (GoMap [(''10.0.0.0/30'', sample_prefix)])"
  have inv: "memory_inv two_namespaces"
    by code_simp
  have ns: "namespaceFromContext (request_ctx None (ListPrefixesRequest_GetNamespace ?req)) = ''tenant''"
    by (simp add: namespaceFromContext_def request_ctx_def ListPrefixesRequest_GetNamespace_def NewContextWithNamespace_def)
  have v: "memory_view two_namespaces defaultNamespace = Some ?root" "memory_view two_namespaces ''tenant'' = Some (inner_view inner24)"
    by (simp_all add: memory_view_def two_namespaces_def map_lookup_def defaultNamespace_def)
  have root: "?root = [key sample_net \<mapsto> abs_prefix sample_prefix]"
    by (simp add: inner_view_def map_lookup_def sample_key fun_eq_iff)
  then have dom: "dom ?root = {key sample_net}"
    by simp
  have k: "keys_ok ?root"
    using ParsePrefix_valid [OF sample_parse] dom by (auto simp: keys_ok_def)
  have no: "\<not> dom ?root \<subseteq> dom (inner_view inner24)"
    unfolding dom by (simp add: sample_lookups sample_key sample_nets)
  from svc_ListPrefixes_spec [OF sample_laws(1) inv v(1) k, of None ?req, unfolded ns, OF v(2), unfolded if_not_P [OF no]]
  show ?thesis .
qed

theorem svc_AcquireChildPrefix_length_witness:
  "\<exists>msg s'. svc_AcquireChildPrefix (NewWithStorage ref_netipx retry_ref retry_ref retry_ref memory_storage) None
      \<lparr>AcquireChildPrefixRequest_Cidr = ''10.0.0.0/24'', AcquireChildPrefixRequest_Length = 26,
        AcquireChildPrefixRequest_ChildCidr = None, AcquireChildPrefixRequest_Namespace = None\<rparr> (memory_of inner24) = (Inr msg, s') \<and>
    (\<exists>r. Prefix_msg_Cidr msg = prefix_String r \<and> Bits r = 26)"
proof -
  let ?req = "\<lparr>AcquireChildPrefixRequest_Cidr = ''10.0.0.0/24'', AcquireChildPrefixRequest_Length = 26,
        AcquireChildPrefixRequest_ChildCidr = None, AcquireChildPrefixRequest_Namespace = None\<rparr>"
  have req: "AcquireChildPrefixRequest_GetChildCidr ?req = []"
    "request_ctx None (AcquireChildPrefixRequest_GetNamespace ?req) = None"
    by (simp_all add: AcquireChildPrefixRequest_GetChildCidr_def AcquireChildPrefixRequest_GetNamespace_def request_ctx_def)
  have a: "inner_view inner24 (key net24) = Some (abs_prefix prefix24)"
    by (simp add: sample_lookups)
  have free: "Bits net24 < uint (26 :: 8 word) \<and> \<not> has_ips net24 (abs_prefix prefix24) \<and>
      (\<exists>r. IsValid r \<and> Bits r = uint (26 :: 8 word) \<and> block r \<subseteq> free_space net24 (aChildren (abs_prefix prefix24)))"
    using sample_free_block sample_no_ips(1) sample_valid(3) by (intro conjI exI [of _ net26]) simp_all
  obtain p s' where "AcquireChildPrefix ref_netipx retry_ref memory_storage None ''10.0.0.0/24'' 26 (memory_of inner24) = (Inr p, s')"
    using AcquireChildPrefix_law [OF sample_laws sample_memories(1) view_memory_of sample_tree sample_nets(1) a, of 26,
        unfolded if_P [OF free]] by blast
  then have ok: "svc_AcquireChildPrefix (NewWithStorage ref_netipx retry_ref retry_ref retry_ref memory_storage) None
      ?req (memory_of inner24) = (Inr (prefix_msg p), s')"
    using req by (simp add: svc_AcquireChildPrefix_def Let_def api_simps)
  have parse: "ParsePrefix (AcquireChildPrefixRequest_Cidr ?req) = Inr net24"
    by (simp add: sample_nets)
  from svc_AcquireChildPrefix_length [OF sample_laws req(2) [symmetric] sample_memories(1) view_memory_of sample_tree parse a req(1) ok]
  show ?thesis
    using ok by auto
qed

text \<open>
  The handler \<open>ReleaseIP\<close> answers with the parent of the prefix the address was released from, not
  with that prefix: for a prefix without a parent the field is empty.
\<close>

theorem svc_ReleaseIP_spec:
  assumes laws: "storage_laws st invar view ok_ns" "retry_laws ru"
    and c: "c = request_ctx ctx (ReleaseIPRequest_GetNamespace req)"
    and s: "invar s" "stored (view s) c (ReleaseIPRequest_PrefixCidr req) = Some a"
    and ip: "ParseAddr (ReleaseIPRequest_Ip req) = Inr ip"
  shows "if aIPs a (addr_String ip) \<noteq> None
    then \<exists>s'. svc_ReleaseIP (NewWithStorage nx rp ru ri st) ctx req s =
        (Inr \<lparr>IP_msg_Ip = ReleaseIPRequest_Ip req, IP_msg_ParentPrefix = aParentCidr a\<rparr>, s') \<and> invar s' \<and>
        view s' = put (view s) c (drop_ip (addr_String ip) a)
    else \<exists>e s'. svc_ReleaseIP (NewWithStorage nx rp ru ri st) ctx req s = (Inl (ConnectError CodeNotFound e), s') \<and>
        view s' = view s"
proof (cases "aIPs a (addr_String ip) = None")
  case True
  then obtain e s' where e: "ReleaseIPFromPrefix ru st c (ReleaseIPRequest_PrefixCidr req) (addr_String ip) s = (Inl e, s')"
      "errors_is e ErrNotFound" "view s' = view s"
    using ReleaseIPFromPrefix_law [OF laws s, of "addr_String ip"] by auto
  from True show ?thesis
    using e c ip by (simp add: svc_ReleaseIP_def Let_def api_simps ReleaseIP_def not_found_or_invalid_def)
next
  case False
  let ?b = "drop_ip (addr_String ip) a"
  obtain s1 where s1: "ReleaseIPFromPrefix ru st c (ReleaseIPRequest_PrefixCidr req) (addr_String ip) s = (Inr (), s1)"
      "invar s1" "view s1 = put (view s) c ?b"
    using ReleaseIPFromPrefix_law [OF laws s, of "addr_String ip"] False by auto
  obtain q m where q: "ParsePrefix (ReleaseIPRequest_PrefixCidr req) = Inr q" "view s (namespaceFromContext c) = Some m"
    using s(2) by (rule stored_Some)
  have st1: "stored (view s1) c (ReleaseIPRequest_PrefixCidr req) = Some ?b"
    using stored_put [of "view s" c m _ q, OF q(2,1)] s1(3) storage_laws.stored_cidr [OF laws(1) s q(1)] by simp
  obtain p s' where p: "PrefixFrom st c (ReleaseIPRequest_PrefixCidr req) s1 = (Inr p, s')" "abs_prefix p = ?b" "invar s'"
      "view s' = view s1"
    using storage_laws.PrefixFrom_stored [OF laws(1) s1(2) st1] by metis
  have "ParentCidr p = aParentCidr (abs_prefix p)"
    by simp
  then have "ParentCidr p = aParentCidr a"
    unfolding p(2) by simp
  with False s1 p c ip show ?thesis
    by (simp add: svc_ReleaseIP_def Let_def api_simps ReleaseIP_def)
qed

theorem svc_ReleaseIP_spec_witness:
  "\<exists>s'. svc_ReleaseIP (NewWithStorage ref_netipx retry_ref retry_ref retry_ref memory_storage) None
      \<lparr>ReleaseIPRequest_PrefixCidr = ''10.0.0.0/30'', ReleaseIPRequest_Ip = ''10.0.0.3'', ReleaseIPRequest_Namespace = None\<rparr>
      sample_memory = (Inr \<lparr>IP_msg_Ip = ''10.0.0.3'', IP_msg_ParentPrefix = []\<rparr>, s')"
proof -
  let ?req = "\<lparr>ReleaseIPRequest_PrefixCidr = ''10.0.0.0/30'', ReleaseIPRequest_Ip = ''10.0.0.3'', ReleaseIPRequest_Namespace = None\<rparr>"
  have req: "None = request_ctx None (ReleaseIPRequest_GetNamespace ?req)"
    "stored (memory_view sample_memory) None (ReleaseIPRequest_PrefixCidr ?req) = Some (abs_prefix sample_prefix)"
    by (simp_all add: ReleaseIPRequest_GetNamespace_def request_ctx_def sample_stored)
  have ip: "ParseAddr (ReleaseIPRequest_Ip ?req) = Inr (IPv4 0x0A000003)" "addr_String (IPv4 0x0A000003) = ''10.0.0.3''"
    by code_simp+
  have some: "aIPs (abs_prefix sample_prefix) ''10.0.0.3'' \<noteq> None"
    by (simp add: sample_prefix_def map_lookup_def)
  from svc_ReleaseIP_spec [OF sample_laws(1,3) req(1) sample_inv req(2) ip(1), unfolded ip(2) if_P [OF some]]
  show ?thesis
    by (fastforce simp: sample_prefix_def)
qed

end
