(* ===== verification/File_Storage.thy ===== *)
theory File_Storage
  imports Memory
begin

text \<open>
  The storage in a JSON file, \<^verbatim>\<open>src/file.go\<close>: the memory storage is its internal state, which every
  operation first synchronises with the file (\<open>reload\<close>, decided by the modification time of the file)
  and a writing operation then saves (\<open>persist\<close>). The file system is part of the state: the file at
  the path of the storage, the clock, and whether the system lets the process search the directory,
  read the file and write it. Every operation runs under the lock of the storage and is one step.
\<close>

section \<open>The file system\<close>

text \<open>
  The contents of a file: less than two bytes, or a text with the JSON value it denotes, if it is a
  JSON text. Times are nanoseconds since 1970.
\<close>

datatype contents = Short | Text "json option"

record disk =
  disk_entry :: "(int \<times> contents) option"
  disk_clock :: int
  disk_searchable :: bool
  disk_readable :: bool
  disk_writable :: bool

datatype stat_result = ModTime int | NotExist | StatFailed

definition os_Stat :: "disk \<Rightarrow> stat_result" where
  "os_Stat d = (if \<not> disk_searchable d then StatFailed
     else case disk_entry d of None \<Rightarrow> NotExist | Some (t, _) \<Rightarrow> ModTime t)"

definition os_ReadFile :: "disk \<Rightarrow> contents result" where
  "os_ReadFile d = (if disk_searchable d \<and> disk_readable d
     then case disk_entry d of None \<Rightarrow> Inl (Errorf ''open: no such file'' []) | Some (_, c) \<Rightarrow> Inr c
     else Inl (Errorf ''open: permission denied'' []))"

definition os_WriteFile :: "contents \<Rightarrow> disk \<Rightarrow> disk result" where
  "os_WriteFile c d = (if disk_searchable d \<and> disk_writable d
     then Inr (d\<lparr>disk_entry := Some (disk_clock d, c)\<rparr>)
     else Inl (Errorf ''open: permission denied'' []))"

section \<open>The JSON form of the state\<close>

type_synonym fileJSONData = "prefixJSON gomap gomap"

fun marshal_prefix_map :: "prefixJSON gomap \<Rightarrow> json" where
  "marshal_prefix_map NilMap = JNull"
| "marshal_prefix_map (GoMap es) = JObject (map (\<lambda>(k, j). (k, marshal_prefix j)) (sort_key fst es))"

fun marshal_state :: "fileJSONData \<Rightarrow> json" where
  "marshal_state NilMap = JNull"
| "marshal_state (GoMap es) = JObject (map (\<lambda>(k, ps). (k, marshal_prefix_map ps)) (sort_key fst es))"

primrec unmarshal_members :: "(json \<Rightarrow> 'v result) \<Rightarrow> (string \<times> json) list \<Rightarrow> (string \<times> 'v) list \<Rightarrow>
    (string \<times> 'v) list result" where
  "unmarshal_members decode [] es = Inr es"
| "unmarshal_members decode (m # ms) es = (case decode (snd m) of
      Inl err \<Rightarrow> Inl err
    | Inr v \<Rightarrow> unmarshal_members decode ms (AList.update (fst m) v es))"

fun unmarshal_prefix_map :: "json \<Rightarrow> prefixJSON gomap result" where
  "unmarshal_prefix_map JNull = Inr NilMap"
| "unmarshal_prefix_map (JObject ms) = (case unmarshal_members unmarshal_prefix ms [] of
      Inl err \<Rightarrow> Inl err
    | Inr es \<Rightarrow> Inr (GoMap es))"
| "unmarshal_prefix_map _ = Inl type_error"

fun unmarshal_state :: "json \<Rightarrow> fileJSONData \<Rightarrow> fileJSONData result" where
  "unmarshal_state JNull old = Inr NilMap"
| "unmarshal_state (JObject ms) old = (case unmarshal_members unmarshal_prefix_map ms (map_entries old) of
      Inl err \<Rightarrow> Inl err
    | Inr es \<Rightarrow> Inr (GoMap es))"
| "unmarshal_state _ old = Inl type_error"

section \<open>State and synchronisation\<close>

record localfile =
  file_path :: string
  prettyJSON :: bool
  modTime :: int
  file_parent :: memory
  file_disk :: disk

definition nullModTime :: int where
  "nullModTime = 0"

definition NewLocalFile :: "string \<Rightarrow> disk \<Rightarrow> localfile" where
  "NewLocalFile path d = \<lparr>file_path = path, prettyJSON = True, modTime = nullModTime,
     file_parent = NewMemory, file_disk = d\<rparr>"

primrec clear_namespaces :: "string list \<Rightarrow> (memory, unit) comp" where
  "clear_namespaces [] m = (Inr (), m)"
| "clear_namespaces (namespace # nss) m = (case memory_DeleteAllPrefixes namespace m of
      (Inl err, m) \<Rightarrow> (Inl (Errorf ''failed to delete prefixes for %s namespace: %w'' [err]), m)
    | (Inr _, m) \<Rightarrow>
        if namespace = defaultNamespace then clear_namespaces nss m
        else (case memory_DeleteNamespace namespace m of
            (Inl err, m) \<Rightarrow> (Inl (Errorf ''failed to delete %s namespace: %w'' [err]), m)
          | (Inr _, m) \<Rightarrow> clear_namespaces nss m))"

definition clearParent :: "(memory, unit) comp" where
  "clearParent m = (case memory_ListNamespaces m of
      (Inl err, m) \<Rightarrow> (Inl (Errorf ''failed to list namespaces: %w'' [err]), m)
    | (Inr namespaces, m) \<Rightarrow> clear_namespaces namespaces m)"

definition getModTime :: "localfile \<Rightarrow> int" where
  "getModTime f = (case os_Stat (file_disk f) of ModTime t \<Rightarrow> t | _ \<Rightarrow> nullModTime)"

text \<open>The two loops of \<open>reload\<close>.\<close>

primrec load_prefixes :: "string \<Rightarrow> (string \<times> prefixJSON) list \<Rightarrow> (memory, unit) comp" where
  "load_prefixes namespace [] m = (Inr (), m)"
| "load_prefixes namespace (e # es) m = (case memory_CreatePrefix (toPrefix (snd e)) namespace m of
      (Inl err, m) \<Rightarrow> (Inl (Errorf ''failed to reload a %s prefix in %s namespace: %w'' [err]), m)
    | (Inr _, m) \<Rightarrow> load_prefixes namespace es m)"

primrec load_namespaces :: "(string \<times> prefixJSON gomap) list \<Rightarrow> (memory, unit) comp" where
  "load_namespaces [] m = (Inr (), m)"
| "load_namespaces (e # es) m = (case memory_CreateNamespace (fst e) m of
      (Inl err, m) \<Rightarrow> (Inl (Errorf ''failed to reload a %s namespace: %w'' [err]), m)
    | (Inr _, m) \<Rightarrow> (case load_prefixes (fst e) (map_entries (snd e)) m of
        (Inl err, m) \<Rightarrow> (Inl err, m)
      | (Inr _, m) \<Rightarrow> load_namespaces es m))"

definition parse_state :: "contents \<Rightarrow> fileJSONData result" where
  "parse_state data = (case data of
      Short \<Rightarrow> Inr make_map
    | Text None \<Rightarrow> Inl (Errorf ''failed to parse state file %q: %w'' [Errorf ''invalid JSON'' []])
    | Text (Some js) \<Rightarrow> (case unmarshal_state js make_map of
        Inl err \<Rightarrow> Inl (Errorf ''failed to parse state file %q: %w'' [err])
      | Inr storage \<Rightarrow> Inr storage))"

definition reload :: "(localfile, unit) comp" where
  "reload f =
     (let t = getModTime f in
      if t \<noteq> nullModTime \<and> t = modTime f then (Inr (), f)
      else (case (if os_Stat (file_disk f) = NotExist then Inr Short else os_ReadFile (file_disk f)) of
        Inl err \<Rightarrow> (Inl (Errorf ''failed to read state file %q: %w'' [err]), f)
      | Inr data \<Rightarrow>
          let f = f\<lparr>modTime := getModTime f\<rparr> in
          (case parse_state data of
            Inl err \<Rightarrow> (Inl err, f)
          | Inr storage \<Rightarrow> (case clearParent (file_parent f) of
              (Inl err, m) \<Rightarrow> (Inl (Errorf ''failed to clear memory storage: %w'' [err]), f\<lparr>file_parent := m\<rparr>)
            | (Inr _, m) \<Rightarrow> (case load_namespaces (map_entries storage) m of
                (r, m) \<Rightarrow> (r, f\<lparr>file_parent := m\<rparr>))))))"

text \<open>The two loops of \<open>persist\<close>.\<close>

primrec collect_prefixes :: "Prefix list \<Rightarrow> prefixJSON gomap \<Rightarrow> prefixJSON gomap result" where
  "collect_prefixes [] prefixes = Inr prefixes"
| "collect_prefixes (prefix # ps) prefixes = (case map_insert prefixes (Cidr prefix) (toPrefixJSON prefix) of
      Inl err \<Rightarrow> Inl err
    | Inr prefixes \<Rightarrow> collect_prefixes ps prefixes)"

primrec collect_namespaces :: "string list \<Rightarrow> fileJSONData \<Rightarrow> (memory, fileJSONData) comp" where
  "collect_namespaces [] storage m = (Inr storage, m)"
| "collect_namespaces (namespace # nss) storage m =
     (let prefixes = (case map_lookup storage namespace of Some ps \<Rightarrow> ps | None \<Rightarrow> make_map) in
      case memory_ReadAllPrefixes namespace m of
        (Inl err, m) \<Rightarrow> (Inl (Errorf ''failed to read prefixes of %s namespace while building external state representation: %w'' [err]), m)
      | (Inr ps, m) \<Rightarrow> (case collect_prefixes ps prefixes of
          Inl err \<Rightarrow> (Inl err, m)
        | Inr prefixes \<Rightarrow> (case map_insert storage namespace prefixes of
            Inl err \<Rightarrow> (Inl err, m)
          | Inr storage \<Rightarrow> collect_namespaces nss storage m)))"

definition persist :: "(localfile, unit) comp" where
  "persist f = (case memory_ListNamespaces (file_parent f) of
      (Inl err, m) \<Rightarrow> (Inl (Errorf ''failed to list namespaces while building external state representation: %w'' [err]), f\<lparr>file_parent := m\<rparr>)
    | (Inr namespaces, m) \<Rightarrow> (case collect_namespaces namespaces make_map m of
        (Inl err, m) \<Rightarrow> (Inl err, f\<lparr>file_parent := m\<rparr>)
      | (Inr storage, m) \<Rightarrow>
          let f = f\<lparr>file_parent := m\<rparr> in
          (case os_WriteFile (Text (Some (marshal_state storage))) (file_disk f) of
            Inl err \<Rightarrow> (Inl (Errorf ''error storing state at %q: %w'' [err]), f)
          | Inr d \<Rightarrow>
              let f = f\<lparr>file_disk := d\<rparr> in
              (Inr (), f\<lparr>modTime := getModTime f\<rparr>))))"

section \<open>Operations\<close>

text \<open>An operation of the internal state on the storage, and the two shapes of the operations.\<close>

definition on_parent :: "(memory, 'a) comp \<Rightarrow> (localfile, 'a) comp" where
  "on_parent op f = (case op (file_parent f) of (r, m) \<Rightarrow> (r, f\<lparr>file_parent := m\<rparr>))"

definition reading :: "(memory, 'a) comp \<Rightarrow> (localfile, 'a) comp" where
  "reading op f = (case reload f of
      (Inl err, f) \<Rightarrow> (Inl err, f)
    | (Inr _, f) \<Rightarrow> on_parent op f)"

definition writing :: "(memory, 'a) comp \<Rightarrow> (localfile, 'a) comp" where
  "writing op f = (case reload f of
      (Inl err, f) \<Rightarrow> (Inl err, f)
    | (Inr _, f) \<Rightarrow> (case on_parent op f of
        (Inl err, f) \<Rightarrow> (Inl err, f)
      | (Inr x, f) \<Rightarrow> (case persist f of
          (Inl err, f) \<Rightarrow> (Inl err, f)
        | (Inr _, f) \<Rightarrow> (Inr x, f))))"

definition file_CreatePrefix :: "Prefix \<Rightarrow> string \<Rightarrow> (localfile, Prefix) comp" where
  "file_CreatePrefix prefix namespace = writing (memory_CreatePrefix prefix namespace)"

definition file_ReadPrefix :: "string \<Rightarrow> string \<Rightarrow> (localfile, Prefix) comp" where
  "file_ReadPrefix prefix namespace = reading (memory_ReadPrefix prefix namespace)"

definition file_DeleteAllPrefixes :: "string \<Rightarrow> (localfile, unit) comp" where
  "file_DeleteAllPrefixes namespace = writing (memory_DeleteAllPrefixes namespace)"

definition file_ReadAllPrefixes :: "string \<Rightarrow> (localfile, Prefix list) comp" where
  "file_ReadAllPrefixes namespace = reading (memory_ReadAllPrefixes namespace)"

definition file_ReadAllPrefixCidrs :: "string \<Rightarrow> (localfile, string list) comp" where
  "file_ReadAllPrefixCidrs namespace = reading (memory_ReadAllPrefixCidrs namespace)"

definition file_UpdatePrefix :: "Prefix \<Rightarrow> string \<Rightarrow> (localfile, Prefix) comp" where
  "file_UpdatePrefix prefix namespace = writing (memory_UpdatePrefix prefix namespace)"

definition file_DeletePrefix :: "Prefix \<Rightarrow> string \<Rightarrow> (localfile, Prefix) comp" where
  "file_DeletePrefix prefix namespace = writing (memory_DeletePrefix prefix namespace)"

definition file_CreateNamespace :: "string \<Rightarrow> (localfile, unit) comp" where
  "file_CreateNamespace namespace = writing (memory_CreateNamespace namespace)"

definition file_ListNamespaces :: "(localfile, string list) comp" where
  "file_ListNamespaces = reading memory_ListNamespaces"

definition file_DeleteNamespace :: "string \<Rightarrow> (localfile, unit) comp" where
  "file_DeleteNamespace namespace = writing (memory_DeleteNamespace namespace)"

definition file_storage :: "localfile storage" where
  "file_storage = \<lparr>Name = ''file'', CreatePrefix = file_CreatePrefix,
     ReadPrefix = file_ReadPrefix, DeleteAllPrefixes = file_DeleteAllPrefixes,
     ReadAllPrefixes = file_ReadAllPrefixes, ReadAllPrefixCidrs = file_ReadAllPrefixCidrs,
     UpdatePrefix = file_UpdatePrefix, DeletePrefix = file_DeletePrefix,
     CreateNamespace = file_CreateNamespace, ListNamespaces = file_ListNamespaces,
     DeleteNamespace = file_DeleteNamespace\<rparr>"


section \<open>What a file says\<close>

definition json_inner_view :: "prefixJSON gomap \<Rightarrow> namespace_view" where
  "json_inner_view ps c = map_option (\<lambda>j. abs_prefix (toPrefix j)) (map_lookup ps c)"

definition json_view :: "fileJSONData \<Rightarrow> store_view" where
  "json_view d ns = map_option json_inner_view (map_lookup d ns)"

definition json_inner_ok :: "prefixJSON gomap \<Rightarrow> bool" where
  "json_inner_ok ps \<longleftrightarrow> distinct (map fst (map_entries ps)) \<and> (\<forall>(c, j) \<in> set (map_entries ps). entry_ok c (toPrefix j))"

definition json_state_ok :: "fileJSONData \<Rightarrow> bool" where
  "json_state_ok d \<longleftrightarrow> distinct (map fst (map_entries d)) \<and> (\<forall>(_, ps) \<in> set (map_entries d). json_inner_ok ps)"

text \<open>The contents of a file stand for the namespaces and prefixes of \<open>v\<close>.\<close>

definition denotes :: "contents \<Rightarrow> store_view \<Rightarrow> bool" where
  "denotes c v \<longleftrightarrow> (\<exists>d. parse_state c = Inr d \<and> json_state_ok d \<and> json_view d = v)"

lemma denotes_Short: "denotes Short Map.empty"
  by (auto simp: denotes_def parse_state_def make_map_def json_state_ok_def json_view_def map_lookup_def fun_eq_iff)

subsection \<open>Writing and reading objects\<close>

lemma update_new: "k \<notin> fst ` set es \<Longrightarrow> AList.update k v es = es @ [(k, v)]"
  by (induction es) auto

lemma unmarshal_members_append:
  assumes "\<forall>(k, v) \<in> set es. decode (enc v) = Inr (norm v)" "distinct (map fst acc @ map fst es)"
  shows "unmarshal_members decode (map (\<lambda>(k, v). (k, enc v)) es) acc = Inr (acc @ map (\<lambda>(k, v). (k, norm v)) es)"
  using assms
proof (induction es arbitrary: acc)
  case (Cons e es)
  obtain k v where e: "e = (k, v)"
    by (cases e)
  have "AList.update k (norm v) acc = acc @ [(k, norm v)]"
    using Cons.prems(2) by (intro update_new) (auto simp: e)
  moreover have "distinct (map fst (acc @ [(k, norm v)]) @ map fst es)"
    using Cons.prems(2) by (auto simp: e)
  ultimately show ?case
    using Cons.IH [of "acc @ [(k, norm v)]"] Cons.prems(1) by (simp add: e)
qed simp

lemma sorted_entries:
  assumes "distinct (map fst es)"
  shows "distinct (map fst (sort_key fst es))" "set (sort_key fst es) = set es" "map_of (sort_key fst es) = map_of es"
proof -
  show d: "distinct (map fst (sort_key fst es))"
    using assms by (simp add: distinct_map)
  show "set (sort_key fst es) = set es"
    by simp
  show "map_of (sort_key fst es) = map_of es"
    using d assms by (intro map_of_inject_set [THEN iffD2]) simp_all
qed

lemma members_roundtrip:
  assumes "distinct (map fst es)" "\<forall>(k, v) \<in> set es. decode (enc v) = Inr (norm v)"
  shows "unmarshal_members decode (map (\<lambda>(k, v). (k, enc v)) (sort_key fst es)) [] =
      Inr (map (\<lambda>(k, v). (k, norm v)) (sort_key fst es))"
  using unmarshal_members_append [of "sort_key fst es" decode enc norm "[]"] assms sorted_entries(1) [OF assms(1)] by simp

lemma not_dom_map_of: "k \<notin> fst ` set es \<Longrightarrow> k \<notin> dom (map_of (map (\<lambda>(k, v). (k, f v)) es))"
  by (simp add: map_of_map domIff map_of_eq_None_iff)

text \<open>A prefix and a map of prefixes after they were written and read.\<close>

definition reread_json :: "prefixJSON \<Rightarrow> prefixJSON" where
  "reread_json j = j\<lparr>AvailableChildPrefixes := sorted_map (AvailableChildPrefixes j), IPs := sorted_map (IPs j)\<rparr>"

definition reread_prefix_map :: "prefixJSON gomap \<Rightarrow> prefixJSON gomap" where
  "reread_prefix_map ps = GoMap (map (\<lambda>(c, j). (c, reread_json j)) (sort_key fst (map_entries ps)))"

definition reread_state :: "fileJSONData \<Rightarrow> fileJSONData" where
  "reread_state d = GoMap (map (\<lambda>(ns, ps). (ns, reread_prefix_map ps)) (sort_key fst (map_entries d)))"

text \<open>A map of prefixes as \<open>persist\<close> builds it.\<close>

definition of_prefixes :: "Prefix list \<Rightarrow> prefixJSON gomap" where
  "of_prefixes ps = GoMap (map (\<lambda>p. (Cidr p, toPrefixJSON p)) ps)"

definition prefixes_ok :: "Prefix list \<Rightarrow> bool" where
  "prefixes_ok ps \<longleftrightarrow> distinct (map Cidr ps) \<and> (\<forall>p \<in> set ps. wf_prefix p \<and> Cidr p \<noteq> [])"

lemma reread_toPrefix: "toPrefix (reread_json (toPrefixJSON p)) = reread p"
  by (simp add: toPrefix_def reread_json_def toPrefixJSON_def reread_def)

lemma of_prefixes_roundtrip:
  assumes "prefixes_ok ps"
  shows "unmarshal_prefix_map (marshal_prefix_map (of_prefixes ps)) = Inr (reread_prefix_map (of_prefixes ps))"
proof -
  let ?es = "map (\<lambda>p. (Cidr p, toPrefixJSON p)) ps"
  have d: "distinct (map fst ?es)"
    using assms by (simp add: prefixes_ok_def comp_def)
  have "\<forall>(k, j) \<in> set ?es. unmarshal_prefix (marshal_prefix j) = Inr (reread_json j)"
    using assms unmarshal_marshal_prefix wf_json_ok
    by (auto simp: prefixes_ok_def reread_json_def toPrefixJSON_def)
  from members_roundtrip [OF d this] show ?thesis
    by (simp add: of_prefixes_def reread_prefix_map_def)
qed

lemma reread_of_prefixes:
  assumes "prefixes_ok ps"
  shows "json_inner_ok (reread_prefix_map (of_prefixes ps))"
    "json_inner_view (reread_prefix_map (of_prefixes ps)) = map_of (map (\<lambda>p. (Cidr p, abs_prefix p)) ps)"
proof -
  let ?es = "map (\<lambda>p. (Cidr p, toPrefixJSON p)) ps"
  have d: "distinct (map fst ?es)"
    using assms by (simp add: prefixes_ok_def comp_def)
  note s = sorted_entries [OF d]
  have e: "\<forall>(c, j) \<in> set ?es. entry_ok c (toPrefix (reread_json j))"
    using assms reread_wf by (auto simp: prefixes_ok_def entry_ok_def reread_toPrefix)
  have "distinct (map fst (map (\<lambda>(c, j). (c, reread_json j)) (sort_key fst ?es)))"
    using s(1) by (simp add: comp_def case_prod_beta)
  with e show "json_inner_ok (reread_prefix_map (of_prefixes ps))"
    using s(2) by (auto simp: json_inner_ok_def reread_prefix_map_def of_prefixes_def)
  have "map_option (\<lambda>j. abs_prefix (toPrefix (reread_json j))) (map_of ?es c) = map_of (map (\<lambda>p. (Cidr p, abs_prefix p)) ps) c" for c
    using assms unfolding prefixes_ok_def
    by (induction ps) (auto simp: reread_toPrefix reread_abs)
  then show "json_inner_view (reread_prefix_map (of_prefixes ps)) = map_of (map (\<lambda>p. (Cidr p, abs_prefix p)) ps)"
    by (simp add: fun_eq_iff json_inner_view_def map_lookup_def reread_prefix_map_def of_prefixes_def map_of_map s(3)
        option.map_comp comp_def)
qed


subsection \<open>The loops of \<open>persist\<close>\<close>

lemma collect_prefixes_append:
  assumes "distinct (map fst acc @ map Cidr ps)"
  shows "collect_prefixes ps (GoMap acc) = Inr (GoMap (acc @ map (\<lambda>p. (Cidr p, toPrefixJSON p)) ps))"
  using assms
proof (induction ps arbitrary: acc)
  case (Cons p ps)
  have "AList.update (Cidr p) (toPrefixJSON p) acc = acc @ [(Cidr p, toPrefixJSON p)]"
    using Cons.prems by (intro update_new) auto
  then show ?case
    using Cons.IH [of "acc @ [(Cidr p, toPrefixJSON p)]"] Cons.prems by simp
qed simp

text \<open>The entry of a namespace in what \<open>persist\<close> writes.\<close>

definition saved_entry :: "memory \<Rightarrow> string \<times> prefixJSON gomap \<Rightarrow> bool" where
  "saved_entry m e \<longleftrightarrow> (\<exists>ps. snd e = of_prefixes ps \<and> prefixes_ok ps \<and>
     memory_view m (fst e) = Some (map_of (map (\<lambda>p. (Cidr p, abs_prefix p)) ps)))"

lemma namespace_saved:
  assumes m: "memory_inv m" and ns: "ns \<in> dom (memory_view m)"
  obtains ps where "memory_ReadAllPrefixes ns m = (Inr ps, m)" "collect_prefixes ps make_map = Inr (of_prefixes ps)"
    "saved_entry m (ns, of_prefixes ps)"
proof -
  obtain in' where in': "map_lookup m ns = Some in'" "memory_view m ns = Some (inner_view in')"
    using ns by (auto simp: memory_view_def)
  obtain ps where ps: "memory_ReadAllPrefixes ns m = (Inr ps, m)" "distinct (map Cidr ps)" "\<forall>p \<in> set ps. wf_prefix p"
      "map_of (map (\<lambda>p. (Cidr p, abs_prefix p)) ps) = inner_view in'"
    using memory_read_all [OF m in'(1)] by blast
  have "Cidr p \<noteq> []" if "p \<in> set ps" for p
  proof -
    have "map_of (map (\<lambda>p. (Cidr p, abs_prefix p)) ps) (Cidr p) = Some (abs_prefix p)"
      using that ps(2) by (auto simp: map_of_eq_Some_iff distinct_map comp_def)
    then have "inner_view in' (Cidr p) = Some (abs_prefix p)"
      by (simp only: ps(4))
    then show ?thesis
      using mem.view_cidr [OF m in'(2)] by blast
  qed
  with ps have ok: "prefixes_ok ps"
    by (simp add: prefixes_ok_def)
  have "collect_prefixes ps make_map = Inr (of_prefixes ps)"
    using collect_prefixes_append [of "[]" ps] ps(2) by (simp add: make_map_def of_prefixes_def)
  moreover have "saved_entry m (ns, of_prefixes ps)"
    using ok in'(2) ps(4) unfolding saved_entry_def by auto
  ultimately show ?thesis
    by (rule that [OF ps(1)])
qed

lemma collect_namespaces_append:
  assumes m: "memory_inv m" and nss: "distinct (map fst acc @ nss)" "set nss \<subseteq> dom (memory_view m)"
  shows "\<exists>es. collect_namespaces nss (GoMap acc) m = (Inr (GoMap (acc @ es)), m) \<and> map fst es = nss \<and>
    list_all (saved_entry m) es"
  using nss
proof (induction nss arbitrary: acc)
  case (Cons ns nss)
  have "ns \<in> dom (memory_view m)"
    using Cons.prems(2) by auto
  then obtain ps where ps: "memory_ReadAllPrefixes ns m = (Inr ps, m)" "collect_prefixes ps make_map = Inr (of_prefixes ps)"
      "saved_entry m (ns, of_prefixes ps)"
    using namespace_saved [OF m] by blast
  have new: "ns \<notin> fst ` set acc"
    using Cons.prems(1) by auto
  then have none: "map_of acc ns = None"
    by (simp add: map_of_eq_None_iff)
  obtain es where "collect_namespaces nss (GoMap (acc @ [(ns, of_prefixes ps)])) m =
      (Inr (GoMap ((acc @ [(ns, of_prefixes ps)]) @ es)), m)" "map fst es = nss" "list_all (saved_entry m) es"
    using Cons.IH [of "acc @ [(ns, of_prefixes ps)]"] Cons.prems by auto
  then show ?case
    using ps new none by (intro exI [of _ "(ns, of_prefixes ps) # es"]) (simp add: map_lookup_def update_new)
qed simp

lemma saved_state_roundtrip:
  assumes es: "distinct (map fst es)" "list_all (saved_entry m) es" "set (map fst es) = dom (memory_view m)"
  shows "unmarshal_state (marshal_state (GoMap es)) make_map = Inr (reread_state (GoMap es))"
    "json_state_ok (reread_state (GoMap es))" "json_view (reread_state (GoMap es)) = memory_view m"
proof -
  note s = sorted_entries [OF es(1)]
  have e: "unmarshal_prefix_map (marshal_prefix_map ps) = Inr (reread_prefix_map ps) \<and> json_inner_ok (reread_prefix_map ps) \<and>
      memory_view m ns = Some (json_inner_view (reread_prefix_map ps))" if "(ns, ps) \<in> set es" for ns ps
  proof -
    have "saved_entry m (ns, ps)"
      using that es(2) by (auto simp: list_all_iff)
    then obtain qs where "ps = of_prefixes qs" "prefixes_ok qs"
        "memory_view m ns = Some (map_of (map (\<lambda>p. (Cidr p, abs_prefix p)) qs))"
      by (auto simp: saved_entry_def)
    then show ?thesis
      using of_prefixes_roundtrip reread_of_prefixes by auto
  qed
  have "\<forall>(ns, ps) \<in> set es. unmarshal_prefix_map (marshal_prefix_map ps) = Inr (reread_prefix_map ps)"
    using e by blast
  from members_roundtrip [OF es(1) this]
  show "unmarshal_state (marshal_state (GoMap es)) make_map = Inr (reread_state (GoMap es))"
    by (simp add: make_map_def reread_state_def)
  have "distinct (map fst (map (\<lambda>(ns, ps). (ns, reread_prefix_map ps)) (sort_key fst es)))"
    using s(1) by (simp add: comp_def case_prod_beta)
  then show "json_state_ok (reread_state (GoMap es))"
    using e by (auto simp: json_state_ok_def reread_state_def)
  have "map_option (\<lambda>ps. json_inner_view (reread_prefix_map ps)) (map_of es ns) = memory_view m ns" for ns
  proof (cases "map_of es ns")
    case None
    then have "ns \<notin> set (map fst es)"
      by (simp add: map_of_eq_None_iff)
    then have "memory_view m ns = None"
      unfolding es(3) by (auto simp: domIff)
    with None show ?thesis
      by simp
  next
    case (Some ps)
    then show ?thesis
      using e [of ns ps] by (auto dest: map_of_SomeD)
  qed
  then show "json_view (reread_state (GoMap es)) = memory_view m"
    by (simp add: fun_eq_iff json_view_def map_lookup_def reread_state_def map_of_map s(3) option.map_comp comp_def)
qed

lemma persist_data:
  assumes m: "memory_inv m"
  obtains nss d where "memory_ListNamespaces m = (Inr nss, m)" "collect_namespaces nss make_map m = (Inr d, m)"
    "denotes (Text (Some (marshal_state d))) (memory_view m)"
proof -
  obtain nss where nss: "memory_ListNamespaces m = (Inr nss, m)" "distinct nss" "set nss = dom (memory_view m)"
    using memory_list_ns [OF m] by blast
  obtain es where es: "collect_namespaces nss make_map m = (Inr (GoMap es), m)" "map fst es = nss" "list_all (saved_entry m) es"
    using collect_namespaces_append [OF m, of "[]" nss] nss by (auto simp: make_map_def)
  note r = saved_state_roundtrip [OF _ es(3), unfolded es(2), OF nss(2,3)]
  have "denotes (Text (Some (marshal_state (GoMap es)))) (memory_view m)"
    using r by (simp add: denotes_def parse_state_def)
  with that nss(1) es(1) show ?thesis
    by blast
qed

subsection \<open>The loops of \<open>reload\<close>\<close>

lemma load_prefixes_view:
  assumes "memory_inv m" "memory_view m ns = Some v" "distinct (map fst es)"
    "\<forall>(c, j) \<in> set es. entry_ok c (toPrefix j) \<and> v c = None"
  shows "\<exists>m'. load_prefixes ns es m = (Inr (), m') \<and> memory_inv m' \<and>
    memory_view m' = (memory_view m)(ns \<mapsto> v ++ map_of (map (\<lambda>(c, j). (c, abs_prefix (toPrefix j))) es))"
  using assms
proof (induction es arbitrary: m v)
  case Nil
  then show ?case
    by (auto simp: fun_upd_idem)
next
  case (Cons e es)
  obtain c j where e: "e = (c, j)"
    by (cases e)
  let ?p = "toPrefix j"
  obtain in' where in': "map_lookup m ns = Some in'" "v = inner_view in'"
    using Cons.prems(2) by (rule memory_view_Some)
  have p: "wf_prefix ?p" "Cidr ?p = c" "c \<noteq> []" "v c = None"
    using Cons.prems(4) by (auto simp: e entry_ok_def)
  obtain m1 where m1: "memory_CreatePrefix ?p ns m = (Inr ?p, m1)" "memory_inv m1"
      "memory_view m1 = (memory_view m)(ns \<mapsto> v(c \<mapsto> abs_prefix ?p))"
    using memory_create [OF Cons.prems(1) in'(1) p(1)] p in'(2) by auto
  have v1: "memory_view m1 ns = Some (v(c \<mapsto> abs_prefix ?p))"
    using m1(3) by simp
  have d: "distinct (map fst es)" "c \<notin> fst ` set es"
    using Cons.prems(3) by (auto simp: e)
  have rest: "\<forall>(c', j') \<in> set es. entry_ok c' (toPrefix j') \<and> (v(c \<mapsto> abs_prefix ?p)) c' = None"
    using Cons.prems(4) d(2) by (fastforce simp: image_iff)
  obtain m' where m': "load_prefixes ns es m1 = (Inr (), m')" "memory_inv m'"
      "memory_view m' = (memory_view m1)(ns \<mapsto> v(c \<mapsto> abs_prefix ?p) ++ map_of (map (\<lambda>(c, j). (c, abs_prefix (toPrefix j))) es))"
    using Cons.IH [OF m1(2) v1 d(1) rest] by blast
  have "c \<notin> dom (map_of (map (\<lambda>(c, j). (c, abs_prefix (toPrefix j))) es))"
    using d(2) by (rule not_dom_map_of)
  then have eq: "v(c \<mapsto> abs_prefix ?p) ++ map_of (map (\<lambda>(c, j). (c, abs_prefix (toPrefix j))) es) =
      v ++ map_of (map (\<lambda>(c, j). (c, abs_prefix (toPrefix j))) (e # es))"
    by (simp add: e map_add_upd_left)
  have "memory_view m' = (memory_view m)(ns \<mapsto> v ++ map_of (map (\<lambda>(c, j). (c, abs_prefix (toPrefix j))) (e # es)))"
    by (simp only: m'(3) m1(3) eq fun_upd_upd)
  moreover have "load_prefixes ns (e # es) m = (Inr (), m')"
    using m'(1) m1(1) by (simp add: e)
  ultimately show ?case
    using m'(2) by blast
qed

lemma json_inner_view_entries:
  "json_inner_view ps = map_of (map (\<lambda>(c, j). (c, abs_prefix (toPrefix j))) (map_entries ps))"
  by (simp add: fun_eq_iff json_inner_view_def map_lookup_def map_of_map)

lemma load_namespaces_view:
  assumes "memory_inv m" "distinct (map fst es)" "\<forall>(ns, ps) \<in> set es. json_inner_ok ps"
    "\<forall>ns \<in> fst ` set es. memory_view m ns = None \<or> memory_view m ns = Some Map.empty"
  shows "\<exists>m'. load_namespaces es m = (Inr (), m') \<and> memory_inv m' \<and>
    memory_view m' = memory_view m ++ map_of (map (\<lambda>(ns, ps). (ns, json_inner_view ps)) es)"
  using assms
proof (induction es arbitrary: m)
  case (Cons e es)
  obtain ns ps where e: "e = (ns, ps)"
    by (cases e)
  obtain m1 where m1: "memory_CreateNamespace ns m = (Inr (), m1)" "memory_inv m1"
      "memory_view m1 = (memory_view m)(ns \<mapsto> Map.empty)"
    using memory_create_ns [OF Cons.prems(1), of ns] Cons.prems(4) by (auto simp: e fun_upd_idem split: option.splits)
  have ok: "distinct (map fst (map_entries ps))" "\<forall>(c, j) \<in> set (map_entries ps). entry_ok c (toPrefix j) \<and> Map.empty c = None"
    using Cons.prems(3) by (auto simp: e json_inner_ok_def)
  have v1: "memory_view m1 ns = Some Map.empty"
    using m1(3) by simp
  obtain m2 where m2: "load_prefixes ns (map_entries ps) m1 = (Inr (), m2)" "memory_inv m2"
      "memory_view m2 = (memory_view m)(ns \<mapsto> json_inner_view ps)"
    using load_prefixes_view [OF m1(2) v1 ok] m1(3) by (auto simp: json_inner_view_entries)
  have new: "ns \<notin> fst ` set es"
    using Cons.prems(2) by (simp add: e)
  have rest: "\<forall>ns' \<in> fst ` set es. memory_view m2 ns' = None \<or> memory_view m2 ns' = Some Map.empty"
    using Cons.prems(4) new m2(3) by (auto simp: e)
  obtain m' where m': "load_namespaces es m2 = (Inr (), m')" "memory_inv m'"
      "memory_view m' = memory_view m2 ++ map_of (map (\<lambda>(ns, ps). (ns, json_inner_view ps)) es)"
    using Cons.IH [OF m2(2) _ _ rest] Cons.prems(2,3) by auto
  have "ns \<notin> dom (map_of (map (\<lambda>(ns, ps). (ns, json_inner_view ps)) es))"
    using new by (rule not_dom_map_of)
  then have "memory_view m' = memory_view m ++ map_of (map (\<lambda>(ns, ps). (ns, json_inner_view ps)) (e # es))"
    unfolding m'(3) m2(3) by (simp add: e map_add_upd_left)
  moreover have "load_namespaces (e # es) m = (Inr (), m')"
    using m'(1) m1(1) m2(1) by (simp add: e)
  ultimately show ?case
    using m'(2) by blast
qed simp

lemma clear_namespaces_view:
  assumes "memory_inv m" "distinct nss" "set nss \<subseteq> dom (memory_view m)"
  shows "\<exists>m'. clear_namespaces nss m = (Inr (), m') \<and> memory_inv m' \<and>
    memory_view m' = (\<lambda>ns. if ns \<in> set nss then (if ns = defaultNamespace then Some Map.empty else None) else memory_view m ns)"
  using assms
proof (induction nss arbitrary: m)
  case (Cons ns nss)
  obtain m1 where m1: "memory_DeleteAllPrefixes ns m = (Inr (), m1)" "memory_inv m1"
      "memory_view m1 = (memory_view m)(ns \<mapsto> Map.empty)"
    using memory_delete_all [OF Cons.prems(1), of ns] by blast
  let ?m = "if ns = defaultNamespace then m1 else map_delete m1 ns"
  have "memory_view m1 ns = Some Map.empty"
    using m1(3) by simp
  then obtain ps where "map_lookup m1 ns = Some ps"
    by (rule memory_view_Some)
  then have eq: "clear_namespaces (ns # nss) m = clear_namespaces nss ?m"
    using m1(1) by (simp add: memory_DeleteNamespace_def)
  have inv: "memory_inv ?m"
    using m1(2) memory_delete_ns(1) by simp
  have view: "memory_view ?m = (memory_view m)(ns := if ns = defaultNamespace then Some Map.empty else None)"
    using m1(2,3) memory_delete_ns(2) by simp
  have rest: "ns \<notin> set nss" "set nss \<subseteq> dom (memory_view ?m)" "distinct nss"
    using Cons.prems(2,3) unfolding view by auto
  obtain m' where m': "clear_namespaces nss ?m = (Inr (), m')" "memory_inv m'"
      "memory_view m' = (\<lambda>ns. if ns \<in> set nss then (if ns = defaultNamespace then Some Map.empty else None) else memory_view ?m ns)"
    using Cons.IH [OF inv rest(3,2)] by blast
  have "memory_view m' = (\<lambda>ns'. if ns' \<in> set (ns # nss) then (if ns' = defaultNamespace then Some Map.empty else None)
      else memory_view m ns')"
    unfolding m'(3) view using rest(1) by (auto simp: fun_eq_iff)
  with m'(1,2) show ?case
    unfolding eq by blast
qed simp

text \<open>What \<open>clearParent\<close> leaves: the default namespace, empty, if it was there.\<close>

definition cleared :: "store_view \<Rightarrow> store_view" where
  "cleared v = (if v defaultNamespace = None then Map.empty else [defaultNamespace \<mapsto> Map.empty])"

lemma clearParent_view:
  assumes "memory_inv m"
  obtains m' where "clearParent m = (Inr (), m')" "memory_inv m'" "memory_view m' = cleared (memory_view m)"
proof -
  obtain nss where nss: "memory_ListNamespaces m = (Inr nss, m)" "distinct nss" "set nss = dom (memory_view m)"
    using memory_list_ns [OF assms] by blast
  obtain m' where m': "clear_namespaces nss m = (Inr (), m')" "memory_inv m'"
      "memory_view m' = (\<lambda>ns. if ns \<in> set nss then (if ns = defaultNamespace then Some Map.empty else None) else memory_view m ns)"
    using clear_namespaces_view [OF assms nss(2)] nss(3) by blast
  have "memory_view m' = cleared (memory_view m)"
    unfolding m'(3) nss(3) by (auto simp: fun_eq_iff cleared_def)
  with that m'(1,2) nss(1) show ?thesis
    by (simp add: clearParent_def)
qed

lemma json_view_entries:
  "json_view d = map_of (map (\<lambda>(ns, ps). (ns, json_inner_view ps)) (map_entries d))"
  by (simp add: fun_eq_iff json_view_def map_lookup_def map_of_map)


section \<open>Synchronisation\<close>

definition disk_usable :: "disk \<Rightarrow> bool" where
  "disk_usable d \<longleftrightarrow> disk_searchable d \<and> disk_readable d \<and> disk_writable d \<and> disk_clock d \<noteq> nullModTime"

text \<open>
  The invariant of a process that alone writes the file: the file, if there is one, is the one the process
  wrote last and says what the internal state holds.
\<close>

definition file_inv :: "localfile \<Rightarrow> bool" where
  "file_inv f \<longleftrightarrow> memory_inv (file_parent f) \<and> disk_usable (file_disk f) \<and>
     (case disk_entry (file_disk f) of
        None \<Rightarrow> memory_view (file_parent f) = [defaultNamespace \<mapsto> Map.empty]
      | Some (t, c) \<Rightarrow> t \<noteq> nullModTime \<and> t = modTime f \<and> denotes c (memory_view (file_parent f)))"

definition file_view :: "localfile \<Rightarrow> store_view" where
  "file_view f = memory_view (file_parent f)"

text \<open>\<open>reload\<close> of a file that changed replaces the internal state by what the file says.\<close>

lemma reload_changed:
  assumes m: "memory_inv (file_parent f)" and d: "disk_searchable (file_disk f)"
    and changed: "getModTime f = nullModTime \<or> getModTime f \<noteq> modTime f"
    and data: "if disk_entry (file_disk f) = None then v = Map.empty
      else \<exists>t c. disk_entry (file_disk f) = Some (t, c) \<and> disk_readable (file_disk f) \<and> denotes c v"
  obtains m' where "reload f = (Inr (), f\<lparr>modTime := getModTime f, file_parent := m'\<rparr>)" "memory_inv m'"
    "memory_view m' = cleared (memory_view (file_parent f)) ++ v"
proof -
  obtain c where c: "(if os_Stat (file_disk f) = NotExist then Inr Short else os_ReadFile (file_disk f)) = Inr c" "denotes c v"
  proof (cases "disk_entry (file_disk f) = None")
    case True
    with d data denotes_Short show thesis
      by (intro that [of Short]) (simp_all add: os_Stat_def)
  next
    case False
    with data obtain t c where "disk_entry (file_disk f) = Some (t, c)" "disk_readable (file_disk f)" "denotes c v"
      by auto
    with d show thesis
      by (intro that [of c]) (simp_all add: os_Stat_def os_ReadFile_def)
  qed
  obtain j where j: "parse_state c = Inr j" "json_state_ok j" "json_view j = v"
    using c(2) by (auto simp: denotes_def)
  obtain m1 where m1: "clearParent (file_parent f) = (Inr (), m1)" "memory_inv m1"
      "memory_view m1 = cleared (memory_view (file_parent f))"
    using clearParent_view [OF m] .
  have "\<forall>ns \<in> fst ` set (map_entries j). memory_view m1 ns = None \<or> memory_view m1 ns = Some Map.empty"
    by (simp add: m1(3) cleared_def)
  then obtain m' where "load_namespaces (map_entries j) m1 = (Inr (), m')" "memory_inv m'" "memory_view m' = memory_view m1 ++ v"
    using load_namespaces_view [OF m1(2)] j(2,3) unfolding json_state_ok_def json_view_entries by blast
  with that [of m'] changed c(1) j(1) m1 show ?thesis
    by (auto simp: reload_def Let_def)
qed

lemma reload_unchanged:
  assumes "getModTime f \<noteq> nullModTime" "getModTime f = modTime f"
  shows "reload f = (Inr (), f)"
  using assms by (simp add: reload_def)

lemma reload_synced:
  assumes f: "file_inv f"
  obtains f' where "reload f = (Inr (), f')" "file_inv f'" "file_view f' = file_view f"
proof (cases "disk_entry (file_disk f)")
  case None
  then have t: "getModTime f = nullModTime"
    using f by (simp add: getModTime_def os_Stat_def file_inv_def disk_usable_def)
  have v: "memory_view (file_parent f) = [defaultNamespace \<mapsto> Map.empty]"
    using f None by (simp add: file_inv_def)
  obtain m' where m': "reload f = (Inr (), f\<lparr>modTime := getModTime f, file_parent := m'\<rparr>)" "memory_inv m'"
      "memory_view m' = cleared (memory_view (file_parent f)) ++ Map.empty"
    by (rule reload_changed [of f Map.empty]) (use f None t in \<open>auto simp: file_inv_def disk_usable_def\<close>)
  show ?thesis
    by (rule that [OF m'(1)]) (use m' f None v in \<open>auto simp: file_inv_def file_view_def cleared_def\<close>)
next
  case (Some e)
  then have "getModTime f \<noteq> nullModTime" "getModTime f = modTime f"
    using f by (auto simp: getModTime_def os_Stat_def file_inv_def disk_usable_def split: prod.splits)
  with that [OF reload_unchanged f refl] show ?thesis
    by blast
qed

lemma persist_saves:
  assumes m: "memory_inv (file_parent f)" and d: "disk_usable (file_disk f)"
  obtains f' c where "persist f = (Inr (), f')" "file_inv f'" "file_view f' = file_view f"
    "disk_entry (file_disk f') = Some (disk_clock (file_disk f), c)" "denotes c (file_view f)"
proof -
  obtain nss j where j: "memory_ListNamespaces (file_parent f) = (Inr nss, file_parent f)"
      "collect_namespaces nss make_map (file_parent f) = (Inr j, file_parent f)"
      "denotes (Text (Some (marshal_state j))) (memory_view (file_parent f))"
    using persist_data [OF m] .
  define d' where "d' = (file_disk f)\<lparr>disk_entry := Some (disk_clock (file_disk f), Text (Some (marshal_state j)))\<rparr>"
  have w: "os_WriteFile (Text (Some (marshal_state j))) (file_disk f) = Inr d'"
    using d by (simp add: os_WriteFile_def disk_usable_def d'_def)
  have st: "os_Stat d' = ModTime (disk_clock (file_disk f))"
    using d by (simp add: os_Stat_def disk_usable_def d'_def)
  let ?f = "f\<lparr>file_disk := d', modTime := disk_clock (file_disk f)\<rparr>"
  have "persist f = (Inr (), ?f)"
    using j(1,2) w st by (simp add: persist_def Let_def getModTime_def)
  moreover have "file_inv ?f"
    using m d j(3) by (simp add: file_inv_def disk_usable_def d'_def)
  ultimately show ?thesis
    by (rule that) (use j(3) in \<open>simp_all add: file_view_def d'_def\<close>)
qed

lemma persist_usable:
  assumes "memory_inv (file_parent f)" "disk_usable (file_disk f)"
  obtains f' where "persist f = (Inr (), f')" "file_inv f'" "file_view f' = file_view f"
  using persist_saves [OF assms] by metis

section \<open>The contract holds\<close>

lemma on_parent_synced:
  assumes f: "file_inv f" and m: "op (file_parent f) = (r, m')" "memory_inv m'" "memory_view m' = file_view f"
  shows "on_parent op f = (r, f\<lparr>file_parent := m'\<rparr>)" "file_inv (f\<lparr>file_parent := m'\<rparr>)"
    "file_view (f\<lparr>file_parent := m'\<rparr>) = file_view f"
  using f m by (auto simp: on_parent_def file_inv_def file_view_def split: option.splits)

lemma reading_law:
  assumes f: "file_inv f"
    and op: "\<And>m. memory_inv m \<Longrightarrow> memory_view m = file_view f \<Longrightarrow>
      \<exists>r m'. op m = (r, m') \<and> Q r \<and> memory_inv m' \<and> memory_view m' = file_view f"
  shows "\<exists>r f'. reading op f = (r, f') \<and> Q r \<and> file_inv f' \<and> file_view f' = file_view f"
proof -
  obtain f1 where f1: "reload f = (Inr (), f1)" "file_inv f1" "file_view f1 = file_view f"
    using reload_synced [OF f] .
  have "memory_inv (file_parent f1)" "memory_view (file_parent f1) = file_view f"
    using f1(2,3) by (simp_all add: file_inv_def file_view_def)
  then obtain r m' where m': "op (file_parent f1) = (r, m')" "Q r" "memory_inv m'" "memory_view m' = file_view f1"
    using op f1(3) by metis
  show ?thesis
    using on_parent_synced [where op = op, OF f1(2) m'(1,3,4)] f1 m'(2) by (auto simp: reading_def)
qed

lemma writing_Inr:
  assumes f: "file_inv f"
    and op: "\<And>m. memory_inv m \<Longrightarrow> memory_view m = file_view f \<Longrightarrow>
      \<exists>x m'. op m = (Inr x, m') \<and> Q x \<and> memory_inv m' \<and> memory_view m' = v"
  shows "\<exists>x f'. writing op f = (Inr x, f') \<and> Q x \<and> file_inv f' \<and> file_view f' = v"
proof -
  obtain f1 where f1: "reload f = (Inr (), f1)" "file_inv f1" "file_view f1 = file_view f"
    using reload_synced [OF f] .
  have "memory_inv (file_parent f1)" "memory_view (file_parent f1) = file_view f"
    using f1(2,3) by (simp_all add: file_inv_def file_view_def)
  then obtain x m' where m': "op (file_parent f1) = (Inr x, m')" "Q x" "memory_inv m'" "memory_view m' = v"
    using op by blast
  let ?f = "f1\<lparr>file_parent := m'\<rparr>"
  obtain f' where "persist ?f = (Inr (), f')" "file_inv f'" "file_view f' = file_view ?f"
    by (rule persist_usable [of ?f]) (use m'(3) f1(2) in \<open>simp_all add: file_inv_def\<close>)
  with f1(1) m' show ?thesis
    by (intro exI [of _ x] exI [of _ f']) (simp add: writing_def on_parent_def file_view_def)
qed

lemma writing_Inl:
  assumes f: "file_inv f"
    and op: "\<And>m. memory_inv m \<Longrightarrow> memory_view m = file_view f \<Longrightarrow>
      \<exists>e m'. op m = (Inl e, m') \<and> Q e \<and> memory_inv m' \<and> memory_view m' = file_view f"
  shows "\<exists>e f'. writing op f = (Inl e, f') \<and> Q e \<and> file_inv f' \<and> file_view f' = file_view f"
proof -
  obtain f1 where f1: "reload f = (Inr (), f1)" "file_inv f1" "file_view f1 = file_view f"
    using reload_synced [OF f] .
  have "memory_inv (file_parent f1)" "memory_view (file_parent f1) = file_view f"
    using f1(2,3) by (simp_all add: file_inv_def file_view_def)
  then obtain e m' where m': "op (file_parent f1) = (Inl e, m')" "Q e" "memory_inv m'" "memory_view m' = file_view f1"
    using op f1(3) by metis
  show ?thesis
    using on_parent_synced [where op = op, OF f1(2) m'(1,3,4)] f1 m'(2) by (auto simp: writing_def)
qed

lemma writing_returns:
  assumes "file_inv f"
    and "\<And>m. memory_inv m \<Longrightarrow> memory_view m = file_view f \<Longrightarrow>
      \<exists>m'. op m = (Inr x, m') \<and> memory_inv m' \<and> memory_view m' = g (memory_view m)"
  shows "\<exists>f'. writing op f = (Inr x, f') \<and> file_inv f' \<and> file_view f' = g (file_view f)"
  using writing_Inr [OF assms(1), of op "\<lambda>y. y = x" "g (file_view f)"] assms(2) by fastforce

lemma writing_fails:
  assumes "file_inv f"
    and "\<And>m. memory_inv m \<Longrightarrow> memory_view m = file_view f \<Longrightarrow>
      \<exists>e m'. op m = (Inl e, m') \<and> Q e \<and> memory_inv m' \<and> memory_view m' = memory_view m"
  shows "\<exists>e f'. writing op f = (Inl e, f') \<and> Q e \<and> file_inv f' \<and> file_view f' = file_view f"
  using assms(2) by (intro writing_Inl [OF assms(1)]) fastforce

lemma writing_returns_with:
  assumes "file_inv f"
    and "\<And>m. memory_inv m \<Longrightarrow> memory_view m = file_view f \<Longrightarrow>
      \<exists>x m'. op m = (Inr x, m') \<and> Q x \<and> memory_inv m' \<and> memory_view m' = g (memory_view m)"
  shows "\<exists>x f'. writing op f = (Inr x, f') \<and> Q x \<and> file_inv f' \<and> file_view f' = g (file_view f)"
  using assms(2) by (intro writing_Inr [OF assms(1)]) fastforce

lemma reading_returns:
  assumes "file_inv f"
    and "\<And>m. memory_inv m \<Longrightarrow> memory_view m = file_view f \<Longrightarrow>
      \<exists>x m'. op m = (Inr x, m') \<and> Q x \<and> memory_inv m' \<and> memory_view m' = memory_view m"
  shows "\<exists>x f'. reading op f = (Inr x, f') \<and> Q x \<and> file_inv f' \<and> file_view f' = file_view f"
  using reading_law [OF assms(1), of op "\<lambda>r. \<exists>x. r = Inr x \<and> Q x"] assms(2) by fastforce

lemma reading_fails:
  assumes "file_inv f"
    and "\<And>m. memory_inv m \<Longrightarrow> memory_view m = file_view f \<Longrightarrow>
      \<exists>e m'. op m = (Inl e, m') \<and> Q e \<and> memory_inv m' \<and> memory_view m' = memory_view m"
  shows "\<exists>e f'. reading op f = (Inl e, f') \<and> Q e \<and> file_inv f' \<and> file_view f' = file_view f"
  using reading_law [OF assms(1), of op "\<lambda>r. \<exists>e. r = Inl e \<and> Q e"] assms(2) by fastforce

lemma writing_same:
  assumes f: "file_inv f" and w: "writing op f = (r, f')"
    and op: "\<And>m r m'. memory_inv m \<Longrightarrow> memory_view m = file_view f \<Longrightarrow> op m = (r, m') \<Longrightarrow>
      memory_inv m' \<and> memory_view m' = memory_view m"
  shows "file_inv f' \<and> file_view f' = file_view f"
proof -
  obtain f1 where f1: "reload f = (Inr (), f1)" "file_inv f1" "file_view f1 = file_view f"
    using reload_synced [OF f] .
  obtain r' m' where m': "op (file_parent f1) = (r', m')"
    by fastforce
  have m1: "memory_inv (file_parent f1)" "memory_view (file_parent f1) = file_view f"
    using f1(2,3) by (simp_all add: file_inv_def file_view_def)
  have same: "memory_inv m'" "memory_view m' = file_view f1"
    using op [OF m1 m'] m1(2) f1(3) by auto
  note p = on_parent_synced [where op = op, OF f1(2) m' same]
  let ?f = "f1\<lparr>file_parent := m'\<rparr>"
  obtain f2 where "persist ?f = (Inr (), f2)" "file_inv f2" "file_view f2 = file_view ?f"
    by (rule persist_usable [of ?f]) (use p(2) in \<open>simp_all add: file_inv_def\<close>)
  with w f1 p show ?thesis
    by (cases r') (auto simp: writing_def)
qed


lemmas file_ops = file_storage_def file_CreatePrefix_def file_ReadPrefix_def file_DeleteAllPrefixes_def
  file_ReadAllPrefixes_def file_ReadAllPrefixCidrs_def file_UpdatePrefix_def file_DeletePrefix_def
  file_CreateNamespace_def file_ListNamespaces_def file_DeleteNamespace_def

text \<open>The laws of the memory storage, stated of its operations.\<close>

lemma mem_create:
  assumes m: "memory_inv m" "memory_view m ns = Some v" and p: "wf_prefix p" "Cidr p \<noteq> []" "v (Cidr p) = None"
  shows "\<exists>m'. memory_CreatePrefix p ns m = (Inr p, m') \<and> memory_inv m' \<and>
    memory_view m' = (memory_view m)(ns \<mapsto> v(Cidr p \<mapsto> abs_prefix p))"
proof -
  obtain ps where ps: "map_lookup m ns = Some ps" "v = inner_view ps"
    using m(2) by (rule memory_view_Some)
  with memory_create [OF m(1) ps(1) p(1,2)] p(3) show ?thesis
    by simp
qed

lemmas mem_create_exists = mem.create_exists [unfolded memory_storage_def storage.simps]
  and mem_read = mem.read [unfolded memory_storage_def storage.simps]
  and mem_read_missing = mem.read_missing [unfolded memory_storage_def storage.simps]
  and mem_delete_all = mem.delete_all [unfolded memory_storage_def storage.simps]
  and mem_read_all = mem.read_all [unfolded memory_storage_def storage.simps]
  and mem_read_cidrs = mem.read_cidrs [unfolded memory_storage_def storage.simps]
  and mem_update = mem.update [unfolded memory_storage_def storage.simps]
  and mem_update_stale = mem.update_stale [unfolded memory_storage_def storage.simps]
  and mem_update_missing = mem.update_missing [unfolded memory_storage_def storage.simps]
  and mem_delete = mem.delete [unfolded memory_storage_def storage.simps]
  and mem_delete_missing = mem.delete_missing [unfolded memory_storage_def storage.simps]
  and mem_create_ns = mem.create_ns [unfolded memory_storage_def storage.simps]
  and mem_list_ns = mem.list_ns [unfolded memory_storage_def storage.simps]
  and mem_delete_ns = mem.delete_ns [unfolded memory_storage_def storage.simps]

interpretation fs: full_storage_laws file_storage file_inv file_view "\<lambda>ns. True"
proof unfold_locales
  fix f ns v c a p r f'
  assume f: "file_inv f"
  have inv: "memory_inv (file_parent f)"
    using f by (simp add: file_inv_def)
  { assume v: "file_view f ns = Some v"
    show "v c = Some a \<Longrightarrow> aCidr a = c \<and> c \<noteq> []" "finite (dom v)"
      using mem.view_cidr [OF inv] mem.view_finite [OF inv] v by (simp_all add: file_view_def)
    show "wf_prefix p \<Longrightarrow> Cidr p \<noteq> [] \<Longrightarrow> v (Cidr p) = None \<Longrightarrow>
      \<exists>q s'. (q = p \<or> q = p\<lparr>version := 0\<rparr>) \<and> CreatePrefix file_storage p ns f = (Inr q, s') \<and> file_inv s' \<and>
        file_view s' = (file_view f)(ns \<mapsto> v(Cidr p \<mapsto> abs_prefix q))"
      unfolding file_ops storage.simps
      by (rule exI [of _ p], simp only: simp_thms, rule writing_returns [OF f, where g = "\<lambda>w. w(ns \<mapsto> v(Cidr p \<mapsto> abs_prefix p))"],
          rule mem_create [of _ ns v]) (use v in simp_all)
    show "wf_prefix p \<Longrightarrow> v (Cidr p) \<noteq> None \<Longrightarrow> CreatePrefix file_storage p ns f = (r, f') \<Longrightarrow>
      file_inv f' \<and> file_view f' = file_view f"
      unfolding file_ops storage.simps by (erule writing_same [OF f]) (rule mem_create_exists [of _ ns v p]; use v in simp)
    show "v c = Some a \<Longrightarrow> \<exists>p s'. ReadPrefix file_storage c ns f = (Inr p, s') \<and> abs_prefix p = a \<and>
        wf_prefix p \<and> file_inv s' \<and> file_view s' = file_view f"
      unfolding file_ops storage.simps
      by (rule reading_returns [OF f, where Q = "\<lambda>p. abs_prefix p = a \<and> wf_prefix p", unfolded conj_assoc], rule mem_read [of _ ns v]) (use v in simp_all)
    show "v c = None \<Longrightarrow> \<exists>e s'. ReadPrefix file_storage c ns f = (Inl e, s') \<and> errors_is e ErrNotFound \<and>
        file_inv s' \<and> file_view s' = file_view f"
      unfolding file_ops storage.simps
      by (rule reading_fails [OF f, where Q = "\<lambda>e. errors_is e ErrNotFound", unfolded conj_assoc], rule mem_read_missing [of _ ns v]) (use v in simp_all)
    show "\<exists>s'. DeleteAllPrefixes file_storage ns f = (Inr (), s') \<and> file_inv s' \<and>
        file_view s' = (file_view f)(ns \<mapsto> Map.empty)"
      unfolding file_ops storage.simps
      by (rule writing_returns [OF f, where g = "\<lambda>w. w(ns \<mapsto> Map.empty)"], rule mem_delete_all [of _ ns v]) (use v in simp_all)
    show "\<exists>qs s'. ReadAllPrefixes file_storage ns f = (Inr qs, s') \<and> distinct (map Cidr qs) \<and>
        (\<forall>p \<in> set qs. wf_prefix p) \<and> map_of (map (\<lambda>p. (Cidr p, abs_prefix p)) qs) = v \<and>
        file_inv s' \<and> file_view s' = file_view f"
      unfolding file_ops storage.simps
      by (rule reading_returns [OF f, where Q = "\<lambda>qs. distinct (map Cidr qs) \<and> (\<forall>p \<in> set qs. wf_prefix p) \<and>
          map_of (map (\<lambda>p. (Cidr p, abs_prefix p)) qs) = v", unfolded conj_assoc], rule mem_read_all [of _ ns v]) (use v in simp_all)
    show "\<exists>cs s'. ReadAllPrefixCidrs file_storage ns f = (Inr cs, s') \<and> distinct cs \<and> set cs = dom v \<and>
        file_inv s' \<and> file_view s' = file_view f"
      unfolding file_ops storage.simps
      by (rule reading_returns [OF f, where Q = "\<lambda>cs. distinct cs \<and> set cs = dom v", unfolded conj_assoc], rule mem_read_cidrs [of _ ns v]) (use v in simp_all)
    show "wf_prefix p \<Longrightarrow> v (Cidr p) = Some a \<Longrightarrow> aVersion a = version p \<Longrightarrow>
      \<exists>s'. UpdatePrefix file_storage p ns f = (Inr (next_version p), s') \<and> file_inv s' \<and>
        file_view s' = (file_view f)(ns \<mapsto> v(Cidr p \<mapsto> abs_prefix (next_version p)))"
      unfolding file_ops storage.simps
      by (rule writing_returns [OF f, where g = "\<lambda>w. w(ns \<mapsto> v(Cidr p \<mapsto> abs_prefix (next_version p)))"], rule mem_update [of _ ns v]) (use v in simp_all)
    show "wf_prefix p \<Longrightarrow> v (Cidr p) = Some a \<Longrightarrow> aVersion a \<noteq> version p \<Longrightarrow>
      \<exists>e s'. UpdatePrefix file_storage p ns f = (Inl e, s') \<and> errors_is e ErrOptimisticLockError \<and>
        file_inv s' \<and> file_view s' = file_view f"
      unfolding file_ops storage.simps
      by (rule writing_fails [OF f, where Q = "\<lambda>e. errors_is e ErrOptimisticLockError", unfolded conj_assoc], rule mem_update_stale [of _ ns v]) (use v in simp_all)
    show "wf_prefix p \<Longrightarrow> v (Cidr p) = None \<Longrightarrow> \<exists>e s'. UpdatePrefix file_storage p ns f = (Inl e, s') \<and>
        file_inv s' \<and> file_view s' = file_view f"
      unfolding file_ops storage.simps
      by (rule writing_fails [OF f, where Q = "\<lambda>_. True", unfolded simp_thms], rule mem_update_missing [of _ ns v]) (use v in simp_all)
    show "wf_prefix p \<Longrightarrow> v (Cidr p) = Some a \<Longrightarrow> \<exists>q s'. DeletePrefix file_storage p ns f = (Inr q, s') \<and>
        (abs_prefix p = a \<longrightarrow> abs_prefix q = a) \<and> file_inv s' \<and>
        file_view s' = (file_view f)(ns \<mapsto> v(Cidr p := None))"
      unfolding file_ops storage.simps
      by (rule writing_returns_with [OF f, where Q = "\<lambda>q. abs_prefix p = a \<longrightarrow> abs_prefix q = a" and g = "\<lambda>w. w(ns \<mapsto> v(Cidr p := None))", unfolded conj_assoc], rule mem_delete [of _ ns v]) (use v in simp_all)
    show "wf_prefix p \<Longrightarrow> v (Cidr p) = None \<Longrightarrow> DeletePrefix file_storage p ns f = (r, f') \<Longrightarrow>
        file_inv f' \<and> file_view f' = file_view f"
      unfolding file_ops storage.simps by (erule writing_same [OF f]) (rule mem_delete_missing [of _ ns v p]; use v in simp)
    show "\<exists>s'. DeleteNamespace file_storage ns f = (Inr (), s') \<and> file_inv s' \<and>
        file_view s' = (file_view f)(ns := None)"
      unfolding file_ops storage.simps
      by (rule writing_returns [OF f, where g = "\<lambda>w. w(ns := None)"], rule mem_delete_ns [of _ ns v]) (use v in simp_all)
  }
  show "\<exists>s'. CreateNamespace file_storage ns f = (Inr (), s') \<and> file_inv s' \<and>
      file_view s' = (case file_view f ns of None \<Rightarrow> (file_view f)(ns \<mapsto> Map.empty) | Some m \<Rightarrow> file_view f)"
    unfolding file_ops storage.simps
    by (rule writing_returns [OF f, where g = "\<lambda>w. case w ns of None \<Rightarrow> w(ns \<mapsto> Map.empty) | Some m \<Rightarrow> w", unfolded conj_assoc], rule mem_create_ns) (use TrueI in simp_all)
  show "\<exists>nss s'. ListNamespaces file_storage f = (Inr nss, s') \<and> distinct nss \<and> set nss = dom (file_view f) \<and>
      file_inv s' \<and> file_view s' = file_view f"
    unfolding file_ops storage.simps
    by (rule reading_returns [OF f, where Q = "\<lambda>nss. distinct nss \<and> set nss = dom (file_view f)", unfolded conj_assoc]) (metis mem_list_ns)
  { assume none: "file_view f ns = None"
    note w = writing_fails [OF f, where Q = "\<lambda>e. errors_is e ErrNamespaceDoesNotExist"]
      and r = reading_fails [OF f, where Q = "\<lambda>e. errors_is e ErrNamespaceDoesNotExist"]
    show "(\<exists>e s'. CreatePrefix file_storage p ns f = (Inl e, s') \<and> errors_is e ErrNamespaceDoesNotExist \<and> file_inv s' \<and> file_view s' = file_view f) \<and>
      (\<exists>e s'. ReadPrefix file_storage c ns f = (Inl e, s') \<and> errors_is e ErrNamespaceDoesNotExist \<and> file_inv s' \<and> file_view s' = file_view f) \<and>
      (\<exists>e s'. ReadAllPrefixes file_storage ns f = (Inl e, s') \<and> errors_is e ErrNamespaceDoesNotExist \<and> file_inv s' \<and> file_view s' = file_view f) \<and>
      (\<exists>e s'. ReadAllPrefixCidrs file_storage ns f = (Inl e, s') \<and> errors_is e ErrNamespaceDoesNotExist \<and> file_inv s' \<and> file_view s' = file_view f) \<and>
      (\<exists>e s'. DeletePrefix file_storage p ns f = (Inl e, s') \<and> errors_is e ErrNamespaceDoesNotExist \<and> file_inv s' \<and> file_view s' = file_view f) \<and>
      (\<exists>e s'. DeleteNamespace file_storage ns f = (Inl e, s') \<and> errors_is e ErrNamespaceDoesNotExist \<and> file_inv s' \<and> file_view s' = file_view f) \<and>
      (Cidr p \<noteq> [] \<longrightarrow> (\<exists>e s'. UpdatePrefix file_storage p ns f = (Inl e, s') \<and> errors_is e ErrNamespaceDoesNotExist \<and> file_inv s' \<and> file_view s' = file_view f))"
      unfolding file_ops storage.simps
      by (intro conjI impI w r) (use none in \<open>auto simp: memory_no_ns memory_view_None [symmetric]\<close>)
  }
qed


text \<open>
  C24: the file storage meets the contract of a storage, as long as no other process writes the file and
  the system lets it read and write: every operation works on what the file says and leaves a file
  that says what the operation promises.
\<close>

theorem file_meets_contract: "full_storage_laws file_storage file_inv file_view (\<lambda>ns. True)"
  by (rule fs.full_storage_laws_axioms)

section \<open>Several processes, and failures\<close>

lemma getModTime_entry:
  assumes "disk_searchable (file_disk f)" "disk_entry (file_disk f) = Some (t, c)"
  shows "getModTime f = t"
  using assms by (simp add: getModTime_def os_Stat_def)

text \<open>
  A process \<open>g\<close> that shares the file with the process \<open>f\<close> that wrote it last takes over everything \<open>f\<close>
  wrote, its own internal state notwithstanding, and is in step with the file afterwards; but only if the
  modification time differs from the one it remembers: after writes at the same time it keeps its old state.
\<close>

theorem reload_takes_over_file:
  assumes f: "file_inv f" "disk_entry (file_disk f) = Some (t, c)" "file_view f defaultNamespace \<noteq> None"
    and g: "memory_inv (file_parent g)" "file_disk g = file_disk f"
  shows "if modTime g \<noteq> modTime f
    then \<exists>g'. reload g = (Inr (), g') \<and> file_inv g' \<and> file_view g' = file_view f
    else reload g = (Inr (), g)"
proof -
  have t: "t \<noteq> nullModTime" "t = modTime f" "denotes c (file_view f)" "disk_usable (file_disk f)"
    using f by (simp_all add: file_inv_def file_view_def)
  have now: "getModTime g = t"
    using getModTime_entry [of g t c] g(2) f(2) t(4) by (simp add: disk_usable_def)
  show ?thesis
  proof (cases "modTime g = modTime f")
    case True
    with reload_unchanged [of g] now t show ?thesis
      by simp
  next
    case False
    have d: "disk_searchable (file_disk g)" "disk_readable (file_disk g)"
      using g(2) t(4) by (simp_all add: disk_usable_def)
    have changed: "getModTime g = nullModTime \<or> getModTime g \<noteq> modTime g"
      using False now t(2) by simp
    have data: "if disk_entry (file_disk g) = None then file_view f = Map.empty
      else \<exists>t c. disk_entry (file_disk g) = Some (t, c) \<and> disk_readable (file_disk g) \<and> denotes c (file_view f)"
      using f(2) g(2) d(2) t(3) by auto
    obtain m' where m': "reload g = (Inr (), g\<lparr>modTime := getModTime g, file_parent := m'\<rparr>)" "memory_inv m'"
        "memory_view m' = cleared (memory_view (file_parent g)) ++ file_view f"
      using reload_changed [OF g(1) d(1) changed data] .
    have "cleared w ++ file_view f = file_view f" for w
      using f(3) by (auto simp: cleared_def map_add_def fun_eq_iff split: option.splits)
    with m'(3) have v: "memory_view m' = file_view f"
      by simp
    let ?g = "g\<lparr>modTime := getModTime g, file_parent := m'\<rparr>"
    have "file_inv ?g \<and> file_view ?g = file_view f"
      using v m'(2) f(2) g(2) t now by (simp add: file_inv_def file_view_def)
    with False m'(1) show ?thesis
      by auto
  qed
qed

text \<open>
  A state file that cannot be parsed is reported only once: the failed \<open>reload\<close> has already remembered
  its modification time, so the next \<open>CreatePrefix\<close> goes on with the internal state from before and
  overwrites the file with it.
\<close>

theorem unparsable_file_is_overwritten:
  assumes f: "memory_inv (file_parent f)" "disk_usable (file_disk f)"
    and entry: "disk_entry (file_disk f) = Some (t, c)" "parse_state c = Inl e" "t \<noteq> nullModTime" "t \<noteq> modTime f"
    and p: "memory_view (file_parent f) ns = Some v" "wf_prefix p" "Cidr p \<noteq> []" "v (Cidr p) = None"
  shows "\<exists>f1 f2 c'. file_CreatePrefix p ns f = (Inl e, f1) \<and> file_disk f1 = file_disk f \<and>
    file_CreatePrefix p ns f1 = (Inr p, f2) \<and> disk_entry (file_disk f2) = Some (disk_clock (file_disk f), c') \<and>
    denotes c' ((memory_view (file_parent f))(ns \<mapsto> v(Cidr p \<mapsto> abs_prefix p)))"
proof -
  have d: "disk_searchable (file_disk f)" "disk_readable (file_disk f)"
    using f(2) by (simp_all add: disk_usable_def)
  let ?f = "f\<lparr>modTime := t\<rparr>"
  have t: "getModTime f = t" "getModTime ?f = t"
    using getModTime_entry d(1) entry(1) by simp_all
  have "reload f = (Inl e, ?f)"
    using t(1) d entry by (simp add: reload_def os_Stat_def os_ReadFile_def)
  then have first: "file_CreatePrefix p ns f = (Inl e, ?f)"
    by (simp add: file_CreatePrefix_def writing_def)
  have second: "reload ?f = (Inr (), ?f)"
    using t(2) entry(3) by (intro reload_unchanged) simp_all
  obtain in' where in': "map_lookup (file_parent f) ns = Some in'" "v = inner_view in'"
    using p(1) by (rule memory_view_Some)
  obtain m' where m': "memory_CreatePrefix p ns (file_parent f) = (Inr p, m')" "memory_inv m'"
      "memory_view m' = (memory_view (file_parent f))(ns \<mapsto> v(Cidr p \<mapsto> abs_prefix p))"
    using memory_create [OF f(1) in'(1) p(2,3)] p(4) in'(2) by auto
  let ?g = "?f\<lparr>file_parent := m'\<rparr>"
  have g: "memory_inv (file_parent ?g)" "disk_usable (file_disk ?g)"
    using m'(2) f(2) by simp_all
  obtain f2 c' where "persist ?g = (Inr (), f2)" "disk_entry (file_disk f2) = Some (disk_clock (file_disk ?g), c')"
      "denotes c' (file_view ?g)"
    using persist_saves [OF g] by metis
  with first second m' show ?thesis
    by (intro exI [of _ ?f] exI [of _ f2] exI [of _ c'])
      (simp add: file_CreatePrefix_def writing_def on_parent_def file_view_def)
qed

text \<open>
  When the file cannot be written, \<open>CreatePrefix\<close> returns an error but the prefix stays in the internal
  state: the next \<open>ReadPrefix\<close> finds it, although the file never says so.
\<close>

theorem failed_persist_keeps_change:
  assumes f: "memory_inv (file_parent f)" "disk_searchable (file_disk f)" "\<not> disk_writable (file_disk f)"
    and entry: "disk_entry (file_disk f) = Some (modTime f, c)" "modTime f \<noteq> nullModTime"
    and p: "memory_view (file_parent f) ns = Some v" "wf_prefix p" "Cidr p \<noteq> []" "v (Cidr p) = None"
  shows "\<exists>e f1 q f2. file_CreatePrefix p ns f = (Inl e, f1) \<and> file_disk f1 = file_disk f \<and>
    file_ReadPrefix (Cidr p) ns f1 = (Inr q, f2) \<and> abs_prefix q = abs_prefix p"
proof -
  have t: "getModTime f = modTime f"
    using getModTime_entry f(2) entry(1) by blast
  obtain in' where in': "map_lookup (file_parent f) ns = Some in'" "v = inner_view in'"
    using p(1) by (rule memory_view_Some)
  obtain m' where m': "memory_CreatePrefix p ns (file_parent f) = (Inr p, m')" "memory_inv m'"
      "memory_view m' = (memory_view (file_parent f))(ns \<mapsto> v(Cidr p \<mapsto> abs_prefix p))"
    using memory_create [OF f(1) in'(1) p(2,3)] p(4) in'(2) by auto
  let ?f = "f\<lparr>file_parent := m'\<rparr>"
  obtain nss j where j: "memory_ListNamespaces m' = (Inr nss, m')" "collect_namespaces nss make_map m' = (Inr j, m')"
    using persist_data [OF m'(2)] .
  have "\<exists>e. persist ?f = (Inl e, ?f)"
    using f(3) j by (simp add: persist_def Let_def os_WriteFile_def)
  then obtain e where "persist ?f = (Inl e, ?f)" ..
  then have "file_CreatePrefix p ns f = (Inl e, ?f)"
    using reload_unchanged [of f] t entry(2) m'(1) by (simp add: file_CreatePrefix_def writing_def on_parent_def)
  moreover obtain q m2 where q: "memory_ReadPrefix (Cidr p) ns m' = (Inr q, m2)" "abs_prefix q = abs_prefix p"
    using mem_read [OF m'(2), of ns "v(Cidr p \<mapsto> abs_prefix p)" "Cidr p" "abs_prefix p"] m'(3) by auto
  moreover have "getModTime ?f = modTime ?f"
    using t by (simp add: getModTime_def)
  then have "file_ReadPrefix (Cidr p) ns ?f = (Inr q, ?f\<lparr>file_parent := m2\<rparr>)"
    using reload_unchanged [of ?f] entry(2) q(1) by (simp add: file_ReadPrefix_def reading_def on_parent_def)
  ultimately show ?thesis
    by (intro exI [of _ e] exI [of _ ?f] exI [of _ q] exI [of _ "?f\<lparr>file_parent := m2\<rparr>"]) simp
qed


section \<open>Instances\<close>

definition prefix8 :: Prefix where
  "prefix8 = \<lparr>Cidr = ''10.0.0.0/8'', ParentCidr = [], isParent = False,
     availableChildPrefixes = GoMap [], childPrefixLength = 0,
     ips = GoMap [(''10.0.0.0'', True), (''10.255.255.255'', True)], version = 0\<rparr>"

definition memory8 :: memory where
  "memory8 = GoMap [(''root'', GoMap [(''10.0.0.0/8'', prefix8)])]"

text \<open>A file that was written at time 7.\<close>

definition disk7 :: "contents \<Rightarrow> bool \<Rightarrow> disk" where
  "disk7 c writable = \<lparr>disk_entry = Some (7, c), disk_clock = 9, disk_searchable = True, disk_readable = True,
     disk_writable = writable\<rparr>"

lemma sample8: "memory_inv memory8" "wf_prefix prefix8" "Cidr prefix8 \<noteq> []"
  by code_simp+

lemma sample_view8: "memory_view memory8 defaultNamespace \<noteq> None" "memory_view NewMemory ''root'' = Some Map.empty"
  by (simp_all add: memory_view_def memory8_def map_lookup_def defaultNamespace_def memory_inv_NewMemory)

theorem reload_takes_over_file_witness:
  "\<exists>f g'. file_view f = memory_view memory8 \<and> reload (NewLocalFile ''ipam.json'' (file_disk f)) = (Inr (), g') \<and>
     file_view g' = memory_view memory8"
proof -
  let ?f0 = "(NewLocalFile ''ipam.json'' (disk7 Short True))\<lparr>file_parent := memory8\<rparr>"
  have "memory_inv (file_parent ?f0)" "disk_usable (file_disk ?f0)"
    using sample8(1) by (simp_all add: disk_usable_def disk7_def nullModTime_def NewLocalFile_def)
  then obtain f c where f: "file_inv f" "file_view f = memory_view memory8" "disk_entry (file_disk f) = Some (9, c)"
    by (rule persist_saves) (auto simp: file_view_def disk7_def NewLocalFile_def)
  let ?g = "NewLocalFile ''ipam.json'' (file_disk f)"
  have "memory_inv (file_parent ?g)" "file_disk ?g = file_disk f" "modTime ?g \<noteq> modTime f"
    using f(1,3) memory_inv_NewMemory(1) by (auto simp: NewLocalFile_def file_inv_def)
  moreover have "file_view f defaultNamespace \<noteq> None"
    using sample_view8(1) f(2) by simp
  ultimately have "\<exists>g'. reload ?g = (Inr (), g') \<and> file_inv g' \<and> file_view g' = file_view f"
    using reload_takes_over_file [OF f(1,3), of ?g] by auto
  with f(2) show ?thesis
    by auto
qed

theorem unparsable_file_is_overwritten_witness:
  "\<exists>e f1 f2 c'. file_CreatePrefix prefix8 ''root'' (NewLocalFile ''ipam.json'' (disk7 (Text None) True)) = (Inl e, f1) \<and>
     file_CreatePrefix prefix8 ''root'' f1 = (Inr prefix8, f2) \<and> disk_entry (file_disk f2) = Some (9, c') \<and> c' \<noteq> Text None"
proof -
  let ?f = "NewLocalFile ''ipam.json'' (disk7 (Text None) True)"
  obtain e where e: "parse_state (Text None) = Inl e"
    by (simp add: parse_state_def)
  have f: "memory_inv (file_parent ?f)" "disk_usable (file_disk ?f)" "disk_entry (file_disk ?f) = Some (7, Text None)"
    "memory_view (file_parent ?f) ''root'' = Some Map.empty" "7 \<noteq> nullModTime" "7 \<noteq> modTime ?f"
    "disk_clock (file_disk ?f) = 9"
    using memory_inv_NewMemory(1) sample_view8(2)
    by (simp_all add: disk_usable_def disk7_def nullModTime_def NewLocalFile_def)
  have "\<not> denotes (Text None) v" for v
    by (simp add: denotes_def parse_state_def)
  with unparsable_file_is_overwritten [OF f(1-3) e f(5,6,4) sample8(2,3)] show ?thesis
    unfolding f(7) by fastforce
qed

theorem failed_persist_keeps_change_witness:
  "\<exists>e f1 q f2. file_CreatePrefix prefix8 ''root'' ((NewLocalFile ''ipam.json'' (disk7 Short False))\<lparr>modTime := 7\<rparr>) = (Inl e, f1) \<and>
     file_ReadPrefix ''10.0.0.0/8'' ''root'' f1 = (Inr q, f2)"
proof -
  let ?f = "(NewLocalFile ''ipam.json'' (disk7 Short False))\<lparr>modTime := 7\<rparr>"
  have f: "memory_inv (file_parent ?f)" "disk_searchable (file_disk ?f)" "\<not> disk_writable (file_disk ?f)"
    "disk_entry (file_disk ?f) = Some (modTime ?f, Short)" "modTime ?f \<noteq> nullModTime"
    "memory_view (file_parent ?f) ''root'' = Some Map.empty"
    using memory_inv_NewMemory(1) sample_view8(2) by (simp_all add: disk7_def nullModTime_def NewLocalFile_def)
  have "Cidr prefix8 = ''10.0.0.0/8''"
    by (simp add: prefix8_def)
  with failed_persist_keeps_change [OF f sample8(2,3)] show ?thesis
    by fastforce
qed

end
