(* ===== verification/Documents.thy ===== *)
theory Documents
  imports Memory
begin

text \<open>
  Stores that keep prefixes as documents by cidr: when such a set of documents is in order, and the
  abstract prefixes it stands for; \<open>dec\<close> reads a document, \<open>hash_ok\<close> and \<open>hash_view\<close> are about JSON. Shared by the Redis, etcd, MongoDB and SQL storages.
\<close>

definition namespaceKey :: string where
  "namespaceKey = ''namespaces''"

text \<open>A map of a document that was written and read: the same entries, in any order.\<close>

definition same_map :: "bool gomap \<Rightarrow> bool gomap \<Rightarrow> bool" where
  "same_map m m' \<longleftrightarrow> (m' = NilMap \<longleftrightarrow> m = NilMap) \<and> map_lookup m' = map_lookup m \<and>
     distinct (map fst (map_entries m'))"

definition docs_ok :: "('doc \<Rightarrow> Prefix result) \<Rightarrow> (string \<rightharpoonup> 'doc) \<Rightarrow> bool" where
  "docs_ok dec h \<longleftrightarrow> finite (dom h) \<and> (\<forall>c js. h c = Some js \<longrightarrow> (\<exists>p. dec js = Inr p \<and> entry_ok c p))"

definition docs_view :: "('doc \<Rightarrow> Prefix result) \<Rightarrow> (string \<rightharpoonup> 'doc) \<Rightarrow> namespace_view" where
  "docs_view dec h c = (case h c of None \<Rightarrow> None
     | Some js \<Rightarrow> (case dec js of Inl _ \<Rightarrow> None | Inr p \<Rightarrow> Some (abs_prefix p)))"

abbreviation hash_ok :: "(string \<rightharpoonup> json) \<Rightarrow> bool" where
  "hash_ok \<equiv> docs_ok fromJSON"

abbreviation hash_view :: "(string \<rightharpoonup> json) \<Rightarrow> namespace_view" where
  "hash_view \<equiv> docs_view fromJSON"

lemmas hash_ok_def = docs_ok_def [of fromJSON]
  and hash_view_def = docs_view_def [of fromJSON]

lemma docs_view_entry:
  assumes "docs_ok dec h" "docs_view dec h c = Some a"
  obtains js p where "h c = Some js" "dec js = Inr p" "abs_prefix p = a" "wf_prefix p" "Cidr p = c" "c \<noteq> []"
proof -
  obtain js where js: "h c = Some js"
    using assms(2) by (auto simp: docs_view_def split: option.split_asm)
  then obtain p where "dec js = Inr p" "entry_ok c p"
    using assms(1) by (auto simp: docs_ok_def)
  with js assms(2) that show ?thesis
    by (auto simp: docs_view_def entry_ok_def)
qed

lemma docs_view_None: "docs_ok dec h \<Longrightarrow> docs_view dec h c = None \<longleftrightarrow> h c = None"
  by (cases "h c") (fastforce simp: docs_ok_def docs_view_def split: sum.split)+

lemma docs_ok_empty [simp]: "docs_ok dec Map.empty" "docs_view dec Map.empty = Map.empty"
  by (simp_all add: docs_ok_def docs_view_def fun_eq_iff)

lemma docs_store:
  assumes "docs_ok dec h" "dec js = Inr p" "entry_ok c p"
  shows "docs_ok dec (h(c \<mapsto> js))" "docs_view dec (h(c \<mapsto> js)) = (docs_view dec h)(c \<mapsto> abs_prefix p)"
  using assms by (auto simp: docs_ok_def docs_view_def fun_eq_iff)

lemma docs_remove:
  assumes "docs_ok dec h"
  shows "docs_ok dec (h(c := None))" "docs_view dec (h(c := None)) = (docs_view dec h)(c := None)"
  using assms by (auto simp: docs_ok_def docs_view_def fun_eq_iff)

lemmas hash_view_entry = docs_view_entry [of fromJSON]
  and hash_view_None = docs_view_None [of fromJSON]
  and hash_ok_empty = docs_ok_empty [of fromJSON]
  and hash_remove = docs_remove [of fromJSON]

lemma hash_store:
  assumes "hash_ok h" "wf_prefix p" "Cidr p \<noteq> []"
  shows "hash_ok (h(Cidr p \<mapsto> marshal_prefix (toPrefixJSON p)))"
    "hash_view (h(Cidr p \<mapsto> marshal_prefix (toPrefixJSON p))) = (hash_view h)(Cidr p \<mapsto> abs_prefix p)"
proof -
  have "fromJSON (marshal_prefix (toPrefixJSON p)) = Inr (reread p)" "entry_ok (Cidr p) (reread p)"
    using assms(2,3) by (simp_all add: fromJSON_marshal wf_json_ok entry_ok_def reread_wf)
  from docs_store [OF assms(1) this] show "hash_ok (h(Cidr p \<mapsto> marshal_prefix (toPrefixJSON p)))"
    "hash_view (h(Cidr p \<mapsto> marshal_prefix (toPrefixJSON p))) = (hash_view h)(Cidr p \<mapsto> abs_prefix p)"
    using assms(2) by (simp_all add: reread_abs)
qed

text \<open>\<open>strings.TrimPrefix\<close>.\<close>

definition TrimPrefix :: "string \<Rightarrow> string \<Rightarrow> string" where
  "TrimPrefix s p = (if take (length p) s = p then drop (length p) s else s)"

text \<open>A list of prefixes as the map that \<open>ReadAllPrefixes\<close> has to return.\<close>

lemma map_of_prefixes:
  assumes "distinct (map Cidr ps)" "\<And>c a. m c = Some a \<longleftrightarrow> (\<exists>p \<in> set ps. Cidr p = c \<and> abs_prefix p = a)"
  shows "map_of (map (\<lambda>p. (Cidr p, abs_prefix p)) ps) = m"
proof
  fix c
  have d: "distinct (map fst (map (\<lambda>p. (Cidr p, abs_prefix p)) ps))"
    using assms(1) by (simp add: comp_def)
  have "map_of (map (\<lambda>p. (Cidr p, abs_prefix p)) ps) c = Some a \<longleftrightarrow> m c = Some a" for a
    unfolding map_of_eq_Some_iff [OF d] assms(2) by auto
  then show "map_of (map (\<lambda>p. (Cidr p, abs_prefix p)) ps) c = m c"
    by (metis option.exhaust)
qed

lemma docs_view_Some_iff:
  "docs_view dec h c = Some a \<longleftrightarrow> (\<exists>js p. h c = Some js \<and> dec js = Inr p \<and> abs_prefix p = a)"
  by (auto simp: docs_view_def split: option.split sum.split)

lemma docs_okD: "docs_ok dec h \<Longrightarrow> h c = Some js \<Longrightarrow> \<exists>p. dec js = Inr p \<and> wf_prefix p \<and> Cidr p = c \<and> c \<noteq> []"
  by (auto simp: docs_ok_def entry_ok_def)

lemmas hash_view_Some_iff = docs_view_Some_iff [of fromJSON]
  and hash_okD = docs_okD [of fromJSON]

text \<open>The documents of a map, decoded one by one in any order.\<close>

lemma docs_list:
  assumes h: "docs_ok dec h" and cs: "distinct cs" "set cs = dom h"
  obtains ps where "list_all2 (\<lambda>c p. \<exists>js. h c = Some js \<and> dec js = Inr p) cs ps" "distinct (map Cidr ps)"
    "map Cidr ps = cs" "\<forall>p \<in> set ps. wf_prefix p" "map_of (map (\<lambda>p. (Cidr p, abs_prefix p)) ps) = docs_view dec h"
proof -
  define g where "g c = projr (dec (the (h c)))" for c
  have g: "dec js = Inr (g c) \<and> wf_prefix (g c) \<and> Cidr (g c) = c" if "h c = Some js" for c js
    using docs_okD [OF h that] that by (auto simp: g_def)
  have all: "\<forall>c \<in> set cs. \<exists>js. h c = Some js \<and> dec js = Inr (g c)" "\<forall>c \<in> set cs. Cidr (g c) = c \<and> wf_prefix (g c)"
    using g cs(2) by blast+
  then have cid: "map Cidr (map g cs) = cs"
    by (simp add: map_idI)
  have "docs_view dec h c = Some a \<longleftrightarrow> (\<exists>p \<in> set (map g cs). Cidr p = c \<and> abs_prefix p = a)" for c a
  proof
    assume "docs_view dec h c = Some a"
    then obtain js p where p: "h c = Some js" "dec js = Inr p" "abs_prefix p = a"
      unfolding docs_view_Some_iff by blast
    with g [OF p(1)] cs(2) show "\<exists>p \<in> set (map g cs). Cidr p = c \<and> abs_prefix p = a"
      by (intro bexI [of _ "g c"]) auto
  next
    assume "\<exists>p \<in> set (map g cs). Cidr p = c \<and> abs_prefix p = a"
    then obtain c' where c': "c' \<in> set cs" "Cidr (g c') = c" "abs_prefix (g c') = a"
      by auto
    then obtain js where "h c' = Some js"
      using cs(2) by blast
    with g [OF this] c' show "docs_view dec h c = Some a"
      unfolding docs_view_Some_iff by auto
  qed
  moreover have "distinct (map Cidr (map g cs))"
    using cid cs(1) by simp
  ultimately show ?thesis
    using that [of "map g cs"] map_of_prefixes [of "map g cs" "docs_view dec h"] all cid
    by (simp add: list_all2_map2 list.rel_refl_strong list_all2_same)
qed

text \<open>A prefix for the instances.\<close>

definition prefix12 :: Prefix where
  "prefix12 = \<lparr>Cidr = ''172.16.0.0/12'', ParentCidr = [], isParent = False,
     availableChildPrefixes = GoMap [], childPrefixLength = 0,
     ips = GoMap [(''172.16.0.0'', True), (''172.31.255.255'', True)], version = 0\<rparr>"

definition json12 :: json where
  "json12 = marshal_prefix (toPrefixJSON prefix12)"

lemma prefix12_ok: "wf_prefix prefix12" "Cidr prefix12 = ''172.16.0.0/12''" "version prefix12 = 0"
  by (simp_all add: prefix12_def wf_prefix_def map_ok_def)

lemma json12_ok:
  "hash_ok [''172.16.0.0/12'' \<mapsto> json12]"
  "hash_view [''172.16.0.0/12'' \<mapsto> json12] = [''172.16.0.0/12'' \<mapsto> abs_prefix prefix12]"
  using hash_store [OF hash_ok_empty(1) prefix12_ok(1)] prefix12_ok(2) by (simp_all add: json12_def)

end
