(* ===== verification/Redis_Storage.thy ===== *)
theory Redis_Storage
  imports Documents
begin

text \<open>
  The storage in Redis, \<^verbatim>\<open>src/redis.go\<close>. The Redis server and its Go client are not part of the
  repository: the commands the code sends are a parameter \<open>rdb\<close>, a record of operations on the state of
  the server. The locale \<open>redis_laws\<close> states what the Redis documentation says of them, over the map \<open>kv\<close>
  from keys to values, for a server that answers and that no other client writes meanwhile; under these laws
  the storage meets the contract of \<open>Storage\<close>. \<open>ref_redis\<close> is a concrete server on which the laws hold.

  A value that the code stores is a JSON text, represented by its tree. \<open>HGet\<close> returns \<open>None\<close> where the
  client returns the error \<open>redis.Nil\<close>; the text is empty then.
\<close>

section \<open>The commands\<close>

record 'd rdb =
  SIsMember :: "string \<Rightarrow> string \<Rightarrow> ('d, bool) comp"
  SAdd :: "string \<Rightarrow> string \<Rightarrow> ('d, unit) comp"
  SRem :: "string \<Rightarrow> string \<Rightarrow> ('d, unit) comp"
  SMembers :: "string \<Rightarrow> ('d, string list) comp"
  HExists :: "string \<Rightarrow> string \<Rightarrow> ('d, bool) comp"
  HGet :: "string \<Rightarrow> string \<Rightarrow> ('d, json option) comp"
  HGetAll :: "string \<Rightarrow> ('d, (string \<times> json) list) comp"
  HSet :: "string \<Rightarrow> string \<Rightarrow> json \<Rightarrow> ('d, unit) comp"
  HDel :: "string \<Rightarrow> string \<Rightarrow> ('d, unit) comp"
  Del :: "string \<Rightarrow> ('d, unit) comp"
  Watch :: "string \<Rightarrow> ('d, string \<times> string \<times> json) comp \<Rightarrow> ('d, unit) comp"

text \<open>
  \<open>Watch key txf\<close> runs \<open>txf\<close>, which reads and then queues one \<open>HSet\<close> (the key, field and value it
  returns); the queued command is executed if the watched key has not changed in between.
\<close>

section \<open>State and operations\<close>

record 'd redis =
  r_db :: 'd
  r_namespaces :: "unit gomap"

definition on_rdb :: "('d, 'a) comp \<Rightarrow> ('d redis, 'a) comp" where
  "on_rdb op r = (case op (r_db r) of (x, d) \<Rightarrow> (x, r\<lparr>r_db := d\<rparr>))"

definition redis_checkNamespaceExists :: "'d rdb \<Rightarrow> string \<Rightarrow> ('d redis, unit) comp" where
  "redis_checkNamespaceExists rdb namespace r =
     (if map_lookup (r_namespaces r) namespace \<noteq> None then (Inr (), r)
      else (case on_rdb (SIsMember rdb namespaceKey namespace) r of
        (Inl err, r) \<Rightarrow> (Inl (Errorf ''error checking namespace: %w'' [err]), r)
      | (Inr found, r) \<Rightarrow>
          if \<not> found then (Inl (Sentinel ErrNamespaceDoesNotExist), r)
          else (case map_insert (r_namespaces r) namespace () of
              Inl err \<Rightarrow> (Inl err, r)
            | Inr nss \<Rightarrow> (Inr (), r\<lparr>r_namespaces := nss\<rparr>))))"

definition redis_CreatePrefix :: "'d rdb \<Rightarrow> Prefix \<Rightarrow> string \<Rightarrow> ('d redis, Prefix) comp" where
  "redis_CreatePrefix rdb prefix namespace r =
     (case redis_checkNamespaceExists rdb namespace r of
        (Inl err, r) \<Rightarrow> (Inl err, r)
      | (Inr _, r) \<Rightarrow>
     (case on_rdb (HExists rdb namespace (Cidr prefix)) r of
        (Inl err, r) \<Rightarrow> (Inl (Errorf ''unable to read existing prefix:%v, error:%w'' [err]), r)
      | (Inr existing, r) \<Rightarrow>
      if existing then (Inl (Errorf ''prefix:%v already exists'' []), r)
      else (case Prefix_toJSON prefix of
        Inl err \<Rightarrow> (Inl err, r)
      | Inr pfx \<Rightarrow>
     (case on_rdb (HSet rdb namespace (Cidr prefix) pfx) r of
        (Inl err, r) \<Rightarrow> (Inl err, r)
      | (Inr _, r) \<Rightarrow> (Inr prefix, r)))))"

definition redis_ReadPrefix :: "'d rdb \<Rightarrow> string \<Rightarrow> string \<Rightarrow> ('d redis, Prefix) comp" where
  "redis_ReadPrefix rdb prefix namespace r =
     (case redis_checkNamespaceExists rdb namespace r of
        (Inl err, r) \<Rightarrow> (Inl err, r)
      | (Inr _, r) \<Rightarrow>
     (case on_rdb (HGet rdb namespace prefix) r of
        (Inl err, r) \<Rightarrow> (Inl (Errorf ''%w unable to read existing prefix:%v, error:%w'' [Sentinel ErrNotFound, err]), r)
      | (Inr None, r) \<Rightarrow>
          (Inl (Errorf ''%w unable to read existing prefix:%v, error:%w'' [Sentinel ErrNotFound, Errorf ''redis: nil'' []]), r)
      | (Inr (Some result), r) \<Rightarrow> (fromJSON result, r)))"

definition redis_DeleteAllPrefixes :: "'d rdb \<Rightarrow> string \<Rightarrow> ('d redis, unit) comp" where
  "redis_DeleteAllPrefixes rdb namespace r =
     (case redis_checkNamespaceExists rdb namespace r of
        (Inl err, r) \<Rightarrow> (Inl err, r)
      | (Inr _, r) \<Rightarrow> on_rdb (Del rdb namespace) r)"

text \<open>The loop of \<open>ReadAllPrefixes\<close>.\<close>

primrec read_values :: "(string \<times> json) list \<Rightarrow> Prefix list \<Rightarrow> Prefix list result" where
  "read_values [] result = Inr result"
| "read_values (e # es) result = (case fromJSON (snd e) of
      Inl err \<Rightarrow> Inl err
    | Inr pfx \<Rightarrow> read_values es (result @ [pfx]))"

definition redis_ReadAllPrefixes :: "'d rdb \<Rightarrow> string \<Rightarrow> ('d redis, Prefix list) comp" where
  "redis_ReadAllPrefixes rdb namespace r =
     (case redis_checkNamespaceExists rdb namespace r of
        (Inl err, r) \<Rightarrow> (Inl err, r)
      | (Inr _, r) \<Rightarrow>
     (case on_rdb (HGetAll rdb namespace) r of
        (Inl err, r) \<Rightarrow> (Inl (Errorf ''unable to get all prefix cidrs:%w'' [err]), r)
      | (Inr pfxs, r) \<Rightarrow> (read_values pfxs [], r)))"

definition redis_ReadAllPrefixCidrs :: "'d rdb \<Rightarrow> string \<Rightarrow> ('d redis, string list) comp" where
  "redis_ReadAllPrefixCidrs rdb namespace r =
     (case redis_checkNamespaceExists rdb namespace r of
        (Inl err, r) \<Rightarrow> (Inl err, r)
      | (Inr _, r) \<Rightarrow>
     (case on_rdb (HGetAll rdb namespace) r of
        (Inl err, r) \<Rightarrow> (Inl (Errorf ''unable to get all prefix cidrs:%w'' [err]), r)
      | (Inr pfxs, r) \<Rightarrow> (Inr (map fst pfxs), r)))"

text \<open>The function \<open>txf\<close> of \<open>UpdatePrefix\<close>; the empty text of a missing value is no JSON.\<close>

definition redis_txf :: "'d rdb \<Rightarrow> string \<Rightarrow> Prefix \<Rightarrow> 64 word \<Rightarrow> json \<Rightarrow> ('d, string \<times> string \<times> json) comp" where
  "redis_txf rdb namespace prefix oldVersion pn d =
     (case HGet rdb namespace (Cidr prefix) d of
        (Inl err, d) \<Rightarrow> (Inl err, d)
      | (Inr p, d) \<Rightarrow>
     (case (case p of
          None \<Rightarrow> Inl (Errorf ''unable to unmarshal prefix:%w'' [Errorf ''unexpected end of JSON input'' []])
        | Some js \<Rightarrow> fromJSON js) of
        Inl err \<Rightarrow> (Inl err, d)
      | Inr oldPrefix \<Rightarrow>
          if version oldPrefix \<noteq> oldVersion then
            (Inl (Errorf ''%w: unable to update prefix:%s'' [Sentinel ErrOptimisticLockError]), d)
          else (Inr (namespace, Cidr prefix, pn), d)))"

definition redis_UpdatePrefix :: "'d rdb \<Rightarrow> Prefix \<Rightarrow> string \<Rightarrow> ('d redis, Prefix) comp" where
  "redis_UpdatePrefix rdb prefix namespace r =
     (case redis_checkNamespaceExists rdb namespace r of
        (Inl err, r) \<Rightarrow> (Inl err, r)
      | (Inr _, r) \<Rightarrow>
      let oldVersion = version prefix; prefix = prefix\<lparr>version := oldVersion + 1\<rparr> in
     (case Prefix_toJSON prefix of
        Inl err \<Rightarrow> (Inl err, r)
      | Inr pn \<Rightarrow>
     (case on_rdb (Watch rdb namespace (redis_txf rdb namespace prefix oldVersion pn)) r of
        (Inl err, r) \<Rightarrow> (Inl err, r)
      | (Inr _, r) \<Rightarrow> (Inr prefix, r))))"

definition redis_DeletePrefix :: "'d rdb \<Rightarrow> Prefix \<Rightarrow> string \<Rightarrow> ('d redis, Prefix) comp" where
  "redis_DeletePrefix rdb prefix namespace r =
     (case redis_checkNamespaceExists rdb namespace r of
        (Inl err, r) \<Rightarrow> (Inl err, r)
      | (Inr _, r) \<Rightarrow>
     (case on_rdb (HDel rdb namespace (Cidr prefix)) r of
        (Inl err, r) \<Rightarrow> (Inl err, r)
      | (Inr _, r) \<Rightarrow> (Inr (deepCopy prefix), r)))"

definition redis_CreateNamespace :: "'d rdb \<Rightarrow> string \<Rightarrow> ('d redis, unit) comp" where
  "redis_CreateNamespace rdb namespace r =
     (if map_lookup (r_namespaces r) namespace \<noteq> None then (Inr (), r)
      else (case on_rdb (SAdd rdb namespaceKey namespace) r of
        (Inl err, r) \<Rightarrow> (Inl err, r)
      | (Inr _, r) \<Rightarrow> (case map_insert (r_namespaces r) namespace () of
            Inl err \<Rightarrow> (Inl err, r)
          | Inr nss \<Rightarrow> (Inr (), r\<lparr>r_namespaces := nss\<rparr>))))"

definition redis_ListNamespaces :: "'d rdb \<Rightarrow> ('d redis, string list) comp" where
  "redis_ListNamespaces rdb r = on_rdb (SMembers rdb namespaceKey) r"

definition redis_DeleteNamespace :: "'d rdb \<Rightarrow> string \<Rightarrow> ('d redis, unit) comp" where
  "redis_DeleteNamespace rdb namespace r =
     (case redis_DeleteAllPrefixes rdb namespace r of
        (Inl err, r) \<Rightarrow> (Inl err, r)
      | (Inr _, r) \<Rightarrow>
     (case on_rdb (SRem rdb namespaceKey namespace) r of
        (Inl err, r) \<Rightarrow> (Inl err, r)
      | (Inr _, r) \<Rightarrow> (Inr (), r\<lparr>r_namespaces := map_delete (r_namespaces r) namespace\<rparr>)))"

text \<open>\<open>newRedis\<close> after it connected: it fails if the default namespace cannot be created.\<close>

definition newRedis :: "'d rdb \<Rightarrow> 'd \<Rightarrow> unit result \<times> 'd redis" where
  "newRedis rdb d = redis_CreateNamespace rdb defaultNamespace \<lparr>r_db = d, r_namespaces = make_map\<rparr>"

definition redis_storage :: "'d rdb \<Rightarrow> 'd redis storage" where
  "redis_storage rdb = \<lparr>Name = ''redis'', CreatePrefix = redis_CreatePrefix rdb,
     ReadPrefix = redis_ReadPrefix rdb, DeleteAllPrefixes = redis_DeleteAllPrefixes rdb,
     ReadAllPrefixes = redis_ReadAllPrefixes rdb, ReadAllPrefixCidrs = redis_ReadAllPrefixCidrs rdb,
     UpdatePrefix = redis_UpdatePrefix rdb, DeletePrefix = redis_DeletePrefix rdb,
     CreateNamespace = redis_CreateNamespace rdb, ListNamespaces = redis_ListNamespaces rdb,
     DeleteNamespace = redis_DeleteNamespace rdb\<rparr>"

section \<open>What Redis promises\<close>

datatype rvalue = RSet "string set" | RHash "string \<rightharpoonup> json"

text \<open>A key that does not exist is an empty set and an empty hash; commands for the other type fail.\<close>

definition as_set :: "rvalue option \<Rightarrow> string set option" where
  "as_set v = (case v of None \<Rightarrow> Some {} | Some (RSet S) \<Rightarrow> Some S | Some (RHash _) \<Rightarrow> None)"

definition as_hash :: "rvalue option \<Rightarrow> (string \<rightharpoonup> json) option" where
  "as_hash v = (case v of None \<Rightarrow> Some Map.empty | Some (RHash h) \<Rightarrow> Some h | Some (RSet _) \<Rightarrow> None)"

definition of_set :: "string set \<Rightarrow> rvalue option" where
  "of_set S = (if S = {} then None else Some (RSet S))"

definition of_hash :: "(string \<rightharpoonup> json) \<Rightarrow> rvalue option" where
  "of_hash h = (if h = Map.empty then None else Some (RHash h))"

lemma as_of [simp]: "as_set (of_set S) = Some S" "as_hash (of_hash h) = Some h"
  by (simp_all add: as_set_def of_set_def as_hash_def of_hash_def)

lemma as_hash_None [simp]: "as_hash None = Some Map.empty"
  by (simp add: as_hash_def)

locale redis_laws =
  fixes rdb :: "'d rdb"
    and up :: "'d \<Rightarrow> bool"
    and kv :: "'d \<Rightarrow> string \<rightharpoonup> rvalue"
  assumes sismember: "up d \<Longrightarrow> as_set (kv d k) = Some S \<Longrightarrow>
      \<exists>d'. SIsMember rdb k x d = (Inr (x \<in> S), d') \<and> up d' \<and> kv d' = kv d"
    and sadd: "up d \<Longrightarrow> as_set (kv d k) = Some S \<Longrightarrow>
      \<exists>d'. SAdd rdb k x d = (Inr (), d') \<and> up d' \<and> kv d' = (kv d)(k := of_set (insert x S))"
    and srem: "up d \<Longrightarrow> as_set (kv d k) = Some S \<Longrightarrow>
      \<exists>d'. SRem rdb k x d = (Inr (), d') \<and> up d' \<and> kv d' = (kv d)(k := of_set (S - {x}))"
    and smembers: "up d \<Longrightarrow> as_set (kv d k) = Some S \<Longrightarrow>
      \<exists>xs d'. SMembers rdb k d = (Inr xs, d') \<and> distinct xs \<and> set xs = S \<and> up d' \<and> kv d' = kv d"
    and hexists: "up d \<Longrightarrow> as_hash (kv d k) = Some h \<Longrightarrow>
      \<exists>d'. HExists rdb k f d = (Inr (h f \<noteq> None), d') \<and> up d' \<and> kv d' = kv d"
    and hexists_wrong: "up d \<Longrightarrow> as_hash (kv d k) = None \<Longrightarrow>
      \<exists>e d'. HExists rdb k f d = (Inl e, d') \<and> up d' \<and> kv d' = kv d"
    and hget: "up d \<Longrightarrow> as_hash (kv d k) = Some h \<Longrightarrow>
      \<exists>d'. HGet rdb k f d = (Inr (h f), d') \<and> up d' \<and> kv d' = kv d"
    and hgetall: "up d \<Longrightarrow> as_hash (kv d k) = Some h \<Longrightarrow>
      \<exists>es d'. HGetAll rdb k d = (Inr es, d') \<and> distinct (map fst es) \<and> map_of es = h \<and> up d' \<and> kv d' = kv d"
    and hset: "up d \<Longrightarrow> as_hash (kv d k) = Some h \<Longrightarrow>
      \<exists>d'. HSet rdb k f v d = (Inr (), d') \<and> up d' \<and> kv d' = (kv d)(k := of_hash (h(f \<mapsto> v)))"
    and hdel: "up d \<Longrightarrow> as_hash (kv d k) = Some h \<Longrightarrow>
      \<exists>d'. HDel rdb k f d = (Inr (), d') \<and> up d' \<and> kv d' = (kv d)(k := of_hash (h(f := None)))"
    and del: "up d \<Longrightarrow> \<exists>d'. Del rdb k d = (Inr (), d') \<and> up d' \<and> kv d' = (kv d)(k := None)"
    and watch_Inl: "up d \<Longrightarrow> txf d = (Inl e, d') \<Longrightarrow> Watch rdb k txf d = (Inl e, d')"
    and watch_Inr: "up d \<Longrightarrow> txf d = (Inr (k, f, v), d') \<Longrightarrow> up d' \<Longrightarrow> kv d' = kv d \<Longrightarrow>
      Watch rdb k txf d = HSet rdb k f v d'"


section \<open>Invariant and view\<close>

text \<open>
  The database holds the set of the namespaces and a hash for each namespace that has prefixes, nothing
  else; the cache holds names of the set only.
\<close>

definition redis_names :: "(string \<rightharpoonup> rvalue) \<Rightarrow> string set" where
  "redis_names db = (case as_set (db namespaceKey) of Some S \<Rightarrow> S | None \<Rightarrow> {})"

definition db_ok :: "(string \<rightharpoonup> rvalue) \<Rightarrow> bool" where
  "db_ok db \<longleftrightarrow> as_set (db namespaceKey) \<noteq> None \<and> namespaceKey \<notin> redis_names db \<and>
     (\<forall>ns \<in> redis_names db. \<exists>h. as_hash (db ns) = Some h \<and> hash_ok h) \<and>
     (\<forall>ns. ns \<notin> redis_names db \<longrightarrow> ns \<noteq> namespaceKey \<longrightarrow> db ns = None)"

definition db_view :: "(string \<rightharpoonup> rvalue) \<Rightarrow> store_view" where
  "db_view db ns = (if ns \<in> redis_names db then map_option hash_view (as_hash (db ns)) else None)"

definition redis_inv :: "('d \<Rightarrow> bool) \<Rightarrow> ('d \<Rightarrow> string \<rightharpoonup> rvalue) \<Rightarrow> 'd redis \<Rightarrow> bool" where
  "redis_inv up kv r \<longleftrightarrow> up (r_db r) \<and> map_ok (r_namespaces r) \<and> db_ok (kv (r_db r)) \<and>
     map_keys (r_namespaces r) \<subseteq> redis_names (kv (r_db r))"

definition redis_view :: "('d \<Rightarrow> string \<rightharpoonup> rvalue) \<Rightarrow> 'd redis \<Rightarrow> store_view" where
  "redis_view kv r = db_view (kv (r_db r))"

lemma db_view_Some:
  assumes "db_ok db" "db_view db ns = Some m"
  obtains h where "ns \<in> redis_names db" "as_hash (db ns) = Some h" "hash_ok h" "m = hash_view h" "ns \<noteq> namespaceKey"
  using assms by (fastforce simp: db_view_def db_ok_def split: if_split_asm)

lemma db_view_None: "db_ok db \<Longrightarrow> db_view db ns = None \<longleftrightarrow> ns \<notin> redis_names db"
  by (fastforce simp: db_view_def db_ok_def)

lemma dom_db_view: "db_ok db \<Longrightarrow> dom (db_view db) = redis_names db"
  by (simp add: set_eq_iff domIff db_view_None)

lemma db_names: "db_ok db \<Longrightarrow> as_set (db namespaceKey) = Some (redis_names db)"
  by (auto simp: db_ok_def redis_names_def)

lemma db_write:
  assumes db: "db_ok db" "ns \<in> redis_names db" and h: "hash_ok h"
  shows "db_ok (db(ns := of_hash h))" "db_view (db(ns := of_hash h)) = (db_view db)(ns \<mapsto> hash_view h)"
    "redis_names (db(ns := of_hash h)) = redis_names db"
proof -
  have ns: "ns \<noteq> namespaceKey"
    using db by (auto simp: db_ok_def)
  then show names: "redis_names (db(ns := of_hash h)) = redis_names db"
    by (simp add: redis_names_def)
  show "db_ok (db(ns := of_hash h))"
    using db h ns unfolding db_ok_def names by auto
  show "db_view (db(ns := of_hash h)) = (db_view db)(ns \<mapsto> hash_view h)"
    using db(2) unfolding db_view_def names fun_eq_iff by simp
qed

lemma db_add_name:
  assumes db: "db_ok db" and ns: "ns \<noteq> namespaceKey"
  shows "db_ok (db(namespaceKey := of_set (insert ns (redis_names db))))"
    "redis_names (db(namespaceKey := of_set (insert ns (redis_names db)))) = insert ns (redis_names db)"
    "db_view (db(namespaceKey := of_set (insert ns (redis_names db)))) =
      (case db_view db ns of None \<Rightarrow> (db_view db)(ns \<mapsto> Map.empty) | Some m \<Rightarrow> db_view db)"
proof -
  let ?db = "db(namespaceKey := of_set (insert ns (redis_names db)))"
  show names: "redis_names ?db = insert ns (redis_names db)"
    by (simp add: redis_names_def)
  have out: "db ns = None" if "ns \<notin> redis_names db"
    using db ns that by (auto simp: db_ok_def)
  show "db_ok ?db"
    unfolding db_ok_def names using db ns out by (auto simp: db_ok_def)
  have eq: "db_view ?db ns' = (if ns' = ns then map_option hash_view (as_hash (db ns)) else db_view db ns')" for ns'
    using db ns unfolding db_view_def names by (auto simp: db_ok_def)
  show "db_view ?db = (case db_view db ns of None \<Rightarrow> (db_view db)(ns \<mapsto> Map.empty) | Some m \<Rightarrow> db_view db)"
  proof (cases "ns \<in> redis_names db")
    case True
    then have "db_view db ns = map_option hash_view (as_hash (db ns))"
      by (simp add: db_view_def)
    moreover have "db_view db ns \<noteq> None"
      using db_view_None [OF db, of ns] True by simp
    ultimately show ?thesis
      using eq
      by (auto simp: fun_eq_iff)
  next
    case False
    with eq out [OF False] db_view_None [OF db, of ns] show ?thesis
      by (simp add: fun_eq_iff)
  qed
qed

lemma db_remove_name:
  assumes db: "db_ok db" and ns: "ns \<in> redis_names db"
  shows "db_ok (db(ns := None, namespaceKey := of_set (redis_names db - {ns})))"
    "redis_names (db(ns := None, namespaceKey := of_set (redis_names db - {ns}))) = redis_names db - {ns}"
    "db_view (db(ns := None, namespaceKey := of_set (redis_names db - {ns}))) = (db_view db)(ns := None)"
proof -
  let ?db = "db(ns := None, namespaceKey := of_set (redis_names db - {ns}))"
  show names: "redis_names ?db = redis_names db - {ns}"
    by (simp add: redis_names_def)
  show "db_ok ?db"
    unfolding db_ok_def names using db ns by (auto simp: db_ok_def)
  show "db_view ?db = (db_view db)(ns := None)"
    unfolding db_view_def names fun_eq_iff using db by (auto simp: db_ok_def)
qed

lemma read_values_view:
  assumes "\<forall>(c, js) \<in> set es. \<exists>p. fromJSON js = Inr p \<and> entry_ok c p"
  shows "\<exists>ps. read_values es acc = Inr (acc @ ps) \<and> map Cidr ps = map fst es \<and> (\<forall>p \<in> set ps. wf_prefix p) \<and>
    map_of (map (\<lambda>p. (Cidr p, abs_prefix p)) ps) = hash_view (map_of es)"
  using assms
proof (induction es arbitrary: acc)
  case Nil
  then show ?case
    by simp
next
  case (Cons e es)
  obtain c js where e: "e = (c, js)"
    by (cases e)
  obtain p where p: "fromJSON js = Inr p" "entry_ok c p"
    using Cons.prems by (auto simp: e)
  obtain ps where ps: "read_values es (acc @ [p]) = Inr ((acc @ [p]) @ ps)" "map Cidr ps = map fst es" "\<forall>p \<in> set ps. wf_prefix p"
      "map_of (map (\<lambda>p. (Cidr p, abs_prefix p)) ps) = hash_view (map_of es)"
    using Cons.IH [of "acc @ [p]"] Cons.prems by auto
  show ?case
    using p ps by (intro exI [of _ "p # ps"]) (auto simp: e entry_ok_def hash_view_def fun_eq_iff)
qed

section \<open>The contract holds\<close>

context redis_laws
begin

abbreviation rinv :: "'d redis \<Rightarrow> bool" where
  "rinv \<equiv> redis_inv up kv"

lemma check_found:
  assumes r: "rinv r" "redis_view kv r ns = Some m"
  obtains r' h where "redis_checkNamespaceExists rdb ns r = (Inr (), r')" "rinv r'" "redis_view kv r' = redis_view kv r"
    "ns \<in> redis_names (kv (r_db r'))" "as_hash (kv (r_db r') ns) = Some h" "hash_ok h" "m = hash_view h"
proof -
  have inv: "up (r_db r)" "map_ok (r_namespaces r)" "db_ok (kv (r_db r))" "map_keys (r_namespaces r) \<subseteq> redis_names (kv (r_db r))"
    using r(1) by (simp_all add: redis_inv_def)
  obtain h where h: "ns \<in> redis_names (kv (r_db r))" "as_hash (kv (r_db r) ns) = Some h" "hash_ok h" "m = hash_view h"
    using db_view_Some [OF inv(3)] r(2) unfolding redis_view_def by metis
  show ?thesis
  proof (cases "map_lookup (r_namespaces r) ns")
    case (Some u)
    with that [of r h] r(1) h show ?thesis
      by (simp add: redis_checkNamespaceExists_def)
  next
    case None
    obtain d' where d': "SIsMember rdb namespaceKey ns (r_db r) = (Inr True, d')" "up d'" "kv d' = kv (r_db r)"
      using sismember [OF inv(1) db_names [OF inv(3)], of ns] h(1) by auto
    obtain nss where nss: "map_insert (r_namespaces r) ns () = Inr nss"
      using map_ok_insert_ex [OF inv(2)] by blast
    let ?r = "r\<lparr>r_db := d', r_namespaces := nss\<rparr>"
    have "redis_checkNamespaceExists rdb ns r = (Inr (), ?r)"
      using None d'(1) nss by (simp add: redis_checkNamespaceExists_def on_rdb_def)
    moreover have "rinv ?r"
      using inv d' h(1) map_insert_ok [OF nss inv(2)] map_keys_insert [OF nss] by (simp add: redis_inv_def)
    ultimately show ?thesis
      using that [of ?r h] d'(3) h by (simp add: redis_view_def)
  qed
qed

lemma check_missing:
  assumes r: "rinv r" "redis_view kv r ns = None"
  obtains r' where "redis_checkNamespaceExists rdb ns r = (Inl (Sentinel ErrNamespaceDoesNotExist), r')" "rinv r'"
    "redis_view kv r' = redis_view kv r"
proof -
  have inv: "up (r_db r)" "map_ok (r_namespaces r)" "db_ok (kv (r_db r))" "map_keys (r_namespaces r) \<subseteq> redis_names (kv (r_db r))"
    using r(1) by (simp_all add: redis_inv_def)
  have ns: "ns \<notin> redis_names (kv (r_db r))"
    using db_view_None [OF inv(3)] r(2) by (simp add: redis_view_def)
  then have "map_lookup (r_namespaces r) ns = None"
    using inv(4) by (auto simp: map_keys_def)
  moreover obtain d' where "SIsMember rdb namespaceKey ns (r_db r) = (Inr False, d')" "up d'" "kv d' = kv (r_db r)"
    using sismember [OF inv(1) db_names [OF inv(3)], of ns] ns by auto
  ultimately show ?thesis
    using that [of "r\<lparr>r_db := d'\<rparr>"] inv
    by (simp add: redis_checkNamespaceExists_def on_rdb_def redis_inv_def redis_view_def)
qed

text \<open>A command that reads, and one that replaces the hash of a namespace.\<close>

lemma on_rdb_read:
  assumes r: "rinv r" and op: "\<exists>d'. op (r_db r) = (x, d') \<and> up d' \<and> kv d' = kv (r_db r)"
  obtains r' where "on_rdb op r = (x, r')" "rinv r'" "redis_view kv r' = redis_view kv r" "kv (r_db r') = kv (r_db r)"
proof -
  obtain d' where "op (r_db r) = (x, d')" "up d'" "kv d' = kv (r_db r)"
    using op by blast
  with r that [of "r\<lparr>r_db := d'\<rparr>"] show ?thesis
    by (simp add: on_rdb_def redis_inv_def redis_view_def)
qed

lemma on_rdb_write:
  assumes r: "rinv r" "ns \<in> redis_names (kv (r_db r))" and h: "hash_ok h"
    and op: "\<exists>d'. op (r_db r) = (x, d') \<and> up d' \<and> kv d' = (kv (r_db r))(ns := of_hash h)"
  obtains r' where "on_rdb op r = (x, r')" "rinv r'" "redis_view kv r' = (redis_view kv r)(ns \<mapsto> hash_view h)"
proof -
  obtain d' where d': "op (r_db r) = (x, d')" "up d'" "kv d' = (kv (r_db r))(ns := of_hash h)"
    using op by blast
  have db: "db_ok (kv (r_db r))"
    using r(1) by (simp add: redis_inv_def)
  note w = db_write [OF db r(2) h, folded d'(3)]
  have "on_rdb op r = (x, r\<lparr>r_db := d'\<rparr>)"
    using d'(1) by (simp add: on_rdb_def)
  moreover have "rinv (r\<lparr>r_db := d'\<rparr>)"
    using r(1) d'(2) w by (simp add: redis_inv_def)
  ultimately show ?thesis
    by (rule that) (simp add: redis_view_def w)
qed

lemma redis_create:
  assumes r: "rinv r" "redis_view kv r ns = Some m" and p: "wf_prefix p" "Cidr p \<noteq> []" "m (Cidr p) = None"
  shows "\<exists>r'. redis_CreatePrefix rdb p ns r = (Inr p, r') \<and> rinv r' \<and>
    redis_view kv r' = (redis_view kv r)(ns \<mapsto> m(Cidr p \<mapsto> abs_prefix p))"
proof -
  obtain r1 h where c: "redis_checkNamespaceExists rdb ns r = (Inr (), r1)" "rinv r1" "redis_view kv r1 = redis_view kv r"
      "ns \<in> redis_names (kv (r_db r1))" "as_hash (kv (r_db r1) ns) = Some h" "hash_ok h" "m = hash_view h"
    using check_found [OF r] .
  have up1: "up (r_db r1)"
    using c(2) by (simp add: redis_inv_def)
  have new: "h (Cidr p) = None"
    using p(3) c(6,7) hash_view_None by simp
  obtain r2 where r2: "on_rdb (HExists rdb ns (Cidr p)) r1 = (Inr False, r2)" "rinv r2" "redis_view kv r2 = redis_view kv r1"
      "kv (r_db r2) = kv (r_db r1)"
    by (rule on_rdb_read [OF c(2), of "HExists rdb ns (Cidr p)" "Inr False"])
      (use hexists [OF up1 c(5), of "Cidr p"] new in simp)
  let ?js = "marshal_prefix (toPrefixJSON p)"
  note h' = hash_store [OF c(6) p(1,2)]
  have up2: "up (r_db r2)" and hash2: "as_hash (kv (r_db r2) ns) = Some h" and in2: "ns \<in> redis_names (kv (r_db r2))"
    using r2(2,4) c(4,5) by (simp_all add: redis_inv_def)
  obtain r3 where r3: "on_rdb (HSet rdb ns (Cidr p) ?js) r2 = (Inr (), r3)" "rinv r3"
      "redis_view kv r3 = (redis_view kv r2)(ns \<mapsto> hash_view (h(Cidr p \<mapsto> ?js)))"
    by (rule on_rdb_write [where op = "HSet rdb ns (Cidr p) ?js", OF r2(2) in2 h'(1) hset [OF up2 hash2, of "Cidr p" ?js]])
  have "redis_CreatePrefix rdb p ns r = (Inr p, r3)"
    using c(1) r2(1) r3(1) by (simp add: redis_CreatePrefix_def Prefix_toJSON_def)
  with r3(2,3) r2(3) c(3,7) h'(2) show ?thesis
    by auto
qed

lemma redis_create_exists:
  assumes r: "rinv r" "redis_view kv r ns = Some m" and p: "m (Cidr p) \<noteq> None"
  obtains e r' where "redis_CreatePrefix rdb p ns r = (Inl e, r')" "rinv r'" "redis_view kv r' = redis_view kv r"
proof -
  obtain r1 h where c: "redis_checkNamespaceExists rdb ns r = (Inr (), r1)" "rinv r1" "redis_view kv r1 = redis_view kv r"
      "ns \<in> redis_names (kv (r_db r1))" "as_hash (kv (r_db r1) ns) = Some h" "hash_ok h" "m = hash_view h"
    using check_found [OF r] .
  have up1: "up (r_db r1)"
    using c(2) by (simp add: redis_inv_def)
  have old: "h (Cidr p) \<noteq> None"
    using p c(6,7) hash_view_None by simp
  obtain r2 where r2: "on_rdb (HExists rdb ns (Cidr p)) r1 = (Inr True, r2)" "rinv r2" "redis_view kv r2 = redis_view kv r1"
    by (rule on_rdb_read [OF c(2), of "HExists rdb ns (Cidr p)" "Inr True"])
      (use hexists [OF up1 c(5), of "Cidr p"] old in simp)
  then have "redis_CreatePrefix rdb p ns r = (Inl (Errorf ''prefix:%v already exists'' []), r2)"
    using c(1) by (simp add: redis_CreatePrefix_def)
  then show ?thesis
    by (rule that) (use r2 c(3) in simp_all)
qed

lemma redis_read_cases:
  assumes r: "rinv r" "redis_view kv r ns = Some m"
  obtains h r' x where "hash_ok h" "m = hash_view h" "redis_ReadPrefix rdb c ns r = (x, r')" "rinv r'"
    "redis_view kv r' = redis_view kv r"
    "x = (case h c of None \<Rightarrow> Inl (Errorf ''%w unable to read existing prefix:%v, error:%w'' [Sentinel ErrNotFound, Errorf ''redis: nil'' []])
      | Some js \<Rightarrow> fromJSON js)"
proof -
  obtain r1 h where c: "redis_checkNamespaceExists rdb ns r = (Inr (), r1)" "rinv r1" "redis_view kv r1 = redis_view kv r"
      "ns \<in> redis_names (kv (r_db r1))" "as_hash (kv (r_db r1) ns) = Some h" "hash_ok h" "m = hash_view h"
    using check_found [OF r] .
  have up1: "up (r_db r1)"
    using c(2) by (simp add: redis_inv_def)
  obtain r2 where r2: "on_rdb (HGet rdb ns c) r1 = (Inr (h c), r2)" "rinv r2" "redis_view kv r2 = redis_view kv r1"
    by (rule on_rdb_read [OF c(2), of "HGet rdb ns c" "Inr (h c)"]) (use hget [OF up1 c(5), of c] in simp)
  show ?thesis
    by (rule that [OF c(6,7) _ r2(2) _ refl])
      (use c(1,3) r2 in \<open>auto simp: redis_ReadPrefix_def split: option.split\<close>)
qed

lemma redis_update_cases:
  assumes r: "rinv r" "redis_view kv r ns = Some m" and p: "wf_prefix p"
  shows "if m (Cidr p) = None then \<exists>e r'. redis_UpdatePrefix rdb p ns r = (Inl e, r') \<and> rinv r' \<and> redis_view kv r' = redis_view kv r
    else if aVersion (the (m (Cidr p))) \<noteq> version p then \<exists>e r'. redis_UpdatePrefix rdb p ns r = (Inl e, r') \<and>
      errors_is e ErrOptimisticLockError \<and> rinv r' \<and> redis_view kv r' = redis_view kv r
    else \<exists>r'. redis_UpdatePrefix rdb p ns r = (Inr (next_version p), r') \<and> rinv r' \<and>
      redis_view kv r' = (redis_view kv r)(ns \<mapsto> m(Cidr p \<mapsto> abs_prefix (next_version p)))"
proof -
  obtain r1 h where c: "redis_checkNamespaceExists rdb ns r = (Inr (), r1)" "rinv r1" "redis_view kv r1 = redis_view kv r"
      "ns \<in> redis_names (kv (r_db r1))" "as_hash (kv (r_db r1) ns) = Some h" "hash_ok h" "m = hash_view h"
    using check_found [OF r] .
  have up1: "up (r_db r1)"
    using c(2) by (simp add: redis_inv_def)
  let ?p = "next_version p" and ?js = "marshal_prefix (toPrefixJSON (next_version p))"
  let ?txf = "redis_txf rdb ns ?p (version p) ?js"
  obtain d2 where d2: "HGet rdb ns (Cidr p) (r_db r1) = (Inr (h (Cidr p)), d2)" "up d2" "kv d2 = kv (r_db r1)"
    using hget [OF up1 c(5), of "Cidr p"] by blast
  have run: "redis_UpdatePrefix rdb p ns r = (case on_rdb (Watch rdb ns ?txf) r1 of
      (Inl err, r) \<Rightarrow> (Inl err, r) | (Inr _, r) \<Rightarrow> (Inr ?p, r))"
    unfolding next_version_def using c(1) by (simp add: redis_UpdatePrefix_def Let_def Prefix_toJSON_def)
  have fail: "\<exists>r'. redis_UpdatePrefix rdb p ns r = (Inl e, r') \<and> rinv r' \<and> redis_view kv r' = redis_view kv r"
    if txf: "?txf (r_db r1) = (Inl e, d2)" for e
  proof -
    obtain r2 where r2: "on_rdb (Watch rdb ns ?txf) r1 = (Inl e, r2)" "rinv r2" "redis_view kv r2 = redis_view kv r1"
      by (rule on_rdb_read [OF c(2), of "Watch rdb ns ?txf" "Inl e"]) (use watch_Inl [where txf = ?txf, OF up1 txf] d2 in auto)
    with run c(3) show ?thesis
      by auto
  qed
  show ?thesis
  proof (cases "h (Cidr p)")
    case None
    then have "?txf (r_db r1) = (Inl (Errorf ''unable to unmarshal prefix:%w'' [Errorf ''unexpected end of JSON input'' []]), d2)"
      using d2(1) by (simp add: redis_txf_def)
    moreover have "m (Cidr p) = None"
      using None c(6,7) hash_view_None by simp
    ultimately show ?thesis
      using fail by auto
  next
    case (Some js)
    obtain q where q: "fromJSON js = Inr q" "entry_ok (Cidr p) q"
      using c(6) Some by (auto simp: hash_ok_def)
    then have m: "m (Cidr p) = Some (abs_prefix q)"
      using c(7) Some by (simp add: hash_view_def)
    have ne: "Cidr ?p \<noteq> []"
      using q(2) by (simp add: entry_ok_def)
    show ?thesis
    proof (cases "version q = version p")
      case False
      then have "?txf (r_db r1) = (Inl (Errorf ''%w: unable to update prefix:%s'' [Sentinel ErrOptimisticLockError]), d2)"
        using d2(1) Some q(1) by (simp add: redis_txf_def)
      from fail [OF this] False m show ?thesis
        by auto
    next
      case True
      then have txf: "?txf (r_db r1) = (Inr (ns, Cidr p, ?js), d2)"
        using d2(1) Some q(1) by (simp add: redis_txf_def)
      have hash2: "as_hash (kv d2 ns) = Some h"
        using c(5) d2(3) by simp
      note h' = hash_store [OF c(6), of ?p, simplified, OF p ne [simplified]]
      have "\<exists>d'. Watch rdb ns ?txf (r_db r1) = (Inr (), d') \<and> up d' \<and> kv d' = (kv (r_db r1))(ns := of_hash (h(Cidr p \<mapsto> ?js)))"
        using watch_Inr [where txf = ?txf, OF up1 txf d2(2,3)] hset [OF d2(2) hash2, of "Cidr p" ?js] d2(3) by simp
      then obtain r2 where "on_rdb (Watch rdb ns ?txf) r1 = (Inr (), r2)" "rinv r2"
          "redis_view kv r2 = (redis_view kv r1)(ns \<mapsto> hash_view (h(Cidr p \<mapsto> ?js)))"
        by (rule on_rdb_write [where op = "Watch rdb ns ?txf", OF c(2,4) h'(1)])
      with run c(3,7) h'(2) True m show ?thesis
        by auto
    qed
  qed
qed

lemma redis_delete:
  assumes r: "rinv r" "redis_view kv r ns = Some m"
  obtains r' where "redis_DeletePrefix rdb p ns r = (Inr (deepCopy p), r')" "rinv r'"
    "redis_view kv r' = (redis_view kv r)(ns \<mapsto> m(Cidr p := None))"
proof -
  obtain r1 h where c: "redis_checkNamespaceExists rdb ns r = (Inr (), r1)" "rinv r1" "redis_view kv r1 = redis_view kv r"
      "ns \<in> redis_names (kv (r_db r1))" "as_hash (kv (r_db r1) ns) = Some h" "hash_ok h" "m = hash_view h"
    using check_found [OF r] .
  have up1: "up (r_db r1)"
    using c(2) by (simp add: redis_inv_def)
  note h' = hash_remove [OF c(6), of "Cidr p"]
  obtain r2 where r2: "on_rdb (HDel rdb ns (Cidr p)) r1 = (Inr (), r2)" "rinv r2"
      "redis_view kv r2 = (redis_view kv r1)(ns \<mapsto> hash_view (h(Cidr p := None)))"
    by (rule on_rdb_write [where op = "HDel rdb ns (Cidr p)", OF c(2,4) h'(1) hdel [OF up1 c(5), of "Cidr p"]])
  show ?thesis
    by (rule that [OF _ r2(2)]) (use c(1,3,7) r2(1,3) h'(2) in \<open>simp_all add: redis_DeletePrefix_def\<close>)
qed

lemma redis_delete_all:
  assumes r: "rinv r" "redis_view kv r ns = Some m"
  obtains r' where "redis_DeleteAllPrefixes rdb ns r = (Inr (), r')" "rinv r'"
    "redis_view kv r' = (redis_view kv r)(ns \<mapsto> Map.empty)" "kv (r_db r') ns = None" "ns \<in> redis_names (kv (r_db r'))"
proof -
  obtain r1 h where c: "redis_checkNamespaceExists rdb ns r = (Inr (), r1)" "rinv r1" "redis_view kv r1 = redis_view kv r"
      "ns \<in> redis_names (kv (r_db r1))" "as_hash (kv (r_db r1) ns) = Some h" "hash_ok h" "m = hash_view h"
    using check_found [OF r] .
  have inv: "up (r_db r1)" "db_ok (kv (r_db r1))"
    using c(2) by (simp_all add: redis_inv_def)
  obtain d' where d': "Del rdb ns (r_db r1) = (Inr (), d')" "up d'" "kv d' = (kv (r_db r1))(ns := None)"
    using del [OF inv(1)] by blast
  have e: "of_hash Map.empty = None"
    by (simp add: of_hash_def)
  note w = db_write [OF inv(2) c(4) hash_ok_empty(1), unfolded e, folded d'(3)]
  let ?r = "r1\<lparr>r_db := d'\<rparr>"
  have "redis_DeleteAllPrefixes rdb ns r = (Inr (), ?r)"
    using c(1) d'(1) by (simp add: redis_DeleteAllPrefixes_def on_rdb_def)
  moreover have "rinv ?r"
    using c(2) d'(2) w by (simp add: redis_inv_def)
  ultimately show ?thesis
    by (rule that) (use w c(3,4) d'(3) in \<open>simp_all add: redis_view_def\<close>)
qed

lemma redis_hgetall:
  assumes r: "rinv r" "redis_view kv r ns = Some m"
  obtains r1 r2 es h where "redis_checkNamespaceExists rdb ns r = (Inr (), r1)" "on_rdb (HGetAll rdb ns) r1 = (Inr es, r2)"
    "rinv r2" "redis_view kv r2 = redis_view kv r" "distinct (map fst es)" "map_of es = h" "hash_ok h" "m = hash_view h"
proof -
  obtain r1 h where c: "redis_checkNamespaceExists rdb ns r = (Inr (), r1)" "rinv r1" "redis_view kv r1 = redis_view kv r"
      "ns \<in> redis_names (kv (r_db r1))" "as_hash (kv (r_db r1) ns) = Some h" "hash_ok h" "m = hash_view h"
    using check_found [OF r] .
  have "up (r_db r1)"
    using c(2) by (simp add: redis_inv_def)
  then obtain es d' where es: "HGetAll rdb ns (r_db r1) = (Inr es, d')" "distinct (map fst es)" "map_of es = h" "up d'"
      "kv d' = kv (r_db r1)"
    using hgetall c(5) by metis
  obtain r2 where r2: "on_rdb (HGetAll rdb ns) r1 = (Inr es, r2)" "rinv r2" "redis_view kv r2 = redis_view kv r1"
    by (rule on_rdb_read [OF c(2), of "HGetAll rdb ns" "Inr es"]) (use es in auto)
  show ?thesis
    by (rule that [OF c(1) r2(1,2) _ es(2,3) c(6,7)]) (use r2(3) c(3) in simp)
qed

lemma redis_read_all:
  assumes r: "rinv r" "redis_view kv r ns = Some m"
  shows "\<exists>ps r'. redis_ReadAllPrefixes rdb ns r = (Inr ps, r') \<and> distinct (map Cidr ps) \<and> (\<forall>p \<in> set ps. wf_prefix p) \<and>
    map_of (map (\<lambda>p. (Cidr p, abs_prefix p)) ps) = m \<and> rinv r' \<and> redis_view kv r' = redis_view kv r"
proof -
  obtain r1 r2 es h where e: "redis_checkNamespaceExists rdb ns r = (Inr (), r1)" "on_rdb (HGetAll rdb ns) r1 = (Inr es, r2)"
      "rinv r2" "redis_view kv r2 = redis_view kv r" "distinct (map fst es)" "map_of es = h" "hash_ok h" "m = hash_view h"
    using redis_hgetall [OF r] .
  have entries: "\<forall>(c, js) \<in> set es. \<exists>p. fromJSON js = Inr p \<and> entry_ok c p"
    using e(5-7) by (auto simp: hash_ok_def)
  obtain ps where ps: "read_values es [] = Inr ps" "map Cidr ps = map fst es" "\<forall>p \<in> set ps. wf_prefix p"
      "map_of (map (\<lambda>p. (Cidr p, abs_prefix p)) ps) = hash_view (map_of es)"
    using read_values_view [OF entries, of "[]"] by auto
  then have "redis_ReadAllPrefixes rdb ns r = (Inr ps, r2)"
    using e(1,2) by (simp add: redis_ReadAllPrefixes_def)
  moreover have "distinct (map Cidr ps)"
    using ps(2) e(5) by simp
  ultimately show ?thesis
    using ps(3,4) e(3,4,6,8) by blast
qed

lemma redis_read_cidrs:
  assumes r: "rinv r" "redis_view kv r ns = Some m"
  shows "\<exists>cs r'. redis_ReadAllPrefixCidrs rdb ns r = (Inr cs, r') \<and> distinct cs \<and> set cs = dom m \<and>
    rinv r' \<and> redis_view kv r' = redis_view kv r"
proof -
  obtain r1 r2 es h where e: "redis_checkNamespaceExists rdb ns r = (Inr (), r1)" "on_rdb (HGetAll rdb ns) r1 = (Inr es, r2)"
      "rinv r2" "redis_view kv r2 = redis_view kv r" "distinct (map fst es)" "map_of es = h" "hash_ok h" "m = hash_view h"
    using redis_hgetall [OF r] .
  have "dom m = dom h"
    unfolding e(8) using hash_view_None [OF e(7)] by (simp add: set_eq_iff domIff)
  then have "set (map fst es) = dom m"
    using e(6) by (simp add: dom_map_of_conv_image_fst [symmetric])
  with e show ?thesis
    by (intro exI [of _ "map fst es"] exI [of _ r2]) (simp add: redis_ReadAllPrefixCidrs_def)
qed

lemma redis_create_ns:
  assumes r: "rinv r" and ns: "ns \<noteq> namespaceKey"
  shows "\<exists>r'. redis_CreateNamespace rdb ns r = (Inr (), r') \<and> rinv r' \<and>
    redis_view kv r' = (case redis_view kv r ns of None \<Rightarrow> (redis_view kv r)(ns \<mapsto> Map.empty) | Some m \<Rightarrow> redis_view kv r)"
proof (cases "map_lookup (r_namespaces r) ns")
  case (Some u)
  then have "ns \<in> redis_names (kv (r_db r))"
    using r by (auto simp: redis_inv_def map_keys_def)
  then have "redis_view kv r ns \<noteq> None"
    using r db_view_None [of "kv (r_db r)" ns] by (simp add: redis_inv_def redis_view_def)
  with Some r show ?thesis
    by (auto simp: redis_CreateNamespace_def)
next
  case None
  have inv: "up (r_db r)" "map_ok (r_namespaces r)" "db_ok (kv (r_db r))" "map_keys (r_namespaces r) \<subseteq> redis_names (kv (r_db r))"
    using r by (simp_all add: redis_inv_def)
  obtain d' where d': "SAdd rdb namespaceKey ns (r_db r) = (Inr (), d')" "up d'"
      "kv d' = (kv (r_db r))(namespaceKey := of_set (insert ns (redis_names (kv (r_db r)))))"
    using sadd [OF inv(1) db_names [OF inv(3)], of ns] by blast
  obtain nss where nss: "map_insert (r_namespaces r) ns () = Inr nss"
    using map_ok_insert_ex [OF inv(2)] by blast
  note w = db_add_name [OF inv(3) ns, folded d'(3)]
  let ?r = "r\<lparr>r_db := d', r_namespaces := nss\<rparr>"
  have "redis_CreateNamespace rdb ns r = (Inr (), ?r)"
    using None d'(1) nss by (simp add: redis_CreateNamespace_def on_rdb_def)
  moreover have "rinv ?r"
    using d'(2) w(1,2) inv(4) map_insert_ok [OF nss inv(2)] map_keys_insert [OF nss] by (auto simp: redis_inv_def)
  ultimately show ?thesis
    using w(3) unfolding redis_view_def by auto
qed

lemma redis_list_ns:
  assumes r: "rinv r"
  shows "\<exists>nss r'. redis_ListNamespaces rdb r = (Inr nss, r') \<and> distinct nss \<and> set nss = dom (redis_view kv r) \<and>
    rinv r' \<and> redis_view kv r' = redis_view kv r"
proof -
  have inv: "up (r_db r)" "db_ok (kv (r_db r))"
    using r by (simp_all add: redis_inv_def)
  obtain nss d' where nss: "SMembers rdb namespaceKey (r_db r) = (Inr nss, d')" "distinct nss"
      "set nss = redis_names (kv (r_db r))" "up d'" "kv d' = kv (r_db r)"
    using smembers [OF inv(1) db_names [OF inv(2)]] by blast
  obtain r' where "on_rdb (SMembers rdb namespaceKey) r = (Inr nss, r')" "rinv r'" "redis_view kv r' = redis_view kv r"
    by (rule on_rdb_read [OF r, of "SMembers rdb namespaceKey" "Inr nss"]) (use nss in auto)
  with nss(2,3) dom_db_view [OF inv(2)] show ?thesis
    by (auto simp: redis_ListNamespaces_def redis_view_def)
qed

lemma redis_delete_ns:
  assumes r: "rinv r" "redis_view kv r ns = Some m"
  shows "\<exists>r'. redis_DeleteNamespace rdb ns r = (Inr (), r') \<and> rinv r' \<and> redis_view kv r' = (redis_view kv r)(ns := None)"
proof -
  obtain r1 where r1: "redis_DeleteAllPrefixes rdb ns r = (Inr (), r1)" "rinv r1"
      "redis_view kv r1 = (redis_view kv r)(ns \<mapsto> Map.empty)" "kv (r_db r1) ns = None" "ns \<in> redis_names (kv (r_db r1))"
    using redis_delete_all [OF r] .
  have inv: "up (r_db r1)" "map_ok (r_namespaces r1)" "db_ok (kv (r_db r1))" "map_keys (r_namespaces r1) \<subseteq> redis_names (kv (r_db r1))"
    using r1(2) by (simp_all add: redis_inv_def)
  obtain d' where d': "SRem rdb namespaceKey ns (r_db r1) = (Inr (), d')" "up d'"
      "kv d' = (kv (r_db r1))(namespaceKey := of_set (redis_names (kv (r_db r1)) - {ns}))"
    using srem [OF inv(1) db_names [OF inv(3)], of ns] by blast
  have same: "(kv (r_db r1))(ns := None) = kv (r_db r1)"
    using r1(4) by auto
  note w = db_remove_name [OF inv(3) r1(5), unfolded same, folded d'(3)]
  let ?r = "r1\<lparr>r_db := d', r_namespaces := map_delete (r_namespaces r1) ns\<rparr>"
  have "redis_DeleteNamespace rdb ns r = (Inr (), ?r)"
    using r1(1) d'(1) by (simp add: redis_DeleteNamespace_def on_rdb_def)
  moreover have "rinv ?r"
    using inv(2,4) d'(2) w(1,2) by (auto simp: redis_inv_def)
  moreover have "redis_view kv ?r = (redis_view kv r)(ns := None)"
    using w(3) r1(3) by (simp add: redis_view_def)
  ultimately show ?thesis
    by blast
qed

sublocale redis: full_storage_laws "redis_storage rdb" rinv "redis_view kv" "\<lambda>ns. ns \<noteq> namespaceKey"
proof unfold_locales
  fix r ns m c a p x r'
  assume r: "rinv r"
  have db: "db_ok (kv (r_db r))"
    using r by (simp add: redis_inv_def)
  { assume m: "redis_view kv r ns = Some m"
    obtain h where h: "hash_ok h" "m = hash_view h"
      using db_view_Some [OF db] m unfolding redis_view_def by metis
    show "m c = Some a \<Longrightarrow> aCidr a = c \<and> c \<noteq> []"
      unfolding h(2) by (erule hash_view_entry [OF h(1)]) auto
    have "dom m = dom h"
      unfolding h(2) using hash_view_None [OF h(1)] by (simp add: set_eq_iff domIff)
    with h(1) show "finite (dom m)"
      by (simp add: hash_ok_def)
    show "wf_prefix p \<Longrightarrow> Cidr p \<noteq> [] \<Longrightarrow> m (Cidr p) = None \<Longrightarrow>
      \<exists>q s'. (q = p \<or> q = p\<lparr>version := 0\<rparr>) \<and> CreatePrefix (redis_storage rdb) p ns r = (Inr q, s') \<and> rinv s' \<and>
        redis_view kv s' = (redis_view kv r)(ns \<mapsto> m(Cidr p \<mapsto> abs_prefix q))"
      using redis_create [OF r m] by (simp add: redis_storage_def) blast
    show "wf_prefix p \<Longrightarrow> m (Cidr p) \<noteq> None \<Longrightarrow> CreatePrefix (redis_storage rdb) p ns r = (x, r') \<Longrightarrow>
      rinv r' \<and> redis_view kv r' = redis_view kv r"
      using redis_create_exists [OF r m, of p] by (auto simp: redis_storage_def)
    show "m c = Some a \<Longrightarrow> \<exists>p s'. ReadPrefix (redis_storage rdb) c ns r = (Inr p, s') \<and> abs_prefix p = a \<and>
        wf_prefix p \<and> rinv s' \<and> redis_view kv s' = redis_view kv r"
      by (rule redis_read_cases [OF r m, of c]) (auto simp: redis_storage_def elim!: hash_view_entry)
    show "m c = None \<Longrightarrow> \<exists>e s'. ReadPrefix (redis_storage rdb) c ns r = (Inl e, s') \<and> errors_is e ErrNotFound \<and>
        rinv s' \<and> redis_view kv s' = redis_view kv r"
      by (rule redis_read_cases [OF r m, of c]) (auto simp: redis_storage_def hash_view_None)
    show "\<exists>s'. DeleteAllPrefixes (redis_storage rdb) ns r = (Inr (), s') \<and> rinv s' \<and>
        redis_view kv s' = (redis_view kv r)(ns \<mapsto> Map.empty)"
      using redis_delete_all [OF r m] by (auto simp: redis_storage_def)
    show "\<exists>ps s'. ReadAllPrefixes (redis_storage rdb) ns r = (Inr ps, s') \<and> distinct (map Cidr ps) \<and>
        (\<forall>p \<in> set ps. wf_prefix p) \<and> map_of (map (\<lambda>p. (Cidr p, abs_prefix p)) ps) = m \<and>
        rinv s' \<and> redis_view kv s' = redis_view kv r"
      using redis_read_all [OF r m] by (simp add: redis_storage_def)
    show "\<exists>cs s'. ReadAllPrefixCidrs (redis_storage rdb) ns r = (Inr cs, s') \<and> distinct cs \<and> set cs = dom m \<and>
        rinv s' \<and> redis_view kv s' = redis_view kv r"
      using redis_read_cidrs [OF r m] by (simp add: redis_storage_def)
    show "wf_prefix p \<Longrightarrow> m (Cidr p) = Some a \<Longrightarrow> aVersion a = version p \<Longrightarrow>
      \<exists>s'. UpdatePrefix (redis_storage rdb) p ns r = (Inr (next_version p), s') \<and> rinv s' \<and>
        redis_view kv s' = (redis_view kv r)(ns \<mapsto> m(Cidr p \<mapsto> abs_prefix (next_version p)))"
      using redis_update_cases [OF r m, of p] by (simp add: redis_storage_def)
    show "wf_prefix p \<Longrightarrow> m (Cidr p) = Some a \<Longrightarrow> aVersion a \<noteq> version p \<Longrightarrow>
      \<exists>e s'. UpdatePrefix (redis_storage rdb) p ns r = (Inl e, s') \<and> errors_is e ErrOptimisticLockError \<and>
        rinv s' \<and> redis_view kv s' = redis_view kv r"
      using redis_update_cases [OF r m, of p] by (simp add: redis_storage_def)
    show "wf_prefix p \<Longrightarrow> m (Cidr p) = None \<Longrightarrow> \<exists>e s'. UpdatePrefix (redis_storage rdb) p ns r = (Inl e, s') \<and>
        rinv s' \<and> redis_view kv s' = redis_view kv r"
      using redis_update_cases [OF r m, of p] by (simp add: redis_storage_def)
    show "wf_prefix p \<Longrightarrow> m (Cidr p) = Some a \<Longrightarrow> \<exists>q s'. DeletePrefix (redis_storage rdb) p ns r = (Inr q, s') \<and>
        (abs_prefix p = a \<longrightarrow> abs_prefix q = a) \<and> rinv s' \<and>
        redis_view kv s' = (redis_view kv r)(ns \<mapsto> m(Cidr p := None))"
      by (rule redis_delete [OF r m, of p]) (auto simp: redis_storage_def)
    show "wf_prefix p \<Longrightarrow> m (Cidr p) = None \<Longrightarrow> DeletePrefix (redis_storage rdb) p ns r = (x, r') \<Longrightarrow>
        rinv r' \<and> redis_view kv r' = redis_view kv r"
      by (rule redis_delete [OF r m, of p]) (use m in \<open>auto simp: redis_storage_def fun_upd_idem\<close>)
    show "\<exists>s'. DeleteNamespace (redis_storage rdb) ns r = (Inr (), s') \<and> rinv s' \<and>
        redis_view kv s' = (redis_view kv r)(ns := None)"
      using redis_delete_ns [OF r m] by (simp add: redis_storage_def)
  }
  show "ns \<noteq> namespaceKey \<Longrightarrow> \<exists>s'. CreateNamespace (redis_storage rdb) ns r = (Inr (), s') \<and> rinv s' \<and>
      redis_view kv s' = (case redis_view kv r ns of None \<Rightarrow> (redis_view kv r)(ns \<mapsto> Map.empty) | Some m \<Rightarrow> redis_view kv r)"
    using redis_create_ns [OF r] by (simp add: redis_storage_def)
  show "\<exists>nss s'. ListNamespaces (redis_storage rdb) r = (Inr nss, s') \<and> distinct nss \<and> set nss = dom (redis_view kv r) \<and>
      rinv s' \<and> redis_view kv s' = redis_view kv r"
    using redis_list_ns [OF r] by (simp add: redis_storage_def)
  { assume none: "redis_view kv r ns = None"
    obtain r1 where "redis_checkNamespaceExists rdb ns r = (Inl (Sentinel ErrNamespaceDoesNotExist), r1)" "rinv r1"
        "redis_view kv r1 = redis_view kv r"
      using check_missing [OF r none] .
    then show "(\<exists>e s'. CreatePrefix (redis_storage rdb) p ns r = (Inl e, s') \<and> errors_is e ErrNamespaceDoesNotExist \<and> rinv s' \<and> redis_view kv s' = redis_view kv r) \<and>
      (\<exists>e s'. ReadPrefix (redis_storage rdb) c ns r = (Inl e, s') \<and> errors_is e ErrNamespaceDoesNotExist \<and> rinv s' \<and> redis_view kv s' = redis_view kv r) \<and>
      (\<exists>e s'. ReadAllPrefixes (redis_storage rdb) ns r = (Inl e, s') \<and> errors_is e ErrNamespaceDoesNotExist \<and> rinv s' \<and> redis_view kv s' = redis_view kv r) \<and>
      (\<exists>e s'. ReadAllPrefixCidrs (redis_storage rdb) ns r = (Inl e, s') \<and> errors_is e ErrNamespaceDoesNotExist \<and> rinv s' \<and> redis_view kv s' = redis_view kv r) \<and>
      (\<exists>e s'. DeletePrefix (redis_storage rdb) p ns r = (Inl e, s') \<and> errors_is e ErrNamespaceDoesNotExist \<and> rinv s' \<and> redis_view kv s' = redis_view kv r) \<and>
      (\<exists>e s'. DeleteNamespace (redis_storage rdb) ns r = (Inl e, s') \<and> errors_is e ErrNamespaceDoesNotExist \<and> rinv s' \<and> redis_view kv s' = redis_view kv r) \<and>
      (Cidr p \<noteq> [] \<longrightarrow> (\<exists>e s'. UpdatePrefix (redis_storage rdb) p ns r = (Inl e, s') \<and> errors_is e ErrNamespaceDoesNotExist \<and> rinv s' \<and> redis_view kv s' = redis_view kv r))"
      by (simp add: redis_storage_def redis_CreatePrefix_def redis_ReadPrefix_def redis_ReadAllPrefixes_def
          redis_ReadAllPrefixCidrs_def redis_DeletePrefix_def redis_DeleteNamespace_def redis_DeleteAllPrefixes_def redis_UpdatePrefix_def)
  }
qed

lemma storage_contract: "full_storage_laws (redis_storage rdb) rinv (redis_view kv) (\<lambda>ns. ns \<noteq> namespaceKey)"
  by (rule redis.full_storage_laws_axioms)

end

section \<open>A concrete server\<close>

text \<open>The state of the reference server: its keys with sets or hashes as lists.\<close>

datatype ref_value = RefSet "string list" | RefHash "(string \<times> json) list"

type_synonym ref_db = "(string \<times> ref_value) list"

definition wrong_type :: go_error where
  "wrong_type = Errorf ''WRONGTYPE Operation against a key holding the wrong kind of value'' []"

definition ref_set :: "ref_db \<Rightarrow> string \<Rightarrow> string list result" where
  "ref_set d k = (case map_of d k of None \<Rightarrow> Inr [] | Some (RefSet xs) \<Rightarrow> Inr xs | Some (RefHash _) \<Rightarrow> Inl wrong_type)"

definition ref_hash :: "ref_db \<Rightarrow> string \<Rightarrow> (string \<times> json) list result" where
  "ref_hash d k = (case map_of d k of None \<Rightarrow> Inr [] | Some (RefHash h) \<Rightarrow> Inr h | Some (RefSet _) \<Rightarrow> Inl wrong_type)"

definition put_set :: "string \<Rightarrow> string list \<Rightarrow> ref_db \<Rightarrow> ref_db" where
  "put_set k xs d = (if xs = [] then AList.delete k d else AList.update k (RefSet xs) d)"

definition put_hash :: "string \<Rightarrow> (string \<times> json) list \<Rightarrow> ref_db \<Rightarrow> ref_db" where
  "put_hash k h d = (if h = [] then AList.delete k d else AList.update k (RefHash h) d)"

definition with_value :: "'b result \<Rightarrow> ('b \<Rightarrow> ref_db \<Rightarrow> 'a \<times> ref_db) \<Rightarrow> (ref_db, 'a) comp" where
  "with_value v f d = (case v of Inl e \<Rightarrow> (Inl e, d) | Inr x \<Rightarrow> (case f x d of (y, d) \<Rightarrow> (Inr y, d)))"

definition ref_HSet :: "string \<Rightarrow> string \<Rightarrow> json \<Rightarrow> (ref_db, unit) comp" where
  "ref_HSet k f v d = with_value (ref_hash d k) (\<lambda>h d. ((), put_hash k (AList.update f v h) d)) d"

definition ref_redis :: "ref_db rdb" where
  "ref_redis = \<lparr>
     SIsMember = (\<lambda>k x d. with_value (ref_set d k) (\<lambda>xs d. (x \<in> set xs, d)) d),
     SAdd = (\<lambda>k x d. with_value (ref_set d k) (\<lambda>xs d. ((), put_set k (List.insert x xs) d)) d),
     SRem = (\<lambda>k x d. with_value (ref_set d k) (\<lambda>xs d. ((), put_set k (removeAll x xs) d)) d),
     SMembers = (\<lambda>k d. with_value (ref_set d k) (\<lambda>xs d. (xs, d)) d),
     HExists = (\<lambda>k f d. with_value (ref_hash d k) (\<lambda>h d. (map_of h f \<noteq> None, d)) d),
     HGet = (\<lambda>k f d. with_value (ref_hash d k) (\<lambda>h d. (map_of h f, d)) d),
     HGetAll = (\<lambda>k d. with_value (ref_hash d k) (\<lambda>h d. (h, d)) d),
     HSet = ref_HSet,
     HDel = (\<lambda>k f d. with_value (ref_hash d k) (\<lambda>h d. ((), put_hash k (AList.delete f h) d)) d),
     Del = (\<lambda>k d. (Inr (), AList.delete k d)),
     Watch = (\<lambda>key txf d. case txf d of
         (Inl e, d) \<Rightarrow> (Inl e, d)
       | (Inr (k, f, v), d) \<Rightarrow> ref_HSet k f v d)\<rparr>"

text \<open>Sets without repetition, hashes with distinct fields, and no empty value.\<close>

fun value_ok :: "ref_value \<Rightarrow> bool" where
  "value_ok (RefSet xs) = (distinct xs \<and> xs \<noteq> [])"
| "value_ok (RefHash h) = (distinct (map fst h) \<and> h \<noteq> [])"

fun value_of :: "ref_value \<Rightarrow> rvalue" where
  "value_of (RefSet xs) = RSet (set xs)"
| "value_of (RefHash h) = RHash (map_of h)"

definition ref_up :: "ref_db \<Rightarrow> bool" where
  "ref_up d \<longleftrightarrow> (\<forall>k v. map_of d k = Some v \<longrightarrow> value_ok v)"

definition ref_kv :: "ref_db \<Rightarrow> string \<rightharpoonup> rvalue" where
  "ref_kv d k = map_option value_of (map_of d k)"

lemma ref_set_law:
  assumes "ref_up d" "as_set (ref_kv d k) = Some S"
  obtains xs where "ref_set d k = Inr xs" "distinct xs" "set xs = S"
proof (cases "map_of d k")
  case None
  with assms(2) that [of "[]"] show ?thesis
    by (simp add: ref_kv_def ref_set_def as_set_def)
next
  case (Some v)
  with assms(1) have "value_ok v"
    by (simp add: ref_up_def)
  with Some assms(2) that show ?thesis
    by (cases v) (simp_all add: ref_kv_def ref_set_def as_set_def)
qed

lemma ref_hash_law:
  assumes "ref_up d" "as_hash (ref_kv d k) = Some m"
  obtains h where "ref_hash d k = Inr h" "distinct (map fst h)" "map_of h = m"
proof (cases "map_of d k")
  case None
  with assms(2) that [of "[]"] show ?thesis
    by (simp add: ref_kv_def ref_hash_def as_hash_def)
next
  case (Some v)
  with assms(1) have "value_ok v"
    by (simp add: ref_up_def)
  with Some assms(2) that show ?thesis
    by (cases v) (simp_all add: ref_kv_def ref_hash_def as_hash_def)
qed

lemma ref_hash_wrong:
  assumes "as_hash (ref_kv d k) = None"
  obtains e where "ref_hash d k = Inl e"
proof (cases "map_of d k")
  case None
  with assms show ?thesis
    by (simp add: ref_kv_def)
next
  case (Some v)
  with assms that show ?thesis
    by (cases v) (simp_all add: ref_kv_def ref_hash_def as_hash_def)
qed

lemma ref_up_update: "ref_up d \<Longrightarrow> value_ok v \<Longrightarrow> ref_up (AList.update k v d)"
  by (auto simp: ref_up_def update_conv')

lemma ref_del_law:
  assumes "ref_up d"
  shows "ref_up (AList.delete k d)" "ref_kv (AList.delete k d) = (ref_kv d)(k := None)"
  using assms by (auto simp: ref_up_def ref_kv_def fun_eq_iff delete_conv')

lemma put_set_law:
  assumes "ref_up d" "distinct xs"
  shows "ref_up (put_set k xs d)" "ref_kv (put_set k xs d) = (ref_kv d)(k := of_set (set xs))"
  using assms ref_up_update [OF assms(1), of "RefSet xs" k] ref_del_law [OF assms(1), of k]
  by (simp_all add: put_set_def of_set_def) (simp add: ref_kv_def update_conv' fun_eq_iff)

lemma map_of_empty_iff: "map_of h = Map.empty \<longleftrightarrow> h = []"
  by (cases h) (auto simp: fun_eq_iff)

lemma put_hash_law:
  assumes "ref_up d" "distinct (map fst h)"
  shows "ref_up (put_hash k h d)" "ref_kv (put_hash k h d) = (ref_kv d)(k := of_hash (map_of h))"
  using assms ref_up_update [OF assms(1), of "RefHash h" k] ref_del_law [OF assms(1), of k]
  by (simp_all add: put_hash_def of_hash_def map_of_empty_iff) (simp add: ref_kv_def update_conv' fun_eq_iff)

interpretation rr: redis_laws ref_redis ref_up ref_kv
proof unfold_locales
  fix d k S x m f v
  assume up: "ref_up d"
  { assume S: "as_set (ref_kv d k) = Some S"
    obtain xs where xs: "ref_set d k = Inr xs" "distinct xs" "set xs = S"
      using ref_set_law [OF up S] .
    show "\<exists>d'. SIsMember ref_redis k x d = (Inr (x \<in> S), d') \<and> ref_up d' \<and> ref_kv d' = ref_kv d"
      "\<exists>xs d'. SMembers ref_redis k d = (Inr xs, d') \<and> distinct xs \<and> set xs = S \<and> ref_up d' \<and> ref_kv d' = ref_kv d"
      using xs up by (auto simp: ref_redis_def with_value_def)
    have "distinct (List.insert x xs)" "set (List.insert x xs) = insert x S" "distinct (removeAll x xs)"
      "set (removeAll x xs) = S - {x}"
      using xs by (auto simp: distinct_removeAll)
    then show "\<exists>d'. SAdd ref_redis k x d = (Inr (), d') \<and> ref_up d' \<and> ref_kv d' = (ref_kv d)(k := of_set (insert x S))"
      "\<exists>d'. SRem ref_redis k x d = (Inr (), d') \<and> ref_up d' \<and> ref_kv d' = (ref_kv d)(k := of_set (S - {x}))"
      using xs(1) put_set_law [OF up, of "List.insert x xs" k] put_set_law [OF up, of "removeAll x xs" k]
      by (simp_all add: ref_redis_def with_value_def)
  }
  { assume m: "as_hash (ref_kv d k) = Some m"
    obtain h where h: "ref_hash d k = Inr h" "distinct (map fst h)" "map_of h = m"
      using ref_hash_law [OF up m] .
    show "\<exists>d'. HExists ref_redis k f d = (Inr (m f \<noteq> None), d') \<and> ref_up d' \<and> ref_kv d' = ref_kv d"
      "\<exists>d'. HGet ref_redis k f d = (Inr (m f), d') \<and> ref_up d' \<and> ref_kv d' = ref_kv d"
      "\<exists>es d'. HGetAll ref_redis k d = (Inr es, d') \<and> distinct (map fst es) \<and> map_of es = m \<and> ref_up d' \<and> ref_kv d' = ref_kv d"
      using h up by (auto simp: ref_redis_def with_value_def)
    have "distinct (map fst (AList.update f v h))" "map_of (AList.update f v h) = m(f \<mapsto> v)"
      "distinct (map fst (AList.delete f h))" "map_of (AList.delete f h) = m(f := None)"
      using h by (auto simp: distinct_update distinct_delete fun_eq_iff update_conv' delete_conv')
    then show "\<exists>d'. HSet ref_redis k f v d = (Inr (), d') \<and> ref_up d' \<and> ref_kv d' = (ref_kv d)(k := of_hash (m(f \<mapsto> v)))"
      "\<exists>d'. HDel ref_redis k f d = (Inr (), d') \<and> ref_up d' \<and> ref_kv d' = (ref_kv d)(k := of_hash (m(f := None)))"
      using h(1) put_hash_law [OF up, of "AList.update f v h" k] put_hash_law [OF up, of "AList.delete f h" k]
      by (simp_all add: ref_redis_def ref_HSet_def with_value_def)
  }
  show "as_hash (ref_kv d k) = None \<Longrightarrow> \<exists>e d'. HExists ref_redis k f d = (Inl e, d') \<and> ref_up d' \<and> ref_kv d' = ref_kv d"
    by (erule ref_hash_wrong) (use up in \<open>simp add: ref_redis_def with_value_def\<close>)
  show "\<exists>d'. Del ref_redis k d = (Inr (), d') \<and> ref_up d' \<and> ref_kv d' = (ref_kv d)(k := None)"
    using ref_del_law [OF up] by (simp add: ref_redis_def)
qed (auto simp: ref_redis_def)


text \<open>
  C25: over a Redis server that keeps its promises the Redis storage meets the contract of a storage; the
  one name it cannot accept for a namespace is the key it stores the set of namespaces under.
\<close>

theorem redis_meets_contract:
  assumes "redis_laws rdb up kv"
  shows "full_storage_laws (redis_storage rdb) (redis_inv up kv) (redis_view kv) (\<lambda>ns. ns \<noteq> namespaceKey)"
  by (rule redis_laws.storage_contract [OF assms])

text \<open>
  Connecting to a database that was written before keeps what it holds, and adds the default
  namespace if it is not there.
\<close>

theorem newRedis_keeps_database:
  assumes laws: "redis_laws rdb up kv" and d: "up d" "db_ok (kv d)"
  shows "\<exists>r. newRedis rdb d = (Inr (), r) \<and> redis_inv up kv r \<and>
    redis_view kv r = [defaultNamespace \<mapsto> Map.empty] ++ db_view (kv d)"
proof -
  let ?r = "\<lparr>r_db = d, r_namespaces = make_map\<rparr>"
  have r: "redis_inv up kv ?r" "redis_view kv ?r = db_view (kv d)"
    using d by (simp_all add: redis_inv_def redis_view_def)
  have "defaultNamespace \<noteq> namespaceKey"
    by (simp add: defaultNamespace_def namespaceKey_def)
  then obtain r' where "newRedis rdb d = (Inr (), r')" "redis_inv up kv r'"
      "redis_view kv r' = (case db_view (kv d) defaultNamespace of
        None \<Rightarrow> (db_view (kv d))(defaultNamespace \<mapsto> Map.empty) | Some m \<Rightarrow> db_view (kv d))"
    using redis_laws.redis_create_ns [OF laws r(1)] unfolding r(2) newRedis_def by blast
  then show ?thesis
    by (intro exI [of _ r']) (auto simp: fun_eq_iff map_add_def split: option.splits)
qed

text \<open>
  Nothing stops a client from creating a namespace named \<open>namespaces\<close>. No prefix can be created in
  it, because its key holds the set of namespaces; and \<open>DeleteAllPrefixes\<close> of it deletes that set, so that
  no namespace is left.
\<close>

theorem reserved_namespace_destroys_names:
  assumes laws: "redis_laws rdb up kv" and r: "redis_inv up kv r"
  shows "\<exists>r1 r2. redis_CreateNamespace rdb namespaceKey r = (Inr (), r1) \<and>
    (\<exists>e r'. redis_CreatePrefix rdb p namespaceKey r1 = (Inl e, r')) \<and>
    redis_DeleteAllPrefixes rdb namespaceKey r1 = (Inr (), r2) \<and> redis_names (kv (r_db r2)) = {}"
proof -
  have inv: "up (r_db r)" "map_ok (r_namespaces r)" "db_ok (kv (r_db r))" "map_keys (r_namespaces r) \<subseteq> redis_names (kv (r_db r))"
    using r by (simp_all add: redis_inv_def)
  then have out: "map_lookup (r_namespaces r) namespaceKey = None"
    by (auto simp: db_ok_def map_keys_def)
  obtain d1 where d1: "SAdd rdb namespaceKey namespaceKey (r_db r) = (Inr (), d1)" "up d1"
      "kv d1 = (kv (r_db r))(namespaceKey := of_set (insert namespaceKey (redis_names (kv (r_db r)))))"
    using redis_laws.sadd [OF laws inv(1) db_names [OF inv(3)], of namespaceKey] by blast
  obtain nss where nss: "map_insert (r_namespaces r) namespaceKey () = Inr nss"
    using map_ok_insert_ex [OF inv(2)] by blast
  let ?r1 = "r\<lparr>r_db := d1, r_namespaces := nss\<rparr>"
  have create: "redis_CreateNamespace rdb namespaceKey r = (Inr (), ?r1)"
    using out d1(1) nss by (simp add: redis_CreateNamespace_def on_rdb_def)
  have check: "redis_checkNamespaceExists rdb namespaceKey ?r1 = (Inr (), ?r1)"
    using map_insert_Inr [OF nss] by (simp add: redis_checkNamespaceExists_def)
  have "as_hash (kv d1 namespaceKey) = None"
    using d1(3) by (simp add: of_set_def as_hash_def)
  then obtain e d2 where "HExists rdb namespaceKey (Cidr p) d1 = (Inl e, d2)"
    using redis_laws.hexists_wrong [OF laws d1(2)] by blast
  then have "\<exists>e r'. redis_CreatePrefix rdb p namespaceKey ?r1 = (Inl e, r')"
    using check by (simp add: redis_CreatePrefix_def on_rdb_def)
  moreover obtain d3 where "Del rdb namespaceKey d1 = (Inr (), d3)" "kv d3 = (kv d1)(namespaceKey := None)"
    using redis_laws.del [OF laws d1(2)] by blast
  then have "redis_DeleteAllPrefixes rdb namespaceKey ?r1 = (Inr (), ?r1\<lparr>r_db := d3\<rparr>)" "redis_names (kv d3) = {}"
    using check by (simp_all add: redis_DeleteAllPrefixes_def on_rdb_def redis_names_def as_set_def)
  ultimately show ?thesis
    using create by (intro exI [of _ ?r1] exI [of _ "?r1\<lparr>r_db := d3\<rparr>"]) simp
qed

text \<open>
  The cache of namespaces is never checked again: after another process deleted a namespace that this one
  has seen, this one still creates prefixes in it, although the namespace does not exist.
\<close>

theorem stale_cache_creates_in_deleted_namespace:
  assumes laws: "redis_laws rdb up kv" and r: "up (r_db r)" "map_lookup (r_namespaces r) ns \<noteq> None"
    and gone: "ns \<notin> redis_names (kv (r_db r))" "kv (r_db r) ns = None" "ns \<noteq> namespaceKey"
  shows "\<exists>r'. redis_CreatePrefix rdb p ns r = (Inr p, r') \<and> ns \<notin> redis_names (kv (r_db r')) \<and> kv (r_db r') ns \<noteq> None"
proof -
  have check: "redis_checkNamespaceExists rdb ns r = (Inr (), r)"
    using r(2) by (simp add: redis_checkNamespaceExists_def)
  have h: "as_hash (kv (r_db r) ns) = Some Map.empty"
    using gone(2) by simp
  obtain d1 where d1: "HExists rdb ns (Cidr p) (r_db r) = (Inr False, d1)" "up d1" "kv d1 = kv (r_db r)"
    using redis_laws.hexists [OF laws r(1) h, of "Cidr p"] by auto
  obtain js where js: "Prefix_toJSON p = Inr js"
    by (simp add: Prefix_toJSON_def)
  have "as_hash (kv d1 ns) = Some Map.empty"
    using h d1(3) by simp
  then obtain d2 where d2: "HSet rdb ns (Cidr p) js d1 = (Inr (), d2)" "kv d2 = (kv d1)(ns := of_hash [Cidr p \<mapsto> js])"
    using redis_laws.hset [OF laws d1(2), of ns Map.empty "Cidr p" js] by blast
  have "redis_CreatePrefix rdb p ns r = (Inr p, r\<lparr>r_db := d2\<rparr>)"
    using check d1(1) js d2(1) by (simp add: redis_CreatePrefix_def on_rdb_def)
  moreover have "redis_names (kv d2) = redis_names (kv (r_db r))"
    using d2(2) d1(3) gone(3) by (simp add: redis_names_def)
  ultimately show ?thesis
    using gone(1) d2(2) by (simp add: of_hash_def)
qed

section \<open>Instances\<close>

text \<open>A database with the default namespace and a tenant, and a client that has seen the default namespace.\<close>

definition sample_db :: ref_db where
  "sample_db = [(''namespaces'', RefSet [''root'', ''tenant''])]"

definition sample_redis :: "ref_db redis" where
  "sample_redis = \<lparr>r_db = sample_db, r_namespaces = GoMap [(''root'', ())]\<rparr>"

lemma sample_db_ok: "ref_up sample_db" "db_ok (ref_kv sample_db)" "redis_names (ref_kv sample_db) = {''root'', ''tenant''}"
  "redis_inv ref_up ref_kv sample_redis"
proof -
  show n: "redis_names (ref_kv sample_db) = {''root'', ''tenant''}"
    by (simp add: redis_names_def ref_kv_def sample_db_def namespaceKey_def as_set_def)
  show u: "ref_up sample_db"
    by (simp add: ref_up_def sample_db_def)
  show d: "db_ok (ref_kv sample_db)"
    unfolding db_ok_def n by (simp add: ref_kv_def sample_db_def namespaceKey_def as_set_def as_hash_def)
  show "redis_inv ref_up ref_kv sample_redis"
    using u d n by (auto simp: redis_inv_def sample_redis_def map_ok_def map_keys_def map_lookup_def)
qed

theorem redis_meets_contract_witness:
  "full_storage_laws (redis_storage ref_redis) (redis_inv ref_up ref_kv) (redis_view ref_kv) (\<lambda>ns. ns \<noteq> namespaceKey) \<and>
    redis_inv ref_up ref_kv sample_redis"
  using redis_meets_contract [OF rr.redis_laws_axioms] sample_db_ok(4) by blast

theorem newRedis_keeps_database_witness:
  "\<exists>r. newRedis ref_redis sample_db = (Inr (), r) \<and> redis_view ref_kv r ''tenant'' = Some Map.empty"
proof -
  have "([defaultNamespace \<mapsto> Map.empty] ++ db_view (ref_kv sample_db)) ''tenant'' = Some Map.empty"
    using sample_db_ok(3) by (simp add: db_view_def map_add_def ref_kv_def sample_db_def defaultNamespace_def)
  with newRedis_keeps_database [OF rr.redis_laws_axioms sample_db_ok(1,2)] show ?thesis
    by metis
qed

theorem reserved_namespace_destroys_names_witness:
  "\<exists>r1 r2. redis_CreateNamespace ref_redis ''namespaces'' sample_redis = (Inr (), r1) \<and>
     redis_DeleteAllPrefixes ref_redis ''namespaces'' r1 = (Inr (), r2) \<and> redis_names (ref_kv (r_db r2)) = {}"
  using reserved_namespace_destroys_names [OF rr.redis_laws_axioms sample_db_ok(4)] unfolding namespaceKey_def by blast

theorem stale_cache_creates_in_deleted_namespace_witness:
  "\<exists>r'. redis_CreatePrefix ref_redis prefix12 ''gone'' (sample_redis\<lparr>r_namespaces := GoMap [(''gone'', ())]\<rparr>) = (Inr prefix12, r') \<and>
     ''gone'' \<notin> redis_names (ref_kv (r_db r'))"
proof -
  let ?r = "sample_redis\<lparr>r_namespaces := GoMap [(''gone'', ())]\<rparr>"
  have "ref_up (r_db ?r)" "map_lookup (r_namespaces ?r) ''gone'' \<noteq> None" "''gone'' \<notin> redis_names (ref_kv (r_db ?r))"
    "ref_kv (r_db ?r) ''gone'' = None" "''gone'' \<noteq> namespaceKey"
    using sample_db_ok(1,3) by (simp_all add: sample_redis_def map_lookup_def ref_kv_def sample_db_def namespaceKey_def)
  from stale_cache_creates_in_deleted_namespace [OF rr.redis_laws_axioms this, of prefix12] show ?thesis
    by blast
qed

end
