(* ===== verification/Etcd_Storage.thy ===== *)
theory Etcd_Storage
  imports Documents "HOL-Library.Sublist"
begin

text \<open>
  The storage in etcd, \<^verbatim>\<open>src/etcd.go\<close>. The etcd server and its Go client are not part of the
  repository: the calls the code makes are a parameter \<open>cl\<close>, a record of operations on the state of the
  server. The locale \<open>etcd_laws\<close> states what the etcd documentation says of them, over the map \<open>kv\<close> from
  keys to values, for a server that answers within the timeouts and whose serializable reads are up to date.
  Under these laws the storage meets the contract of \<open>Storage\<close> for sets of namespace names of which none is
  the start of another; the code looks for the prefixes of a namespace among all keys that start with its
  name, and the last section shows what happens to namespaces whose names do overlap.

  A value that the code stores is the empty text or a JSON text, represented by its tree.
\<close>

section \<open>The calls\<close>

datatype evalue = Blank | Doc json

text \<open>
  \<open>EGet\<close> is \<open>Get\<close> with a key alone: the value of the key, if there is one (\<open>Count\<close> and \<open>Kvs[0].Value\<close>);
  \<open>EGetKeys\<close> is \<open>Get\<close> with the options \<open>WithPrefix\<close>, \<open>WithKeysOnly\<close> and \<open>WithSerializable\<close>.
\<close>

record 'd etcd_client =
  EGet :: "string \<Rightarrow> ('d, evalue option) comp"
  EGetKeys :: "string \<Rightarrow> ('d, string list) comp"
  EPut :: "string \<Rightarrow> evalue \<Rightarrow> ('d, unit) comp"
  EDelete :: "string \<Rightarrow> ('d, unit) comp"

section \<open>State and operations\<close>

record 'd etcd =
  e_db :: 'd
  e_namespaces :: "unit gomap"

definition on_etcd :: "('d, 'a) comp \<Rightarrow> ('d etcd, 'a) comp" where
  "on_etcd op e = (case op (e_db e) of (x, d) \<Rightarrow> (x, e\<lparr>e_db := d\<rparr>))"

definition etcdNamespaceKey :: "string \<Rightarrow> string" where
  "etcdNamespaceKey namespace = namespaceKey @ ''/'' @ namespace"

definition doc_key :: "string \<Rightarrow> string \<Rightarrow> string" where
  "doc_key namespace cidr = namespace @ ''@'' @ cidr"

primrec value_fromJSON :: "evalue \<Rightarrow> Prefix result" where
  "value_fromJSON Blank = Inl (Errorf ''unable to unmarshal prefix:%w'' [Errorf ''unexpected end of JSON input'' []])"
| "value_fromJSON (Doc js) = fromJSON js"

definition etcd_checkNamespaceExists :: "'d etcd_client \<Rightarrow> string \<Rightarrow> ('d etcd, unit) comp" where
  "etcd_checkNamespaceExists cl namespace e =
     (if map_lookup (e_namespaces e) namespace \<noteq> None then (Inr (), e)
      else (case on_etcd (EGet cl (etcdNamespaceKey namespace)) e of
        (Inl err, e) \<Rightarrow> (Inl (Errorf ''unable to read namespace key: %w'' [err]), e)
      | (Inr res, e) \<Rightarrow>
          if res = None then (Inl (Sentinel ErrNamespaceDoesNotExist), e)
          else (case map_insert (e_namespaces e) namespace () of
              Inl err \<Rightarrow> (Inl err, e)
            | Inr nss \<Rightarrow> (Inr (), e\<lparr>e_namespaces := nss\<rparr>))))"

definition etcd_CreatePrefix :: "'d etcd_client \<Rightarrow> Prefix \<Rightarrow> string \<Rightarrow> ('d etcd, Prefix) comp" where
  "etcd_CreatePrefix cl pref namespace e =
     (case etcd_checkNamespaceExists cl namespace e of
        (Inl err, e) \<Rightarrow> (Inl err, e)
      | (Inr _, e) \<Rightarrow>
      let key = doc_key namespace (Cidr pref) in
     (case on_etcd (EGet cl key) e of
        (Inl err, e) \<Rightarrow> (Inl (Errorf ''unable to read existing prefix:%v, error:%w'' [err]), e)
      | (Inr get, e) \<Rightarrow>
      if get \<noteq> None then (Inl (Errorf ''prefix already exists:%v'' []), e)
      else (case Prefix_toJSON pref of
        Inl err \<Rightarrow> (Inl err, e)
      | Inr pfx \<Rightarrow>
     (case on_etcd (EPut cl key (Doc pfx)) e of
        (Inl err, e) \<Rightarrow> (Inl (Errorf ''unable to create prefix:%v, error:%w'' [err]), e)
      | (Inr _, e) \<Rightarrow> (Inr pref, e)))))"

text \<open>The second \<open>%w\<close> of the not-found error wraps a nil error.\<close>

definition etcd_ReadPrefix :: "'d etcd_client \<Rightarrow> string \<Rightarrow> string \<Rightarrow> ('d etcd, Prefix) comp" where
  "etcd_ReadPrefix cl pref namespace e =
     (case etcd_checkNamespaceExists cl namespace e of
        (Inl err, e) \<Rightarrow> (Inl err, e)
      | (Inr _, e) \<Rightarrow>
     (case on_etcd (EGet cl (doc_key namespace pref)) e of
        (Inl err, e) \<Rightarrow> (Inl (Errorf ''unable to read data from ETCD error:%w'' [err]), e)
      | (Inr None, e) \<Rightarrow>
          (Inl (Errorf ''%w unable to read existing prefix:%v, error:%w'' [Sentinel ErrNotFound]), e)
      | (Inr (Some v), e) \<Rightarrow> (value_fromJSON v, e)))"

primrec etcd_delete_keys :: "'d etcd_client \<Rightarrow> string list \<Rightarrow> ('d etcd, unit) comp" where
  "etcd_delete_keys cl [] e = (Inr (), e)"
| "etcd_delete_keys cl (k # ks) e =
     (case on_etcd (EDelete cl k) e of
        (Inl err, e) \<Rightarrow> (Inl (Errorf ''unable to delete prefix:%w'' [err]), e)
      | (Inr _, e) \<Rightarrow> etcd_delete_keys cl ks e)"

definition etcd_DeleteAllPrefixes :: "'d etcd_client \<Rightarrow> string \<Rightarrow> ('d etcd, unit) comp" where
  "etcd_DeleteAllPrefixes cl namespace e =
     (case etcd_checkNamespaceExists cl namespace e of
        (Inl err, e) \<Rightarrow> (Inl err, e)
      | (Inr _, e) \<Rightarrow>
     (case on_etcd (EGetKeys cl namespace) e of
        (Inl err, e) \<Rightarrow> (Inl (Errorf ''unable to get all prefix cidrs:%w'' [err]), e)
      | (Inr pfxs, e) \<Rightarrow> etcd_delete_keys cl pfxs e))"

text \<open>
  The loop of \<open>ReadAllPrefixes\<close> and \<open>ReadAllPrefixCidrs\<close>: every key is read again; a key that is gone by
  then makes \<open>Kvs[0]\<close> panic.
\<close>

primrec etcd_read_docs :: "'d etcd_client \<Rightarrow> string list \<Rightarrow> Prefix list \<Rightarrow> ('d etcd, Prefix list) comp" where
  "etcd_read_docs cl [] result e = (Inr result, e)"
| "etcd_read_docs cl (k # ks) result e =
     (case on_etcd (EGet cl k) e of
        (Inl err, e) \<Rightarrow> (Inl err, e)
      | (Inr None, e) \<Rightarrow> (Inl PanicIndex, e)
      | (Inr (Some v), e) \<Rightarrow> (case value_fromJSON v of
          Inl err \<Rightarrow> (Inl err, e)
        | Inr pfx \<Rightarrow> etcd_read_docs cl ks (result @ [pfx]) e))"

definition etcd_ReadAllPrefixes :: "'d etcd_client \<Rightarrow> string \<Rightarrow> ('d etcd, Prefix list) comp" where
  "etcd_ReadAllPrefixes cl namespace e =
     (case etcd_checkNamespaceExists cl namespace e of
        (Inl err, e) \<Rightarrow> (Inl err, e)
      | (Inr _, e) \<Rightarrow>
     (case on_etcd (EGetKeys cl namespace) e of
        (Inl err, e) \<Rightarrow> (Inl (Errorf ''unable to get all prefix cidrs:%w'' [err]), e)
      | (Inr pfxs, e) \<Rightarrow> etcd_read_docs cl pfxs [] e))"

definition etcd_ReadAllPrefixCidrs :: "'d etcd_client \<Rightarrow> string \<Rightarrow> ('d etcd, string list) comp" where
  "etcd_ReadAllPrefixCidrs cl namespace e =
     (case etcd_checkNamespaceExists cl namespace e of
        (Inl err, e) \<Rightarrow> (Inl err, e)
      | (Inr _, e) \<Rightarrow>
     (case on_etcd (EGetKeys cl namespace) e of
        (Inl err, e) \<Rightarrow> (Inl (Errorf ''unable to get all prefix cidrs:%w'' [err]), e)
      | (Inr pfxs, e) \<Rightarrow> (case etcd_read_docs cl pfxs [] e of
          (Inl err, e) \<Rightarrow> (Inl err, e)
        | (Inr allPrefix, e) \<Rightarrow> (Inr (map Cidr allPrefix), e))))"

text \<open>
  \<open>UpdatePrefix\<close> in two parts, because nothing ties them together on the server: reading the stored
  version and comparing it, and writing.
\<close>

definition etcd_update_check :: "'d etcd_client \<Rightarrow> Prefix \<Rightarrow> string \<Rightarrow> ('d etcd, json) comp" where
  "etcd_update_check cl pref namespace e =
     (case etcd_checkNamespaceExists cl namespace e of
        (Inl err, e) \<Rightarrow> (Inl err, e)
      | (Inr _, e) \<Rightarrow>
      let oldVersion = version pref; pref = pref\<lparr>version := oldVersion + 1\<rparr> in
     (case Prefix_toJSON pref of
        Inl err \<Rightarrow> (Inl err, e)
      | Inr pn \<Rightarrow>
     (case on_etcd (EGet cl (doc_key namespace (Cidr pref))) e of
        (Inl err, e) \<Rightarrow> (Inl (Errorf ''unable to read cidrs from ETCD:%w'' [err]), e)
      | (Inr None, e) \<Rightarrow> (Inl (Errorf ''unable to get all prefix cidrs:%w'' []), e)
      | (Inr (Some p), e) \<Rightarrow> (case value_fromJSON p of
          Inl err \<Rightarrow> (Inl err, e)
        | Inr oldPrefix \<Rightarrow>
            if version oldPrefix \<noteq> oldVersion then
              (Inl (Errorf ''%w: unable to update prefix:%s'' [Sentinel ErrOptimisticLockError]), e)
            else (Inr pn, e)))))"

definition etcd_update_write :: "'d etcd_client \<Rightarrow> Prefix \<Rightarrow> string \<Rightarrow> json \<Rightarrow> ('d etcd, Prefix) comp" where
  "etcd_update_write cl pref namespace pn e =
     (case on_etcd (EPut cl (doc_key namespace (Cidr pref)) (Doc pn)) e of
        (Inl err, e) \<Rightarrow> (Inl (Errorf ''unable to update prefix:%s, error:%w'' [err]), e)
      | (Inr _, e) \<Rightarrow> (Inr (pref\<lparr>version := version pref + 1\<rparr>), e))"

definition etcd_UpdatePrefix :: "'d etcd_client \<Rightarrow> Prefix \<Rightarrow> string \<Rightarrow> ('d etcd, Prefix) comp" where
  "etcd_UpdatePrefix cl pref namespace e =
     (case etcd_update_check cl pref namespace e of
        (Inl err, e) \<Rightarrow> (Inl err, e)
      | (Inr pn, e) \<Rightarrow> etcd_update_write cl pref namespace pn e)"

definition etcd_DeletePrefix :: "'d etcd_client \<Rightarrow> Prefix \<Rightarrow> string \<Rightarrow> ('d etcd, Prefix) comp" where
  "etcd_DeletePrefix cl pref namespace e =
     (case etcd_checkNamespaceExists cl namespace e of
        (Inl err, e) \<Rightarrow> (Inl err, e)
      | (Inr _, e) \<Rightarrow>
     (case on_etcd (EDelete cl (doc_key namespace (Cidr pref))) e of
        (Inl err, e) \<Rightarrow> (Inl err, e)
      | (Inr _, e) \<Rightarrow> (Inr (deepCopy pref), e)))"

text \<open>The name goes into the cache before the error of \<open>Put\<close> is returned.\<close>

definition etcd_CreateNamespace :: "'d etcd_client \<Rightarrow> string \<Rightarrow> ('d etcd, unit) comp" where
  "etcd_CreateNamespace cl namespace e =
     (if map_lookup (e_namespaces e) namespace \<noteq> None then (Inr (), e)
      else (case on_etcd (EPut cl (etcdNamespaceKey namespace) Blank) e of (res, e) \<Rightarrow>
        (case map_insert (e_namespaces e) namespace () of
            Inl err \<Rightarrow> (Inl err, e)
          | Inr nss \<Rightarrow> (res, e\<lparr>e_namespaces := nss\<rparr>))))"

definition etcd_ListNamespaces :: "'d etcd_client \<Rightarrow> ('d etcd, string list) comp" where
  "etcd_ListNamespaces cl e =
     (let key = etcdNamespaceKey [] in
     (case on_etcd (EGetKeys cl key) e of
        (Inl err, e) \<Rightarrow> (Inl err, e)
      | (Inr res, e) \<Rightarrow> (Inr (map (\<lambda>kv. TrimPrefix kv key) res), e)))"

definition etcd_DeleteNamespace :: "'d etcd_client \<Rightarrow> string \<Rightarrow> ('d etcd, unit) comp" where
  "etcd_DeleteNamespace cl namespace e =
     (case etcd_DeleteAllPrefixes cl namespace e of
        (Inl err, e) \<Rightarrow> (Inl err, e)
      | (Inr _, e) \<Rightarrow>
     (case on_etcd (EDelete cl (etcdNamespaceKey namespace)) e of
        (res, e) \<Rightarrow> (res, e\<lparr>e_namespaces := map_delete (e_namespaces e) namespace\<rparr>)))"

text \<open>\<open>newEtcd\<close> after it connected: it fails if the default namespace cannot be created.\<close>

definition newEtcd :: "'d etcd_client \<Rightarrow> 'd \<Rightarrow> unit result \<times> 'd etcd" where
  "newEtcd cl d = etcd_CreateNamespace cl defaultNamespace \<lparr>e_db = d, e_namespaces = make_map\<rparr>"

definition etcd_storage :: "'d etcd_client \<Rightarrow> 'd etcd storage" where
  "etcd_storage cl = \<lparr>Name = ''etcd'', CreatePrefix = etcd_CreatePrefix cl,
     ReadPrefix = etcd_ReadPrefix cl, DeleteAllPrefixes = etcd_DeleteAllPrefixes cl,
     ReadAllPrefixes = etcd_ReadAllPrefixes cl, ReadAllPrefixCidrs = etcd_ReadAllPrefixCidrs cl,
     UpdatePrefix = etcd_UpdatePrefix cl, DeletePrefix = etcd_DeletePrefix cl,
     CreateNamespace = etcd_CreateNamespace cl, ListNamespaces = etcd_ListNamespaces cl,
     DeleteNamespace = etcd_DeleteNamespace cl\<rparr>"

section \<open>What etcd promises\<close>

locale etcd_laws =
  fixes cl :: "'d etcd_client"
    and up :: "'d \<Rightarrow> bool"
    and kv :: "'d \<Rightarrow> string \<rightharpoonup> evalue"
  assumes eget: "up d \<Longrightarrow> \<exists>d'. EGet cl k d = (Inr (kv d k), d') \<and> up d' \<and> kv d' = kv d"
    and egetkeys: "up d \<Longrightarrow> \<exists>ks d'. EGetKeys cl k d = (Inr ks, d') \<and> distinct ks \<and>
      set ks = {k' \<in> dom (kv d). prefix k k'} \<and> up d' \<and> kv d' = kv d"
    and eput: "up d \<Longrightarrow> \<exists>d'. EPut cl k v d = (Inr (), d') \<and> up d' \<and> kv d' = (kv d)(k \<mapsto> v)"
    and edelete: "up d \<Longrightarrow> \<exists>d'. EDelete cl k d = (Inr (), d') \<and> up d' \<and> kv d' = (kv d)(k := None)"

context etcd_laws
begin

text \<open>The loop of \<open>DeleteAllPrefixes\<close>, and the one that reads the documents of some keys.\<close>

lemma etcd_delete_keys_run:
  assumes "up (e_db e)"
  shows "\<exists>e'. etcd_delete_keys cl ks e = (Inr (), e') \<and> up (e_db e') \<and> e_namespaces e' = e_namespaces e \<and>
    kv (e_db e') = (\<lambda>k. if k \<in> set ks then None else kv (e_db e) k)"
  using assms
proof (induction ks arbitrary: e)
  case (Cons k ks)
  obtain d where d: "EDelete cl k (e_db e) = (Inr (), d)" "up d" "kv d = (kv (e_db e))(k := None)"
    using edelete [OF Cons.prems] by blast
  have "\<exists>e'. etcd_delete_keys cl ks (e\<lparr>e_db := d\<rparr>) = (Inr (), e') \<and> up (e_db e') \<and>
      e_namespaces e' = e_namespaces e \<and> kv (e_db e') = (\<lambda>k. if k \<in> set ks then None else kv d k)"
    using Cons.IH [of "e\<lparr>e_db := d\<rparr>"] d(2) by (simp cong: if_cong)
  then show ?case
  proof (elim exE conjE)
    fix e' assume "etcd_delete_keys cl ks (e\<lparr>e_db := d\<rparr>) = (Inr (), e')" "up (e_db e')"
      "e_namespaces e' = e_namespaces e" "kv (e_db e') = (\<lambda>k. if k \<in> set ks then None else kv d k)"
    then show ?thesis
      using d(1,3) by (intro exI [of _ e']) (auto simp: on_etcd_def)
  qed
qed auto

lemma etcd_read_docs_run:
  assumes "up (e_db e)" "\<forall>k \<in> set ks. \<exists>v. kv (e_db e) k = Some v \<and> value_fromJSON v = Inr (g k)"
  shows "\<exists>e'. etcd_read_docs cl ks acc e = (Inr (acc @ map g ks), e') \<and> up (e_db e') \<and>
    e_namespaces e' = e_namespaces e \<and> kv (e_db e') = kv (e_db e)"
  using assms
proof (induction ks arbitrary: e acc)
  case (Cons k ks)
  obtain v where v: "kv (e_db e) k = Some v" "value_fromJSON v = Inr (g k)"
    using Cons.prems(2) by auto
  obtain d where d: "EGet cl k (e_db e) = (Inr (Some v), d)" "up d" "kv d = kv (e_db e)"
    using eget [OF Cons.prems(1), of k] v(1) by auto
  have "\<exists>e'. etcd_read_docs cl ks (acc @ [g k]) (e\<lparr>e_db := d\<rparr>) = (Inr ((acc @ [g k]) @ map g ks), e') \<and>
      up (e_db e') \<and> e_namespaces e' = e_namespaces e \<and> kv (e_db e') = kv (e_db e)"
    using Cons.IH [of "e\<lparr>e_db := d\<rparr>" "acc @ [g k]"] d(2,3) Cons.prems(2) by simp
  then show ?case
    using v(2) d(1) by (simp add: on_etcd_def)
qed auto

end

section \<open>Keys\<close>

text \<open>Names of which none is the start of another one, nor of the keys of the markers.\<close>

definition prefix_free :: "string set \<Rightarrow> bool" where
  "prefix_free N \<longleftrightarrow> (\<forall>a \<in> N. \<forall>b \<in> N. prefix a b \<longrightarrow> a = b)"

definition names_apart :: "string set \<Rightarrow> bool" where
  "names_apart N \<longleftrightarrow> etcdNamespaceKey [] \<notin> N \<and> prefix_free (insert (etcdNamespaceKey []) N)"

lemma prefix_free_common:
  assumes "prefix_free X" "a \<in> X" "b \<in> X" "prefix a k" "prefix b k"
  shows "a = b"
  using prefix_same_cases [OF assms(4,5)] assms(1-3) by (auto simp: prefix_free_def)

lemma prefix_doc_key [simp]: "prefix ns (doc_key ns c)"
  by (simp add: doc_key_def)

lemma prefix_marker [simp]: "prefix (etcdNamespaceKey []) (etcdNamespaceKey ns)"
  by (simp add: etcdNamespaceKey_def)

lemma marker_inject [simp]: "etcdNamespaceKey a = etcdNamespaceKey b \<longleftrightarrow> a = b"
  by (simp add: etcdNamespaceKey_def)

lemma TrimPrefix_marker [simp]: "TrimPrefix (etcdNamespaceKey ns) (etcdNamespaceKey []) = ns"
  by (simp add: TrimPrefix_def etcdNamespaceKey_def)

lemma key_facts:
  assumes "names_apart N" "ns \<in> N"
  shows "ns' \<in> N \<Longrightarrow> prefix ns (doc_key ns' c) \<longleftrightarrow> ns' = ns"
    and "\<not> prefix ns (etcdNamespaceKey x)"
    and "\<not> prefix (etcdNamespaceKey []) (doc_key ns c)"
    and "ns' \<in> N \<Longrightarrow> doc_key ns c = doc_key ns' c' \<longleftrightarrow> ns = ns' \<and> c = c'"
    and "doc_key ns c \<noteq> etcdNamespaceKey x" "etcdNamespaceKey x \<noteq> doc_key ns c"
proof -
  let ?X = "insert (etcdNamespaceKey []) N"
  have X: "prefix_free ?X" "etcdNamespaceKey [] \<noteq> ns"
    using assms by (auto simp: names_apart_def)
  show 1: "ns' \<in> N \<Longrightarrow> prefix ns (doc_key ns' c) \<longleftrightarrow> ns' = ns" for ns' c
    using prefix_free_common [OF X(1), of ns ns' "doc_key ns' c"] assms(2) by auto
  show 2: "\<not> prefix ns (etcdNamespaceKey x)" for x
    using prefix_free_common [OF X(1), of ns "etcdNamespaceKey []" "etcdNamespaceKey x"] assms(2) X(2) by auto
  show "\<not> prefix (etcdNamespaceKey []) (doc_key ns c)"
    using prefix_free_common [OF X(1), of "etcdNamespaceKey []" ns "doc_key ns c"] assms(2) X(2) by auto
  show "ns' \<in> N \<Longrightarrow> doc_key ns c = doc_key ns' c' \<longleftrightarrow> ns = ns' \<and> c = c'"
    using 1 [of ns' c'] prefix_doc_key [of ns c] by (metis append_same_eq doc_key_def same_append_eq)
  show "doc_key ns c \<noteq> etcdNamespaceKey x" "etcdNamespaceKey x \<noteq> doc_key ns c"
    using 2 [of x] by (metis prefix_doc_key)+
qed

section \<open>Invariant and view\<close>

definition docs :: "(string \<rightharpoonup> evalue) \<Rightarrow> string \<Rightarrow> string \<rightharpoonup> json" where
  "docs db ns c = (case db (doc_key ns c) of Some (Doc js) \<Rightarrow> Some js | _ \<Rightarrow> None)"

definition etcd_names :: "(string \<rightharpoonup> evalue) \<Rightarrow> string set" where
  "etcd_names db = {ns. db (etcdNamespaceKey ns) \<noteq> None}"

text \<open>
  The database holds markers of namespaces and documents of the namespaces that are marked, and nothing
  else; the cache holds marked namespaces only.
\<close>

definition edb_ok :: "string set \<Rightarrow> (string \<rightharpoonup> evalue) \<Rightarrow> bool" where
  "edb_ok N db \<longleftrightarrow> finite (dom db) \<and> etcd_names db \<subseteq> N \<and>
     (\<forall>k v. db k = Some v \<longrightarrow> (\<exists>ns. k = etcdNamespaceKey ns) \<or>
        (\<exists>ns c js. ns \<in> etcd_names db \<and> k = doc_key ns c \<and> v = Doc js)) \<and>
     (\<forall>ns \<in> etcd_names db. hash_ok (docs db ns))"

definition edb_view :: "(string \<rightharpoonup> evalue) \<Rightarrow> store_view" where
  "edb_view db ns = (if ns \<in> etcd_names db then Some (hash_view (docs db ns)) else None)"

definition etcd_inv :: "('d \<Rightarrow> bool) \<Rightarrow> ('d \<Rightarrow> string \<rightharpoonup> evalue) \<Rightarrow> string set \<Rightarrow> 'd etcd \<Rightarrow> bool" where
  "etcd_inv up kv N e \<longleftrightarrow> up (e_db e) \<and> map_ok (e_namespaces e) \<and> edb_ok N (kv (e_db e)) \<and>
     map_keys (e_namespaces e) \<subseteq> etcd_names (kv (e_db e))"

definition etcd_view :: "('d \<Rightarrow> string \<rightharpoonup> evalue) \<Rightarrow> 'd etcd \<Rightarrow> store_view" where
  "etcd_view kv e = edb_view (kv (e_db e))"

lemma edb_okD:
  assumes "edb_ok N db"
  shows "finite (dom db)" "etcd_names db \<subseteq> N" "ns \<in> etcd_names db \<Longrightarrow> hash_ok (docs db ns)"
    "ns \<in> etcd_names db \<Longrightarrow> ns \<in> N"
    "db k = Some v \<Longrightarrow> (\<exists>ns. k = etcdNamespaceKey ns) \<or> (\<exists>ns c js. ns \<in> etcd_names db \<and> k = doc_key ns c \<and> v = Doc js)"
  using assms by (auto simp: edb_ok_def)

lemma edb_view_Some:
  assumes "edb_ok N db" "edb_view db ns = Some m"
  shows "ns \<in> etcd_names db" "ns \<in> N" "hash_ok (docs db ns)" "m = hash_view (docs db ns)"
  using assms by (auto simp: edb_view_def edb_ok_def split: if_split_asm)

lemma edb_view_None: "edb_view db ns = None \<longleftrightarrow> ns \<notin> etcd_names db"
  by (simp add: edb_view_def)

lemma docs_upd:
  assumes "names_apart N" "ns \<in> N" "ns' \<in> N"
  shows "docs (db(doc_key ns c := v)) ns' =
    (if ns' = ns then (docs db ns)(c := (case v of Some (Doc js) \<Rightarrow> Some js | _ \<Rightarrow> None)) else docs db ns')"
  using key_facts(4) [OF assms(1,2,3)] key_facts(4) [OF assms(1,3,2)] by (auto simp: docs_def fun_eq_iff)

lemma names_upd:
  assumes "names_apart N" "ns \<in> N"
  shows "etcd_names (db(doc_key ns c := v)) = etcd_names db"
  using key_facts(6) [OF assms] by (simp add: etcd_names_def)

text \<open>Writing or deleting one document.\<close>

lemma edb_write:
  assumes N: "names_apart N" and db: "edb_ok N db" "ns \<in> etcd_names db"
    and h: "hash_ok ((docs db ns)(c := j))"
  shows "edb_ok N (db(doc_key ns c := map_option Doc j))"
    "edb_view (db(doc_key ns c := map_option Doc j)) = (edb_view db)(ns \<mapsto> hash_view ((docs db ns)(c := j)))"
    "etcd_names (db(doc_key ns c := map_option Doc j)) = etcd_names db"
proof -
  let ?db = "db(doc_key ns c := map_option Doc j)"
  have ns: "ns \<in> N"
    using db by (rule edb_okD)
  show names: "etcd_names ?db = etcd_names db"
    by (rule names_upd [OF N ns])
  have docs: "docs ?db ns' = (if ns' = ns then (docs db ns)(c := j) else docs db ns')" if "ns' \<in> N" for ns'
    using docs_upd [OF N ns that, of db c "map_option Doc j"] by (cases j) simp_all
  have "finite (dom ?db)"
    using edb_okD(1) [OF db(1)] by (auto intro: finite_subset [of _ "insert (doc_key ns c) (dom db)"])
  moreover have "(\<exists>ns. k = etcdNamespaceKey ns) \<or> (\<exists>ns c js. ns \<in> etcd_names db \<and> k = doc_key ns c \<and> v = Doc js)"
    if "?db k = Some v" for k v
    using that db(2) edb_okD(5) [OF db(1), of k v] by (auto split: if_split_asm)
  moreover have "hash_ok (docs ?db ns')" if "ns' \<in> etcd_names db" for ns'
    using docs [OF edb_okD(4) [OF db(1) that]] h edb_okD(3) [OF db(1) that] by simp
  ultimately show "edb_ok N ?db"
    unfolding edb_ok_def names using edb_okD(2) [OF db(1)] by blast
  show "edb_view ?db = (edb_view db)(ns \<mapsto> hash_view ((docs db ns)(c := j)))"
    by (rule ext) (use docs edb_okD(4) [OF db(1)] db(2) in \<open>simp add: edb_view_def names\<close>)
qed

text \<open>Marking a namespace.\<close>

lemma docs_marker:
  assumes "names_apart N" "ns \<in> N"
  shows "docs (db(etcdNamespaceKey x := v)) ns = docs db ns"
  using key_facts(5) [OF assms] by (simp add: docs_def fun_eq_iff)

lemma names_marker [simp]:
  "etcd_names (db(etcdNamespaceKey ns \<mapsto> v)) = insert ns (etcd_names db)"
  "etcd_names (db(etcdNamespaceKey ns := None)) = etcd_names db - {ns}"
  by (auto simp: etcd_names_def)

lemma docs_unmarked:
  assumes N: "names_apart N" and db: "edb_ok N db" and ns: "ns \<in> N" "ns \<notin> etcd_names db"
  shows "docs db ns = Map.empty"
proof
  fix c
  have "db (doc_key ns c) = None"
  proof (rule ccontr)
    assume "db (doc_key ns c) \<noteq> None"
    then obtain v where "db (doc_key ns c) = Some v"
      by blast
    from edb_okD(5) [OF db this] key_facts(5) [OF N ns(1)] obtain ns' c' where
      "ns' \<in> etcd_names db" "doc_key ns c = doc_key ns' c'"
      by blast
    with key_facts(4) [OF N ns(1) edb_okD(4) [OF db], of ns' c c'] ns(2) show False
      by blast
  qed
  then show "docs db ns c = None"
    by (simp add: docs_def)
qed

lemma edb_mark:
  assumes N: "names_apart N" and db: "edb_ok N db" and ns: "ns \<in> N"
  shows "edb_ok N (db(etcdNamespaceKey ns \<mapsto> v))"
    "edb_view (db(etcdNamespaceKey ns \<mapsto> v)) =
      (case edb_view db ns of None \<Rightarrow> (edb_view db)(ns \<mapsto> Map.empty) | Some m \<Rightarrow> edb_view db)"
proof -
  let ?db = "db(etcdNamespaceKey ns \<mapsto> v)"
  have docs: "docs ?db ns' = docs db ns'" if "ns' \<in> N" for ns'
    by (rule docs_marker [OF N that])
  have empty: "docs db ns = Map.empty" if "ns \<notin> etcd_names db"
    by (rule docs_unmarked [OF N db ns that])
  have "hash_ok (docs ?db ns')" if "ns' \<in> insert ns (etcd_names db)" for ns'
  proof (cases "ns' \<in> etcd_names db")
    case True
    then show ?thesis
      using docs edb_okD(3,4) [OF db True] by simp
  next
    case False
    with that have "ns' = ns"
      by simp
    with False empty docs [OF ns] show ?thesis
      by simp
  qed
  moreover have "finite (dom ?db)" "insert ns (etcd_names db) \<subseteq> N"
    using edb_okD(1,2) [OF db] ns by simp_all
  moreover have "(\<exists>ns. k = etcdNamespaceKey ns) \<or>
      (\<exists>ns' c js. ns' \<in> insert ns (etcd_names db) \<and> k = doc_key ns' c \<and> w = Doc js)" if "?db k = Some w" for k w
    using that edb_okD(5) [OF db, of k w] by (auto split: if_split_asm)
  ultimately show "edb_ok N ?db"
    unfolding edb_ok_def names_marker by blast
  show "edb_view ?db = (case edb_view db ns of None \<Rightarrow> (edb_view db)(ns \<mapsto> Map.empty) | Some m \<Rightarrow> edb_view db)"
  proof (cases "ns \<in> etcd_names db")
    case True
    then have "edb_view ?db = edb_view db"
      by (intro ext) (use docs edb_okD(4) [OF db] in \<open>auto simp: edb_view_def\<close>)
    moreover obtain m where "edb_view db ns = Some m"
      using True by (auto simp: edb_view_def)
    ultimately show ?thesis
      by simp
  next
    case False
    then have "edb_view db ns = None"
      by (simp add: edb_view_None)
    moreover have "edb_view ?db = (edb_view db)(ns \<mapsto> Map.empty)"
      by (rule ext) (use False empty docs [OF ns] docs edb_okD(4) [OF db] in \<open>auto simp: edb_view_def\<close>)
    ultimately show ?thesis
      by simp
  qed
qed

text \<open>A key of a document holds a document.\<close>

lemma edb_doc:
  assumes "names_apart N" "edb_ok N db" "ns \<in> N"
  shows "db (doc_key ns c) = map_option Doc (docs db ns c)"
proof (cases "db (doc_key ns c)")
  case (Some v)
  with edb_okD(5) [OF assms(2) Some] key_facts(5) [OF assms(1,3)] show ?thesis
    by (auto simp: docs_def)
qed (simp add: docs_def)

text \<open>Deleting all keys that start with the name of a namespace, and then its marker.\<close>

lemma edb_clear:
  assumes N: "names_apart N" and db: "edb_ok N db" "ns \<in> etcd_names db"
    and db': "\<And>k. db' k = (if prefix ns k then None else db k)"
  shows "edb_ok N db'" "edb_view db' = (edb_view db)(ns \<mapsto> Map.empty)" "etcd_names db' = etcd_names db"
    "docs db' ns = Map.empty"
proof -
  have ns: "ns \<in> N"
    using db by (rule edb_okD)
  show names: "etcd_names db' = etcd_names db"
    using key_facts(2) [OF N ns] by (simp add: etcd_names_def db')
  show empty: "docs db' ns = Map.empty"
    by (simp add: docs_def db' fun_eq_iff)
  have docs: "docs db' ns' = docs db ns'" if "ns' \<in> N" "ns' \<noteq> ns" for ns'
    using key_facts(1) [OF N ns that(1)] that(2) by (simp add: docs_def db' fun_eq_iff)
  have "hash_ok (docs db' ns')" if "ns' \<in> etcd_names db" for ns'
    using docs [OF edb_okD(4) [OF db(1) that]] edb_okD(3) [OF db(1) that] empty by (cases "ns' = ns") simp_all
  moreover have "finite (dom db')"
    using edb_okD(1) [OF db(1)] by (rule rev_finite_subset) (auto simp: db' split: if_split_asm)
  moreover have "(\<exists>ns. k = etcdNamespaceKey ns) \<or> (\<exists>ns c js. ns \<in> etcd_names db \<and> k = doc_key ns c \<and> v = Doc js)"
    if "db' k = Some v" for k v
    using that edb_okD(5) [OF db(1), of k v] by (simp add: db' split: if_split_asm)
  ultimately show "edb_ok N db'"
    unfolding edb_ok_def names using edb_okD(2) [OF db(1)] by blast
  show "edb_view db' = (edb_view db)(ns \<mapsto> Map.empty)"
    by (rule ext) (use docs empty edb_okD(4) [OF db(1)] db(2) in \<open>simp add: edb_view_def names\<close>)
qed

lemma edb_unmark:
  assumes N: "names_apart N" and db: "edb_ok N db" "ns \<in> etcd_names db" "docs db ns = Map.empty"
  shows "edb_ok N (db(etcdNamespaceKey ns := None))"
    "edb_view (db(etcdNamespaceKey ns := None)) = (edb_view db)(ns := None)"
proof -
  let ?db = "db(etcdNamespaceKey ns := None)"
  have docs: "docs ?db ns' = docs db ns'" if "ns' \<in> N" for ns'
    by (rule docs_marker [OF N that])
  have "(\<exists>ns. k = etcdNamespaceKey ns) \<or>
      (\<exists>ns' c js. ns' \<in> etcd_names db - {ns} \<and> k = doc_key ns' c \<and> v = Doc js)" if "?db k = Some v" for k v
  proof -
    have k: "db k = Some v"
      using that by (simp split: if_split_asm)
    from edb_okD(5) [OF db(1) k] show ?thesis
    proof (elim disjE exE conjE)
      fix ns' c js assume d: "ns' \<in> etcd_names db" "k = doc_key ns' c" "v = Doc js"
      then have "docs db ns' c = Some js"
        using k by (simp add: docs_def)
      with d db(3) show ?thesis
        by (cases "ns' = ns") auto
    qed blast
  qed
  moreover have "hash_ok (docs ?db ns')" if "ns' \<in> etcd_names db - {ns}" for ns'
    using docs edb_okD(3,4) [OF db(1), of ns'] that by simp
  moreover have "finite (dom ?db)" "etcd_names db - {ns} \<subseteq> N"
    using edb_okD(1,2) [OF db(1)] by auto
  ultimately show "edb_ok N ?db"
    unfolding edb_ok_def names_marker by blast
  show "edb_view ?db = (edb_view db)(ns := None)"
    by (rule ext) (use docs edb_okD(4) [OF db(1)] in \<open>simp add: edb_view_def\<close>)
qed

section \<open>The contract holds\<close>

locale etcd_store = etcd_laws cl up kv
  for cl :: "'d etcd_client" and up :: "'d \<Rightarrow> bool" and kv :: "'d \<Rightarrow> string \<rightharpoonup> evalue" +
  fixes N :: "string set"
  assumes apart: "names_apart N"
begin

abbreviation einv :: "'d etcd \<Rightarrow> bool" where
  "einv \<equiv> etcd_inv up kv N"

abbreviation edb :: "'d etcd \<Rightarrow> string \<rightharpoonup> evalue" where
  "edb e \<equiv> kv (e_db e)"

lemma einvD:
  assumes "einv e"
  shows "up (e_db e)" "map_ok (e_namespaces e)" "edb_ok N (edb e)" "map_keys (e_namespaces e) \<subseteq> etcd_names (edb e)"
  using assms by (simp_all add: etcd_inv_def)

text \<open>A call that reads, and one that changes the database to another one that is in order.\<close>

lemma on_etcd_read:
  assumes e: "einv e" and op: "\<exists>d'. op (e_db e) = (x, d') \<and> up d' \<and> kv d' = edb e"
  obtains e' where "on_etcd op e = (x, e')" "einv e'" "etcd_view kv e' = etcd_view kv e" "edb e' = edb e"
proof -
  obtain d' where "op (e_db e) = (x, d')" "up d'" "kv d' = edb e"
    using op by blast
  with e that [of "e\<lparr>e_db := d'\<rparr>"] show ?thesis
    by (simp add: on_etcd_def etcd_inv_def etcd_view_def)
qed

lemma on_etcd_get:
  assumes e: "einv e"
  obtains e' where "on_etcd (EGet cl k) e = (Inr (edb e k), e')" "einv e'" "etcd_view kv e' = etcd_view kv e" "edb e' = edb e"
  by (rule on_etcd_read [OF e, of "EGet cl k" "Inr (edb e k)"]) (use eget [OF einvD(1) [OF e]] in auto)

lemma on_etcd_write:
  assumes e: "einv e" "ns \<in> etcd_names (edb e)" and h: "hash_ok ((docs (edb e) ns)(c := j))"
    and op: "\<exists>d'. op (e_db e) = (x, d') \<and> up d' \<and> kv d' = (edb e)(doc_key ns c := map_option Doc j)"
  obtains e' where "on_etcd op e = (x, e')" "einv e'"
    "etcd_view kv e' = (etcd_view kv e)(ns \<mapsto> hash_view ((docs (edb e) ns)(c := j)))"
proof -
  obtain d' where d': "op (e_db e) = (x, d')" "up d'" "kv d' = (edb e)(doc_key ns c := map_option Doc j)"
    using op by blast
  note w = edb_write [OF apart einvD(3) [OF e(1)] e(2) h, folded d'(3)]
  have "on_etcd op e = (x, e\<lparr>e_db := d'\<rparr>)"
    using d'(1) by (simp add: on_etcd_def)
  moreover have "einv (e\<lparr>e_db := d'\<rparr>)"
    using e(1) d'(2) w by (simp add: etcd_inv_def)
  ultimately show ?thesis
    by (rule that) (simp add: etcd_view_def w)
qed

lemma check_found:
  assumes e: "einv e" "etcd_view kv e ns = Some m"
  obtains e' where "etcd_checkNamespaceExists cl ns e = (Inr (), e')" "einv e'" "etcd_view kv e' = etcd_view kv e"
    "edb e' = edb e" "ns \<in> etcd_names (edb e')" "ns \<in> N" "hash_ok (docs (edb e') ns)" "m = hash_view (docs (edb e') ns)"
proof -
  note inv = einvD [OF e(1)]
  note v = edb_view_Some [OF inv(3) e(2) [unfolded etcd_view_def]]
  show ?thesis
  proof (cases "map_lookup (e_namespaces e) ns")
    case (Some u)
    then have "etcd_checkNamespaceExists cl ns e = (Inr (), e)"
      by (simp add: etcd_checkNamespaceExists_def)
    with that [of e] e(1) v show ?thesis
      by simp
  next
    case None
    obtain e1 where e1: "on_etcd (EGet cl (etcdNamespaceKey ns)) e = (Inr (edb e (etcdNamespaceKey ns)), e1)"
        "einv e1" "etcd_view kv e1 = etcd_view kv e" "edb e1 = edb e"
      by (rule on_etcd_get [OF e(1)])
    obtain b where b: "edb e (etcdNamespaceKey ns) = Some b"
      using v(1) by (auto simp: etcd_names_def)
    have cache: "e_namespaces e1 = e_namespaces e"
      using e1(1) by (auto simp: on_etcd_def split: prod.split_asm)
    obtain nss where nss: "map_insert (e_namespaces e) ns () = Inr nss"
      using map_ok_insert_ex [OF inv(2)] by blast
    let ?e = "e1\<lparr>e_namespaces := nss\<rparr>"
    have "etcd_checkNamespaceExists cl ns e = (Inr (), ?e)"
      using None e1(1) b nss cache by (simp add: etcd_checkNamespaceExists_def)
    moreover have "einv ?e"
      using e1(2,4) inv(2,4) v(1) map_insert_ok [OF nss inv(2)] map_keys_insert [OF nss] by (simp add: etcd_inv_def)
    ultimately show ?thesis
      using that [of ?e] e1(3,4) v by (simp add: etcd_view_def)
  qed
qed

lemma check_missing:
  assumes e: "einv e" "etcd_view kv e ns = None"
  obtains e' where "etcd_checkNamespaceExists cl ns e = (Inl (Sentinel ErrNamespaceDoesNotExist), e')" "einv e'"
    "etcd_view kv e' = etcd_view kv e"
proof -
  have ns: "ns \<notin> etcd_names (edb e)"
    using e(2) by (simp add: etcd_view_def edb_view_None)
  then have "map_lookup (e_namespaces e) ns = None"
    using einvD(4) [OF e(1)] by (auto simp: map_keys_def)
  moreover obtain e1 where "on_etcd (EGet cl (etcdNamespaceKey ns)) e = (Inr (edb e (etcdNamespaceKey ns)), e1)"
      "einv e1" "etcd_view kv e1 = etcd_view kv e"
    by (rule on_etcd_get [OF e(1)])
  ultimately show ?thesis
    using that [of e1] ns by (simp add: etcd_checkNamespaceExists_def etcd_names_def)
qed

lemma etcd_create:
  assumes e: "einv e" "etcd_view kv e ns = Some m" and p: "wf_prefix p" "Cidr p \<noteq> []"
  shows "if m (Cidr p) = None then \<exists>e'. etcd_CreatePrefix cl p ns e = (Inr p, e') \<and> einv e' \<and>
      etcd_view kv e' = (etcd_view kv e)(ns \<mapsto> m(Cidr p \<mapsto> abs_prefix p))
    else \<exists>err e'. etcd_CreatePrefix cl p ns e = (Inl err, e') \<and> einv e' \<and> etcd_view kv e' = etcd_view kv e"
proof -
  obtain e1 where c: "etcd_checkNamespaceExists cl ns e = (Inr (), e1)" "einv e1" "etcd_view kv e1 = etcd_view kv e"
      "edb e1 = edb e" "ns \<in> etcd_names (edb e1)" "ns \<in> N" "hash_ok (docs (edb e1) ns)" "m = hash_view (docs (edb e1) ns)"
    using check_found [OF e] .
  obtain e2 where e2: "on_etcd (EGet cl (doc_key ns (Cidr p))) e1 = (Inr (edb e1 (doc_key ns (Cidr p))), e2)"
      "einv e2" "etcd_view kv e2 = etcd_view kv e1" "edb e2 = edb e1"
    by (rule on_etcd_get [OF c(2)])
  have doc: "edb e1 (doc_key ns (Cidr p)) = map_option Doc (docs (edb e1) ns (Cidr p))"
    by (rule edb_doc [OF apart einvD(3) [OF c(2)] c(6)])
  show ?thesis
  proof (cases "docs (edb e1) ns (Cidr p)")
    case (Some js)
    then have "m (Cidr p) \<noteq> None"
      using hash_view_None [OF c(7)] c(8) by simp
    moreover have "etcd_CreatePrefix cl p ns e = (Inl (Errorf ''prefix already exists:%v'' []), e2)"
      using c(1) e2(1) doc Some by (simp add: etcd_CreatePrefix_def)
    ultimately show ?thesis
      using e2(2,3) c(3) by simp
  next
    case None
    let ?js = "marshal_prefix (toPrefixJSON p)"
    have docs2: "docs (edb e2) ns = docs (edb e1) ns" "ns \<in> etcd_names (edb e2)"
      using e2(4) c(5) by simp_all
    note h' = hash_store [OF c(7) p]
    obtain e3 where e3: "on_etcd (EPut cl (doc_key ns (Cidr p)) (Doc ?js)) e2 = (Inr (), e3)" "einv e3"
        "etcd_view kv e3 = (etcd_view kv e2)(ns \<mapsto> hash_view ((docs (edb e2) ns)(Cidr p := Some ?js)))"
    proof (rule on_etcd_write [OF e2(2) docs2(2)])
      show "hash_ok ((docs (edb e2) ns)(Cidr p := Some ?js))"
        using h'(1) docs2(1) by simp
      show "\<exists>d'. EPut cl (doc_key ns (Cidr p)) (Doc ?js) (e_db e2) = (Inr (), d') \<and> up d' \<and>
          kv d' = (edb e2)(doc_key ns (Cidr p) := map_option Doc (Some ?js))"
        using eput [OF einvD(1) [OF e2(2)]] by simp
    qed
    have "etcd_CreatePrefix cl p ns e = (Inr p, e3)"
      using c(1) e2(1) doc None e3(1) by (simp add: etcd_CreatePrefix_def Prefix_toJSON_def)
    moreover have "m (Cidr p) = None"
      using None hash_view_None [OF c(7)] c(8) by simp
    ultimately show ?thesis
      using e3(2,3) h'(2) docs2(1) c(3,8) e2(3) by simp
  qed
qed

lemma etcd_read_cases:
  assumes e: "einv e" "etcd_view kv e ns = Some m"
  obtains h e' where "hash_ok h" "m = hash_view h" "einv e'" "etcd_view kv e' = etcd_view kv e"
    "etcd_ReadPrefix cl c ns e = (case h c of
       None \<Rightarrow> Inl (Errorf ''%w unable to read existing prefix:%v, error:%w'' [Sentinel ErrNotFound])
     | Some js \<Rightarrow> fromJSON js, e')"
proof -
  obtain e1 where c: "etcd_checkNamespaceExists cl ns e = (Inr (), e1)" "einv e1" "etcd_view kv e1 = etcd_view kv e"
      "edb e1 = edb e" "ns \<in> etcd_names (edb e1)" "ns \<in> N" "hash_ok (docs (edb e1) ns)" "m = hash_view (docs (edb e1) ns)"
    using check_found [OF e] .
  obtain e2 where e2: "on_etcd (EGet cl (doc_key ns c)) e1 = (Inr (edb e1 (doc_key ns c)), e2)"
      "einv e2" "etcd_view kv e2 = etcd_view kv e1" "edb e2 = edb e1"
    by (rule on_etcd_get [OF c(2)])
  have doc: "edb e1 (doc_key ns c) = map_option Doc (docs (edb e1) ns c)"
    by (rule edb_doc [OF apart einvD(3) [OF c(2)] c(6)])
  show ?thesis
    by (rule that [OF c(7,8) e2(2)])
      (use c(1,3) e2(1,3) doc in \<open>auto simp: etcd_ReadPrefix_def split: option.split\<close>)
qed

lemma etcd_update_cases:
  assumes e: "einv e" "etcd_view kv e ns = Some m" and p: "wf_prefix p"
  shows "if m (Cidr p) = None then \<exists>err e'. etcd_update_check cl p ns e = (Inl err, e') \<and> einv e' \<and>
      etcd_view kv e' = etcd_view kv e
    else if aVersion (the (m (Cidr p))) \<noteq> version p then \<exists>err e'. etcd_update_check cl p ns e = (Inl err, e') \<and>
      errors_is err ErrOptimisticLockError \<and> einv e' \<and> etcd_view kv e' = etcd_view kv e
    else \<exists>e'. etcd_update_check cl p ns e = (Inr (marshal_prefix (toPrefixJSON (next_version p))), e') \<and> einv e' \<and>
      etcd_view kv e' = etcd_view kv e"
proof -
  obtain e1 where c: "etcd_checkNamespaceExists cl ns e = (Inr (), e1)" "einv e1" "etcd_view kv e1 = etcd_view kv e"
      "edb e1 = edb e" "ns \<in> etcd_names (edb e1)" "ns \<in> N" "hash_ok (docs (edb e1) ns)" "m = hash_view (docs (edb e1) ns)"
    using check_found [OF e] .
  obtain e2 where e2: "on_etcd (EGet cl (doc_key ns (Cidr p))) e1 = (Inr (edb e1 (doc_key ns (Cidr p))), e2)"
      "einv e2" "etcd_view kv e2 = etcd_view kv e1" "edb e2 = edb e1"
    by (rule on_etcd_get [OF c(2)])
  have doc: "edb e1 (doc_key ns (Cidr p)) = map_option Doc (docs (edb e1) ns (Cidr p))"
    by (rule edb_doc [OF apart einvD(3) [OF c(2)] c(6)])
  show ?thesis
  proof (cases "docs (edb e1) ns (Cidr p)")
    case None
    then have "m (Cidr p) = None"
      using hash_view_None [OF c(7)] c(8) by simp
    moreover have "etcd_update_check cl p ns e = (Inl (Errorf ''unable to get all prefix cidrs:%w'' []), e2)"
      using c(1) e2(1) doc None by (simp add: etcd_update_check_def Prefix_toJSON_def)
    ultimately show ?thesis
      using e2(2,3) c(3) by simp
  next
    case (Some js)
    obtain q where q: "fromJSON js = Inr q"
      using c(7) Some by (auto simp: hash_ok_def)
    then have m: "m (Cidr p) = Some (abs_prefix q)"
      using c(8) Some by (simp add: hash_view_def)
    have "etcd_update_check cl p ns e = (if version q \<noteq> version p
        then Inl (Errorf ''%w: unable to update prefix:%s'' [Sentinel ErrOptimisticLockError])
        else Inr (marshal_prefix (toPrefixJSON (next_version p))), e2)"
      unfolding next_version_def
      using c(1) e2(1) doc Some q by (simp add: etcd_update_check_def Prefix_toJSON_def)
    with m e2(2,3) c(3) show ?thesis
      by simp
  qed
qed

text \<open>The write of \<open>UpdatePrefix\<close> puts the document, whatever is stored.\<close>

lemma etcd_write:
  assumes e: "einv e" "etcd_view kv e ns = Some m" and p: "wf_prefix p" "Cidr p \<noteq> []"
  shows "\<exists>e'. etcd_update_write cl p ns (marshal_prefix (toPrefixJSON (next_version p))) e = (Inr (next_version p), e') \<and>
    einv e' \<and> etcd_view kv e' = (etcd_view kv e)(ns \<mapsto> m(Cidr p \<mapsto> abs_prefix (next_version p)))"
proof -
  note inv = einvD [OF e(1)]
  note v = edb_view_Some [OF inv(3) e(2) [unfolded etcd_view_def]]
  let ?js = "marshal_prefix (toPrefixJSON (next_version p))"
  have h': "hash_ok ((docs (edb e) ns)(Cidr p := Some ?js))"
    "hash_view ((docs (edb e) ns)(Cidr p := Some ?js)) = (hash_view (docs (edb e) ns))(Cidr p \<mapsto> abs_prefix (next_version p))"
    using hash_store [OF v(3), of "next_version p"] p by simp_all
  obtain e' where e': "on_etcd (EPut cl (doc_key ns (Cidr p)) (Doc ?js)) e = (Inr (), e')" "einv e'"
      "etcd_view kv e' = (etcd_view kv e)(ns \<mapsto> hash_view ((docs (edb e) ns)(Cidr p := Some ?js)))"
  proof (rule on_etcd_write [OF e(1) v(1) h'(1)])
    show "\<exists>d'. EPut cl (doc_key ns (Cidr p)) (Doc ?js) (e_db e) = (Inr (), d') \<and> up d' \<and>
        kv d' = (edb e)(doc_key ns (Cidr p) := map_option Doc (Some ?js))"
      using eput [OF inv(1)] by simp
  qed
  then have "etcd_update_write cl p ns ?js e = (Inr (next_version p), e')"
    by (simp add: etcd_update_write_def next_version_def)
  with e'(2,3) h'(2) v(4) show ?thesis
    by simp
qed

lemma etcd_delete:
  assumes e: "einv e" "etcd_view kv e ns = Some m"
  obtains e' where "etcd_DeletePrefix cl p ns e = (Inr (deepCopy p), e')" "einv e'"
    "etcd_view kv e' = (etcd_view kv e)(ns \<mapsto> m(Cidr p := None))"
proof -
  obtain e1 where c: "etcd_checkNamespaceExists cl ns e = (Inr (), e1)" "einv e1" "etcd_view kv e1 = etcd_view kv e"
      "edb e1 = edb e" "ns \<in> etcd_names (edb e1)" "ns \<in> N" "hash_ok (docs (edb e1) ns)" "m = hash_view (docs (edb e1) ns)"
    using check_found [OF e] .
  note h' = hash_remove [OF c(7), of "Cidr p"]
  obtain e2 where e2: "on_etcd (EDelete cl (doc_key ns (Cidr p))) e1 = (Inr (), e2)" "einv e2"
      "etcd_view kv e2 = (etcd_view kv e1)(ns \<mapsto> hash_view ((docs (edb e1) ns)(Cidr p := None)))"
  proof (rule on_etcd_write [OF c(2,5) h'(1)])
    show "\<exists>d'. EDelete cl (doc_key ns (Cidr p)) (e_db e1) = (Inr (), d') \<and> up d' \<and>
        kv d' = (edb e1)(doc_key ns (Cidr p) := map_option Doc None)"
      using edelete [OF einvD(1) [OF c(2)]] by simp
  qed
  show ?thesis
    by (rule that [OF _ e2(2)]) (use c(1,3,8) e2(1,3) h'(2) in \<open>simp_all add: etcd_DeletePrefix_def\<close>)
qed

lemma einv_change:
  assumes "einv e" "up (e_db e')" "e_namespaces e' = e_namespaces e" "edb_ok N (edb e')" "etcd_names (edb e') = etcd_names (edb e)"
  shows "einv e'"
  using assms by (simp add: etcd_inv_def)

lemma etcd_keys:
  assumes e: "einv e" "etcd_view kv e ns = Some m"
  obtains e1 ks e2 where "etcd_checkNamespaceExists cl ns e = (Inr (), e1)" "on_etcd (EGetKeys cl ns) e1 = (Inr ks, e2)"
    "distinct ks" "set ks = doc_key ns ` dom (docs (edb e2) ns)" "set ks = {k \<in> dom (edb e2). prefix ns k}" "einv e2"
    "etcd_view kv e2 = etcd_view kv e" "ns \<in> etcd_names (edb e2)" "ns \<in> N" "hash_ok (docs (edb e2) ns)"
    "m = hash_view (docs (edb e2) ns)"
proof -
  obtain e1 where c: "etcd_checkNamespaceExists cl ns e = (Inr (), e1)" "einv e1" "etcd_view kv e1 = etcd_view kv e"
      "edb e1 = edb e" "ns \<in> etcd_names (edb e1)" "ns \<in> N" "hash_ok (docs (edb e1) ns)" "m = hash_view (docs (edb e1) ns)"
    using check_found [OF e] .
  obtain ks d where ks: "EGetKeys cl ns (e_db e1) = (Inr ks, d)" "distinct ks" "set ks = {k \<in> dom (edb e1). prefix ns k}"
      "up d" "kv d = edb e1"
    using egetkeys [OF einvD(1) [OF c(2)]] by blast
  obtain e2 where e2: "on_etcd (EGetKeys cl ns) e1 = (Inr ks, e2)" "einv e2" "etcd_view kv e2 = etcd_view kv e1"
      "edb e2 = edb e1"
    by (rule on_etcd_read [OF c(2), of "EGetKeys cl ns" "Inr ks"]) (use ks in auto)
  have "{k \<in> dom (edb e1). prefix ns k} = doc_key ns ` dom (docs (edb e1) ns)"
  proof (intro equalityI subsetI)
    fix k assume k: "k \<in> {k \<in> dom (edb e1). prefix ns k}"
    then obtain v where v: "edb e1 k = Some v"
      by blast
    from edb_okD(5) [OF einvD(3) [OF c(2)] v] k key_facts(2) [OF apart c(6)] obtain ns' x js where
      d: "ns' \<in> etcd_names (edb e1)" "k = doc_key ns' x" "v = Doc js"
      by blast
    then have "ns' = ns"
      using k key_facts(1) [OF apart c(6) edb_okD(4) [OF einvD(3) [OF c(2)] d(1)]] by simp
    with d v show "k \<in> doc_key ns ` dom (docs (edb e1) ns)"
      by (auto simp: docs_def)
  next
    fix k assume "k \<in> doc_key ns ` dom (docs (edb e1) ns)"
    then show "k \<in> {k \<in> dom (edb e1). prefix ns k}"
      using edb_doc [OF apart einvD(3) [OF c(2)] c(6)] by auto
  qed
  with that [OF c(1) e2(1) ks(2)] e2 ks(3) c(3,5-8) show ?thesis
    by simp
qed

lemma etcd_delete_all:
  assumes e: "einv e" "etcd_view kv e ns = Some m"
  obtains e' where "etcd_DeleteAllPrefixes cl ns e = (Inr (), e')" "einv e'"
    "etcd_view kv e' = (etcd_view kv e)(ns \<mapsto> Map.empty)" "docs (edb e') ns = Map.empty" "ns \<in> etcd_names (edb e')" "ns \<in> N"
proof -
  obtain e1 ks e2 where k: "etcd_checkNamespaceExists cl ns e = (Inr (), e1)" "on_etcd (EGetKeys cl ns) e1 = (Inr ks, e2)"
    "distinct ks" "set ks = doc_key ns ` dom (docs (edb e2) ns)" "set ks = {k \<in> dom (edb e2). prefix ns k}" "einv e2"
    "etcd_view kv e2 = etcd_view kv e" "ns \<in> etcd_names (edb e2)" "ns \<in> N"
    by (rule etcd_keys [OF e])
  obtain e3 where e3: "etcd_delete_keys cl ks e2 = (Inr (), e3)" "up (e_db e3)" "e_namespaces e3 = e_namespaces e2"
      "edb e3 = (\<lambda>k. if k \<in> set ks then None else edb e2 k)"
    using etcd_delete_keys_run [OF einvD(1) [OF k(6)]] by blast
  have "edb e3 k' = (if prefix ns k' then None else edb e2 k')" for k'
    using k(5) e3(4) by (auto simp: domIff)
  note w = edb_clear [OF apart einvD(3) [OF k(6)] k(8) this]
  show ?thesis
    by (rule that [OF _ einv_change [OF k(6) e3(2,3) w(1,3)]])
      (use k(1,2,7,8,9) e3(1) w in \<open>simp_all add: etcd_DeleteAllPrefixes_def etcd_view_def\<close>)
qed

lemma etcd_read_docs_all:
  assumes e: "einv e" "etcd_view kv e ns = Some m"
  obtains e1 ks e2 ps e3 where "etcd_checkNamespaceExists cl ns e = (Inr (), e1)" "on_etcd (EGetKeys cl ns) e1 = (Inr ks, e2)"
    "etcd_read_docs cl ks [] e2 = (Inr ps, e3)" "distinct (map Cidr ps)" "\<forall>p \<in> set ps. wf_prefix p"
    "map_of (map (\<lambda>p. (Cidr p, abs_prefix p)) ps) = m" "einv e3" "etcd_view kv e3 = etcd_view kv e"
proof -
  obtain e1 ks e2 where k: "etcd_checkNamespaceExists cl ns e = (Inr (), e1)" "on_etcd (EGetKeys cl ns) e1 = (Inr ks, e2)"
    "distinct ks" "set ks = doc_key ns ` dom (docs (edb e2) ns)" "set ks = {k \<in> dom (edb e2). prefix ns k}" "einv e2"
    "etcd_view kv e2 = etcd_view kv e" "ns \<in> etcd_names (edb e2)" "ns \<in> N" "hash_ok (docs (edb e2) ns)"
    "m = hash_view (docs (edb e2) ns)"
    by (rule etcd_keys [OF e])
  let ?h = "docs (edb e2) ns"
  define g where "g k = (case edb e2 k of Some v \<Rightarrow> projr (value_fromJSON v) | None \<Rightarrow> undefined)" for k
  have doc: "edb e2 (doc_key ns c) = map_option Doc (?h c)" for c
    by (rule edb_doc [OF apart einvD(3) [OF k(6)] k(9)])
  have g: "edb e2 (doc_key ns c) = Some (Doc js) \<and> fromJSON js = Inr (g (doc_key ns c)) \<and> wf_prefix (g (doc_key ns c)) \<and>
      Cidr (g (doc_key ns c)) = c" if "?h c = Some js" for c js
    using doc [of c] that hash_okD [OF k(10) that] by (auto simp: g_def)
  have vals: "\<forall>k \<in> set ks. \<exists>v. edb e2 k = Some v \<and> value_fromJSON v = Inr (g k)"
    using g k(4) by fastforce
  obtain e3 where e3: "etcd_read_docs cl ks [] e2 = (Inr ([] @ map g ks), e3)" "up (e_db e3)"
      "e_namespaces e3 = e_namespaces e2" "edb e3 = edb e2"
    using etcd_read_docs_run [OF einvD(1) [OF k(6)] vals, of "[]"] by blast
  have cid: "Cidr (g k') = c" if "k' \<in> set ks" "k' = doc_key ns c" for k' c
    using that g k(4) by (auto simp: doc_key_def)
  have "inj_on (\<lambda>k. Cidr (g k)) (set ks)"
  proof (rule inj_onI)
    fix x y assume xy: "x \<in> set ks" "y \<in> set ks" "Cidr (g x) = Cidr (g y)"
    then obtain c c' where "x = doc_key ns c" "y = doc_key ns c'"
      using k(4) by auto
    with cid [of x c] cid [of y c'] xy show "x = y"
      by simp
  qed
  then have dist: "distinct (map Cidr (map g ks))"
    using k(3) by (simp add: distinct_map comp_def)
  have "m c = Some a \<longleftrightarrow> (\<exists>p \<in> set (map g ks). Cidr p = c \<and> abs_prefix p = a)" for c a
  proof
    assume "m c = Some a"
    then obtain js p where "?h c = Some js" "fromJSON js = Inr p" "abs_prefix p = a"
      unfolding k(11) hash_view_Some_iff by blast
    with g [of c js] k(4) show "\<exists>p \<in> set (map g ks). Cidr p = c \<and> abs_prefix p = a"
      by (intro bexI [of _ "g (doc_key ns c)"]) auto
  next
    assume "\<exists>p \<in> set (map g ks). Cidr p = c \<and> abs_prefix p = a"
    then obtain c' js where c': "?h c' = Some js" "Cidr (g (doc_key ns c')) = c" "abs_prefix (g (doc_key ns c')) = a"
      using k(4) by auto
    with g [OF c'(1)] show "m c = Some a"
      unfolding k(11) hash_view_Some_iff by auto
  qed
  note map_of_prefixes [OF dist this]
  moreover have "\<forall>p \<in> set (map g ks). wf_prefix p"
    using g k(4) by auto
  moreover have "einv e3" "etcd_view kv e3 = etcd_view kv e2"
    using einv_change [OF k(6) e3(2,3)] e3(4) einvD(3) [OF k(6)] by (simp_all add: etcd_view_def)
  ultimately show ?thesis
    using that [OF k(1,2)] e3(1) dist k(7) by simp
qed

lemma etcd_create_ns:
  assumes e: "einv e" and ns: "ns \<in> N"
  shows "\<exists>e'. etcd_CreateNamespace cl ns e = (Inr (), e') \<and> einv e' \<and> etcd_view kv e' =
    (case etcd_view kv e ns of None \<Rightarrow> (etcd_view kv e)(ns \<mapsto> Map.empty) | Some m \<Rightarrow> etcd_view kv e)"
proof (cases "map_lookup (e_namespaces e) ns")
  case (Some u)
  then have "ns \<in> etcd_names (edb e)"
    using einvD(4) [OF e] by (auto simp: map_keys_def)
  with Some e show ?thesis
    by (simp add: etcd_CreateNamespace_def etcd_view_def edb_view_def)
next
  case None
  note inv = einvD [OF e]
  obtain d where d: "EPut cl (etcdNamespaceKey ns) Blank (e_db e) = (Inr (), d)" "up d"
      "kv d = (edb e)(etcdNamespaceKey ns \<mapsto> Blank)"
    using eput [OF inv(1)] by blast
  obtain nss where nss: "map_insert (e_namespaces e) ns () = Inr nss"
    using map_ok_insert_ex [OF inv(2)] by blast
  note w = edb_mark [OF apart inv(3) ns, of Blank, folded d(3)]
  let ?e = "e\<lparr>e_db := d, e_namespaces := nss\<rparr>"
  have "etcd_CreateNamespace cl ns e = (Inr (), ?e)"
    using None d(1) nss by (simp add: etcd_CreateNamespace_def on_etcd_def)
  moreover have "etcd_names (kv d) = insert ns (etcd_names (edb e))"
    unfolding d(3) by simp
  then have "einv ?e"
    using inv(2,4) d(2) w(1) map_insert_ok [OF nss inv(2)] map_keys_insert [OF nss] by (auto simp: etcd_inv_def)
  ultimately show ?thesis
    using w(2) by (auto simp: etcd_view_def split: option.split)
qed

lemma etcd_list_ns:
  assumes e: "einv e"
  shows "\<exists>nss e'. etcd_ListNamespaces cl e = (Inr nss, e') \<and> distinct nss \<and> set nss = dom (etcd_view kv e) \<and>
    einv e' \<and> etcd_view kv e' = etcd_view kv e"
proof -
  note inv = einvD [OF e]
  let ?p = "etcdNamespaceKey []"
  obtain ks d where ks: "EGetKeys cl ?p (e_db e) = (Inr ks, d)" "distinct ks" "set ks = {k \<in> dom (edb e). prefix ?p k}"
      "up d" "kv d = edb e"
    using egetkeys [OF inv(1)] by blast
  obtain e1 where e1: "on_etcd (EGetKeys cl ?p) e = (Inr ks, e1)" "einv e1" "etcd_view kv e1 = etcd_view kv e"
    by (rule on_etcd_read [OF e, of "EGetKeys cl ?p" "Inr ks"]) (use ks in auto)
  have set: "set ks = etcdNamespaceKey ` etcd_names (edb e)"
  proof -
    have "\<exists>ns. k = etcdNamespaceKey ns" if k: "k \<in> dom (edb e)" "prefix ?p k" for k
    proof -
      obtain v where "edb e k = Some v"
        using k(1) by blast
      from edb_okD(5) [OF inv(3) this] k(2) key_facts(3) [OF apart edb_okD(4) [OF inv(3)]] show ?thesis
        by auto
    qed
    then show ?thesis
      unfolding ks(3) by (fastforce simp: etcd_names_def)
  qed
  let ?f = "\<lambda>k. TrimPrefix k ?p"
  have "inj_on ?f (set ks)"
    unfolding set by (auto intro!: inj_onI)
  then have "distinct (map ?f ks)"
    using ks(2) by (simp add: distinct_map)
  moreover have "set (map ?f ks) = dom (etcd_view kv e)"
    by (auto simp: set image_image etcd_view_def edb_view_def split: if_split_asm)
  ultimately show ?thesis
    using e1 by (simp add: etcd_ListNamespaces_def Let_def)
qed

lemma etcd_delete_ns:
  assumes e: "einv e" "etcd_view kv e ns = Some m"
  shows "\<exists>e'. etcd_DeleteNamespace cl ns e = (Inr (), e') \<and> einv e' \<and> etcd_view kv e' = (etcd_view kv e)(ns := None)"
proof -
  obtain e1 where e1: "etcd_DeleteAllPrefixes cl ns e = (Inr (), e1)" "einv e1"
      "etcd_view kv e1 = (etcd_view kv e)(ns \<mapsto> Map.empty)" "docs (edb e1) ns = Map.empty" "ns \<in> etcd_names (edb e1)"
    using etcd_delete_all [OF e] .
  note inv = einvD [OF e1(2)]
  obtain d where d: "EDelete cl (etcdNamespaceKey ns) (e_db e1) = (Inr (), d)" "up d"
      "kv d = (edb e1)(etcdNamespaceKey ns := None)"
    using edelete [OF inv(1)] by blast
  note w = edb_unmark [OF apart inv(3) e1(5,4), folded d(3)]
  let ?e = "e1\<lparr>e_db := d, e_namespaces := map_delete (e_namespaces e1) ns\<rparr>"
  have "etcd_DeleteNamespace cl ns e = (Inr (), ?e)"
    using e1(1) d(1) by (simp add: etcd_DeleteNamespace_def on_etcd_def)
  moreover have "etcd_names (kv d) = etcd_names (edb e1) - {ns}"
    unfolding d(3) by simp
  then have "einv ?e"
    using inv(2,4) d(2) w(1) by (auto simp: etcd_inv_def)
  ultimately show ?thesis
    using w(2) e1(3) by (simp add: etcd_view_def)
qed

lemma etcd_read_all:
  assumes e: "einv e" "etcd_view kv e ns = Some m"
  shows "\<exists>ps e'. etcd_ReadAllPrefixes cl ns e = (Inr ps, e') \<and> distinct (map Cidr ps) \<and> (\<forall>p \<in> set ps. wf_prefix p) \<and>
    map_of (map (\<lambda>p. (Cidr p, abs_prefix p)) ps) = m \<and> einv e' \<and> etcd_view kv e' = etcd_view kv e"
  by (rule etcd_read_docs_all [OF e]) (simp add: etcd_ReadAllPrefixes_def)

lemma etcd_read_cidrs:
  assumes e: "einv e" "etcd_view kv e ns = Some m"
  shows "\<exists>cs e'. etcd_ReadAllPrefixCidrs cl ns e = (Inr cs, e') \<and> distinct cs \<and> set cs = dom m \<and>
    einv e' \<and> etcd_view kv e' = etcd_view kv e"
proof (rule etcd_read_docs_all [OF e])
  fix e1 ks e2 ps e3
  assume r: "etcd_checkNamespaceExists cl ns e = (Inr (), e1)" "on_etcd (EGetKeys cl ns) e1 = (Inr ks, e2)"
    "etcd_read_docs cl ks [] e2 = (Inr ps, e3)" "distinct (map Cidr ps)" "einv e3" "etcd_view kv e3 = etcd_view kv e"
    "map_of (map (\<lambda>p. (Cidr p, abs_prefix p)) ps) = m"
  from r(7) have "dom m = set (map Cidr ps)"
    using dom_map_of_conv_image_fst [of "map (\<lambda>p. (Cidr p, abs_prefix p)) ps"] by (simp add: image_image)
  with r(1-6) show ?thesis
    by (simp add: etcd_ReadAllPrefixCidrs_def)
qed

lemma etcd_update:
  assumes e: "einv e" "etcd_view kv e ns = Some m" and p: "wf_prefix p"
  shows "if m (Cidr p) = None then \<exists>err e'. etcd_UpdatePrefix cl p ns e = (Inl err, e') \<and> einv e' \<and>
      etcd_view kv e' = etcd_view kv e
    else if aVersion (the (m (Cidr p))) \<noteq> version p then \<exists>err e'. etcd_UpdatePrefix cl p ns e = (Inl err, e') \<and>
      errors_is err ErrOptimisticLockError \<and> einv e' \<and> etcd_view kv e' = etcd_view kv e
    else \<exists>e'. etcd_UpdatePrefix cl p ns e = (Inr (next_version p), e') \<and> einv e' \<and>
      etcd_view kv e' = (etcd_view kv e)(ns \<mapsto> m(Cidr p \<mapsto> abs_prefix (next_version p)))"
proof (cases "m (Cidr p) = None \<or> aVersion (the (m (Cidr p))) \<noteq> version p")
  case True
  with etcd_update_cases [OF assms] show ?thesis
    by (auto simp: etcd_UpdatePrefix_def split: if_split_asm)
next
  case False
  then obtain e1 where e1: "etcd_update_check cl p ns e = (Inr (marshal_prefix (toPrefixJSON (next_version p))), e1)"
      "einv e1" "etcd_view kv e1 = etcd_view kv e"
    using etcd_update_cases [OF assms] by auto
  have ne: "Cidr p \<noteq> []"
    using False edb_view_Some(3,4) [OF einvD(3) [OF e(1)] e(2) [unfolded etcd_view_def]]
    by (auto elim: hash_view_entry)
  from etcd_write [OF e1(2) e(2) [folded e1(3)] p ne] False e1(1,3) show ?thesis
    by (auto simp: etcd_UpdatePrefix_def)
qed

sublocale etcd: full_storage_laws "etcd_storage cl" einv "etcd_view kv" "\<lambda>ns. ns \<in> N"
proof unfold_locales
  fix r :: "'d etcd" and ns m c a p x r'
  assume r: "einv r"
  { assume m: "etcd_view kv r ns = Some m"
    note h = edb_view_Some(3,4) [OF einvD(3) [OF r] m [unfolded etcd_view_def]]
    have view_cidr: "aCidr a = c \<and> c \<noteq> []" if "m c = Some a" for a c
      using that unfolding h(2) by (rule hash_view_entry [OF h(1)]) auto
    then show "m c = Some a \<Longrightarrow> aCidr a = c \<and> c \<noteq> []" .
    have "dom m = dom (docs (edb r) ns)"
      unfolding h(2) using hash_view_None [OF h(1)] by (simp add: set_eq_iff domIff)
    with h(1) show "finite (dom m)"
      by (simp add: hash_ok_def)
    show "wf_prefix p \<Longrightarrow> Cidr p \<noteq> [] \<Longrightarrow> m (Cidr p) = None \<Longrightarrow>
      \<exists>q s'. (q = p \<or> q = p\<lparr>version := 0\<rparr>) \<and> CreatePrefix (etcd_storage cl) p ns r = (Inr q, s') \<and> einv s' \<and>
        etcd_view kv s' = (etcd_view kv r)(ns \<mapsto> m(Cidr p \<mapsto> abs_prefix q))"
      using etcd_create [OF r m, of p] by (simp add: etcd_storage_def) blast
    show "wf_prefix p \<Longrightarrow> m (Cidr p) \<noteq> None \<Longrightarrow> CreatePrefix (etcd_storage cl) p ns r = (x, r') \<Longrightarrow>
      einv r' \<and> etcd_view kv r' = etcd_view kv r"
      using etcd_create [OF r m, of p] view_cidr [of "Cidr p"] by (auto simp: etcd_storage_def)
    show "m c = Some a \<Longrightarrow> \<exists>p s'. ReadPrefix (etcd_storage cl) c ns r = (Inr p, s') \<and> abs_prefix p = a \<and>
        wf_prefix p \<and> einv s' \<and> etcd_view kv s' = etcd_view kv r"
      by (rule etcd_read_cases [OF r m, of c]) (auto simp: etcd_storage_def elim!: hash_view_entry split: option.split)
    show "m c = None \<Longrightarrow> \<exists>e s'. ReadPrefix (etcd_storage cl) c ns r = (Inl e, s') \<and> errors_is e ErrNotFound \<and>
        einv s' \<and> etcd_view kv s' = etcd_view kv r"
      by (rule etcd_read_cases [OF r m, of c]) (auto simp: etcd_storage_def hash_view_None)
    show "\<exists>s'. DeleteAllPrefixes (etcd_storage cl) ns r = (Inr (), s') \<and> einv s' \<and>
        etcd_view kv s' = (etcd_view kv r)(ns \<mapsto> Map.empty)"
      using etcd_delete_all [OF r m] by (auto simp: etcd_storage_def)
    show "\<exists>ps s'. ReadAllPrefixes (etcd_storage cl) ns r = (Inr ps, s') \<and> distinct (map Cidr ps) \<and>
        (\<forall>p \<in> set ps. wf_prefix p) \<and> map_of (map (\<lambda>p. (Cidr p, abs_prefix p)) ps) = m \<and>
        einv s' \<and> etcd_view kv s' = etcd_view kv r"
      using etcd_read_all [OF r m] by (simp add: etcd_storage_def)
    show "\<exists>cs s'. ReadAllPrefixCidrs (etcd_storage cl) ns r = (Inr cs, s') \<and> distinct cs \<and> set cs = dom m \<and>
        einv s' \<and> etcd_view kv s' = etcd_view kv r"
      using etcd_read_cidrs [OF r m] by (simp add: etcd_storage_def)
    show "wf_prefix p \<Longrightarrow> m (Cidr p) = Some a \<Longrightarrow> aVersion a = version p \<Longrightarrow>
      \<exists>s'. UpdatePrefix (etcd_storage cl) p ns r = (Inr (next_version p), s') \<and> einv s' \<and>
        etcd_view kv s' = (etcd_view kv r)(ns \<mapsto> m(Cidr p \<mapsto> abs_prefix (next_version p)))"
      using etcd_update [OF r m, of p] by (simp add: etcd_storage_def)
    show "wf_prefix p \<Longrightarrow> m (Cidr p) = Some a \<Longrightarrow> aVersion a \<noteq> version p \<Longrightarrow>
      \<exists>e s'. UpdatePrefix (etcd_storage cl) p ns r = (Inl e, s') \<and> errors_is e ErrOptimisticLockError \<and>
        einv s' \<and> etcd_view kv s' = etcd_view kv r"
      using etcd_update [OF r m, of p] by (simp add: etcd_storage_def)
    show "wf_prefix p \<Longrightarrow> m (Cidr p) = None \<Longrightarrow> \<exists>e s'. UpdatePrefix (etcd_storage cl) p ns r = (Inl e, s') \<and>
        einv s' \<and> etcd_view kv s' = etcd_view kv r"
      using etcd_update [OF r m, of p] by (simp add: etcd_storage_def)
    show "wf_prefix p \<Longrightarrow> m (Cidr p) = Some a \<Longrightarrow> \<exists>q s'. DeletePrefix (etcd_storage cl) p ns r = (Inr q, s') \<and>
        (abs_prefix p = a \<longrightarrow> abs_prefix q = a) \<and> einv s' \<and>
        etcd_view kv s' = (etcd_view kv r)(ns \<mapsto> m(Cidr p := None))"
      by (rule etcd_delete [OF r m, of p]) (auto simp: etcd_storage_def)
    show "wf_prefix p \<Longrightarrow> m (Cidr p) = None \<Longrightarrow> DeletePrefix (etcd_storage cl) p ns r = (x, r') \<Longrightarrow>
        einv r' \<and> etcd_view kv r' = etcd_view kv r"
      by (rule etcd_delete [OF r m, of p]) (use m in \<open>auto simp: etcd_storage_def fun_upd_idem\<close>)
    show "\<exists>s'. DeleteNamespace (etcd_storage cl) ns r = (Inr (), s') \<and> einv s' \<and>
        etcd_view kv s' = (etcd_view kv r)(ns := None)"
      using etcd_delete_ns [OF r m] by (simp add: etcd_storage_def)
  }
  show "ns \<in> N \<Longrightarrow> \<exists>s'. CreateNamespace (etcd_storage cl) ns r = (Inr (), s') \<and> einv s' \<and>
      etcd_view kv s' = (case etcd_view kv r ns of None \<Rightarrow> (etcd_view kv r)(ns \<mapsto> Map.empty) | Some m \<Rightarrow> etcd_view kv r)"
    using etcd_create_ns [OF r] by (simp add: etcd_storage_def)
  show "\<exists>nss s'. ListNamespaces (etcd_storage cl) r = (Inr nss, s') \<and> distinct nss \<and> set nss = dom (etcd_view kv r) \<and>
      einv s' \<and> etcd_view kv s' = etcd_view kv r"
    using etcd_list_ns [OF r] by (simp add: etcd_storage_def)
  { assume none: "etcd_view kv r ns = None"
    obtain r1 where "etcd_checkNamespaceExists cl ns r = (Inl (Sentinel ErrNamespaceDoesNotExist), r1)" "einv r1"
        "etcd_view kv r1 = etcd_view kv r"
      using check_missing [OF r none] .
    then show "(\<exists>e s'. CreatePrefix (etcd_storage cl) p ns r = (Inl e, s') \<and> errors_is e ErrNamespaceDoesNotExist \<and> einv s' \<and> etcd_view kv s' = etcd_view kv r) \<and>
      (\<exists>e s'. ReadPrefix (etcd_storage cl) c ns r = (Inl e, s') \<and> errors_is e ErrNamespaceDoesNotExist \<and> einv s' \<and> etcd_view kv s' = etcd_view kv r) \<and>
      (\<exists>e s'. ReadAllPrefixes (etcd_storage cl) ns r = (Inl e, s') \<and> errors_is e ErrNamespaceDoesNotExist \<and> einv s' \<and> etcd_view kv s' = etcd_view kv r) \<and>
      (\<exists>e s'. ReadAllPrefixCidrs (etcd_storage cl) ns r = (Inl e, s') \<and> errors_is e ErrNamespaceDoesNotExist \<and> einv s' \<and> etcd_view kv s' = etcd_view kv r) \<and>
      (\<exists>e s'. DeletePrefix (etcd_storage cl) p ns r = (Inl e, s') \<and> errors_is e ErrNamespaceDoesNotExist \<and> einv s' \<and> etcd_view kv s' = etcd_view kv r) \<and>
      (\<exists>e s'. DeleteNamespace (etcd_storage cl) ns r = (Inl e, s') \<and> errors_is e ErrNamespaceDoesNotExist \<and> einv s' \<and> etcd_view kv s' = etcd_view kv r) \<and>
      (Cidr p \<noteq> [] \<longrightarrow> (\<exists>e s'. UpdatePrefix (etcd_storage cl) p ns r = (Inl e, s') \<and> errors_is e ErrNamespaceDoesNotExist \<and> einv s' \<and> etcd_view kv s' = etcd_view kv r))"
      by (simp add: etcd_storage_def etcd_CreatePrefix_def etcd_ReadPrefix_def etcd_ReadAllPrefixes_def
          etcd_ReadAllPrefixCidrs_def etcd_DeletePrefix_def etcd_DeleteNamespace_def etcd_DeleteAllPrefixes_def etcd_UpdatePrefix_def
          etcd_update_check_def)
  }
qed

lemma storage_contract: "full_storage_laws (etcd_storage cl) einv (etcd_view kv) (\<lambda>ns. ns \<in> N)"
  by (rule etcd.full_storage_laws_axioms)

end

section \<open>A concrete server\<close>

type_synonym ref_etcd_db = "(string \<times> evalue) list"

definition ref_etcd :: "ref_etcd_db etcd_client" where
  "ref_etcd = \<lparr>
     EGet = (\<lambda>k d. (Inr (map_of d k), d)),
     EGetKeys = (\<lambda>k d. (Inr (filter (prefix k) (map fst d)), d)),
     EPut = (\<lambda>k v d. (Inr (), AList.update k v d)),
     EDelete = (\<lambda>k d. (Inr (), AList.delete k d))\<rparr>"

definition ref_etcd_up :: "ref_etcd_db \<Rightarrow> bool" where
  "ref_etcd_up d \<longleftrightarrow> distinct (map fst d)"

interpretation re: etcd_laws ref_etcd ref_etcd_up map_of
proof unfold_locales
  fix d k v assume up: "ref_etcd_up d"
  then have d: "distinct (map fst d)"
    by (simp add: ref_etcd_up_def)
  show "\<exists>d'. EGet ref_etcd k d = (Inr (map_of d k), d') \<and> ref_etcd_up d' \<and> map_of d' = map_of d"
    using up by (simp add: ref_etcd_def)
  show "\<exists>ks d'. EGetKeys ref_etcd k d = (Inr ks, d') \<and> distinct ks \<and> set ks = {k' \<in> dom (map_of d). prefix k k'} \<and>
      ref_etcd_up d' \<and> map_of d' = map_of d"
    using up d by (auto simp: ref_etcd_def dom_map_of_conv_image_fst)
  show "\<exists>d'. EPut ref_etcd k v d = (Inr (), d') \<and> ref_etcd_up d' \<and> map_of d' = (map_of d)(k \<mapsto> v)"
    using d distinct_update [OF d] by (simp add: ref_etcd_def ref_etcd_up_def update_conv')
  show "\<exists>d'. EDelete ref_etcd k d = (Inr (), d') \<and> ref_etcd_up d' \<and> map_of d' = (map_of d)(k := None)"
    using d distinct_delete [OF d] by (simp add: ref_etcd_def ref_etcd_up_def delete_conv')
qed

definition ref_names :: "string set" where
  "ref_names = {''root'', ''tenant''}"

lemma ref_names_apart: "names_apart ref_names"
  by (simp add: names_apart_def prefix_free_def ref_names_def etcdNamespaceKey_def namespaceKey_def)

interpretation rs: etcd_store ref_etcd ref_etcd_up map_of ref_names
  by unfold_locales (rule ref_names_apart)

section \<open>The contract, and what lies outside it\<close>

text \<open>
  C27: Over an etcd server that keeps its promises the etcd storage meets the contract of a storage, for
  namespace names out of a set of names of which none is the start of another one, and none is a start of
  \<^verbatim>\<open>namespaces/\<close>, with which the keys of the markers begin, or begins with it.
\<close>

theorem etcd_meets_contract:
  assumes "etcd_laws cl up kv" "names_apart N"
  shows "full_storage_laws (etcd_storage cl) (etcd_inv up kv N) (etcd_view kv) (\<lambda>ns. ns \<in> N)"
  using assms by (intro etcd_store.storage_contract etcd_store.intro etcd_store_axioms.intro)

text \<open>
  \<open>DeleteAllPrefixes\<close> and \<open>DeleteNamespace\<close> of one namespace delete the prefixes of every namespace
  whose name starts with the name of that one, because the search for keys leaves out the separator.
\<close>

theorem delete_reaches_other_namespaces:
  assumes laws: "etcd_laws cl up kv" and e: "up (e_db e)" "map_lookup (e_namespaces e) ns \<noteq> None"
    and other: "prefix ns ns'"
  shows "\<exists>e'. etcd_DeleteAllPrefixes cl ns e = (Inr (), e') \<and>
    docs (kv (e_db e')) ns' = Map.empty"
proof -
  have check: "etcd_checkNamespaceExists cl ns e = (Inr (), e)"
    using e(2) by (simp add: etcd_checkNamespaceExists_def)
  obtain ks d where ks: "EGetKeys cl ns (e_db e) = (Inr ks, d)" "up d" "kv d = kv (e_db e)"
      "set ks = {k \<in> dom (kv (e_db e)). prefix ns k}"
    using etcd_laws.egetkeys [OF laws e(1)] by blast
  obtain e' where e': "etcd_delete_keys cl ks (e\<lparr>e_db := d\<rparr>) = (Inr (), e')"
      "kv (e_db e') = (\<lambda>k. if k \<in> set ks then None else kv d k)"
    using etcd_laws.etcd_delete_keys_run [OF laws, of "e\<lparr>e_db := d\<rparr>" ks] ks(2) by (auto cong: if_cong)
  have none: "kv (e_db e') (doc_key ns' x) = None" for x
  proof -
    have "prefix ns (doc_key ns' x)"
      using other by (simp add: doc_key_def)
    then show ?thesis
      using e'(2) ks(3,4) by (auto simp: domIff)
  qed
  have "etcd_DeleteAllPrefixes cl ns e = (Inr (), e')"
    using check ks(1) e'(1) by (simp add: etcd_DeleteAllPrefixes_def on_etcd_def)
  with none show ?thesis
    by (simp add: docs_def fun_eq_iff)
qed

text \<open>
  C31: An update is lost when another process updates the prefix between the check of the version and the
  write, which etcd does not tie together: both succeed, and the later write replaces the other one
  under the same version.
\<close>

theorem etcd_lost_update:
  assumes laws: "etcd_laws cl up kv" "names_apart N"
    and e: "etcd_inv up kv N e" "etcd_view kv e ns = Some m" "m c = Some a"
    and p: "wf_prefix p" "Cidr p = c" "version p = aVersion a"
    and p': "wf_prefix p'" "Cidr p' = c" "version p' = aVersion a"
  shows "\<exists>js e1 e2 e3. etcd_update_check cl p ns e = (Inr js, e1) \<and>
    etcd_UpdatePrefix cl p' ns e1 = (Inr (next_version p'), e2) \<and>
    etcd_update_write cl p ns js e2 = (Inr (next_version p), e3) \<and>
    etcd_view kv e3 = (etcd_view kv e)(ns \<mapsto> m(c \<mapsto> abs_prefix (next_version p)))"
proof -
  have st: "etcd_store cl up kv N"
    using laws by (intro etcd_store.intro etcd_store_axioms.intro)
  let ?js = "marshal_prefix (toPrefixJSON (next_version p))"
  obtain e1 where e1: "etcd_update_check cl p ns e = (Inr ?js, e1)" "etcd_inv up kv N e1" "etcd_view kv e1 = etcd_view kv e"
    using etcd_store.etcd_update_cases [OF st e(1,2) p(1)] e(3) p(2,3) by auto
  have m1: "etcd_view kv e1 ns = Some m"
    using e1(3) e(2) by simp
  obtain e2 where e2: "etcd_UpdatePrefix cl p' ns e1 = (Inr (next_version p'), e2)" "etcd_inv up kv N e2"
      "etcd_view kv e2 = (etcd_view kv e)(ns \<mapsto> m(c \<mapsto> abs_prefix (next_version p')))"
    using etcd_store.etcd_update [OF st e1(2) m1 p'(1)] e(3) p'(2,3) e1(3) by auto
  have m2: "etcd_view kv e2 ns = Some (m(c \<mapsto> abs_prefix (next_version p')))"
    using e2(3) by simp
  have "c \<noteq> []"
    using storage_laws.view_cidr [OF full_storage_laws.axioms(1) [OF etcd_store.storage_contract [OF st]] e] by simp
  then obtain e3 where "etcd_update_write cl p ns ?js e2 = (Inr (next_version p), e3)"
      "etcd_view kv e3 = (etcd_view kv e2)(ns \<mapsto> (m(c \<mapsto> abs_prefix (next_version p')))(c \<mapsto> abs_prefix (next_version p)))"
    using etcd_store.etcd_write [OF st e2(2) m2 p(1)] p(2) by auto
  with e1(1) e2(1,3) show ?thesis
    by simp
qed

text \<open>
  When the server fails while a namespace is created, \<open>CreateNamespace\<close> reports the error but
  remembers the name: the next call succeeds without writing anything, and prefixes are created in a
  namespace that is not there.
\<close>

theorem failed_CreateNamespace_is_remembered:
  assumes new: "map_ok (e_namespaces e)" "map_lookup (e_namespaces e) ns = None"
    and fail: "EPut cl (etcdNamespaceKey ns) Blank (e_db e) = (Inl err, d)"
  shows "\<exists>e'. etcd_CreateNamespace cl ns e = (Inl err, e') \<and> e_db e' = d \<and>
    etcd_CreateNamespace cl ns e' = (Inr (), e') \<and> etcd_checkNamespaceExists cl ns e' = (Inr (), e')"
proof -
  obtain nss where nss: "map_insert (e_namespaces e) ns () = Inr nss"
    using map_ok_insert_ex [OF new(1)] by blast
  let ?e = "e\<lparr>e_db := d, e_namespaces := nss\<rparr>"
  have "map_lookup nss ns = Some ()"
    using map_insert_Inr [OF nss] by simp
  then have "etcd_CreateNamespace cl ns ?e = (Inr (), ?e)" "etcd_checkNamespaceExists cl ns ?e = (Inr (), ?e)"
    by (simp_all add: etcd_CreateNamespace_def etcd_checkNamespaceExists_def)
  moreover have "etcd_CreateNamespace cl ns e = (Inl err, ?e)"
    using new(2) fail nss by (simp add: etcd_CreateNamespace_def on_etcd_def)
  ultimately show ?thesis
    by (intro exI [of _ ?e]) simp
qed

section \<open>Instances\<close>

text \<open>A database with two namespaces, of which the tenant has a prefix.\<close>

definition sample_etcd_db :: ref_etcd_db where
  "sample_etcd_db = [(etcdNamespaceKey ''root'', Blank), (etcdNamespaceKey ''tenant'', Blank),
     (doc_key ''tenant'' ''172.16.0.0/12'', Doc json12)]"

definition sample_etcd :: "ref_etcd_db etcd" where
  "sample_etcd = \<lparr>e_db = sample_etcd_db, e_namespaces = GoMap [(''root'', ())]\<rparr>"

lemma sample_etcd_map:
  "map_of sample_etcd_db = [etcdNamespaceKey ''root'' \<mapsto> Blank, etcdNamespaceKey ''tenant'' \<mapsto> Blank,
     doc_key ''tenant'' ''172.16.0.0/12'' \<mapsto> Doc json12]"
  by (simp add: sample_etcd_db_def fun_upd_twist etcdNamespaceKey_def doc_key_def namespaceKey_def)

lemma sample_etcd_facts:
  "etcd_names (map_of sample_etcd_db) = ref_names"
  "docs (map_of sample_etcd_db) ''root'' = Map.empty"
  "docs (map_of sample_etcd_db) ''tenant'' = [''172.16.0.0/12'' \<mapsto> json12]"
proof -
  show "etcd_names (map_of sample_etcd_db) = ref_names"
    by (auto simp: sample_etcd_db_def etcd_names_def ref_names_def doc_key_def etcdNamespaceKey_def namespaceKey_def)
  show "docs (map_of sample_etcd_db) ''root'' = Map.empty"
    by (simp add: docs_def sample_etcd_db_def doc_key_def etcdNamespaceKey_def namespaceKey_def fun_eq_iff)
  show "docs (map_of sample_etcd_db) ''tenant'' = [''172.16.0.0/12'' \<mapsto> json12]"
    by (simp add: docs_def sample_etcd_db_def doc_key_def etcdNamespaceKey_def namespaceKey_def fun_eq_iff)
qed

lemma sample_etcd_inv: "etcd_inv ref_etcd_up map_of ref_names sample_etcd"
  "etcd_view map_of sample_etcd ''tenant'' = Some [''172.16.0.0/12'' \<mapsto> abs_prefix prefix12]"
proof -
  have "edb_ok ref_names (map_of sample_etcd_db)"
    unfolding edb_ok_def sample_etcd_facts(1)
  proof (intro conjI allI impI ballI)
    fix k v assume "map_of sample_etcd_db k = Some v"
    then show "(\<exists>ns. k = etcdNamespaceKey ns) \<or> (\<exists>ns c js. ns \<in> ref_names \<and> k = doc_key ns c \<and> v = Doc js)"
      unfolding sample_etcd_map ref_names_def by (auto split: if_split_asm)
  next
    fix ns assume "ns \<in> ref_names"
    then show "hash_ok (docs (map_of sample_etcd_db) ns)"
      using sample_etcd_facts(2,3) json12_ok(1) by (auto simp: ref_names_def)
  qed (simp_all add: finite_dom_map_of)
  then show "etcd_inv ref_etcd_up map_of ref_names sample_etcd"
    unfolding etcd_inv_def sample_etcd_def etcd.select_convs sample_etcd_facts(1)
    by (auto simp: ref_etcd_up_def sample_etcd_db_def map_ok_def map_keys_def map_lookup_def ref_names_def
        etcdNamespaceKey_def doc_key_def namespaceKey_def)
  show "etcd_view map_of sample_etcd ''tenant'' = Some [''172.16.0.0/12'' \<mapsto> abs_prefix prefix12]"
    using sample_etcd_facts(1,3) json12_ok(2) by (simp add: etcd_view_def sample_etcd_def edb_view_def ref_names_def)
qed

theorem etcd_meets_contract_witness:
  "full_storage_laws (etcd_storage ref_etcd) (etcd_inv ref_etcd_up map_of ref_names) (etcd_view map_of) (\<lambda>ns. ns \<in> ref_names) \<and>
    etcd_inv ref_etcd_up map_of ref_names sample_etcd"
  using etcd_meets_contract [OF re.etcd_laws_axioms ref_names_apart] sample_etcd_inv(1) by blast

theorem delete_reaches_other_namespaces_witness:
  "docs (map_of sample_etcd_db) ''tenant'' \<noteq> Map.empty \<and>
    (\<exists>e'. etcd_DeleteAllPrefixes ref_etcd ''ten'' (sample_etcd\<lparr>e_namespaces := GoMap [(''ten'', ())]\<rparr>) = (Inr (), e') \<and>
      docs (map_of (e_db e')) ''tenant'' = Map.empty)"
proof -
  let ?e = "sample_etcd\<lparr>e_namespaces := GoMap [(''ten'', ())]\<rparr>"
  have "ref_etcd_up (e_db ?e)" "map_lookup (e_namespaces ?e) ''ten'' \<noteq> None" "prefix ''ten'' ''tenant''"
    using sample_etcd_inv(1) by (simp_all add: etcd_inv_def map_lookup_def)
  from delete_reaches_other_namespaces [OF re.etcd_laws_axioms this] sample_etcd_facts(3) show ?thesis
    by simp
qed

theorem etcd_lost_update_witness:
  "\<exists>js e1 e2 e3. etcd_update_check ref_etcd prefix12 ''tenant'' sample_etcd = (Inr js, e1) \<and>
    etcd_UpdatePrefix ref_etcd (prefix12\<lparr>isParent := True\<rparr>) ''tenant'' e1 =
      (Inr (next_version (prefix12\<lparr>isParent := True\<rparr>)), e2) \<and>
    etcd_update_write ref_etcd prefix12 ''tenant'' js e2 = (Inr (next_version prefix12), e3)"
proof -
  have a: "[''172.16.0.0/12'' \<mapsto> abs_prefix prefix12] ''172.16.0.0/12'' = Some (abs_prefix prefix12)"
    by simp
  have p: "version prefix12 = aVersion (abs_prefix prefix12)" "wf_prefix (prefix12\<lparr>isParent := True\<rparr>)"
    "Cidr (prefix12\<lparr>isParent := True\<rparr>) = ''172.16.0.0/12''"
    "version (prefix12\<lparr>isParent := True\<rparr>) = aVersion (abs_prefix prefix12)"
    using prefix12_ok by (simp_all add: wf_prefix_def)
  from etcd_lost_update [OF re.etcd_laws_axioms ref_names_apart sample_etcd_inv a prefix12_ok(1,2) p] show ?thesis
    by blast
qed

theorem failed_CreateNamespace_is_remembered_witness:
  "\<exists>e'. etcd_CreateNamespace (ref_etcd\<lparr>EPut := \<lambda>k v d. (Inl (Errorf ''timeout'' []), d)\<rparr>) ''tenant'' sample_etcd =
      (Inl (Errorf ''timeout'' []), e') \<and>
    etcd_CreateNamespace (ref_etcd\<lparr>EPut := \<lambda>k v d. (Inl (Errorf ''timeout'' []), d)\<rparr>) ''tenant'' e' = (Inr (), e')"
proof -
  let ?cl = "ref_etcd\<lparr>EPut := \<lambda>k v d. (Inl (Errorf ''timeout'' []), d)\<rparr>"
  have "map_ok (e_namespaces sample_etcd)" "map_lookup (e_namespaces sample_etcd) ''tenant'' = None"
    "EPut ?cl (etcdNamespaceKey ''tenant'') Blank (e_db sample_etcd) = (Inl (Errorf ''timeout'' []), e_db sample_etcd)"
    by (simp_all add: sample_etcd_def map_ok_def map_lookup_def)
  from failed_CreateNamespace_is_remembered [OF this] show ?thesis
    by blast
qed

end
