(* ===== verification/Mongo_Storage.thy ===== *)
theory Mongo_Storage
  imports Documents
begin

text \<open>
  The storage in MongoDB, \<^verbatim>\<open>src/mongodb.go\<close>. The server and its driver are not part of the repository:
  the calls the code makes are a parameter \<open>mg\<close>, a record of operations on the state of the server. A
  namespace is a collection, a prefix a document that the driver encodes from a \<open>prefixJSON\<close> and decodes
  to one; the type \<open>'doc\<close> of documents is a parameter as well. The locale \<open>mongo_laws\<close> states what the
  MongoDB documentation says of the calls, for a server that answers.

  Under these laws the storage meets the contract of \<open>Storage\<close> but for \<open>DeleteNamespace\<close>, which drops the
  collection and leaves its name in the cache; the theorem at the end shows what follows from it.
\<close>

section \<open>The calls\<close>

text \<open>
  The filters of the code are \<open>prefix.cidr\<close> alone, \<open>prefix.cidr\<close> and \<open>version\<close>, and no filter. \<open>None\<close>
  stands for \<open>ErrNoDocuments\<close>; \<open>ReplaceOne\<close> returns the counts of matched and of modified documents;
  \<open>MNamespaceExists\<close> is the test of the code for the \<open>CommandError\<close> of that name.
\<close>

record ('d, 'doc) mongo =
  MListCollectionNames :: "('d, string list) comp"
  MFindOne :: "string \<Rightarrow> string \<Rightarrow> ('d, 'doc option) comp"
  MFindAll :: "string \<Rightarrow> ('d, 'doc list) comp"
  MInsertOne :: "string \<Rightarrow> prefixJSON \<Rightarrow> ('d, unit) comp"
  MReplaceOne :: "string \<Rightarrow> string \<Rightarrow> 64 word \<Rightarrow> prefixJSON \<Rightarrow> ('d, nat \<times> nat) comp"
  MFindOneAndDelete :: "string \<Rightarrow> string \<Rightarrow> ('d, 'doc option) comp"
  MDeleteMany :: "string \<Rightarrow> ('d, unit) comp"
  MCreateCollection :: "string \<Rightarrow> ('d, unit) comp"
  MCreateIndex :: "string \<Rightarrow> ('d, unit) comp"
  MDrop :: "string \<Rightarrow> ('d, unit) comp"
  MDecode :: "'doc \<Rightarrow> prefixJSON result"
  MNamespaceExists :: "go_error \<Rightarrow> bool"

section \<open>State and operations\<close>

record 'd mongodb =
  m_db :: 'd
  m_namespaces :: "unit gomap"

definition on_mongo :: "('d, 'a) comp \<Rightarrow> ('d mongodb, 'a) comp" where
  "on_mongo op s = (case op (m_db s) of (x, d) \<Rightarrow> (x, s\<lparr>m_db := d\<rparr>))"

text \<open>\<open>m.namespaces[ns] = struct{}{}\<close> for every name of a list.\<close>

primrec remember :: "string list \<Rightarrow> unit gomap \<Rightarrow> unit gomap result" where
  "remember [] nss = Inr nss"
| "remember (n # ns) nss = (case map_insert nss n () of
      Inl err \<Rightarrow> Inl err
    | Inr nss \<Rightarrow> remember ns nss)"

definition no_documents :: go_error where
  "no_documents = Errorf ''mongo: no documents in result'' []"

definition mongo_checkNamespaceExists :: "('d, 'doc) mongo \<Rightarrow> string \<Rightarrow> ('d mongodb, unit) comp" where
  "mongo_checkNamespaceExists mg namespace s =
     (if map_lookup (m_namespaces s) namespace \<noteq> None then (Inr (), s)
      else (case on_mongo (MListCollectionNames mg) s of
        (Inl err, s) \<Rightarrow> (Inl (Sentinel ErrNotFound), s)
      | (Inr r, s) \<Rightarrow> (case remember r (m_namespaces s) of
          Inl err \<Rightarrow> (Inl err, s)
        | Inr nss \<Rightarrow>
            let s = s\<lparr>m_namespaces := nss\<rparr> in
            if map_lookup nss namespace = None then (Inl (Sentinel ErrNamespaceDoesNotExist), s)
            else (Inr (), s))))"

definition mongo_CreatePrefix :: "('d, 'doc) mongo \<Rightarrow> Prefix \<Rightarrow> string \<Rightarrow> ('d mongodb, Prefix) comp" where
  "mongo_CreatePrefix mg prefix namespace s =
     (case mongo_checkNamespaceExists mg namespace s of
        (Inl err, s) \<Rightarrow> (Inl err, s)
      | (Inr _, s) \<Rightarrow>
     (case on_mongo (MFindOne mg namespace (Cidr prefix)) s of
        (Inl err, s) \<Rightarrow> (Inl (Errorf ''unable to insert prefix:%s, error:%w'' [err]), s)
      | (Inr r, s) \<Rightarrow>
      if r \<noteq> None then (Inl (Errorf ''prefix already exists:%s'' []), s)
      else (case on_mongo (MInsertOne mg namespace (toPrefixJSON prefix)) s of
        (Inl err, s) \<Rightarrow> (Inl (Errorf ''unable to insert prefix:%s, error:%w'' [err]), s)
      | (Inr _, s) \<Rightarrow> (Inr prefix, s))))"

definition mongo_ReadPrefix :: "('d, 'doc) mongo \<Rightarrow> string \<Rightarrow> string \<Rightarrow> ('d mongodb, Prefix) comp" where
  "mongo_ReadPrefix mg prefix namespace s =
     (case mongo_checkNamespaceExists mg namespace s of
        (Inl err, s) \<Rightarrow> (Inl err, s)
      | (Inr _, s) \<Rightarrow>
     (case on_mongo (MFindOne mg namespace prefix) s of
        (Inl err, s) \<Rightarrow> (Inl (Errorf ''error while trying to find prefix:%s, error:%w'' [err]), s)
      | (Inr None, s) \<Rightarrow>
          (Inl (Errorf ''%w prefix not found:%s, error:%w'' [Sentinel ErrNotFound, no_documents]), s)
      | (Inr (Some r), s) \<Rightarrow> (case MDecode mg r of
          Inl err \<Rightarrow> (Inl (Errorf ''unable to read prefix:%w'' [err]), s)
        | Inr j \<Rightarrow> (Inr (toPrefix j), s))))"

definition mongo_DeleteAllPrefixes :: "('d, 'doc) mongo \<Rightarrow> string \<Rightarrow> ('d mongodb, unit) comp" where
  "mongo_DeleteAllPrefixes mg namespace s =
     (case mongo_checkNamespaceExists mg namespace s of
        (Inl err, s) \<Rightarrow> (Inl err, s)
      | (Inr _, s) \<Rightarrow>
     (case on_mongo (MDeleteMany mg namespace) s of
        (Inl err, s) \<Rightarrow> (Inl (Errorf ''error deleting all prefixes: %w'' [err]), s)
      | (Inr _, s) \<Rightarrow> (Inr (), s)))"

text \<open>\<open>Find\<close> and \<open>All\<close>, which decodes every document.\<close>

primrec decode_all :: "('doc \<Rightarrow> prefixJSON result) \<Rightarrow> 'doc list \<Rightarrow> prefixJSON list result" where
  "decode_all dec [] = Inr []"
| "decode_all dec (d # ds) = (case dec d of
      Inl err \<Rightarrow> Inl err
    | Inr j \<Rightarrow> (case decode_all dec ds of Inl err \<Rightarrow> Inl err | Inr js \<Rightarrow> Inr (j # js)))"

definition mongo_ReadAllPrefixes :: "('d, 'doc) mongo \<Rightarrow> string \<Rightarrow> ('d mongodb, Prefix list) comp" where
  "mongo_ReadAllPrefixes mg namespace s =
     (case mongo_checkNamespaceExists mg namespace s of
        (Inl err, s) \<Rightarrow> (Inl err, s)
      | (Inr _, s) \<Rightarrow>
     (case on_mongo (MFindAll mg namespace) s of
        (Inl err, s) \<Rightarrow> (Inl (Errorf ''error reading all prefixes: %w'' [err]), s)
      | (Inr c, s) \<Rightarrow> (case decode_all (MDecode mg) c of
          Inl err \<Rightarrow> (Inl (Errorf ''error reading all prefixes: %w'' [err]), s)
        | Inr r \<Rightarrow> (Inr (map toPrefix r), s))))"

text \<open>\<open>ReadPrefixes\<close> has the body of \<open>ReadAllPrefixes\<close>.\<close>

definition mongo_ReadPrefixes :: "('d, 'doc) mongo \<Rightarrow> string \<Rightarrow> ('d mongodb, Prefix list) comp" where
  "mongo_ReadPrefixes mg namespace s =
     (case mongo_checkNamespaceExists mg namespace s of
        (Inl err, s) \<Rightarrow> (Inl err, s)
      | (Inr _, s) \<Rightarrow>
     (case on_mongo (MFindAll mg namespace) s of
        (Inl err, s) \<Rightarrow> (Inl (Errorf ''error reading all prefixes: %w'' [err]), s)
      | (Inr c, s) \<Rightarrow> (case decode_all (MDecode mg) c of
          Inl err \<Rightarrow> (Inl (Errorf ''error reading all prefixes: %w'' [err]), s)
        | Inr r \<Rightarrow> (Inr (map toPrefix r), s))))"

definition mongo_ReadAllPrefixCidrs :: "('d, 'doc) mongo \<Rightarrow> string \<Rightarrow> ('d mongodb, string list) comp" where
  "mongo_ReadAllPrefixCidrs mg namespace s =
     (case mongo_ReadAllPrefixes mg namespace s of
        (Inl err, s) \<Rightarrow> (Inl err, s)
      | (Inr p, s) \<Rightarrow> (Inr (map Cidr p), s))"

definition mongo_UpdatePrefix :: "('d, 'doc) mongo \<Rightarrow> Prefix \<Rightarrow> string \<Rightarrow> ('d mongodb, Prefix) comp" where
  "mongo_UpdatePrefix mg prefix namespace s =
     (case mongo_checkNamespaceExists mg namespace s of
        (Inl err, s) \<Rightarrow> (Inl err, s)
      | (Inr _, s) \<Rightarrow>
      let oldVersion = version prefix; prefix = prefix\<lparr>version := oldVersion + 1\<rparr> in
     (case on_mongo (MReplaceOne mg namespace (Cidr prefix) oldVersion (toPrefixJSON prefix)) s of
        (Inl err, s) \<Rightarrow> (Inl (Errorf ''unable to update prefix:%s, error: %w'' [err]), s)
      | (Inr (matched, modified), s) \<Rightarrow>
          if matched = 0 then
            (Inl (Errorf ''%w: unable to update prefix:%s'' [Sentinel ErrOptimisticLockError]), s)
          else if modified = 0 then
            (Inl (Errorf ''%w: update did not effect any document:%s'' [Sentinel ErrOptimisticLockError]), s)
          else (Inr prefix, s)))"

definition mongo_DeletePrefix :: "('d, 'doc) mongo \<Rightarrow> Prefix \<Rightarrow> string \<Rightarrow> ('d mongodb, Prefix) comp" where
  "mongo_DeletePrefix mg prefix namespace s =
     (case mongo_checkNamespaceExists mg namespace s of
        (Inl err, s) \<Rightarrow> (Inl err, s)
      | (Inr _, s) \<Rightarrow>
     (case on_mongo (MFindOneAndDelete mg namespace (Cidr prefix)) s of
        (Inl err, s) \<Rightarrow> (Inl (Errorf ''error while trying to find prefix:%s, error:%w'' [err]), s)
      | (Inr None, s) \<Rightarrow> (Inl (Errorf ''prefix not found:%s, error:%w'' [no_documents]), s)
      | (Inr (Some r), s) \<Rightarrow> (case MDecode mg r of
          Inl err \<Rightarrow> (Inl (Errorf ''unable to read prefix:%w'' [err]), s)
        | Inr j \<Rightarrow> (Inr (toPrefix j), s))))"

definition mongo_CreateNamespace :: "('d, 'doc) mongo \<Rightarrow> string \<Rightarrow> ('d mongodb, unit) comp" where
  "mongo_CreateNamespace mg namespace s =
     (if map_lookup (m_namespaces s) namespace \<noteq> None then (Inr (), s)
      else (case on_mongo (MCreateCollection mg namespace) s of
        (Inl err, s) \<Rightarrow> (if MNamespaceExists mg err then (Inr (), s) else (Inl err, s))
      | (Inr _, s) \<Rightarrow> (case on_mongo (MCreateIndex mg namespace) s of (res, s) \<Rightarrow>
          (case map_insert (m_namespaces s) namespace () of
             Inl err \<Rightarrow> (Inl err, s)
           | Inr nss \<Rightarrow> (res, s\<lparr>m_namespaces := nss\<rparr>)))))"

definition mongo_ListNamespaces :: "('d, 'doc) mongo \<Rightarrow> ('d mongodb, string list) comp" where
  "mongo_ListNamespaces mg s =
     (case on_mongo (MListCollectionNames mg) s of
        (Inl err, s) \<Rightarrow> (Inl err, s)
      | (Inr r, s) \<Rightarrow> (case remember r (m_namespaces s) of
          Inl err \<Rightarrow> (Inl err, s)
        | Inr nss \<Rightarrow> (Inr r, s\<lparr>m_namespaces := nss\<rparr>)))"

definition mongo_DeleteNamespace :: "('d, 'doc) mongo \<Rightarrow> string \<Rightarrow> ('d mongodb, unit) comp" where
  "mongo_DeleteNamespace mg namespace s =
     (case mongo_checkNamespaceExists mg namespace s of
        (Inl err, s) \<Rightarrow> (Inl err, s)
      | (Inr _, s) \<Rightarrow> on_mongo (MDrop mg namespace) s)"

text \<open>\<open>newMongo\<close> after it connected.\<close>

definition newMongo :: "('d, 'doc) mongo \<Rightarrow> 'd \<Rightarrow> unit result \<times> 'd mongodb" where
  "newMongo mg d = mongo_CreateNamespace mg defaultNamespace \<lparr>m_db = d, m_namespaces = make_map\<rparr>"

definition mongo_storage :: "('d, 'doc) mongo \<Rightarrow> 'd mongodb storage" where
  "mongo_storage mg = \<lparr>Name = ''mongodb'', CreatePrefix = mongo_CreatePrefix mg,
     ReadPrefix = mongo_ReadPrefix mg, DeleteAllPrefixes = mongo_DeleteAllPrefixes mg,
     ReadAllPrefixes = mongo_ReadAllPrefixes mg, ReadAllPrefixCidrs = mongo_ReadAllPrefixCidrs mg,
     UpdatePrefix = mongo_UpdatePrefix mg, DeletePrefix = mongo_DeletePrefix mg,
     CreateNamespace = mongo_CreateNamespace mg, ListNamespaces = mongo_ListNamespaces mg,
     DeleteNamespace = mongo_DeleteNamespace mg\<rparr>"

section \<open>What MongoDB promises\<close>

text \<open>A document of the driver for a \<open>prefixJSON\<close>: the fields come back, the entries of maps in any order.\<close>

definition stands_for :: "('doc \<Rightarrow> prefixJSON result) \<Rightarrow> 'doc \<Rightarrow> prefixJSON \<Rightarrow> bool" where
  "stands_for dec doc j \<longleftrightarrow> (\<exists>m m'. dec doc = Inr (j\<lparr>AvailableChildPrefixes := m, IPs := m'\<rparr>) \<and>
     same_map (AvailableChildPrefixes j) m \<and> same_map (IPs j) m')"

definition maps_ok :: "prefixJSON \<Rightarrow> bool" where
  "maps_ok j \<longleftrightarrow> distinct (map fst (map_entries (AvailableChildPrefixes j))) \<and> distinct (map fst (map_entries (IPs j)))"

lemma maps_ok_prefix: "wf_prefix p \<Longrightarrow> maps_ok (toPrefixJSON p)"
  by (simp add: maps_ok_def wf_prefix_def map_ok_def toPrefixJSON_def)

text \<open>
  \<open>colls\<close> gives the collections of the database, each with its documents by \<open>prefix.cidr\<close>: one for a
  cidr, because of the unique index. Reading a collection that does not exist finds nothing.
\<close>

locale mongo_laws =
  fixes mg :: "('d, 'doc) mongo"
    and up :: "'d \<Rightarrow> bool"
    and colls :: "'d \<Rightarrow> string \<rightharpoonup> string \<rightharpoonup> 'doc"
    and name_ok :: "string \<Rightarrow> bool"
  assumes mlist: "up d \<Longrightarrow> \<exists>ns d'. MListCollectionNames mg d = (Inr ns, d') \<and> distinct ns \<and>
      set ns = dom (colls d) \<and> up d' \<and> colls d' = colls d"
    and mfind: "up d \<Longrightarrow> colls d n = Some h \<Longrightarrow>
      \<exists>d'. MFindOne mg n c d = (Inr (h c), d') \<and> up d' \<and> colls d' = colls d"
    and mfindall: "up d \<Longrightarrow> colls d n = Some h \<Longrightarrow> \<exists>cs d'. MFindAll mg n d = (Inr (map (the \<circ> h) cs), d') \<and>
      distinct cs \<and> set cs = dom h \<and> up d' \<and> colls d' = colls d"
    and mfindall_none: "up d \<Longrightarrow> colls d n = None \<Longrightarrow>
      \<exists>d'. MFindAll mg n d = (Inr [], d') \<and> up d' \<and> colls d' = colls d"
    and minsert: "up d \<Longrightarrow> colls d n = Some h \<Longrightarrow> h (jCidr j) = None \<Longrightarrow> maps_ok j \<Longrightarrow>
      \<exists>doc d'. MInsertOne mg n j d = (Inr (), d') \<and> stands_for (MDecode mg) doc j \<and> up d' \<and>
        colls d' = (colls d)(n \<mapsto> h(jCidr j \<mapsto> doc))"
    and mreplace_none: "up d \<Longrightarrow> colls d n = Some h \<Longrightarrow>
      (case h c of None \<Rightarrow> True | Some doc \<Rightarrow> \<exists>j0. MDecode mg doc = Inr j0 \<and> Version j0 \<noteq> v) \<Longrightarrow>
      \<exists>d'. MReplaceOne mg n c v j d = (Inr (0, 0), d') \<and> up d' \<and> colls d' = colls d"
    and mreplace: "up d \<Longrightarrow> colls d n = Some h \<Longrightarrow> h c = Some doc \<Longrightarrow> MDecode mg doc = Inr j0 \<Longrightarrow>
      Version j0 = v \<Longrightarrow> jCidr j = c \<Longrightarrow> Version j \<noteq> v \<Longrightarrow> maps_ok j \<Longrightarrow>
      \<exists>doc' d'. MReplaceOne mg n c v j d = (Inr (1, 1), d') \<and> stands_for (MDecode mg) doc' j \<and> up d' \<and>
        colls d' = (colls d)(n \<mapsto> h(c \<mapsto> doc'))"
    and mfinddelete: "up d \<Longrightarrow> colls d n = Some h \<Longrightarrow>
      \<exists>d'. MFindOneAndDelete mg n c d = (Inr (h c), d') \<and> up d' \<and> colls d' = (colls d)(n \<mapsto> h(c := None))"
    and mdeletemany: "up d \<Longrightarrow> colls d n = Some h \<Longrightarrow>
      \<exists>d'. MDeleteMany mg n d = (Inr (), d') \<and> up d' \<and> colls d' = (colls d)(n \<mapsto> Map.empty)"
    and mcreate: "up d \<Longrightarrow> name_ok n \<Longrightarrow> colls d n = None \<Longrightarrow>
      \<exists>d'. MCreateCollection mg n d = (Inr (), d') \<and> up d' \<and> colls d' = (colls d)(n \<mapsto> Map.empty)"
    and mcreate_exists: "up d \<Longrightarrow> colls d n \<noteq> None \<Longrightarrow>
      \<exists>e d'. MCreateCollection mg n d = (Inl e, d') \<and> MNamespaceExists mg e \<and> up d' \<and> colls d' = colls d"
    and mindex: "up d \<Longrightarrow> colls d n \<noteq> None \<Longrightarrow>
      \<exists>d'. MCreateIndex mg n d = (Inr (), d') \<and> up d' \<and> colls d' = colls d"
    and mdrop: "up d \<Longrightarrow> \<exists>d'. MDrop mg n d = (Inr (), d') \<and> up d' \<and> colls d' = (colls d)(n := None)"

section \<open>Invariant and view\<close>

definition mongo_dec :: "('d, 'doc) mongo \<Rightarrow> 'doc \<Rightarrow> Prefix result" where
  "mongo_dec mg doc = (case MDecode mg doc of Inl e \<Rightarrow> Inl e | Inr j \<Rightarrow> Inr (toPrefix j))"

definition mongo_inv ::
  "('d, 'doc) mongo \<Rightarrow> ('d \<Rightarrow> bool) \<Rightarrow> ('d \<Rightarrow> string \<rightharpoonup> string \<rightharpoonup> 'doc) \<Rightarrow> 'd mongodb \<Rightarrow> bool" where
  "mongo_inv mg up colls s \<longleftrightarrow> up (m_db s) \<and> map_ok (m_namespaces s) \<and>
     map_keys (m_namespaces s) \<subseteq> dom (colls (m_db s)) \<and>
     (\<forall>n h. colls (m_db s) n = Some h \<longrightarrow> docs_ok (mongo_dec mg) h)"

definition mongo_view ::
  "('d, 'doc) mongo \<Rightarrow> ('d \<Rightarrow> string \<rightharpoonup> string \<rightharpoonup> 'doc) \<Rightarrow> 'd mongodb \<Rightarrow> store_view" where
  "mongo_view mg colls s n = map_option (docs_view (mongo_dec mg)) (colls (m_db s) n)"

lemma stands_for_dec:
  assumes "stands_for (MDecode mg) doc (toPrefixJSON p)" "wf_prefix p"
  obtains p' where "mongo_dec mg doc = Inr p'" "abs_prefix p' = abs_prefix p" "wf_prefix p'" "Cidr p' = Cidr p"
proof -
  obtain m m' where d: "MDecode mg doc = Inr ((toPrefixJSON p)\<lparr>AvailableChildPrefixes := m, IPs := m'\<rparr>)"
      "same_map (availableChildPrefixes p) m" "same_map (ips p) m'"
    using assms(1) by (auto simp: stands_for_def toPrefixJSON_def)
  let ?p = "p\<lparr>availableChildPrefixes := m, ips := m'\<rparr>"
  have "mongo_dec mg doc = Inr ?p"
    using d(1) assms(2) by (simp add: mongo_dec_def toPrefix_def toPrefixJSON_def wf_prefix_def)
  moreover have "wf_prefix ?p" "abs_prefix ?p = abs_prefix p"
    using assms(2) d(2,3) by (simp_all add: wf_prefix_def map_ok_def same_map_def abs_prefix_def)
  ultimately show ?thesis
    using that by simp
qed

lemma mongo_dec_Inr: "mongo_dec mg doc = Inr p \<longleftrightarrow> (\<exists>j. MDecode mg doc = Inr j \<and> toPrefix j = p)"
  by (auto simp: mongo_dec_def split: sum.split)

lemma mongo_dec_Version:
  assumes "mongo_dec mg doc = Inr p"
  obtains j where "MDecode mg doc = Inr j" "Version j = version p"
  using assms that by (auto simp: mongo_dec_def toPrefix_def split: sum.split_asm)

lemma remember_ok:
  assumes "map_ok nss"
  shows "\<exists>nss'. remember ns nss = Inr nss' \<and> map_ok nss' \<and> map_keys nss' = map_keys nss \<union> set ns"
  using assms
proof (induction ns arbitrary: nss)
  case (Cons n ns)
  obtain nss1 where n: "map_insert nss n () = Inr nss1"
    using map_ok_insert_ex [OF Cons.prems] by blast
  with Cons.IH [OF map_insert_ok [OF n Cons.prems]] map_keys_insert [OF n] show ?case
    by auto
qed simp

section \<open>The contract holds\<close>

context mongo_laws
begin

abbreviation minv :: "'d mongodb \<Rightarrow> bool" where
  "minv \<equiv> mongo_inv mg up colls"

abbreviation mview :: "'d mongodb \<Rightarrow> store_view" where
  "mview \<equiv> mongo_view mg colls"

abbreviation dec :: "'doc \<Rightarrow> Prefix result" where
  "dec \<equiv> mongo_dec mg"

lemma minvD:
  assumes "minv s"
  shows "up (m_db s)" "map_ok (m_namespaces s)" "map_keys (m_namespaces s) \<subseteq> dom (colls (m_db s))"
    "colls (m_db s) n = Some h \<Longrightarrow> docs_ok dec h"
  using assms by (auto simp: mongo_inv_def)

lemma mview_Some:
  assumes "minv s" "mview s ns = Some m"
  obtains h where "colls (m_db s) ns = Some h" "docs_ok dec h" "m = docs_view dec h"
  using assms minvD(4) [OF assms(1)] by (auto simp: mongo_view_def)

lemma mview_eq: "colls (m_db s') = colls (m_db s) \<Longrightarrow> mview s' = mview s"
  by (rule ext) (simp add: mongo_view_def)

lemma on_mongo_read:
  assumes s: "minv s" and op: "\<exists>d'. op (m_db s) = (x, d') \<and> up d' \<and> colls d' = colls (m_db s)"
  obtains s' where "on_mongo op s = (x, s')" "minv s'" "mview s' = mview s" "colls (m_db s') = colls (m_db s)"
    "m_namespaces s' = m_namespaces s"
proof -
  obtain d' where "op (m_db s) = (x, d')" "up d'" "colls d' = colls (m_db s)"
    using op by blast
  with s that [of "s\<lparr>m_db := d'\<rparr>"] show ?thesis
    by (simp add: on_mongo_def mongo_inv_def mongo_view_def fun_eq_iff)
qed

lemma on_mongo_write:
  assumes s: "minv s" "colls (m_db s) ns \<noteq> None" and h: "docs_ok dec h"
    and op: "op (m_db s) = (x, d')" "up d'" "colls d' = (colls (m_db s))(ns \<mapsto> h)"
  obtains s' where "on_mongo op s = (x, s')" "minv s'" "mview s' = (mview s)(ns \<mapsto> docs_view dec h)"
proof -
  have "on_mongo op s = (x, s\<lparr>m_db := d'\<rparr>)"
    using op(1) by (simp add: on_mongo_def)
  moreover have "minv (s\<lparr>m_db := d'\<rparr>)"
    using minvD [OF s(1)] op(2,3) h by (auto simp: mongo_inv_def split: if_split_asm)
  ultimately show ?thesis
    by (rule that) (auto simp: mongo_view_def op(3))
qed

lemma remember_all:
  assumes s: "minv s"
  obtains ns s1 nss where "on_mongo (MListCollectionNames mg) s = (Inr ns, s1)" "remember ns (m_namespaces s1) = Inr nss"
    "distinct ns" "set ns = dom (colls (m_db s))" "map_keys nss = dom (colls (m_db s))" "minv (s1\<lparr>m_namespaces := nss\<rparr>)"
    "mview (s1\<lparr>m_namespaces := nss\<rparr>) = mview s" "colls (m_db s1) = colls (m_db s)"
proof -
  obtain ns d where ns: "MListCollectionNames mg (m_db s) = (Inr ns, d)" "distinct ns" "set ns = dom (colls (m_db s))"
      "up d" "colls d = colls (m_db s)"
    using mlist [OF minvD(1) [OF s]] by blast
  obtain nss where nss: "remember ns (m_namespaces s) = Inr nss" "map_ok nss" "map_keys nss = map_keys (m_namespaces s) \<union> set ns"
    using remember_ok [OF minvD(2) [OF s]] by blast
  let ?s = "s\<lparr>m_db := d\<rparr>"
  have k: "map_keys nss = dom (colls (m_db s))"
    using nss(3) ns(3) minvD(3) [OF s] by blast
  have "mview (?s\<lparr>m_namespaces := nss\<rparr>) = mview s"
    by (rule mview_eq) (simp add: ns(5))
  then show ?thesis
    by (intro that [of ns ?s nss]) (use ns nss k minvD(4) [OF s] in \<open>simp_all add: on_mongo_def mongo_inv_def\<close>)
qed

lemma check_found:
  assumes s: "minv s" "mview s ns = Some m"
  obtains s' h where "mongo_checkNamespaceExists mg ns s = (Inr (), s')" "minv s'" "mview s' = mview s"
    "colls (m_db s') ns = Some h" "docs_ok dec h" "m = docs_view dec h"
proof -
  obtain h where h: "colls (m_db s) ns = Some h" "docs_ok dec h" "m = docs_view dec h"
    using mview_Some [OF s] .
  show ?thesis
  proof (cases "map_lookup (m_namespaces s) ns")
    case (Some u)
    with that [of s h] s(1) h show ?thesis
      by (simp add: mongo_checkNamespaceExists_def)
  next
    case None
    obtain r s1 nss where r: "on_mongo (MListCollectionNames mg) s = (Inr r, s1)" "remember r (m_namespaces s1) = Inr nss"
      "map_keys nss = dom (colls (m_db s))" "minv (s1\<lparr>m_namespaces := nss\<rparr>)" "mview (s1\<lparr>m_namespaces := nss\<rparr>) = mview s"
      "colls (m_db s1) = colls (m_db s)"
      by (rule remember_all [OF s(1)])
    have "ns \<in> map_keys nss"
      using r(3) h(1) by auto
    then have "mongo_checkNamespaceExists mg ns s = (Inr (), s1\<lparr>m_namespaces := nss\<rparr>)"
      using None r(1,2) by (auto simp: mongo_checkNamespaceExists_def map_keys_def Let_def)
    then show ?thesis
      by (rule that [OF _ r(4,5) _ h(2,3)]) (use r(6) h(1) in simp)
  qed
qed

lemma check_missing:
  assumes s: "minv s" "mview s ns = None"
  obtains s' where "mongo_checkNamespaceExists mg ns s = (Inl (Sentinel ErrNamespaceDoesNotExist), s')" "minv s'"
    "mview s' = mview s"
proof -
  have none: "ns \<notin> dom (colls (m_db s))"
    using s(2) by (auto simp: mongo_view_def)
  then have "map_lookup (m_namespaces s) ns = None"
    using minvD(3) [OF s(1)] by (auto simp: map_keys_def)
  moreover obtain r s1 nss where r: "on_mongo (MListCollectionNames mg) s = (Inr r, s1)" "remember r (m_namespaces s1) = Inr nss"
      "map_keys nss = dom (colls (m_db s))" "minv (s1\<lparr>m_namespaces := nss\<rparr>)" "mview (s1\<lparr>m_namespaces := nss\<rparr>) = mview s"
    by (rule remember_all [OF s(1)])
  moreover have "map_lookup nss ns = None"
    using none r(3) unfolding map_keys_def by auto
  ultimately show ?thesis
    using that [of "s1\<lparr>m_namespaces := nss\<rparr>"] by (simp add: mongo_checkNamespaceExists_def Let_def)
qed

lemma on_mongo_find:
  assumes s: "minv s" "colls (m_db s) ns = Some h"
  obtains s' where "on_mongo (MFindOne mg ns c) s = (Inr (h c), s')" "minv s'" "mview s' = mview s"
    "colls (m_db s') = colls (m_db s)"
  by (rule on_mongo_read [OF s(1), of "MFindOne mg ns c" "Inr (h c)"]) (use mfind [OF minvD(1) [OF s(1)] s(2)] in auto)

lemma mongo_create:
  assumes s: "minv s" "mview s ns = Some m" and p: "wf_prefix p" "Cidr p \<noteq> []"
  shows "if m (Cidr p) = None then \<exists>s'. mongo_CreatePrefix mg p ns s = (Inr p, s') \<and> minv s' \<and>
      mview s' = (mview s)(ns \<mapsto> m(Cidr p \<mapsto> abs_prefix p))
    else \<exists>err s'. mongo_CreatePrefix mg p ns s = (Inl err, s') \<and> minv s' \<and> mview s' = mview s"
proof -
  obtain s1 h where c: "mongo_checkNamespaceExists mg ns s = (Inr (), s1)" "minv s1" "mview s1 = mview s"
      "colls (m_db s1) ns = Some h" "docs_ok dec h" "m = docs_view dec h"
    using check_found [OF s] .
  obtain s2 where s2: "on_mongo (MFindOne mg ns (Cidr p)) s1 = (Inr (h (Cidr p)), s2)" "minv s2" "mview s2 = mview s1"
      "colls (m_db s2) = colls (m_db s1)"
    by (rule on_mongo_find [OF c(2,4)])
  have none: "m (Cidr p) = None \<longleftrightarrow> h (Cidr p) = None"
    using docs_view_None [OF c(5)] c(6) by simp
  show ?thesis
  proof (cases "h (Cidr p)")
    case (Some doc)
    then have "mongo_CreatePrefix mg p ns s = (Inl (Errorf ''prefix already exists:%s'' []), s2)"
      using c(1) s2(1) by (simp add: mongo_CreatePrefix_def)
    with Some none s2(2,3) c(3) show ?thesis
      by simp
  next
    case None
    have coll: "colls (m_db s2) ns = Some h" "h (jCidr (toPrefixJSON p)) = None"
      using s2(4) c(4) None by (simp_all add: toPrefixJSON_def)
    obtain doc d where d: "MInsertOne mg ns (toPrefixJSON p) (m_db s2) = (Inr (), d)" "stands_for (MDecode mg) doc (toPrefixJSON p)"
        "up d" "colls d = (colls (m_db s2))(ns \<mapsto> h(jCidr (toPrefixJSON p) \<mapsto> doc))"
      using minsert [OF minvD(1) [OF s2(2)] coll maps_ok_prefix [OF p(1)]] by blast
    obtain p' where p': "dec doc = Inr p'" "abs_prefix p' = abs_prefix p" "wf_prefix p'" "Cidr p' = Cidr p"
      using stands_for_dec [OF d(2) p(1)] .
    have "entry_ok (Cidr p) p'"
      using p'(3,4) p(2) by (simp add: entry_ok_def)
    note h' = docs_store [OF c(5) p'(1) this]
    have d4: "colls d = (colls (m_db s2))(ns \<mapsto> h(Cidr p \<mapsto> doc))"
      using d(4) by (simp add: toPrefixJSON_def)
    obtain s3 where s3: "on_mongo (MInsertOne mg ns (toPrefixJSON p)) s2 = (Inr (), s3)" "minv s3"
        "mview s3 = (mview s2)(ns \<mapsto> docs_view dec (h(Cidr p \<mapsto> doc)))"
      by (rule on_mongo_write [where op = "MInsertOne mg ns (toPrefixJSON p)", OF s2(2) _ h'(1) d(1,3) d4])
        (simp_all add: coll)
    have "mongo_CreatePrefix mg p ns s = (Inr p, s3)"
      using c(1) s2(1) None s3(1) by (simp add: mongo_CreatePrefix_def)
    with None none s3(2,3) s2(3) c(3,6) h'(2) p'(2) show ?thesis
      by simp
  qed
qed

lemma mongo_read_cases:
  assumes s: "minv s" "mview s ns = Some m"
  obtains h s' where "docs_ok dec h" "m = docs_view dec h" "minv s'" "mview s' = mview s"
    "mongo_ReadPrefix mg c ns s = (case h c of
       None \<Rightarrow> Inl (Errorf ''%w prefix not found:%s, error:%w'' [Sentinel ErrNotFound, no_documents])
     | Some doc \<Rightarrow> (case MDecode mg doc of
         Inl err \<Rightarrow> Inl (Errorf ''unable to read prefix:%w'' [err]) | Inr j \<Rightarrow> Inr (toPrefix j)), s')"
proof -
  obtain s1 h where c: "mongo_checkNamespaceExists mg ns s = (Inr (), s1)" "minv s1" "mview s1 = mview s"
      "colls (m_db s1) ns = Some h" "docs_ok dec h" "m = docs_view dec h"
    using check_found [OF s] .
  obtain s2 where s2: "on_mongo (MFindOne mg ns c) s1 = (Inr (h c), s2)" "minv s2" "mview s2 = mview s1"
    by (rule on_mongo_find [OF c(2,4)])
  show ?thesis
    by (rule that [OF c(5,6) s2(2)])
      (use c(1,3) s2(1,3) in \<open>auto simp: mongo_ReadPrefix_def split: option.split sum.split\<close>)
qed

lemma mongo_read:
  assumes s: "minv s" "mview s ns = Some m"
  shows "m c = Some a \<Longrightarrow> \<exists>p s'. mongo_ReadPrefix mg c ns s = (Inr p, s') \<and> abs_prefix p = a \<and> wf_prefix p \<and>
      minv s' \<and> mview s' = mview s"
    and "m c = None \<Longrightarrow> \<exists>e s'. mongo_ReadPrefix mg c ns s = (Inl e, s') \<and> errors_is e ErrNotFound \<and>
      minv s' \<and> mview s' = mview s"
proof -
  obtain h s' where r: "docs_ok dec h" "m = docs_view dec h" "minv s'" "mview s' = mview s"
    "mongo_ReadPrefix mg c ns s = (case h c of
       None \<Rightarrow> Inl (Errorf ''%w prefix not found:%s, error:%w'' [Sentinel ErrNotFound, no_documents])
     | Some doc \<Rightarrow> (case MDecode mg doc of
         Inl err \<Rightarrow> Inl (Errorf ''unable to read prefix:%w'' [err]) | Inr j \<Rightarrow> Inr (toPrefix j)), s')"
    by (rule mongo_read_cases [OF s])
  show "\<exists>p s'. mongo_ReadPrefix mg c ns s = (Inr p, s') \<and> abs_prefix p = a \<and> wf_prefix p \<and> minv s' \<and> mview s' = mview s"
    if a: "m c = Some a"
  proof -
    obtain doc p where d: "h c = Some doc" "dec doc = Inr p" "abs_prefix p = a" "wf_prefix p"
      using docs_view_entry [OF r(1), of c a] a r(2) by blast
    then obtain j where "MDecode mg doc = Inr j" "toPrefix j = p"
      by (auto simp: mongo_dec_Inr)
    with d r(3-5) show ?thesis
      by simp
  qed
  show "m c = None \<Longrightarrow> \<exists>e s'. mongo_ReadPrefix mg c ns s = (Inl e, s') \<and> errors_is e ErrNotFound \<and>
      minv s' \<and> mview s' = mview s"
    using r docs_view_None [OF r(1)] by simp
qed

lemma mongo_delete_all:
  assumes s: "minv s" "mview s ns = Some m"
  shows "\<exists>s'. mongo_DeleteAllPrefixes mg ns s = (Inr (), s') \<and> minv s' \<and> mview s' = (mview s)(ns \<mapsto> Map.empty)"
proof -
  obtain s1 h where c: "mongo_checkNamespaceExists mg ns s = (Inr (), s1)" "minv s1" "mview s1 = mview s"
      "colls (m_db s1) ns = Some h"
    using check_found [OF s] .
  obtain d where d: "MDeleteMany mg ns (m_db s1) = (Inr (), d)" "up d" "colls d = (colls (m_db s1))(ns \<mapsto> Map.empty)"
    using mdeletemany [OF minvD(1) [OF c(2)] c(4)] by blast
  obtain s2 where s2: "on_mongo (MDeleteMany mg ns) s1 = (Inr (), s2)" "minv s2"
      "mview s2 = (mview s1)(ns \<mapsto> docs_view dec Map.empty)"
    by (rule on_mongo_write [where op = "MDeleteMany mg ns", OF c(2) _ docs_ok_empty(1) d]) (simp add: c(4))
  have "mongo_DeleteAllPrefixes mg ns s = (Inr (), s2)"
    using c(1) s2(1) by (simp add: mongo_DeleteAllPrefixes_def)
  with s2(2,3) c(3) show ?thesis
    by simp
qed

lemma decode_all_run:
  assumes "list_all2 (\<lambda>c p. \<exists>doc. h c = Some doc \<and> dec doc = Inr p) cs ps"
  shows "\<exists>js. decode_all (MDecode mg) (map (the \<circ> h) cs) = Inr js \<and> map toPrefix js = ps"
  using assms
proof (induction rule: list_all2_induct)
  case (Cons c cs p ps)
  then obtain doc j js where "h c = Some doc" "MDecode mg doc = Inr j" "toPrefix j = p"
      "decode_all (MDecode mg) (map (the \<circ> h) cs) = Inr js" "map toPrefix js = ps"
    unfolding mongo_dec_Inr by blast
  then show ?case
    by (simp add: comp_def)
qed simp

lemma mongo_read_all:
  assumes s: "minv s" "mview s ns = Some m"
  obtains ps s' where "mongo_ReadAllPrefixes mg ns s = (Inr ps, s')" "distinct (map Cidr ps)" "\<forall>p \<in> set ps. wf_prefix p"
    "map_of (map (\<lambda>p. (Cidr p, abs_prefix p)) ps) = m" "set (map Cidr ps) = dom m" "minv s'" "mview s' = mview s"
proof -
  obtain s1 h where c: "mongo_checkNamespaceExists mg ns s = (Inr (), s1)" "minv s1" "mview s1 = mview s"
      "colls (m_db s1) ns = Some h" "docs_ok dec h" "m = docs_view dec h"
    using check_found [OF s] .
  obtain cs d where cs: "MFindAll mg ns (m_db s1) = (Inr (map (the \<circ> h) cs), d)" "distinct cs" "set cs = dom h" "up d"
      "colls d = colls (m_db s1)"
    using mfindall [OF minvD(1) [OF c(2)] c(4)] by blast
  obtain ps where ps: "list_all2 (\<lambda>c p. \<exists>js. h c = Some js \<and> dec js = Inr p) cs ps" "distinct (map Cidr ps)"
    "map Cidr ps = cs" "\<forall>p \<in> set ps. wf_prefix p" "map_of (map (\<lambda>p. (Cidr p, abs_prefix p)) ps) = docs_view dec h"
    using docs_list [OF c(5) cs(2,3)] .
  obtain js where js: "decode_all (MDecode mg) (map (the \<circ> h) cs) = Inr js" "map toPrefix js = ps"
    using decode_all_run [OF ps(1)] by blast
  obtain s2 where s2: "on_mongo (MFindAll mg ns) s1 = (Inr (map (the \<circ> h) cs), s2)" "minv s2" "mview s2 = mview s1"
    by (rule on_mongo_read [OF c(2), of "MFindAll mg ns" "Inr (map (the \<circ> h) cs)"]) (use cs in auto)
  have "mongo_ReadAllPrefixes mg ns s = (Inr ps, s2)"
    using c(1) s2(1) js by (simp add: mongo_ReadAllPrefixes_def)
  moreover have "dom m = dom h"
    unfolding c(6) using docs_view_None [OF c(5)] by (simp add: set_eq_iff domIff)
  ultimately show ?thesis
    using that [of ps s2] ps s2(2,3) c(3,6) cs(3) by simp
qed

lemma mongo_update:
  assumes s: "minv s" "mview s ns = Some m" and p: "wf_prefix p"
  shows "if m (Cidr p) = None \<or> aVersion (the (m (Cidr p))) \<noteq> version p then \<exists>err s'. mongo_UpdatePrefix mg p ns s = (Inl err, s') \<and>
      errors_is err ErrOptimisticLockError \<and> minv s' \<and> mview s' = mview s
    else \<exists>s'. mongo_UpdatePrefix mg p ns s = (Inr (next_version p), s') \<and> minv s' \<and>
      mview s' = (mview s)(ns \<mapsto> m(Cidr p \<mapsto> abs_prefix (next_version p)))"
proof -
  obtain s1 h where c: "mongo_checkNamespaceExists mg ns s = (Inr (), s1)" "minv s1" "mview s1 = mview s"
      "colls (m_db s1) ns = Some h" "docs_ok dec h" "m = docs_view dec h"
    using check_found [OF s] .
  let ?p = "next_version p"
  let ?op = "MReplaceOne mg ns (Cidr p) (version p) (toPrefixJSON ?p)"
  have run: "mongo_UpdatePrefix mg p ns s = (case on_mongo ?op s1 of
        (Inl err, s) \<Rightarrow> (Inl (Errorf ''unable to update prefix:%s, error: %w'' [err]), s)
      | (Inr (matched, modified), s) \<Rightarrow>
          if matched = 0 then (Inl (Errorf ''%w: unable to update prefix:%s'' [Sentinel ErrOptimisticLockError]), s)
          else if modified = 0 then
            (Inl (Errorf ''%w: update did not effect any document:%s'' [Sentinel ErrOptimisticLockError]), s)
          else (Inr ?p, s))"
    unfolding next_version_def using c(1) by (simp add: mongo_UpdatePrefix_def Let_def)
  have m: "m (Cidr p) = Some (abs_prefix q)" if "h (Cidr p) = Some doc" "dec doc = Inr q" for doc q
    using that c(6) by (simp add: docs_view_def)
  show ?thesis
  proof (cases "m (Cidr p) = None \<or> aVersion (the (m (Cidr p))) \<noteq> version p")
    case True
    have "case h (Cidr p) of None \<Rightarrow> True | Some doc \<Rightarrow> \<exists>j0. MDecode mg doc = Inr j0 \<and> Version j0 \<noteq> version p"
    proof (cases "h (Cidr p)")
      case (Some doc)
      then obtain q where q: "dec doc = Inr q"
        using docs_okD [OF c(5)] by blast
      with True m [OF Some q] have "version q \<noteq> version p"
        by simp
      with q Some show ?thesis
        by (auto elim: mongo_dec_Version)
    qed simp
    from mreplace_none [OF minvD(1) [OF c(2)] c(4) this]
    obtain s2 where "on_mongo ?op s1 = (Inr (0, 0), s2)" "minv s2" "mview s2 = mview s1"
      by (rule on_mongo_read [where op = ?op, OF c(2)])
    with run True c(3) show ?thesis
      by auto
  next
    case False
    then obtain a where "docs_view dec h (Cidr p) = Some a"
      using c(6) by auto
    then obtain doc q where q: "h (Cidr p) = Some doc" "dec doc = Inr q" "wf_prefix q" "Cidr q = Cidr p" "Cidr p \<noteq> []"
      using docs_view_entry [OF c(5)] by blast
    obtain j0 where j0: "MDecode mg doc = Inr j0" "Version j0 = version p"
      using False m [OF q(1,2)] mongo_dec_Version [OF q(2)] by auto
    have js: "jCidr (toPrefixJSON ?p) = Cidr p" "Version (toPrefixJSON ?p) \<noteq> version p"
      by (simp_all add: toPrefixJSON_def)
    have wf': "wf_prefix ?p"
      using p by simp
    obtain doc' d where d: "?op (m_db s1) = (Inr (1, 1), d)" "stands_for (MDecode mg) doc' (toPrefixJSON ?p)" "up d"
        "colls d = (colls (m_db s1))(ns \<mapsto> h(Cidr p \<mapsto> doc'))"
      using mreplace [OF minvD(1) [OF c(2)] c(4) q(1) j0 js maps_ok_prefix [OF wf']] by blast
    from stands_for_dec [OF d(2) wf'] obtain p' where p': "dec doc' = Inr p'" "abs_prefix p' = abs_prefix ?p"
        "wf_prefix p'" "Cidr p' = Cidr ?p" .
    have "entry_ok (Cidr p) p'"
      using p'(3,4) q(5) by (simp add: entry_ok_def)
    note h' = docs_store [OF c(5) p'(1) this]
    obtain s2 where s2: "on_mongo ?op s1 = (Inr (1, 1), s2)" "minv s2"
        "mview s2 = (mview s1)(ns \<mapsto> docs_view dec (h(Cidr p \<mapsto> doc')))"
      by (rule on_mongo_write [where op = ?op, OF c(2) _ h'(1) d(1,3,4)]) (simp add: c(4))
    with run False c(3,6) h'(2) p'(2) show ?thesis
      by simp
  qed
qed

lemma mongo_delete:
  assumes s: "minv s" "mview s ns = Some m"
  shows "m (Cidr p) = Some a \<Longrightarrow> \<exists>q s'. mongo_DeletePrefix mg p ns s = (Inr q, s') \<and> abs_prefix q = a \<and> minv s' \<and>
      mview s' = (mview s)(ns \<mapsto> m(Cidr p := None))"
    and "m (Cidr p) = None \<Longrightarrow> \<exists>err s'. mongo_DeletePrefix mg p ns s = (Inl err, s') \<and> minv s' \<and> mview s' = mview s"
proof -
  obtain s1 h where c: "mongo_checkNamespaceExists mg ns s = (Inr (), s1)" "minv s1" "mview s1 = mview s"
      "colls (m_db s1) ns = Some h" "docs_ok dec h" "m = docs_view dec h"
    using check_found [OF s] .
  obtain d where d: "MFindOneAndDelete mg ns (Cidr p) (m_db s1) = (Inr (h (Cidr p)), d)" "up d"
      "colls d = (colls (m_db s1))(ns \<mapsto> h(Cidr p := None))"
    using mfinddelete [OF minvD(1) [OF c(2)] c(4)] by blast
  note h' = docs_remove [OF c(5), of "Cidr p"]
  obtain s2 where s2: "on_mongo (MFindOneAndDelete mg ns (Cidr p)) s1 = (Inr (h (Cidr p)), s2)" "minv s2"
      "mview s2 = (mview s1)(ns \<mapsto> docs_view dec (h(Cidr p := None)))"
    by (rule on_mongo_write [where op = "MFindOneAndDelete mg ns (Cidr p)", OF c(2) _ h'(1) d]) (simp add: c(4))
  show "\<exists>q s'. mongo_DeletePrefix mg p ns s = (Inr q, s') \<and> abs_prefix q = a \<and> minv s' \<and>
      mview s' = (mview s)(ns \<mapsto> m(Cidr p := None))" if a: "m (Cidr p) = Some a"
  proof -
    obtain doc q where q: "h (Cidr p) = Some doc" "dec doc = Inr q" "abs_prefix q = a"
      using docs_view_entry [OF c(5), of "Cidr p" a] a c(6) by blast
    then obtain j where "MDecode mg doc = Inr j" "toPrefix j = q"
      by (auto simp: mongo_dec_Inr)
    with q c(1,3,6) s2 h'(2) show ?thesis
      by (simp add: mongo_DeletePrefix_def)
  qed
  show "\<exists>err s'. mongo_DeletePrefix mg p ns s = (Inl err, s') \<and> minv s' \<and> mview s' = mview s" if none: "m (Cidr p) = None"
  proof -
    have "h (Cidr p) = None"
      using docs_view_None [OF c(5)] c(6) none by simp
    moreover have "mview s2 = mview s"
      using s2(3) h'(2) c(3,6) none s(2) by (simp add: fun_upd_idem)
    ultimately show ?thesis
      using c(1) s2(1,2) by (simp add: mongo_DeletePrefix_def)
  qed
qed

lemma mongo_create_ns:
  assumes s: "minv s" and ns: "name_ok ns"
  shows "\<exists>s'. mongo_CreateNamespace mg ns s = (Inr (), s') \<and> minv s' \<and> mview s' =
    (case mview s ns of None \<Rightarrow> (mview s)(ns \<mapsto> Map.empty) | Some m \<Rightarrow> mview s)"
proof (cases "map_lookup (m_namespaces s) ns")
  case (Some u)
  then have "ns \<in> dom (colls (m_db s))"
    using minvD(3) [OF s] by (auto simp: map_keys_def)
  then obtain m where "mview s ns = Some m"
    by (auto simp: mongo_view_def)
  with Some s show ?thesis
    by (simp add: mongo_CreateNamespace_def)
next
  case None
  note inv = minvD [OF s]
  show ?thesis
  proof (cases "colls (m_db s) ns")
    case (Some h)
    then have ex: "colls (m_db s) ns \<noteq> None" and v: "mview s ns = Some (docs_view dec h)"
      by (simp_all add: mongo_view_def)
    obtain e d where e: "MCreateCollection mg ns (m_db s) = (Inl e, d)" "MNamespaceExists mg e" "up d"
        "colls d = colls (m_db s)"
      using mcreate_exists [OF inv(1) ex] by blast
    obtain s1 where "on_mongo (MCreateCollection mg ns) s = (Inl e, s1)" "minv s1" "mview s1 = mview s"
      by (rule on_mongo_read [OF s, of "MCreateCollection mg ns" "Inl e"]) (use e in auto)
    with None e(2) v show ?thesis
      by (simp add: mongo_CreateNamespace_def)
  next
    case no: None
    obtain d where d: "MCreateCollection mg ns (m_db s) = (Inr (), d)" "up d" "colls d = (colls (m_db s))(ns \<mapsto> Map.empty)"
      using mcreate [OF inv(1) ns no] by blast
    then have "colls d ns \<noteq> None"
      by simp
    from mindex [OF d(2) this] obtain d' where d': "MCreateIndex mg ns d = (Inr (), d')" "up d'" "colls d' = colls d"
      by blast
    obtain nss where nss: "map_insert (m_namespaces s) ns () = Inr nss"
      using map_ok_insert_ex [OF inv(2)] by blast
    let ?s = "s\<lparr>m_db := d', m_namespaces := nss\<rparr>"
    have "mongo_CreateNamespace mg ns s = (Inr (), ?s)"
      using None d(1) d'(1) nss by (simp add: mongo_CreateNamespace_def on_mongo_def)
    moreover have "minv ?s"
      using inv(2,3,4) d(3) d'(2,3) map_insert_ok [OF nss inv(2)] map_keys_insert [OF nss]
      by (auto simp: mongo_inv_def)
    moreover have "mview s ns = None"
      using no by (simp add: mongo_view_def)
    moreover have "mview ?s = (mview s)(ns \<mapsto> Map.empty)"
      by (rule ext) (simp add: mongo_view_def d(3) d'(3))
    ultimately show ?thesis
      by simp
  qed
qed

lemma mongo_list_ns:
  assumes s: "minv s"
  shows "\<exists>nss s'. mongo_ListNamespaces mg s = (Inr nss, s') \<and> distinct nss \<and> set nss = dom (mview s) \<and>
    minv s' \<and> mview s' = mview s"
proof -
  obtain ns s1 nss where r: "on_mongo (MListCollectionNames mg) s = (Inr ns, s1)" "remember ns (m_namespaces s1) = Inr nss"
    "distinct ns" "set ns = dom (colls (m_db s))" "minv (s1\<lparr>m_namespaces := nss\<rparr>)" "mview (s1\<lparr>m_namespaces := nss\<rparr>) = mview s"
    by (rule remember_all [OF s])
  moreover have "dom (mview s) = dom (colls (m_db s))"
    by (auto simp: mongo_view_def)
  ultimately show ?thesis
    by (simp add: mongo_ListNamespaces_def)
qed

sublocale mongo: storage_laws "mongo_storage mg" minv mview name_ok
proof unfold_locales
  fix r :: "'d mongodb" and ns m c a p x r'
  assume r: "minv r"
  { assume m: "mview r ns = Some m"
    obtain h where h: "docs_ok dec h" "m = docs_view dec h"
      using mview_Some [OF r m] .
    have view_cidr: "aCidr a = c \<and> c \<noteq> []" if "m c = Some a" for a c
      using that unfolding h(2) by (rule docs_view_entry [OF h(1)]) auto
    then show "m c = Some a \<Longrightarrow> aCidr a = c \<and> c \<noteq> []" .
    have "dom m = dom h"
      unfolding h(2) using docs_view_None [OF h(1)] by (simp add: set_eq_iff domIff)
    with h(1) show "finite (dom m)"
      by (simp add: docs_ok_def)
    show "wf_prefix p \<Longrightarrow> Cidr p \<noteq> [] \<Longrightarrow> m (Cidr p) = None \<Longrightarrow>
      \<exists>q s'. (q = p \<or> q = p\<lparr>version := 0\<rparr>) \<and> CreatePrefix (mongo_storage mg) p ns r = (Inr q, s') \<and> minv s' \<and>
        mview s' = (mview r)(ns \<mapsto> m(Cidr p \<mapsto> abs_prefix q))"
      using mongo_create [OF r m, of p] by (simp add: mongo_storage_def) blast
    show "wf_prefix p \<Longrightarrow> m (Cidr p) \<noteq> None \<Longrightarrow> CreatePrefix (mongo_storage mg) p ns r = (x, r') \<Longrightarrow>
      minv r' \<and> mview r' = mview r"
      using mongo_create [OF r m, of p] view_cidr [of "Cidr p"] by (auto simp: mongo_storage_def)
    show "m c = Some a \<Longrightarrow> \<exists>p s'. ReadPrefix (mongo_storage mg) c ns r = (Inr p, s') \<and> abs_prefix p = a \<and>
        wf_prefix p \<and> minv s' \<and> mview s' = mview r"
      using mongo_read [OF r m, of c] by (simp add: mongo_storage_def)
    show "m c = None \<Longrightarrow> \<exists>e s'. ReadPrefix (mongo_storage mg) c ns r = (Inl e, s') \<and> errors_is e ErrNotFound \<and>
        minv s' \<and> mview s' = mview r"
      using mongo_read [OF r m, of c] by (simp add: mongo_storage_def)
    show "\<exists>s'. DeleteAllPrefixes (mongo_storage mg) ns r = (Inr (), s') \<and> minv s' \<and>
        mview s' = (mview r)(ns \<mapsto> Map.empty)"
      using mongo_delete_all [OF r m] by (simp add: mongo_storage_def)
    show "\<exists>ps s'. ReadAllPrefixes (mongo_storage mg) ns r = (Inr ps, s') \<and> distinct (map Cidr ps) \<and>
        (\<forall>p \<in> set ps. wf_prefix p) \<and> map_of (map (\<lambda>p. (Cidr p, abs_prefix p)) ps) = m \<and>
        minv s' \<and> mview s' = mview r"
      by (rule mongo_read_all [OF r m]) (simp add: mongo_storage_def)
    show "\<exists>cs s'. ReadAllPrefixCidrs (mongo_storage mg) ns r = (Inr cs, s') \<and> distinct cs \<and> set cs = dom m \<and>
        minv s' \<and> mview s' = mview r"
      by (rule mongo_read_all [OF r m]) (simp add: mongo_storage_def mongo_ReadAllPrefixCidrs_def)
    show "wf_prefix p \<Longrightarrow> m (Cidr p) = Some a \<Longrightarrow> aVersion a = version p \<Longrightarrow>
      \<exists>s'. UpdatePrefix (mongo_storage mg) p ns r = (Inr (next_version p), s') \<and> minv s' \<and>
        mview s' = (mview r)(ns \<mapsto> m(Cidr p \<mapsto> abs_prefix (next_version p)))"
      using mongo_update [OF r m, of p] by (simp add: mongo_storage_def)
    show "wf_prefix p \<Longrightarrow> m (Cidr p) = Some a \<Longrightarrow> aVersion a \<noteq> version p \<Longrightarrow>
      \<exists>e s'. UpdatePrefix (mongo_storage mg) p ns r = (Inl e, s') \<and> errors_is e ErrOptimisticLockError \<and>
        minv s' \<and> mview s' = mview r"
      using mongo_update [OF r m, of p] by (simp add: mongo_storage_def)
    show "wf_prefix p \<Longrightarrow> m (Cidr p) = None \<Longrightarrow> \<exists>e s'. UpdatePrefix (mongo_storage mg) p ns r = (Inl e, s') \<and>
        minv s' \<and> mview s' = mview r"
      using mongo_update [OF r m, of p] by (auto simp: mongo_storage_def)
    show "wf_prefix p \<Longrightarrow> m (Cidr p) = Some a \<Longrightarrow> \<exists>q s'. DeletePrefix (mongo_storage mg) p ns r = (Inr q, s') \<and>
        (abs_prefix p = a \<longrightarrow> abs_prefix q = a) \<and> minv s' \<and>
        mview s' = (mview r)(ns \<mapsto> m(Cidr p := None))"
      using mongo_delete(1) [OF r m, of p a] by (auto simp: mongo_storage_def)
    show "wf_prefix p \<Longrightarrow> m (Cidr p) = None \<Longrightarrow> DeletePrefix (mongo_storage mg) p ns r = (x, r') \<Longrightarrow>
        minv r' \<and> mview r' = mview r"
      using mongo_delete(2) [OF r m, of p] by (auto simp: mongo_storage_def)
  }
  show "name_ok ns \<Longrightarrow> \<exists>s'. CreateNamespace (mongo_storage mg) ns r = (Inr (), s') \<and> minv s' \<and>
      mview s' = (case mview r ns of None \<Rightarrow> (mview r)(ns \<mapsto> Map.empty) | Some m \<Rightarrow> mview r)"
    using mongo_create_ns [OF r] by (simp add: mongo_storage_def)
  show "\<exists>nss s'. ListNamespaces (mongo_storage mg) r = (Inr nss, s') \<and> distinct nss \<and> set nss = dom (mview r) \<and>
      minv s' \<and> mview s' = mview r"
    using mongo_list_ns [OF r] by (simp add: mongo_storage_def)
  { assume none: "mview r ns = None"
    obtain r1 where "mongo_checkNamespaceExists mg ns r = (Inl (Sentinel ErrNamespaceDoesNotExist), r1)" "minv r1"
        "mview r1 = mview r"
      using check_missing [OF r none] .
    then show "(\<exists>e s'. CreatePrefix (mongo_storage mg) p ns r = (Inl e, s') \<and> errors_is e ErrNamespaceDoesNotExist \<and> minv s' \<and> mview s' = mview r) \<and>
      (\<exists>e s'. ReadPrefix (mongo_storage mg) c ns r = (Inl e, s') \<and> errors_is e ErrNamespaceDoesNotExist \<and> minv s' \<and> mview s' = mview r) \<and>
      (\<exists>e s'. ReadAllPrefixes (mongo_storage mg) ns r = (Inl e, s') \<and> errors_is e ErrNamespaceDoesNotExist \<and> minv s' \<and> mview s' = mview r) \<and>
      (\<exists>e s'. ReadAllPrefixCidrs (mongo_storage mg) ns r = (Inl e, s') \<and> errors_is e ErrNamespaceDoesNotExist \<and> minv s' \<and> mview s' = mview r) \<and>
      (\<exists>e s'. DeletePrefix (mongo_storage mg) p ns r = (Inl e, s') \<and> errors_is e ErrNamespaceDoesNotExist \<and> minv s' \<and> mview s' = mview r) \<and>
      (\<exists>e s'. DeleteNamespace (mongo_storage mg) ns r = (Inl e, s') \<and> errors_is e ErrNamespaceDoesNotExist \<and> minv s' \<and> mview s' = mview r) \<and>
      (Cidr p \<noteq> [] \<longrightarrow> (\<exists>e s'. UpdatePrefix (mongo_storage mg) p ns r = (Inl e, s') \<and> errors_is e ErrNamespaceDoesNotExist \<and> minv s' \<and> mview s' = mview r))"
      by (simp add: mongo_storage_def mongo_CreatePrefix_def mongo_ReadPrefix_def mongo_ReadAllPrefixes_def
          mongo_ReadAllPrefixCidrs_def mongo_DeletePrefix_def mongo_DeleteNamespace_def mongo_DeleteAllPrefixes_def mongo_UpdatePrefix_def)
  }
qed

lemma storage_contract: "storage_laws (mongo_storage mg) minv mview name_ok"
  by (rule mongo.storage_laws_axioms)

text \<open>Dropping a namespace that the process has in its cache.\<close>

lemma mongo_drop:
  assumes s: "minv s" "mview s ns = Some m"
  obtains s' where "mongo_DeleteNamespace mg ns s = (Inr (), s')" "up (m_db s')" "mview s' = (mview s)(ns := None)"
    "map_lookup (m_namespaces s') ns \<noteq> None"
proof -
  obtain s1 h where c: "mongo_checkNamespaceExists mg ns s = (Inr (), s1)" "minv s1" "mview s1 = mview s"
    using check_found [OF s] .
  have cached: "map_lookup (m_namespaces s1) ns \<noteq> None"
    using c(1) by (auto simp: mongo_checkNamespaceExists_def Let_def split: if_split_asm prod.split_asm sum.split_asm)
  obtain d where d: "MDrop mg ns (m_db s1) = (Inr (), d)" "up d" "colls d = (colls (m_db s1))(ns := None)"
    using mdrop [OF minvD(1) [OF c(2)]] by blast
  have "mongo_DeleteNamespace mg ns s = (Inr (), s1\<lparr>m_db := d\<rparr>)"
    using c(1) d(1) by (simp add: mongo_DeleteNamespace_def on_mongo_def)
  moreover have "mview (s1\<lparr>m_db := d\<rparr>) = (mview s)(ns := None)"
    by (rule ext) (use d(3) c(3) [symmetric] in \<open>simp add: mongo_view_def\<close>)
  ultimately show ?thesis
    using that [of "s1\<lparr>m_db := d\<rparr>"] d(2) cached by simp
qed

end

section \<open>The contract, and what lies outside it\<close>

text \<open>
  C28: Over a MongoDB server that keeps its promises the MongoDB storage meets the contract of a storage
  that does not delete namespaces, for the names that the server accepts for collections.
\<close>

theorem mongo_meets_contract:
  assumes "mongo_laws mg up colls name_ok"
  shows "storage_laws (mongo_storage mg) (mongo_inv mg up colls) (mongo_view mg colls) name_ok"
  by (rule mongo_laws.storage_contract [OF assms])

text \<open>
  \<open>DeleteNamespace\<close> drops the collection of a namespace but leaves the name in the cache: the same
  process then takes the namespace for existing, lists no prefix of it instead of reporting that it does
  not exist, and \<open>CreateNamespace\<close> succeeds without creating it.
\<close>

theorem deleted_namespace_stays_cached:
  assumes laws: "mongo_laws mg up colls name_ok"
    and s: "mongo_inv mg up colls s" "mongo_view mg colls s ns = Some m"
  shows "\<exists>s1 s2. mongo_DeleteNamespace mg ns s = (Inr (), s1) \<and> mongo_view mg colls s1 ns = None \<and>
    mongo_CreateNamespace mg ns s1 = (Inr (), s1) \<and> mongo_ReadAllPrefixes mg ns s1 = (Inr [], s2) \<and>
    mongo_view mg colls s2 ns = None"
proof -
  obtain s1 where s1: "mongo_DeleteNamespace mg ns s = (Inr (), s1)" "up (m_db s1)"
      "mongo_view mg colls s1 = (mongo_view mg colls s)(ns := None)" "map_lookup (m_namespaces s1) ns \<noteq> None"
    using mongo_laws.mongo_drop [OF laws s] .
  have gone: "mongo_view mg colls s1 ns = None"
    using s1(3) by simp
  then have none: "colls (m_db s1) ns = None"
    by (simp add: mongo_view_def)
  obtain d where d: "MFindAll mg ns (m_db s1) = (Inr [], d)" "colls d = colls (m_db s1)"
    using mongo_laws.mfindall_none [OF laws s1(2) none] by blast
  have "mongo_ReadAllPrefixes mg ns s1 = (Inr [], s1\<lparr>m_db := d\<rparr>)"
    using s1(4) d(1) by (simp add: mongo_ReadAllPrefixes_def mongo_checkNamespaceExists_def on_mongo_def)
  moreover have "mongo_CreateNamespace mg ns s1 = (Inr (), s1)"
    using s1(4) by (simp add: mongo_CreateNamespace_def)
  moreover have "mongo_view mg colls (s1\<lparr>m_db := d\<rparr>) ns = None"
    using none d(2) by (simp add: mongo_view_def)
  ultimately show ?thesis
    using s1(1) gone by blast
qed

section \<open>A concrete server\<close>

text \<open>The documents of the reference server are the values they were written from.\<close>

type_synonym ref_mongo_db = "(string \<times> (string \<times> prefixJSON) list) list"

definition ref_coll :: "ref_mongo_db \<Rightarrow> string \<Rightarrow> (string \<times> prefixJSON) list" where
  "ref_coll d n = (case map_of d n of None \<Rightarrow> [] | Some h \<Rightarrow> h)"

definition namespace_exists :: go_error where
  "namespace_exists = Errorf ''(NamespaceExists) Collection already exists.'' []"

definition ref_mongo :: "(ref_mongo_db, prefixJSON) mongo" where
  "ref_mongo = \<lparr>
     MListCollectionNames = (\<lambda>d. (Inr (map fst d), d)),
     MFindOne = (\<lambda>n c d. (Inr (map_of (ref_coll d n) c), d)),
     MFindAll = (\<lambda>n d. (Inr (map snd (ref_coll d n)), d)),
     MInsertOne = (\<lambda>n j d. (Inr (), AList.update n (AList.update (jCidr j) j (ref_coll d n)) d)),
     MReplaceOne = (\<lambda>n c v j d. case map_of (ref_coll d n) c of
         None \<Rightarrow> (Inr (0, 0), d)
       | Some j0 \<Rightarrow> if Version j0 \<noteq> v then (Inr (0, 0), d)
           else (Inr (1, if j = j0 then 0 else 1), AList.update n (AList.update c j (ref_coll d n)) d)),
     MFindOneAndDelete = (\<lambda>n c d. (Inr (map_of (ref_coll d n) c), AList.update n (AList.delete c (ref_coll d n)) d)),
     MDeleteMany = (\<lambda>n d. (Inr (), AList.update n [] d)),
     MCreateCollection = (\<lambda>n d. if map_of d n \<noteq> None then (Inl namespace_exists, d) else (Inr (), AList.update n [] d)),
     MCreateIndex = (\<lambda>n d. (Inr (), d)),
     MDrop = (\<lambda>n d. (Inr (), AList.delete n d)),
     MDecode = Inr,
     MNamespaceExists = (\<lambda>e. e = namespace_exists)\<rparr>"

definition ref_mongo_up :: "ref_mongo_db \<Rightarrow> bool" where
  "ref_mongo_up d \<longleftrightarrow> distinct (map fst d) \<and> (\<forall>n h. map_of d n = Some h \<longrightarrow> distinct (map fst h))"

definition ref_colls :: "ref_mongo_db \<Rightarrow> string \<rightharpoonup> string \<rightharpoonup> prefixJSON" where
  "ref_colls d n = map_option map_of (map_of d n)"

lemma ref_collsD:
  assumes "ref_mongo_up d" "ref_colls d n = Some h"
  shows "map_of (ref_coll d n) = h" "distinct (map fst (ref_coll d n))"
  using assms by (auto simp: ref_colls_def ref_coll_def ref_mongo_up_def)

lemma ref_coll_update:
  assumes "ref_mongo_up d" "distinct (map fst es)"
  shows "ref_mongo_up (AList.update n es d)" "ref_colls (AList.update n es d) = (ref_colls d)(n \<mapsto> map_of es)"
  using assms by (auto simp: ref_mongo_up_def ref_colls_def distinct_update update_conv' fun_eq_iff)

lemma stands_for_Inr: "maps_ok j \<Longrightarrow> stands_for Inr j j"
  unfolding stands_for_def
  by (rule exI [of _ "AvailableChildPrefixes j"], rule exI [of _ "IPs j"]) (simp add: same_map_def maps_ok_def)

interpretation rm: mongo_laws ref_mongo ref_mongo_up ref_colls "\<lambda>n. True"
proof unfold_locales
  fix d n h c v and j j0 doc :: prefixJSON
  assume up: "ref_mongo_up d"
  then have d: "distinct (map fst d)"
    by (simp add: ref_mongo_up_def)
  show "\<exists>ns d'. MListCollectionNames ref_mongo d = (Inr ns, d') \<and> distinct ns \<and> set ns = dom (ref_colls d) \<and>
      ref_mongo_up d' \<and> ref_colls d' = ref_colls d"
    using up d by (auto simp: ref_mongo_def ref_colls_def dom_map_of_conv_image_fst [symmetric] domIff)
  show "ref_colls d n = None \<Longrightarrow> \<exists>d'. MFindAll ref_mongo n d = (Inr [], d') \<and> ref_mongo_up d' \<and> ref_colls d' = ref_colls d"
    using up by (simp add: ref_mongo_def ref_colls_def ref_coll_def)
  show "ref_colls d n = None \<Longrightarrow> \<exists>d'. MCreateCollection ref_mongo n d = (Inr (), d') \<and> ref_mongo_up d' \<and>
      ref_colls d' = (ref_colls d)(n \<mapsto> Map.empty)"
    using ref_coll_update [OF up, of "[]" n] by (simp add: ref_mongo_def ref_colls_def)
  show "ref_colls d n \<noteq> None \<Longrightarrow> \<exists>e d'. MCreateCollection ref_mongo n d = (Inl e, d') \<and> MNamespaceExists ref_mongo e \<and>
      ref_mongo_up d' \<and> ref_colls d' = ref_colls d"
    using up by (simp add: ref_mongo_def ref_colls_def)
  show "ref_colls d n \<noteq> None \<Longrightarrow> \<exists>d'. MCreateIndex ref_mongo n d = (Inr (), d') \<and> ref_mongo_up d' \<and> ref_colls d' = ref_colls d"
    using up by (simp add: ref_mongo_def)
  show "\<exists>d'. MDrop ref_mongo n d = (Inr (), d') \<and> ref_mongo_up d' \<and> ref_colls d' = (ref_colls d)(n := None)"
    using up d by (auto simp: ref_mongo_def ref_mongo_up_def ref_colls_def distinct_delete delete_conv' fun_eq_iff)
  { assume h: "ref_colls d n = Some h"
    note es = ref_collsD [OF up h]
    note upd = ref_coll_update [OF up]
    show "\<exists>d'. MFindOne ref_mongo n c d = (Inr (h c), d') \<and> ref_mongo_up d' \<and> ref_colls d' = ref_colls d"
      using up es by (simp add: ref_mongo_def)
    show "\<exists>cs d'. MFindAll ref_mongo n d = (Inr (map (the \<circ> h) cs), d') \<and> distinct cs \<and> set cs = dom h \<and>
        ref_mongo_up d' \<and> ref_colls d' = ref_colls d"
    proof -
      have "map snd (ref_coll d n) = map (the \<circ> h) (map fst (ref_coll d n))"
        using es by (auto simp: map_of_is_SomeI)
      then show ?thesis
        using up es dom_map_of_conv_image_fst [of "ref_coll d n"]
        by (intro exI [of _ "map fst (ref_coll d n)"] exI [of _ d]) (simp add: ref_mongo_def)
    qed
    show "h (jCidr j) = None \<Longrightarrow> maps_ok j \<Longrightarrow> \<exists>doc d'. MInsertOne ref_mongo n j d = (Inr (), d') \<and>
        stands_for (MDecode ref_mongo) doc j \<and> ref_mongo_up d' \<and> ref_colls d' = (ref_colls d)(n \<mapsto> h(jCidr j \<mapsto> doc))"
      using upd [of "AList.update (jCidr j) j (ref_coll d n)" n] es stands_for_Inr [of j]
      by (auto simp: ref_mongo_def distinct_update update_conv')
    show "(case h c of None \<Rightarrow> True | Some doc \<Rightarrow> \<exists>j0. MDecode ref_mongo doc = Inr j0 \<and> Version j0 \<noteq> v) \<Longrightarrow>
        \<exists>d'. MReplaceOne ref_mongo n c v j d = (Inr (0, 0), d') \<and> ref_mongo_up d' \<and> ref_colls d' = ref_colls d"
      using up es by (auto simp: ref_mongo_def split: option.splits)
    show "h c = Some doc \<Longrightarrow> MDecode ref_mongo doc = Inr j0 \<Longrightarrow> Version j0 = v \<Longrightarrow> jCidr j = c \<Longrightarrow> Version j \<noteq> v \<Longrightarrow>
        maps_ok j \<Longrightarrow> \<exists>doc' d'. MReplaceOne ref_mongo n c v j d = (Inr (1, 1), d') \<and>
        stands_for (MDecode ref_mongo) doc' j \<and> ref_mongo_up d' \<and> ref_colls d' = (ref_colls d)(n \<mapsto> h(c \<mapsto> doc'))"
      using upd [of "AList.update c j (ref_coll d n)" n] es stands_for_Inr [of j]
      by (auto simp: ref_mongo_def distinct_update update_conv')
    show "\<exists>d'. MFindOneAndDelete ref_mongo n c d = (Inr (h c), d') \<and> ref_mongo_up d' \<and>
        ref_colls d' = (ref_colls d)(n \<mapsto> h(c := None))"
      using upd [of "AList.delete c (ref_coll d n)" n] es by (simp add: ref_mongo_def distinct_delete delete_conv')
    show "\<exists>d'. MDeleteMany ref_mongo n d = (Inr (), d') \<and> ref_mongo_up d' \<and> ref_colls d' = (ref_colls d)(n \<mapsto> Map.empty)"
      using upd [of "[]" n] by (simp add: ref_mongo_def)
  }
qed

section \<open>Instances\<close>

definition sample_mongo :: "ref_mongo_db mongodb" where
  "sample_mongo = \<lparr>m_db = [(''root'', []), (''tenant'', [(''172.16.0.0/12'', toPrefixJSON prefix12)])],
     m_namespaces = GoMap [(''root'', ())]\<rparr>"

lemma sample_mongo_inv: "mongo_inv ref_mongo ref_mongo_up ref_colls sample_mongo"
  "mongo_view ref_mongo ref_colls sample_mongo ''tenant'' = Some [''172.16.0.0/12'' \<mapsto> abs_prefix prefix12]"
proof -
  have dec: "mongo_dec ref_mongo (toPrefixJSON prefix12) = Inr prefix12"
    by (simp add: mongo_dec_def ref_mongo_def toPrefix_def toPrefixJSON_def prefix12_def)
  note ok = docs_store [where dec = "mongo_dec ref_mongo" and h = Map.empty and c = "''172.16.0.0/12''", OF docs_ok_empty(1) dec]
  have e: "entry_ok ''172.16.0.0/12'' prefix12"
    using prefix12_ok by (simp add: entry_ok_def)
  show "mongo_view ref_mongo ref_colls sample_mongo ''tenant'' = Some [''172.16.0.0/12'' \<mapsto> abs_prefix prefix12]"
    using ok(2) [OF e] by (simp add: mongo_view_def sample_mongo_def ref_colls_def)
  show "mongo_inv ref_mongo ref_mongo_up ref_colls sample_mongo"
    using ok(1) [OF e] by (auto simp: mongo_inv_def sample_mongo_def ref_mongo_up_def ref_colls_def map_ok_def map_keys_def
        map_lookup_def split: if_split_asm)
qed

theorem mongo_meets_contract_witness:
  "storage_laws (mongo_storage ref_mongo) (mongo_inv ref_mongo ref_mongo_up ref_colls) (mongo_view ref_mongo ref_colls) (\<lambda>n. True) \<and>
    mongo_inv ref_mongo ref_mongo_up ref_colls sample_mongo"
  using mongo_meets_contract [OF rm.mongo_laws_axioms] sample_mongo_inv(1) by blast

theorem deleted_namespace_stays_cached_witness:
  "\<exists>s1 s2. mongo_DeleteNamespace ref_mongo ''tenant'' sample_mongo = (Inr (), s1) \<and>
    mongo_CreateNamespace ref_mongo ''tenant'' s1 = (Inr (), s1) \<and>
    mongo_view ref_mongo ref_colls s1 ''tenant'' = None \<and>
    mongo_ReadAllPrefixes ref_mongo ''tenant'' s1 = (Inr [], s2)"
  using deleted_namespace_stays_cached [OF rm.mongo_laws_axioms sample_mongo_inv] by blast

end
