(* ===== verification/Json_Same.thy ===== *)
theory Json_Same
  imports Documents
begin

text \<open>
  JSON values that differ in the order of the members of their objects only, as a database may return
  them, and what \<open>fromJSON\<close> reads from them: the same prefix, its maps in another order.
\<close>

inductive same_json :: "json \<Rightarrow> json \<Rightarrow> bool" where
  same_null: "same_json JNull JNull"
| same_bool: "same_json (JBool b) (JBool b)"
| same_int: "same_json (JInt n) (JInt n)"
| same_string: "same_json (JString s) (JString s)"
| same_array: "list_all2 same_json js js' \<Longrightarrow> same_json (JArray js) (JArray js')"
| same_object: "distinct (map fst ms') \<Longrightarrow> (\<forall>k. rel_option same_json (map_of ms k) (map_of ms' k)) \<Longrightarrow>
    same_json (JObject ms) (JObject ms')"

inductive_simps same_json_simps [simp]:
  "same_json JNull js" "same_json (JBool b) js" "same_json (JInt n) js" "same_json (JString s) js"
  "same_json (JObject ms) js"

lemma same_json_object_refl:
  assumes "distinct (map fst ms)" "\<And>k v. (k, v) \<in> set ms \<Longrightarrow> same_json v v"
  shows "same_json (JObject ms) (JObject ms)"
proof -
  have "rel_option same_json (map_of ms k) (map_of ms k)" for k
    using assms(2) [of k] by (cases "map_of ms k") (auto dest: map_of_SomeD)
  with assms(1) show ?thesis
    by simp
qed

section \<open>Maps\<close>

text \<open>The text of a map, its members in any order.\<close>

lemma unmarshal_entries_any:
  assumes "distinct (map fst ms)" "\<forall>(k, v) \<in> set ms. \<exists>b. v = JBool b" "distinct (map fst es)"
  shows "\<exists>es'. unmarshal_entries ms es = Inr es' \<and> distinct (map fst es') \<and>
    (\<forall>k. map_of es' k = (case map_of ms k of Some (JBool b) \<Rightarrow> Some b | _ \<Rightarrow> map_of es k))"
  using assms
proof (induction ms arbitrary: es)
  case (Cons m ms)
  obtain k b where m: "m = (k, JBool b)"
    using Cons.prems(2) by (cases m) auto
  have out: "map_of ms k = None"
    using Cons.prems(1) m by (simp add: map_of_eq_None_iff)
  obtain es' where es': "unmarshal_entries ms (AList.update k b es) = Inr es'" "distinct (map fst es')"
      "\<And>x. map_of es' x = (case map_of ms x of Some (JBool b) \<Rightarrow> Some b | _ \<Rightarrow> map_of (AList.update k b es) x)"
    using Cons.IH [of "AList.update k b es"] Cons.prems distinct_update [OF Cons.prems(3), of k b] by auto
  have "map_of es' x = (case map_of (m # ms) x of Some (JBool b) \<Rightarrow> Some b | _ \<Rightarrow> map_of es x)" for x
  proof (cases "x = k")
    case True
    then show ?thesis
      unfolding es'(3) using out by (simp add: m update_conv')
  next
    case False
    then have "map_of (m # ms) x = map_of ms x" "map_of (AList.update k b es) x = map_of es x"
      by (simp_all add: m update_conv')
    then show ?thesis
      unfolding es'(3) by (simp only:)
  qed
  with es'(1,2) show ?case
    by (simp add: m)
qed simp

lemma unmarshal_map_same:
  assumes "same_json (marshal_map m) v" "distinct (map fst (map_entries m))"
  shows "\<exists>m'. unmarshal_map v NilMap = Inr m' \<and> same_map m m'"
proof (cases m)
  case NilMap
  with assms(1) show ?thesis
    by (auto simp: same_map_def elim: same_json.cases)
next
  case (GoMap es)
  let ?es = "map (\<lambda>(k, b). (k, JBool b)) (sort_key fst es)"
  obtain ms where v: "v = JObject ms" "distinct (map fst ms)" "\<And>k. rel_option same_json (map_of ?es k) (map_of ms k)"
    using assms(1) by (auto simp: GoMap)
  have d: "distinct (map fst (sort_key fst es))"
    using assms(2) GoMap by (simp add: distinct_map)
  have "map_of (sort_key fst es) = map_of es"
    using d assms(2) GoMap by (intro map_of_inject_set [THEN iffD2]) simp_all
  then have es: "map_of ?es k = map_option JBool (map_of es k)" for k
    by (simp add: map_of_map)
  have ms: "map_of ms k = map_option JBool (map_of es k)" for k
    using v(3) [of k] es [of k] by (cases "map_of es k") (auto simp: option_rel_Some1)
  have bools: "\<forall>(k, w) \<in> set ms. \<exists>b. w = JBool b"
  proof clarify
    fix k w assume "(k, w) \<in> set ms"
    then have "map_of ms k = Some w"
      using v(2) by simp
    with ms [of k] show "\<exists>b. w = JBool b"
      by (cases "map_of es k") auto
  qed
  have none: "distinct (map fst ([] :: (string \<times> bool) list))"
    by simp
  obtain es' where es': "unmarshal_entries ms [] = Inr es'" "distinct (map fst es')"
      "\<forall>k. map_of es' k = (case map_of ms k of Some (JBool b) \<Rightarrow> Some b | _ \<Rightarrow> map_of [] k)"
    using unmarshal_entries_any [OF v(2) bools none] by (elim exE conjE) (rule that)
  have "map_of es' = map_of es"
    by (rule ext) (simp add: es'(3) ms split: option.split)
  with es'(1,2) v(1) GoMap show ?thesis
    by (simp add: same_map_def map_lookup_def)
qed

section \<open>Members of a prefix\<close>

text \<open>
  Reading the members of an object in any order, each field at most once: every field that is there
  gets its value, the others stay.
\<close>

lemma if_merge: "(if P then x else if Q then x else y) = (if Q \<or> P then x else y)"
  by simp

lemma set_fields_any:
  assumes "distinct (map fst ms)" "fst ` set ms \<subseteq> set field_names"
    and "\<And>v. (''Cidr'', v) \<in> set ms \<Longrightarrow> v = JString c"
    and "\<And>v. (''ParentCidr'', v) \<in> set ms \<Longrightarrow> v = JString pc"
    and "\<And>v. (''Namespace'', v) \<in> set ms \<Longrightarrow> v = JString n"
    and "\<And>v. (''AvailableChildPrefixes'', v) \<in> set ms \<Longrightarrow> unmarshal_map v NilMap = Inr m1 \<and> AvailableChildPrefixes j = NilMap"
    and "\<And>v. (''ChildPrefixLength'', v) \<in> set ms \<Longrightarrow> unmarshal_int v (ChildPrefixLength j) = Inr l"
    and "\<And>v. (''IsParent'', v) \<in> set ms \<Longrightarrow> v = JBool b"
    and "\<And>v. (''IPs'', v) \<in> set ms \<Longrightarrow> unmarshal_map v NilMap = Inr m2 \<and> IPs j = NilMap"
    and "\<And>v. (''Version'', v) \<in> set ms \<Longrightarrow> unmarshal_int v (sint (Version j)) = Inr w"
  shows "set_fields ms j = Inr \<lparr>
    jCidr = (if ''Cidr'' \<in> fst ` set ms then c else jCidr j),
    jParentCidr = (if ''ParentCidr'' \<in> fst ` set ms then pc else jParentCidr j),
    Namespace = (if ''Namespace'' \<in> fst ` set ms then n else Namespace j),
    AvailableChildPrefixes = (if ''AvailableChildPrefixes'' \<in> fst ` set ms then m1 else AvailableChildPrefixes j),
    ChildPrefixLength = (if ''ChildPrefixLength'' \<in> fst ` set ms then l else ChildPrefixLength j),
    IsParent = (if ''IsParent'' \<in> fst ` set ms then b else IsParent j),
    IPs = (if ''IPs'' \<in> fst ` set ms then m2 else IPs j),
    Version = (if ''Version'' \<in> fst ` set ms then word_of_int w else Version j)\<rparr>"
  using assms
proof (induction ms arbitrary: j)
  case Nil
  then show ?case
    by simp
next
  case (Cons m ms)
  obtain f v where m: "m = (f, v)"
    by (cases m)
  have out: "f \<notin> fst ` set ms" "distinct (map fst ms)" "fst ` set ms \<subseteq> set field_names"
    using Cons.prems(1,2) by (auto simp: m)
  note own = Cons.prems(3-10)
  have step: ?case if j': "set_field f v j = Inr j'"
      "jCidr j' = (if f = ''Cidr'' then c else jCidr j)"
      "jParentCidr j' = (if f = ''ParentCidr'' then pc else jParentCidr j)"
      "Namespace j' = (if f = ''Namespace'' then n else Namespace j)"
      "AvailableChildPrefixes j' = (if f = ''AvailableChildPrefixes'' then m1 else AvailableChildPrefixes j)"
      "ChildPrefixLength j' = (if f = ''ChildPrefixLength'' then l else ChildPrefixLength j)"
      "IsParent j' = (if f = ''IsParent'' then b else IsParent j)"
      "IPs j' = (if f = ''IPs'' then m2 else IPs j)"
      "Version j' = (if f = ''Version'' then word_of_int w else Version j)" for j'
  proof -
    have ne: "f \<noteq> x" if "(x, v') \<in> set ms" for x v'
      using out(1) that by force
    have mem: "x \<in> fst ` set (m # ms) \<longleftrightarrow> f = x \<or> x \<in> fst ` set ms" for x
      by (auto simp: m)
    have "set_fields (m # ms) j = set_fields ms j'"
      by (simp add: m j'(1))
    also have "\<dots> = Inr \<lparr>
      jCidr = (if ''Cidr'' \<in> fst ` set ms then c else jCidr j'),
      jParentCidr = (if ''ParentCidr'' \<in> fst ` set ms then pc else jParentCidr j'),
      Namespace = (if ''Namespace'' \<in> fst ` set ms then n else Namespace j'),
      AvailableChildPrefixes = (if ''AvailableChildPrefixes'' \<in> fst ` set ms then m1 else AvailableChildPrefixes j'),
      ChildPrefixLength = (if ''ChildPrefixLength'' \<in> fst ` set ms then l else ChildPrefixLength j'),
      IsParent = (if ''IsParent'' \<in> fst ` set ms then b else IsParent j'),
      IPs = (if ''IPs'' \<in> fst ` set ms then m2 else IPs j'),
      Version = (if ''Version'' \<in> fst ` set ms then word_of_int w else Version j')\<rparr>"
    proof (rule Cons.IH [OF out(2,3)])
      fix v'
      show "v' = JString c" if "(''Cidr'', v') \<in> set ms"
        using own(1) [of v'] that by simp
      show "v' = JString pc" if "(''ParentCidr'', v') \<in> set ms"
        using own(2) [of v'] that by simp
      show "v' = JString n" if "(''Namespace'', v') \<in> set ms"
        using own(3) [of v'] that by simp
      show "unmarshal_map v' NilMap = Inr m1 \<and> AvailableChildPrefixes j' = NilMap"
        if "(''AvailableChildPrefixes'', v') \<in> set ms"
        using own(4) [of v'] that ne [OF that] by (simp add: j'(5))
      show "unmarshal_int v' (ChildPrefixLength j') = Inr l" if "(''ChildPrefixLength'', v') \<in> set ms"
        using own(5) [of v'] that ne [OF that] by (simp add: j'(6))
      show "v' = JBool b" if "(''IsParent'', v') \<in> set ms"
        using own(6) [of v'] that by simp
      show "unmarshal_map v' NilMap = Inr m2 \<and> IPs j' = NilMap" if "(''IPs'', v') \<in> set ms"
        using own(7) [of v'] that ne [OF that] by (simp add: j'(8))
      show "unmarshal_int v' (sint (Version j')) = Inr w" if "(''Version'', v') \<in> set ms"
        using own(8) [of v'] that ne [OF that] by (simp add: j'(9))
    qed
    finally show ?case
      unfolding mem j'(2-9) if_merge .
  qed
  have "f \<in> set field_names"
    using Cons.prems(2) by (simp add: m)
  then have "f = ''Cidr'' \<or> f = ''ParentCidr'' \<or> f = ''Namespace'' \<or> f = ''AvailableChildPrefixes'' \<or>
      f = ''ChildPrefixLength'' \<or> f = ''IsParent'' \<or> f = ''IPs'' \<or> f = ''Version''"
    unfolding field_names_def list.set insert_iff by simp
  then show ?case
  proof (elim disjE)
    assume f: "f = ''Cidr''"
    show ?case
      by (rule step [of "j\<lparr>jCidr := c\<rparr>"]) (use own(1) [of v] f in \<open>simp_all add: m set_field_simps upd_result_def\<close>)
  next
    assume f: "f = ''ParentCidr''"
    show ?case
      by (rule step [of "j\<lparr>jParentCidr := pc\<rparr>"]) (use own(2) [of v] f in \<open>simp_all add: m set_field_simps upd_result_def\<close>)
  next
    assume f: "f = ''Namespace''"
    show ?case
      by (rule step [of "j\<lparr>Namespace := n\<rparr>"]) (use own(3) [of v] f in \<open>simp_all add: m set_field_simps upd_result_def\<close>)
  next
    assume f: "f = ''AvailableChildPrefixes''"
    show ?case
      by (rule step [of "j\<lparr>AvailableChildPrefixes := m1\<rparr>"])
        (use own(4) [of v] f in \<open>simp_all add: m set_field_simps upd_result_def\<close>)
  next
    assume f: "f = ''ChildPrefixLength''"
    show ?case
      by (rule step [of "j\<lparr>ChildPrefixLength := l\<rparr>"])
        (use own(5) [of v] f in \<open>simp_all add: m set_field_simps upd_result_def\<close>)
  next
    assume f: "f = ''IsParent''"
    show ?case
      by (rule step [of "j\<lparr>IsParent := b\<rparr>"]) (use own(6) [of v] f in \<open>simp_all add: m set_field_simps upd_result_def\<close>)
  next
    assume f: "f = ''IPs''"
    show ?case
      by (rule step [of "j\<lparr>IPs := m2\<rparr>"]) (use own(7) [of v] f in \<open>simp_all add: m set_field_simps upd_result_def\<close>)
  next
    assume f: "f = ''Version''"
    show ?case
      by (rule step [of "j\<lparr>Version := word_of_int w\<rparr>"])
        (use own(8) [of v] f in \<open>simp_all add: m set_field_simps upd_result_def\<close>)
  qed
qed

text \<open>A prefix that was written and comes back with its members in any order.\<close>

lemma fromJSON_same:
  assumes "same_json (marshal_prefix (toPrefixJSON p)) js" "wf_prefix p"
  obtains ms p' where "js = JObject ms" "map_of ms ''Version'' = Some (JInt (sint (version p)))"
    "fromJSON js = Inr p'" "wf_prefix p'" "abs_prefix p' = abs_prefix p" "Cidr p' = Cidr p" "version p' = version p"
proof -
  let ?j = "toPrefixJSON p"
  let ?fs = "[(''Cidr'', JString (jCidr ?j)), (''ParentCidr'', JString (jParentCidr ?j)),
    (''Namespace'', JString (Namespace ?j)), (''AvailableChildPrefixes'', marshal_map (AvailableChildPrefixes ?j)),
    (''ChildPrefixLength'', JInt (ChildPrefixLength ?j)), (''IsParent'', JBool (IsParent ?j)),
    (''IPs'', marshal_map (IPs ?j)), (''Version'', JInt (sint (Version ?j)))]"
  have "same_json (JObject ?fs) js"
    using assms(1) unfolding marshal_prefix_def .
  then obtain ms where ms: "js = JObject ms" "distinct (map fst ms)"
      "\<And>k. rel_option same_json (map_of ?fs k) (map_of ms k)"
    unfolding same_json_simps by blast
  have keys: "fst ` set ms = set field_names"
  proof -
    have "map_of ms k = None \<longleftrightarrow> map_of ?fs k = None" for k
      using ms(3) [of k] by (cases "map_of ms k"; cases "map_of ?fs k") simp_all
    then have "k \<notin> fst ` set ms \<longleftrightarrow> k \<notin> fst ` set ?fs" for k
      unfolding map_of_eq_None_iff by blast
    then have "fst ` set ms = fst ` set ?fs"
      by blast
    also have "\<dots> = set field_names"
      by (simp add: field_names_def)
    finally show ?thesis .
  qed
  have val: "\<exists>w. map_of ?fs k = Some w \<and> same_json w v" if "(k, v) \<in> set ms" for k v
    using ms(3) [of k] ms(2) that by (simp add: option_rel_Some2)
  have maps: "distinct (map fst (map_entries (availableChildPrefixes p)))" "distinct (map fst (map_entries (ips p)))"
    using assms(2) by (simp_all add: wf_prefix_def map_ok_def)
  have look: "\<exists>v. map_of ms k = Some v \<and> same_json w v" if "map_of ?fs k = Some w" for k w
    using ms(3) [of k] that by (simp add: option_rel_Some1)
  obtain v1 where v1: "map_of ms ''AvailableChildPrefixes'' = Some v1" "same_json (marshal_map (AvailableChildPrefixes ?j)) v1"
    using look [of "''AvailableChildPrefixes''"] by auto
  obtain m1 where m1: "unmarshal_map v1 NilMap = Inr m1" "same_map (availableChildPrefixes p) m1"
    using unmarshal_map_same [OF v1(2)] maps(1) by (auto simp: toPrefixJSON_def)
  obtain v2 where v2: "map_of ms ''IPs'' = Some v2" "same_json (marshal_map (IPs ?j)) v2"
    using look [of "''IPs''"] by auto
  obtain m2 where m2: "unmarshal_map v2 NilMap = Inr m2" "same_map (ips p) m2"
    using unmarshal_map_same [OF v2(2)] maps(2) by (auto simp: toPrefixJSON_def)
  have own: "map_of ms k = Some v" if "(k, v) \<in> set ms" for k v
    using ms(2) that by simp
  have range: "- (2 ^ 63) \<le> sint (version p)" "sint (version p) < 2 ^ 63"
    using sint_ge [of "version p"] sint_lt [of "version p"] by simp_all
  have "childPrefixLength p = 0"
    using assms(2) by (simp add: wf_prefix_def)
  have "set_fields ms empty_prefixJSON = Inr \<lparr>
    jCidr = (if ''Cidr'' \<in> fst ` set ms then jCidr ?j else jCidr empty_prefixJSON),
    jParentCidr = (if ''ParentCidr'' \<in> fst ` set ms then jParentCidr ?j else jParentCidr empty_prefixJSON),
    Namespace = (if ''Namespace'' \<in> fst ` set ms then Namespace ?j else Namespace empty_prefixJSON),
    AvailableChildPrefixes = (if ''AvailableChildPrefixes'' \<in> fst ` set ms then m1 else AvailableChildPrefixes empty_prefixJSON),
    ChildPrefixLength = (if ''ChildPrefixLength'' \<in> fst ` set ms then ChildPrefixLength ?j else ChildPrefixLength empty_prefixJSON),
    IsParent = (if ''IsParent'' \<in> fst ` set ms then IsParent ?j else IsParent empty_prefixJSON),
    IPs = (if ''IPs'' \<in> fst ` set ms then m2 else IPs empty_prefixJSON),
    Version = (if ''Version'' \<in> fst ` set ms then word_of_int (sint (Version ?j)) else Version empty_prefixJSON)\<rparr>"
  proof (rule set_fields_any [OF ms(2)])
    fix v
    show "v = JString (jCidr ?j)" if "(''Cidr'', v) \<in> set ms"
      using val [OF that] by auto
    show "v = JString (jParentCidr ?j)" if "(''ParentCidr'', v) \<in> set ms"
      using val [OF that] by auto
    show "v = JString (Namespace ?j)" if "(''Namespace'', v) \<in> set ms"
      using val [OF that] by auto
    show "v = JBool (IsParent ?j)" if "(''IsParent'', v) \<in> set ms"
      using val [OF that] by auto
    show "unmarshal_map v NilMap = Inr m1 \<and> AvailableChildPrefixes empty_prefixJSON = NilMap"
      if "(''AvailableChildPrefixes'', v) \<in> set ms"
      using own [OF that] v1(1) m1(1) by (simp add: empty_prefixJSON_def)
    show "unmarshal_map v NilMap = Inr m2 \<and> IPs empty_prefixJSON = NilMap" if "(''IPs'', v) \<in> set ms"
      using own [OF that] v2(1) m2(1) by (simp add: empty_prefixJSON_def)
    show "unmarshal_int v (ChildPrefixLength empty_prefixJSON) = Inr (ChildPrefixLength ?j)"
      if "(''ChildPrefixLength'', v) \<in> set ms"
      using val [OF that] \<open>childPrefixLength p = 0\<close> by (auto simp: toPrefixJSON_def)
    show "unmarshal_int v (sint (Version empty_prefixJSON)) = Inr (sint (Version ?j))" if "(''Version'', v) \<in> set ms"
      using val [OF that] range by (auto simp: toPrefixJSON_def)
  qed (simp add: keys)
  then have fields: "set_fields ms empty_prefixJSON = Inr (?j\<lparr>AvailableChildPrefixes := m1, IPs := m2\<rparr>)"
    by (simp add: keys field_names_def)
  let ?p = "p\<lparr>availableChildPrefixes := m1, ips := m2\<rparr>"
  have "fromJSON js = Inr ?p"
    using \<open>childPrefixLength p = 0\<close> by (simp add: fromJSON_def ms(1) fields toPrefix_def toPrefixJSON_def)
  moreover have "wf_prefix ?p" "abs_prefix ?p = abs_prefix p"
    using assms(2) m1(2) m2(2) by (simp_all add: wf_prefix_def map_ok_def same_map_def abs_prefix_def)
  moreover have "map_of ms ''Version'' = Some (JInt (sint (version p)))"
    using look [of "''Version''"] by (simp add: toPrefixJSON_def)
  ultimately show ?thesis
    using that [OF ms(1)] by simp
qed

end
