(* ===== verification/SQL_Storage.thy ===== *)
theory SQL_Storage
  imports Json_Same
begin

text \<open>
  The storage in PostgreSQL, \<^verbatim>\<open>src/sql.go\<close> and the set-up of \<^verbatim>\<open>src/postgres.go\<close>. The server, its driver and
  sqlx are not part of the repository: the calls the code makes are a parameter \<open>db\<close>, a record of operations
  on the state of the server that take the SQL text the code builds, character by character. The locale
  \<open>sql_laws\<close> states what the PostgreSQL documentation says of these texts, for a server that answers and
  has no other users; it names the tables by the identifier in the text, which the server cuts off after
  \<open>n\<close> bytes. A \<open>JSONB\<close> column gives a document back with its members in any order (\<open>Json_Same\<close>).
  PostgreSQL stores texts without zero bytes only; the cidrs and addresses that reach a storage are
  printed by \<open>netip\<close> and have none.

  Under these laws the storage meets the contract of \<open>Storage\<close> for names whose table name is short
  enough; the last section shows what happens to longer ones, which \<open>CreateNamespace\<close> accepts too.
\<close>

section \<open>The calls\<close>

datatype sql_arg = AText string | AJson json | AInt "64 word"

text \<open>
  \<open>SelectTexts\<close> and \<open>SelectDocs\<close> are \<open>SelectContext\<close> into strings and into documents, \<open>GetDoc\<close> is
  \<open>GetContext\<close> with \<open>None\<close> for \<open>ErrNoRows\<close>, \<open>GetInt\<close> is \<open>Get\<close> into an int. \<open>TxExec\<close> gives the answer of
  \<open>RowsAffected\<close> on its result.
\<close>

record 'd sqldb =
  SelectTexts :: "string \<Rightarrow> ('d, string list) comp"
  SelectDocs :: "string \<Rightarrow> ('d, json list) comp"
  GetDoc :: "string \<Rightarrow> sql_arg list \<Rightarrow> ('d, json option) comp"
  GetInt :: "string \<Rightarrow> ('d, int) comp"
  Exec :: "string \<Rightarrow> ('d, unit) comp"
  Beginx :: "('d, unit) comp"
  TxExec :: "string \<Rightarrow> sql_arg list \<Rightarrow> ('d, nat result) comp"
  Commit :: "('d, unit) comp"
  Rollback :: "('d, unit) comp"

section \<open>State and operations\<close>

record 'd sql =
  s_db :: 'd
  maxIdLength :: int
  s_tables :: "string set"

definition on_sql :: "('d, 'a) comp \<Rightarrow> ('d sql, 'a) comp" where
  "on_sql op s = (case op (s_db s) of (x, d) \<Rightarrow> (x, s\<lparr>s_db := d\<rparr>))"

definition quoted :: "string \<Rightarrow> string" where
  "quoted x = [CHR 0x22] @ x @ [CHR 0x22]"

definition getTableName :: "string \<Rightarrow> string" where
  "getTableName namespace =
     (if namespace = defaultNamespace then ''prefixes'' else quoted (''prefixes_'' @ namespace))"

definition create_table_text :: "string \<Rightarrow> string" where
  "create_table_text table =
     [CHR 0x0A] @ ''CREATE TABLE IF NOT EXISTS '' @ table @ '' ('' @ [CHR 0x0A] @
     [CHR 0x09] @ ''cidr   text PRIMARY KEY NOT NULL,'' @ [CHR 0x0A] @
     [CHR 0x09] @ ''prefix JSONB'' @ [CHR 0x0A] @
     '');'' @ [CHR 0x0A] @
     ''CREATE INDEX IF NOT EXISTS prefix_idx ON '' @ table @ '' USING GIN(prefix);'' @ [CHR 0x0A]"

definition createTableSQL :: "string \<Rightarrow> string" where
  "createTableSQL namespace = create_table_text (getTableName namespace)"

definition postgresSchema :: string where
  "postgresSchema =
     [CHR 0x0A] @ ''CREATE TABLE IF NOT EXISTS prefixes ('' @ [CHR 0x0A] @
     [CHR 0x09] @ ''cidr   text PRIMARY KEY NOT NULL,'' @ [CHR 0x0A] @
     [CHR 0x09] @ ''prefix JSONB'' @ [CHR 0x0A] @
     '');'' @ [CHR 0x0A] @
     ''CREATE INDEX IF NOT EXISTS prefix_idx ON prefixes USING GIN(prefix);'' @ [CHR 0x0A]"

definition list_tables_text :: string where
  "list_tables_text = ''SELECT table_name FROM information_schema.tables WHERE table_name LIKE '' @
     [CHR 0x27] @ ''prefix%'' @ [CHR 0x27]"

text \<open>The other texts, for a table.\<close>

definition select_cidrs_text :: "string \<Rightarrow> string" where
  "select_cidrs_text table = ''SELECT cidr FROM '' @ table"

definition select_docs_text :: "string \<Rightarrow> string" where
  "select_docs_text table = ''SELECT prefix FROM '' @ table"

definition select_doc_text :: "string \<Rightarrow> string" where
  "select_doc_text table = ''SELECT prefix FROM '' @ table @ '' WHERE cidr=$1''"

definition delete_rows_text :: "string \<Rightarrow> string" where
  "delete_rows_text table = ''DELETE FROM '' @ table"

definition insert_text :: "string \<Rightarrow> string" where
  "insert_text table = ''INSERT INTO '' @ table @ ''(cidr, prefix) VALUES ($1, $2)''"

definition lock_text :: "string \<Rightarrow> string" where
  "lock_text table = ''SELECT prefix FROM '' @ table @ '' WHERE cidr=$1 AND prefix->>'' @
     [CHR 0x27] @ ''Version'' @ [CHR 0x27] @ ''=$2 FOR UPDATE''"

definition update_text :: "string \<Rightarrow> string" where
  "update_text table = ''UPDATE '' @ table @ '' SET prefix=$1 WHERE cidr=$2 AND prefix->>'' @
     [CHR 0x27] @ ''Version'' @ [CHR 0x27] @ ''=$3''"

definition delete_text :: "string \<Rightarrow> string" where
  "delete_text table = ''DELETE from '' @ table @ '' WHERE cidr=$1''"

definition drop_text :: "string \<Rightarrow> string" where
  "drop_text table = ''DROP TABLE '' @ table"

definition namespace_of :: "string \<Rightarrow> string" where
  "namespace_of t = (if t = ''prefixes'' then defaultNamespace else TrimPrefix t ''prefixes_'')"

definition sql_ListNamespaces :: "'d sqldb \<Rightarrow> ('d sql, string list) comp" where
  "sql_ListNamespaces db s =
     (case on_sql (SelectTexts db list_tables_text) s of
        (Inl err, s) \<Rightarrow> (Inl (Errorf ''unable to get tables: %w'' [err]), s)
      | (Inr res, s) \<Rightarrow>
          let res = map namespace_of res in (Inr res, s\<lparr>s_tables := s_tables s \<union> set res\<rparr>))"

definition sql_checkNamespaceExists :: "'d sqldb \<Rightarrow> string \<Rightarrow> ('d sql, unit) comp" where
  "sql_checkNamespaceExists db namespace s =
     (if namespace \<in> s_tables s then (Inr (), s)
      else (case sql_ListNamespaces db s of
        (Inl err, s) \<Rightarrow> (Inl err, s)
      | (Inr _, s) \<Rightarrow>
          if namespace \<in> s_tables s then (Inr (), s)
          else (Inl (Sentinel ErrNamespaceDoesNotExist), s)))"

definition sql_ReadPrefix :: "'d sqldb \<Rightarrow> string \<Rightarrow> string \<Rightarrow> ('d sql, Prefix) comp" where
  "sql_ReadPrefix db pref namespace s =
     (case sql_checkNamespaceExists db namespace s of
        (Inl err, s) \<Rightarrow> (Inl err, s)
      | (Inr _, s) \<Rightarrow>
     (case on_sql (GetDoc db (select_doc_text (getTableName namespace)) [AText pref]) s of
        (Inl err, s) \<Rightarrow> (Inl (Errorf ''unable to read prefix:%w'' [err]), s)
      | (Inr None, s) \<Rightarrow> (Inl (Errorf ''%w prefix:%s not found:%s'' [Sentinel ErrNotFound]), s)
      | (Inr (Some res), s) \<Rightarrow> (fromJSON res, s)))"

definition sql_prefixExists :: "'d sqldb \<Rightarrow> Prefix \<Rightarrow> string \<Rightarrow> 'd sql \<Rightarrow> Prefix option \<times> 'd sql" where
  "sql_prefixExists db pref namespace s =
     (case sql_ReadPrefix db (Cidr pref) namespace s of
        (Inl err, s) \<Rightarrow> (None, s)
      | (Inr p, s) \<Rightarrow> (Some p, s))"

text \<open>
  The transactions: \<open>Beginx\<close>, and \<open>Rollback\<close> as the deferred call that runs when the operation returns,
  after a commit as well.
\<close>

definition in_tx :: "'d sqldb \<Rightarrow> string \<Rightarrow> ('d sql, 'a) comp \<Rightarrow> ('d sql, 'a) comp" where
  "in_tx db message body s =
     (case on_sql (Beginx db) s of
        (Inl err, s) \<Rightarrow> (Inl (Errorf message [err]), s)
      | (Inr _, s) \<Rightarrow> (case body s of (res, s) \<Rightarrow> (res, snd (on_sql (Rollback db) s))))"

definition commit_with :: "'d sqldb \<Rightarrow> 'a \<Rightarrow> ('d sql, 'a) comp" where
  "commit_with db x s =
     (case on_sql (Commit db) s of
        (Inl err, s) \<Rightarrow> (Inl err, s)
      | (Inr _, s) \<Rightarrow> (Inr x, s))"

definition sql_CreatePrefix :: "'d sqldb \<Rightarrow> Prefix \<Rightarrow> string \<Rightarrow> ('d sql, Prefix) comp" where
  "sql_CreatePrefix db pref namespace s =
     (case sql_checkNamespaceExists db namespace s of
        (Inl err, s) \<Rightarrow> (Inl err, s)
      | (Inr _, s) \<Rightarrow>
     (case sql_prefixExists db pref namespace s of
        (Some existingPrefix, s) \<Rightarrow> (Inr existingPrefix, s)
      | (None, s) \<Rightarrow>
      let pref = pref\<lparr>version := 0\<rparr> in
     (case Prefix_toJSON pref of
        Inl err \<Rightarrow> (Inl err, s)
      | Inr pj \<Rightarrow>
      in_tx db ''unable to start transaction:%w'' (\<lambda>s.
        (case on_sql (TxExec db (insert_text (getTableName namespace))
            [AText (Cidr pref), AJson pj]) s of
          (Inl err, s) \<Rightarrow> (Inl (Errorf ''unable to insert prefix:%w'' [err]), s)
        | (Inr _, s) \<Rightarrow> commit_with db pref s)) s)))"

definition sql_DeleteAllPrefixes :: "'d sqldb \<Rightarrow> string \<Rightarrow> ('d sql, unit) comp" where
  "sql_DeleteAllPrefixes db namespace s =
     (case sql_checkNamespaceExists db namespace s of
        (Inl err, s) \<Rightarrow> (Inl err, s)
      | (Inr _, s) \<Rightarrow> on_sql (Exec db (delete_rows_text (getTableName namespace))) s)"

primrec toPrefixes :: "json list \<Rightarrow> Prefix list \<Rightarrow> Prefix list result" where
  "toPrefixes [] res = Inr res"
| "toPrefixes (v # vs) res = (case fromJSON v of
      Inl err \<Rightarrow> Inl err
    | Inr pfx \<Rightarrow> toPrefixes vs (res @ [pfx]))"

definition sql_ReadAllPrefixes :: "'d sqldb \<Rightarrow> string \<Rightarrow> ('d sql, Prefix list) comp" where
  "sql_ReadAllPrefixes db namespace s =
     (case sql_checkNamespaceExists db namespace s of
        (Inl err, s) \<Rightarrow> (Inl err, s)
      | (Inr _, s) \<Rightarrow>
     (case on_sql (SelectDocs db (select_docs_text (getTableName namespace))) s of
        (Inl err, s) \<Rightarrow> (Inl (Errorf ''unable to read prefixes:%w'' [err]), s)
      | (Inr prefixes, s) \<Rightarrow> (toPrefixes prefixes [], s)))"

definition sql_ReadAllPrefixCidrs :: "'d sqldb \<Rightarrow> string \<Rightarrow> ('d sql, string list) comp" where
  "sql_ReadAllPrefixCidrs db namespace s =
     (case sql_checkNamespaceExists db namespace s of
        (Inl err, s) \<Rightarrow> (Inl err, s)
      | (Inr _, s) \<Rightarrow>
     (case on_sql (SelectTexts db (select_cidrs_text (getTableName namespace))) s of
        (Inl err, s) \<Rightarrow> (Inl (Errorf ''unable to read prefixes in namespace:%s :%w'' [err]), s)
      | (Inr cidrs, s) \<Rightarrow> (Inr cidrs, s)))"

text \<open>The two rollbacks that \<open>UpdatePrefix\<close> does itself come before the deferred one.\<close>

definition update_rows ::
  "'d sqldb \<Rightarrow> string \<Rightarrow> sql_arg list \<Rightarrow> string \<Rightarrow> string \<Rightarrow> ('d sql, 'a) comp \<Rightarrow> ('d sql, 'a) comp" where
  "update_rows db query args failed no_row continue s =
     (case on_sql (TxExec db query args) s of
        (Inl err, s) \<Rightarrow> (Inl (Errorf failed [Sentinel ErrOptimisticLockError]), s)
      | (Inr (Inl err), s) \<Rightarrow> (Inl err, s)
      | (Inr (Inr rows), s) \<Rightarrow>
          if rows = 0 then
            (Inl (Errorf no_row [Sentinel ErrOptimisticLockError]), snd (on_sql (Rollback db) s))
          else continue s)"

definition sql_UpdatePrefix :: "'d sqldb \<Rightarrow> Prefix \<Rightarrow> string \<Rightarrow> ('d sql, Prefix) comp" where
  "sql_UpdatePrefix db pref namespace s =
     (case sql_checkNamespaceExists db namespace s of
        (Inl err, s) \<Rightarrow> (Inl err, s)
      | (Inr _, s) \<Rightarrow>
      let oldVersion = version pref; pref = pref\<lparr>version := oldVersion + 1\<rparr> in
     (case Prefix_toJSON pref of
        Inl err \<Rightarrow> (Inl err, s)
      | Inr pn \<Rightarrow>
      in_tx db ''unable to start transaction:%w''
        (update_rows db
          (lock_text (getTableName namespace))
          [AText (Cidr pref), AInt oldVersion]
          ''%w: unable to select for update prefix:%s'' ''%w: select for update did not effect any row''
        (update_rows db
          (update_text (getTableName namespace))
          [AJson pn, AText (Cidr pref), AInt oldVersion]
          ''%w: unable to update prefix:%s'' ''%w: updatePrefix did not effect any row''
        (commit_with db pref))) s))"

definition sql_DeletePrefix :: "'d sqldb \<Rightarrow> Prefix \<Rightarrow> string \<Rightarrow> ('d sql, Prefix) comp" where
  "sql_DeletePrefix db pref namespace s =
     (case sql_checkNamespaceExists db namespace s of
        (Inl err, s) \<Rightarrow> (Inl err, s)
      | (Inr _, s) \<Rightarrow>
      in_tx db ''unable to start transaction: %w'' (\<lambda>s.
        (case on_sql (TxExec db (delete_text (getTableName namespace))
            [AText (Cidr pref)]) s of
          (Inl err, s) \<Rightarrow> (Inl (Errorf ''unable delete prefix: %w'' [err]), s)
        | (Inr _, s) \<Rightarrow> commit_with db pref s)) s)"

definition sql_CreateNamespace :: "'d sqldb \<Rightarrow> string \<Rightarrow> ('d sql, unit) comp" where
  "sql_CreateNamespace db namespace s =
     (if maxIdLength s < int (length namespace) then (Inl (Sentinel ErrNameTooLong), s)
      else if namespace \<in> s_tables s then (Inr (), s)
      else (case on_sql (Exec db (createTableSQL namespace)) s of
          (Inl err, s) \<Rightarrow> (Inl (Errorf ''unable to create table: %w'' [err]), s)
        | (Inr _, s) \<Rightarrow> (Inr (), s\<lparr>s_tables := insert namespace (s_tables s)\<rparr>)))"

definition sql_DeleteNamespace :: "'d sqldb \<Rightarrow> string \<Rightarrow> ('d sql, unit) comp" where
  "sql_DeleteNamespace db namespace s =
     (case sql_checkNamespaceExists db namespace s of
        (Inl err, s) \<Rightarrow> (Inl err, s)
      | (Inr _, s) \<Rightarrow>
      in_tx db ''unable to start transaction: %w'' (\<lambda>s.
        (case on_sql (TxExec db (drop_text (getTableName namespace)) []) s of
          (Inl err, s) \<Rightarrow> (Inl (Errorf ''unable delete prefix:%w'' [err]), s)
        | (Inr _, s) \<Rightarrow>
         (case commit_with db () s of
           (Inl err, s) \<Rightarrow> (Inl err, s)
         | (Inr _, s) \<Rightarrow> (Inr (), s\<lparr>s_tables := s_tables s - {namespace}\<rparr>)))) s)"

text \<open>\<open>newPostgres\<close> after it connected.\<close>

definition newPostgres :: "'d sqldb \<Rightarrow> 'd \<Rightarrow> 'd sql result" where
  "newPostgres db d =
     (case Exec db postgresSchema d of
        (Inl err, d) \<Rightarrow> Inl (Errorf ''error creating tables: %w'' [err])
      | (Inr _, d) \<Rightarrow>
     (case GetInt db ''show max_identifier_length'' d of
        (Inl err, d) \<Rightarrow> Inl (Errorf ''failed to get max_identifier_length: %w'' [err])
      | (Inr l, d) \<Rightarrow> Inr \<lparr>s_db = d, maxIdLength = l, s_tables = {defaultNamespace}\<rparr>))"

definition sql_storage :: "'d sqldb \<Rightarrow> 'd sql storage" where
  "sql_storage db = \<lparr>Name = ''postgres'', CreatePrefix = sql_CreatePrefix db,
     ReadPrefix = sql_ReadPrefix db, DeleteAllPrefixes = sql_DeleteAllPrefixes db,
     ReadAllPrefixes = sql_ReadAllPrefixes db, ReadAllPrefixCidrs = sql_ReadAllPrefixCidrs db,
     UpdatePrefix = sql_UpdatePrefix db, DeletePrefix = sql_DeletePrefix db,
     CreateNamespace = sql_CreateNamespace db, ListNamespaces = sql_ListNamespaces db,
     DeleteNamespace = sql_DeleteNamespace db\<rparr>"

lemma postgresSchema_eq: "postgresSchema = create_table_text ''prefixes''"
  by (simp add: postgresSchema_def create_table_text_def)

section \<open>What PostgreSQL promises\<close>

text \<open>
  The SQL texts name a table by \<open>prefixes\<close> or by a quoted identifier, of printable characters without the
  quote. The server cuts both off after \<open>n\<close> bytes.
\<close>

definition plain :: "string \<Rightarrow> bool" where
  "plain x \<longleftrightarrow> (\<forall>c \<in> set x. 32 \<le> (of_char c :: nat) \<and> (of_char c :: nat) < 127 \<and> c \<noteq> CHR 0x22)"

definition ident :: "nat \<Rightarrow> string \<Rightarrow> string \<Rightarrow> bool" where
  "ident n x t \<longleftrightarrow> x = ''prefixes'' \<and> t = take n x \<or> (\<exists>y. x = quoted y \<and> y \<noteq> [] \<and> plain y \<and> t = take n y)"

text \<open>The number that the operator \<open>->>\<close> gives for the member \<open>Version\<close>, if it is one.\<close>

fun version_member :: "json \<Rightarrow> int option" where
  "version_member (JObject ms) = (case map_of ms ''Version'' of Some (JInt k) \<Rightarrow> Some k | _ \<Rightarrow> None)"
| "version_member _ = None"

text \<open>
  \<open>tabs\<close> gives the tables with their rows by cidr, the primary key. \<open>up\<close> holds of a server that answers and
  has no open transaction, \<open>intx d T\<close> of one with a transaction open that began with the tables \<open>T\<close>.
  \<open>same_json js js\<close> asks for a document in which no object has a member twice. A row qualifies by its version
  when the member is the number that is asked for.
\<close>

locale sql_laws =
  fixes db :: "'d sqldb"
    and up :: "'d \<Rightarrow> bool"
    and tabs :: "'d \<Rightarrow> string \<rightharpoonup> string \<rightharpoonup> json"
    and intx :: "'d \<Rightarrow> (string \<rightharpoonup> string \<rightharpoonup> json) \<Rightarrow> bool"
    and n :: nat
  assumes long_enough: "13 \<le> n"
    and max_length: "up d \<Longrightarrow>
      \<exists>d'. GetInt db ''show max_identifier_length'' d = (Inr (int n), d') \<and> up d' \<and> tabs d' = tabs d"
    and list_tables: "up d \<Longrightarrow> \<exists>ts d'. SelectTexts db list_tables_text d = (Inr ts, d') \<and> distinct ts \<and>
      set ts = {t \<in> dom (tabs d). take 6 t = ''prefix''} \<and> up d' \<and> tabs d' = tabs d"
    and select_cidrs: "up d \<Longrightarrow> ident n x t \<Longrightarrow> tabs d t = Some h \<Longrightarrow>
      \<exists>cs d'. SelectTexts db (select_cidrs_text x) d = (Inr cs, d') \<and> distinct cs \<and> set cs = dom h \<and>
        up d' \<and> tabs d' = tabs d"
    and select_docs: "up d \<Longrightarrow> ident n x t \<Longrightarrow> tabs d t = Some h \<Longrightarrow>
      \<exists>cs d'. SelectDocs db (select_docs_text x) d = (Inr (map (the \<circ> h) cs), d') \<and> distinct cs \<and>
        set cs = dom h \<and> up d' \<and> tabs d' = tabs d"
    and select_doc: "up d \<Longrightarrow> ident n x t \<Longrightarrow> tabs d t = Some h \<Longrightarrow>
      \<exists>d'. GetDoc db (select_doc_text x) [AText c] d = (Inr (h c), d') \<and>
        up d' \<and> tabs d' = tabs d"
    and create_table: "up d \<Longrightarrow> ident n x t \<Longrightarrow>
      \<exists>d'. Exec db (create_table_text x) d = (Inr (), d') \<and> up d' \<and>
        tabs d' = (if tabs d t = None then (tabs d)(t \<mapsto> Map.empty) else tabs d)"
    and delete_rows: "up d \<Longrightarrow> ident n x t \<Longrightarrow> tabs d t = Some h \<Longrightarrow>
      \<exists>d'. Exec db (delete_rows_text x) d = (Inr (), d') \<and> up d' \<and> tabs d' = (tabs d)(t \<mapsto> Map.empty)"
    and begin_tx: "up d \<Longrightarrow> \<exists>d'. Beginx db d = (Inr (), d') \<and> intx d' (tabs d) \<and> tabs d' = tabs d"
    and commit: "intx d T \<Longrightarrow> \<exists>d'. Commit db d = (Inr (), d') \<and> up d' \<and> tabs d' = tabs d"
    and rollback: "intx d T \<Longrightarrow> \<exists>r d'. Rollback db d = (r, d') \<and> up d' \<and> tabs d' = T"
    and rollback_done: "up d \<Longrightarrow> \<exists>r d'. Rollback db d = (r, d') \<and> up d' \<and> tabs d' = tabs d"
    and insert_row: "intx d T \<Longrightarrow> ident n x t \<Longrightarrow> tabs d t = Some h \<Longrightarrow> h c = None \<Longrightarrow> same_json js js \<Longrightarrow>
      \<exists>js' d'. TxExec db (insert_text x) [AText c, AJson js] d =
        (Inr (Inr 1), d') \<and> same_json js js' \<and> intx d' T \<and> tabs d' = (tabs d)(t \<mapsto> h(c \<mapsto> js'))"
    and lock_row: "intx d T \<Longrightarrow> ident n x t \<Longrightarrow> tabs d t = Some h \<Longrightarrow>
      h c = None \<or> (\<exists>js. h c = Some js \<and> version_member js = Some k) \<Longrightarrow>
      \<exists>d'. TxExec db (lock_text x)
          [AText c, AInt v] d = (Inr (Inr (if h c \<noteq> None \<and> k = sint v then 1 else 0)), d') \<and>
        intx d' T \<and> tabs d' = tabs d"
    and update_row: "intx d T \<Longrightarrow> ident n x t \<Longrightarrow> tabs d t = Some h \<Longrightarrow> h c = Some js \<Longrightarrow>
      version_member js = Some (sint v) \<Longrightarrow> same_json new new \<Longrightarrow>
      \<exists>new' d'. TxExec db (update_text x)
          [AJson new, AText c, AInt v] d = (Inr (Inr 1), d') \<and>
        same_json new new' \<and> intx d' T \<and> tabs d' = (tabs d)(t \<mapsto> h(c \<mapsto> new'))"
    and delete_row: "intx d T \<Longrightarrow> ident n x t \<Longrightarrow> tabs d t = Some h \<Longrightarrow>
      \<exists>k d'. TxExec db (delete_text x) [AText c] d = (Inr (Inr k), d') \<and>
        intx d' T \<and> tabs d' = (tabs d)(t \<mapsto> h(c := None))"
    and drop_table: "intx d T \<Longrightarrow> ident n x t \<Longrightarrow> tabs d t = Some h \<Longrightarrow>
      \<exists>k d'. TxExec db (drop_text x) [] d = (Inr (Inr k), d') \<and> intx d' T \<and> tabs d' = (tabs d)(t := None)"

section \<open>Names of tables\<close>

definition table_of :: "string \<Rightarrow> string" where
  "table_of namespace = (if namespace = defaultNamespace then ''prefixes'' else ''prefixes_'' @ namespace)"

definition sql_name_ok :: "nat \<Rightarrow> string \<Rightarrow> bool" where
  "sql_name_ok n namespace \<longleftrightarrow> plain namespace \<and> length namespace + 9 \<le> n"

lemma plain_table: "plain namespace \<Longrightarrow> plain (''prefixes_'' @ namespace)"
  by (simp add: plain_def)

lemma ident_getTableName:
  assumes "plain ns" "13 \<le> n"
  shows "ident n (getTableName ns) (take n (table_of ns))"
  using assms plain_table [OF assms(1)] unfolding ident_def getTableName_def table_of_def by (cases "ns = defaultNamespace") auto

lemma take_table_of: "sql_name_ok n ns \<Longrightarrow> 13 \<le> n \<Longrightarrow> take n (table_of ns) = table_of ns"
  by (simp add: sql_name_ok_def table_of_def)

lemma table_of_inject [simp]: "table_of a = table_of b \<longleftrightarrow> a = b"
  by (auto simp: table_of_def)

lemma namespace_of_table [simp]: "namespace_of (table_of ns) = ns"
  by (simp add: namespace_of_def table_of_def TrimPrefix_def)

lemma table_of_like [simp]: "take 6 (table_of ns) = ''prefix''"
  by (simp add: table_of_def)

lemma root_name_ok: "13 \<le> n \<Longrightarrow> sql_name_ok n defaultNamespace"
  by (simp add: sql_name_ok_def plain_def defaultNamespace_def)

section \<open>Operations on the table of a namespace\<close>

text \<open>What the operations do once the namespace is known to the process, whatever else the database holds.\<close>

lemma marshal_unambiguous:
  assumes "wf_prefix p"
  shows "same_json (marshal_prefix (toPrefixJSON p)) (marshal_prefix (toPrefixJSON p))"
proof -
  have "same_json (marshal_map m) (marshal_map m)" if "map_ok m" for m
  proof (cases m)
    case (GoMap es)
    then have "distinct (map fst (sort_key fst es))"
      using that by (simp add: map_ok_def distinct_map)
    then show ?thesis
      unfolding GoMap marshal_map.simps by (intro same_json_object_refl) (auto simp: comp_def case_prod_unfold)
  qed simp
  then show ?thesis
    using assms unfolding marshal_prefix_def
    by (intro same_json_object_refl) (auto simp: toPrefixJSON_def wf_prefix_def)
qed

context sql_laws
begin

lemma in_tx_run:
  assumes "up (s_db s)"
    and body: "\<And>d. intx d (tabs (s_db s)) \<Longrightarrow> tabs d = tabs (s_db s) \<Longrightarrow>
      \<exists>d'. body (s\<lparr>s_db := d\<rparr>) = (r, s\<lparr>s_db := d', s_tables := N\<rparr>) \<and> up d' \<and> Q (tabs d')"
  shows "\<exists>d. in_tx db msg body s = (r, s\<lparr>s_db := d, s_tables := N\<rparr>) \<and> up d \<and> Q (tabs d)"
proof -
  obtain d where d: "Beginx db (s_db s) = (Inr (), d)" "intx d (tabs (s_db s))" "tabs d = tabs (s_db s)"
    using begin_tx [OF assms(1)] by blast
  obtain d' where d': "body (s\<lparr>s_db := d\<rparr>) = (r, s\<lparr>s_db := d', s_tables := N\<rparr>)" "up d'" "Q (tabs d')"
    using body [OF d(2,3)] by blast
  obtain x d'' where "Rollback db d' = (x, d'')" "up d''" "tabs d'' = tabs d'"
    using rollback_done [OF d'(2)] by blast
  with d(1) d'(1,3) show ?thesis
    by (intro exI [of _ d'']) (simp add: in_tx_def on_sql_def)
qed

lemma commit_with_run:
  assumes "intx (s_db s) T"
  shows "\<exists>d. commit_with db x s = (Inr x, s\<lparr>s_db := d\<rparr>) \<and> up d \<and> tabs d = tabs (s_db s)"
  using commit [OF assms] by (auto simp: commit_with_def on_sql_def)

text \<open>One statement in a transaction.\<close>

lemma tx_statement:
  assumes "up (s_db s)"
    and stmt: "\<And>d. intx d (tabs (s_db s)) \<Longrightarrow> tabs d = tabs (s_db s) \<Longrightarrow>
      \<exists>k d'. TxExec db q args d = (Inr (Inr k), d') \<and> intx d' (tabs (s_db s)) \<and> Q (tabs d')"
  shows "\<exists>d. in_tx db msg (\<lambda>s. (case on_sql (TxExec db q args) s of
        (Inl err, s) \<Rightarrow> (Inl (Errorf failed [err]), s)
      | (Inr _, s) \<Rightarrow> commit_with db x s)) s = (Inr x, s\<lparr>s_db := d, s_tables := s_tables s\<rparr>) \<and> up d \<and> Q (tabs d)"
proof (rule in_tx_run [OF assms(1)])
  fix d assume "intx d (tabs (s_db s))" "tabs d = tabs (s_db s)"
  from stmt [OF this] obtain k d1 where d1: "TxExec db q args d = (Inr (Inr k), d1)" "intx d1 (tabs (s_db s))" "Q (tabs d1)"
    by blast
  obtain d2 where "Commit db d1 = (Inr (), d2)" "up d2" "tabs d2 = tabs d1"
    using commit [OF d1(2)] by blast
  with d1 show "\<exists>d'. (case on_sql (TxExec db q args) (s\<lparr>s_db := d\<rparr>) of
        (Inl err, s) \<Rightarrow> (Inl (Errorf failed [err]), s)
      | (Inr _, s) \<Rightarrow> commit_with db x s) = (Inr x, s\<lparr>s_db := d', s_tables := s_tables s\<rparr>) \<and> up d' \<and> Q (tabs d')"
    by (intro exI [of _ d2]) (simp add: on_sql_def commit_with_def)
qed

text \<open>A namespace whose name the process has stored and whose table holds the rows \<open>h\<close>.\<close>

definition ready :: "'d sql \<Rightarrow> string \<Rightarrow> string \<Rightarrow> (string \<rightharpoonup> json) \<Rightarrow> bool" where
  "ready s ns t h \<longleftrightarrow> up (s_db s) \<and> ns \<in> s_tables s \<and> ident n (getTableName ns) t \<and> tabs (s_db s) t = Some h"

lemma readyD:
  assumes "ready s ns t h"
  shows "up (s_db s)" "ns \<in> s_tables s" "ident n (getTableName ns) t" "tabs (s_db s) t = Some h"
    "sql_checkNamespaceExists db ns s = (Inr (), s)"
  using assms by (simp_all add: ready_def sql_checkNamespaceExists_def)

lemma ready_read:
  assumes "ready s ns t h"
  shows "\<exists>d. sql_ReadPrefix db c ns s = (case h c of
        None \<Rightarrow> Inl (Errorf ''%w prefix:%s not found:%s'' [Sentinel ErrNotFound])
      | Some js \<Rightarrow> fromJSON js, s\<lparr>s_db := d\<rparr>) \<and> up d \<and> tabs d = tabs (s_db s)"
proof -
  note r = readyD [OF assms]
  obtain d where "GetDoc db (select_doc_text (getTableName ns)) [AText c] (s_db s) = (Inr (h c), d)"
      "up d" "tabs d = tabs (s_db s)"
    using select_doc [OF r(1,3,4)] by blast
  with r(5) show ?thesis
    by (intro exI [of _ d]) (simp add: sql_ReadPrefix_def on_sql_def split: option.split)
qed

lemma ready_create:
  assumes "ready s ns t h" "h (Cidr p) = None" "wf_prefix p"
  shows "\<exists>js d. sql_CreatePrefix db p ns s = (Inr (p\<lparr>version := 0\<rparr>), s\<lparr>s_db := d\<rparr>) \<and> up d \<and>
    tabs d = (tabs (s_db s))(t \<mapsto> h(Cidr p \<mapsto> js)) \<and> same_json (marshal_prefix (toPrefixJSON (p\<lparr>version := 0\<rparr>))) js"
proof -
  note r = readyD [OF assms(1)]
  let ?js = "marshal_prefix (toPrefixJSON (p\<lparr>version := 0\<rparr>))"
  let ?Q = "\<lambda>T. \<exists>js. same_json ?js js \<and> T = (tabs (s_db s))(t \<mapsto> h(Cidr p \<mapsto> js))"
  have p: "wf_prefix (p\<lparr>version := 0\<rparr>)"
    using assms(3) by (simp add: wf_prefix_def)
  obtain d0 where d0: "sql_ReadPrefix db (Cidr p) ns s = (Inl (Errorf ''%w prefix:%s not found:%s'' [Sentinel ErrNotFound]), s\<lparr>s_db := d0\<rparr>)"
      "up d0" "tabs d0 = tabs (s_db s)"
    using ready_read [OF assms(1), of "Cidr p"] assms(2) by auto
  let ?s = "s\<lparr>s_db := d0\<rparr>"
  have stmt: "\<exists>k d'. TxExec db (insert_text (getTableName ns)) [AText (Cidr p), AJson ?js] d = (Inr (Inr k), d') \<and>
      intx d' (tabs (s_db ?s)) \<and> ?Q (tabs d')" if d: "intx d (tabs (s_db ?s))" "tabs d = tabs (s_db ?s)" for d
    using insert_row [where h = h and t = t, OF d(1) r(3) _ assms(2) marshal_unambiguous [OF p]] r(4) d(2) d0(3) by auto
  obtain d where d: "in_tx db ''unable to start transaction:%w'' (\<lambda>s. (case on_sql (TxExec db (insert_text (getTableName ns))
          [AText (Cidr p), AJson ?js]) s of
        (Inl err, s) \<Rightarrow> (Inl (Errorf ''unable to insert prefix:%w'' [err]), s)
      | (Inr _, s) \<Rightarrow> commit_with db (p\<lparr>version := 0\<rparr>) s)) ?s = (Inr (p\<lparr>version := 0\<rparr>), s\<lparr>s_db := d\<rparr>)" "up d" "?Q (tabs d)"
    using tx_statement [where s = ?s and Q = ?Q and msg = "''unable to start transaction:%w''"
      and failed = "''unable to insert prefix:%w''" and x = "p\<lparr>version := 0\<rparr>", OF _ stmt] d0 by auto
  obtain js where js: "same_json ?js js" "tabs d = (tabs (s_db s))(t \<mapsto> h(Cidr p \<mapsto> js))"
    using d(3) by blast
  have "sql_CreatePrefix db p ns s = (Inr (p\<lparr>version := 0\<rparr>), s\<lparr>s_db := d\<rparr>)"
    using d0(1) d(1) r(5) by (simp add: sql_CreatePrefix_def sql_prefixExists_def Prefix_toJSON_def)
  with d(2) js show ?thesis
    by blast
qed

lemma ready_exists:
  assumes "ready s ns t h" "h (Cidr p) = Some js" "fromJSON js = Inr q"
  shows "\<exists>d. sql_CreatePrefix db p ns s = (Inr q, s\<lparr>s_db := d\<rparr>) \<and> up d \<and> tabs d = tabs (s_db s)"
  using ready_read [OF assms(1), of "Cidr p"] assms(2,3) readyD(5) [OF assms(1)]
  by (auto simp: sql_CreatePrefix_def sql_prefixExists_def)

lemma ready_delete:
  assumes "ready s ns t h"
  shows "\<exists>d. sql_DeletePrefix db p ns s = (Inr p, s\<lparr>s_db := d\<rparr>) \<and> up d \<and>
    tabs d = (tabs (s_db s))(t \<mapsto> h(Cidr p := None))"
proof -
  note r = readyD [OF assms]
  have stmt: "\<exists>k d'. TxExec db (delete_text (getTableName ns)) [AText (Cidr p)] d = (Inr (Inr k), d') \<and>
      intx d' (tabs (s_db s)) \<and> tabs d' = (tabs (s_db s))(t \<mapsto> h(Cidr p := None))"
    if d: "intx d (tabs (s_db s))" "tabs d = tabs (s_db s)" for d
    using delete_row [where h = h and t = t and c = "Cidr p", OF d(1) r(3)] r(4) d(2) by auto
  show ?thesis
    using tx_statement [where s = s and Q = "\<lambda>T. T = (tabs (s_db s))(t \<mapsto> h(Cidr p := None))"
        and msg = "''unable to start transaction: %w''" and failed = "''unable delete prefix: %w''" and x = p, OF r(1) stmt] r(5)
    by (simp add: sql_DeletePrefix_def)
qed

lemma ready_update_stale:
  assumes "ready s ns t h" "h (Cidr p) = None \<or> (\<exists>js. h (Cidr p) = Some js \<and> version_member js = Some k)"
    "h (Cidr p) = None \<or> k \<noteq> sint (version p)"
  shows "\<exists>d. sql_UpdatePrefix db p ns s =
      (Inl (Errorf ''%w: select for update did not effect any row'' [Sentinel ErrOptimisticLockError]), s\<lparr>s_db := d\<rparr>) \<and>
    up d \<and> tabs d = tabs (s_db s)"
proof -
  note r = readyD [OF assms(1)]
  let ?T = "tabs (s_db s)"
  let ?e = "Inl (Errorf ''%w: select for update did not effect any row'' [Sentinel ErrOptimisticLockError]) :: Prefix result"
  let ?body = "update_rows db (lock_text (getTableName ns)) [AText (Cidr p), AInt (version p)]
    ''%w: unable to select for update prefix:%s'' ''%w: select for update did not effect any row''
    (update_rows db (update_text (getTableName ns)) [AJson (marshal_prefix (toPrefixJSON (next_version p))), AText (Cidr p), AInt (version p)]
      ''%w: unable to update prefix:%s'' ''%w: updatePrefix did not effect any row'' (commit_with db (next_version p)))"
  have "\<exists>d'. ?body (s\<lparr>s_db := d\<rparr>) = (?e, s\<lparr>s_db := d', s_tables := s_tables s\<rparr>) \<and> up d' \<and> tabs d' = ?T"
    if d: "intx d ?T" "tabs d = ?T" for d
  proof -
    obtain d1 where d1: "TxExec db (lock_text (getTableName ns)) [AText (Cidr p), AInt (version p)] d = (Inr (Inr 0), d1)" "intx d1 ?T"
      using lock_row [where h = h and c = "Cidr p" and v = "version p", OF d(1) r(3) _ assms(2)] assms(3) r(4) d(2) by auto
    obtain x d2 where "Rollback db d1 = (x, d2)" "up d2" "tabs d2 = ?T"
      using rollback [OF d1(2)] by blast
    with d1 show ?thesis
      by (intro exI [of _ d2]) (simp add: update_rows_def on_sql_def)
  qed
  from in_tx_run [where s = s and body = ?body and Q = "\<lambda>T. T = ?T" and msg = "''unable to start transaction:%w''", OF r(1) this]
  show ?thesis
    using r(5) by (simp add: sql_UpdatePrefix_def Prefix_toJSON_def next_version_def Let_def)
qed

lemma ready_update:
  assumes "ready s ns t h" "h (Cidr p) = Some js" "version_member js = Some (sint (version p))" "wf_prefix p"
  shows "\<exists>js' d. sql_UpdatePrefix db p ns s = (Inr (next_version p), s\<lparr>s_db := d\<rparr>) \<and> up d \<and>
    tabs d = (tabs (s_db s))(t \<mapsto> h(Cidr p \<mapsto> js')) \<and> same_json (marshal_prefix (toPrefixJSON (next_version p))) js'"
proof -
  note r = readyD [OF assms(1)]
  let ?T = "tabs (s_db s)" and ?new = "marshal_prefix (toPrefixJSON (next_version p))"
  let ?body = "update_rows db (lock_text (getTableName ns)) [AText (Cidr p), AInt (version p)]
    ''%w: unable to select for update prefix:%s'' ''%w: select for update did not effect any row''
    (update_rows db (update_text (getTableName ns)) [AJson ?new, AText (Cidr p), AInt (version p)]
      ''%w: unable to update prefix:%s'' ''%w: updatePrefix did not effect any row'' (commit_with db (next_version p)))"
  let ?Q = "\<lambda>T. \<exists>js'. same_json ?new js' \<and> T = ?T(t \<mapsto> h(Cidr p \<mapsto> js'))"
  have new: "same_json ?new ?new"
    using marshal_unambiguous [of "next_version p"] assms(4) by simp
  have "\<exists>d'. ?body (s\<lparr>s_db := d\<rparr>) = (Inr (next_version p), s\<lparr>s_db := d', s_tables := s_tables s\<rparr>) \<and> up d' \<and> ?Q (tabs d')"
    if d: "intx d ?T" "tabs d = ?T" for d
  proof -
    have h: "tabs d t = Some h" "h (Cidr p) = None \<or> (\<exists>js. h (Cidr p) = Some js \<and> version_member js = Some (sint (version p)))"
      using r(4) d(2) assms(2,3) by auto
    obtain d1 where d1: "TxExec db (lock_text (getTableName ns)) [AText (Cidr p), AInt (version p)] d = (Inr (Inr 1), d1)"
        "intx d1 ?T" "tabs d1 = ?T"
      using lock_row [where v = "version p", OF d(1) r(3) h] assms(2) d(2) by auto
    have "tabs d1 t = Some h"
      using d1(3) r(4) by simp
    then obtain js' d2 where d2: "TxExec db (update_text (getTableName ns)) [AJson ?new, AText (Cidr p), AInt (version p)] d1 = (Inr (Inr 1), d2)"
        "same_json ?new js'" "intx d2 ?T" "tabs d2 = ?T(t \<mapsto> h(Cidr p \<mapsto> js'))"
      using update_row [where h = h and t = t and c = "Cidr p" and v = "version p", OF d1(2) r(3) _ assms(2,3) new] d1(3) by auto
    obtain d3 where "Commit db d2 = (Inr (), d3)" "up d3" "tabs d3 = tabs d2"
      using commit [OF d2(3)] by blast
    with d1(1) d2 show ?thesis
      by (intro exI [of _ d3]) (auto simp: update_rows_def commit_with_def on_sql_def)
  qed
  from in_tx_run [where s = s and body = ?body and Q = ?Q and msg = "''unable to start transaction:%w''", OF r(1) this]
  show ?thesis
    using r(5) by (auto simp: sql_UpdatePrefix_def Prefix_toJSON_def next_version_def Let_def)
qed

lemma ready_delete_all:
  assumes "ready s ns t h"
  shows "\<exists>d. sql_DeleteAllPrefixes db ns s = (Inr (), s\<lparr>s_db := d\<rparr>) \<and> up d \<and> tabs d = (tabs (s_db s))(t \<mapsto> Map.empty)"
proof -
  note r = readyD [OF assms]
  obtain d where "Exec db (delete_rows_text (getTableName ns)) (s_db s) = (Inr (), d)" "up d"
      "tabs d = (tabs (s_db s))(t \<mapsto> Map.empty)"
    using delete_rows [OF r(1,3,4)] by blast
  with r(5) show ?thesis
    by (intro exI [of _ d]) (simp add: sql_DeleteAllPrefixes_def on_sql_def)
qed

lemma ready_cidrs:
  assumes "ready s ns t h"
  shows "\<exists>cs d. sql_ReadAllPrefixCidrs db ns s = (Inr cs, s\<lparr>s_db := d\<rparr>) \<and> distinct cs \<and> set cs = dom h \<and>
    up d \<and> tabs d = tabs (s_db s)"
proof -
  note r = readyD [OF assms]
  obtain cs d where "SelectTexts db (select_cidrs_text (getTableName ns)) (s_db s) = (Inr cs, d)" "distinct cs"
      "set cs = dom h" "up d" "tabs d = tabs (s_db s)"
    using select_cidrs [OF r(1,3,4)] by blast
  with r(5) show ?thesis
    by (intro exI [of _ cs] exI [of _ d]) (simp add: sql_ReadAllPrefixCidrs_def on_sql_def)
qed

lemma toPrefixes_run: "list_all2 (\<lambda>v p. fromJSON v = Inr p) vs ps \<Longrightarrow> toPrefixes vs acc = Inr (acc @ ps)"
  by (induction arbitrary: acc rule: list_all2_induct) simp_all

lemma ready_read_all:
  assumes "ready s ns t h" "hash_ok h"
  shows "\<exists>ps d. sql_ReadAllPrefixes db ns s = (Inr ps, s\<lparr>s_db := d\<rparr>) \<and> distinct (map Cidr ps) \<and>
    (\<forall>p \<in> set ps. wf_prefix p) \<and> map_of (map (\<lambda>p. (Cidr p, abs_prefix p)) ps) = hash_view h \<and>
    up d \<and> tabs d = tabs (s_db s)"
proof -
  note r = readyD [OF assms(1)]
  obtain cs d where d: "SelectDocs db (select_docs_text (getTableName ns)) (s_db s) = (Inr (map (the \<circ> h) cs), d)" "distinct cs"
      "set cs = dom h" "up d" "tabs d = tabs (s_db s)"
    using select_docs [OF r(1,3,4)] by blast
  obtain ps where ps: "list_all2 (\<lambda>c p. \<exists>js. h c = Some js \<and> fromJSON js = Inr p) cs ps" "distinct (map Cidr ps)"
      "\<forall>p \<in> set ps. wf_prefix p" "map_of (map (\<lambda>p. (Cidr p, abs_prefix p)) ps) = hash_view h"
    using docs_list [OF assms(2) d(2,3)] by blast
  have "list_all2 (\<lambda>v p. fromJSON v = Inr p) (map (the \<circ> h) cs) ps"
    using ps(1) by (auto simp: list_all2_map1 elim!: list_all2_mono)
  from toPrefixes_run [OF this, of "[]"] d(1) r(5) have "sql_ReadAllPrefixes db ns s = (Inr ps, s\<lparr>s_db := d\<rparr>)"
    by (simp add: sql_ReadAllPrefixes_def on_sql_def)
  with ps d(4,5) show ?thesis
    by blast
qed

lemma ready_drop:
  assumes "ready s ns t h"
  shows "\<exists>d. sql_DeleteNamespace db ns s = (Inr (), s\<lparr>s_db := d, s_tables := s_tables s - {ns}\<rparr>) \<and> up d \<and>
    tabs d = (tabs (s_db s))(t := None)"
proof -
  note r = readyD [OF assms]
  let ?T = "tabs (s_db s)"
  let ?body = "\<lambda>s. (case on_sql (TxExec db (drop_text (getTableName ns)) []) s of
      (Inl err, s) \<Rightarrow> (Inl (Errorf ''unable delete prefix:%w'' [err]), s)
    | (Inr _, s) \<Rightarrow> (case commit_with db () s of
        (Inl err, s) \<Rightarrow> (Inl err, s)
      | (Inr _, s) \<Rightarrow> (Inr (), s\<lparr>s_tables := s_tables s - {ns}\<rparr>)))"
  have "\<exists>d'. ?body (s\<lparr>s_db := d\<rparr>) = (Inr (), s\<lparr>s_db := d', s_tables := s_tables s - {ns}\<rparr>) \<and> up d' \<and> tabs d' = ?T(t := None)"
    if d: "intx d ?T" "tabs d = ?T" for d
  proof -
    obtain k d1 where d1: "TxExec db (drop_text (getTableName ns)) [] d = (Inr (Inr k), d1)" "intx d1 ?T" "tabs d1 = ?T(t := None)"
      using drop_table [where h = h and t = t, OF d(1) r(3)] r(4) d(2) by auto
    obtain d2 where "Commit db d1 = (Inr (), d2)" "up d2" "tabs d2 = tabs d1"
      using commit [OF d1(2)] by blast
    with d1 show ?thesis
      by (intro exI [of _ d2]) (simp add: on_sql_def commit_with_def)
  qed
  from in_tx_run [where s = s and body = ?body and Q = "\<lambda>T. T = ?T(t := None)" and msg = "''unable to start transaction: %w''", OF r(1) this]
  show ?thesis
    using r(5) by (simp add: sql_DeleteNamespace_def)
qed

end

section \<open>Invariant and view\<close>

text \<open>Rows in order: documents in order, whose member \<open>Version\<close> is the version of the prefix.\<close>

definition rows_ok :: "(string \<rightharpoonup> json) \<Rightarrow> bool" where
  "rows_ok h \<longleftrightarrow> hash_ok h \<and>
     (\<forall>c js p. h c = Some js \<longrightarrow> fromJSON js = Inr p \<longrightarrow> version_member js = Some (sint (version p)))"

text \<open>Every table that \<open>ListNamespaces\<close> finds belongs to a namespace with an accepted name.\<close>

definition sql_inv :: "('d \<Rightarrow> bool) \<Rightarrow> ('d \<Rightarrow> string \<rightharpoonup> string \<rightharpoonup> json) \<Rightarrow> nat \<Rightarrow> 'd sql \<Rightarrow> bool" where
  "sql_inv up tabs n s \<longleftrightarrow> up (s_db s) \<and> maxIdLength s = int n \<and>
     (\<forall>t h. take 6 t = ''prefix'' \<longrightarrow> tabs (s_db s) t = Some h \<longrightarrow>
        (\<exists>ns. sql_name_ok n ns \<and> t = table_of ns) \<and> rows_ok h) \<and>
     (\<forall>ns \<in> s_tables s. sql_name_ok n ns \<and> tabs (s_db s) (table_of ns) \<noteq> None)"

definition sql_view :: "('d \<Rightarrow> string \<rightharpoonup> string \<rightharpoonup> json) \<Rightarrow> nat \<Rightarrow> 'd sql \<Rightarrow> store_view" where
  "sql_view tabs n s ns = (if sql_name_ok n ns then map_option hash_view (tabs (s_db s) (table_of ns)) else None)"

lemma rows_ok_empty [simp]: "rows_ok Map.empty"
  by (simp add: rows_ok_def)

lemma rows_store:
  assumes "rows_ok h" "same_json (marshal_prefix (toPrefixJSON p)) js" "wf_prefix p" "Cidr p \<noteq> []"
  shows "rows_ok (h(Cidr p \<mapsto> js))" "hash_view (h(Cidr p \<mapsto> js)) = (hash_view h)(Cidr p \<mapsto> abs_prefix p)"
proof -
  obtain ms p' where p': "js = JObject ms" "map_of ms ''Version'' = Some (JInt (sint (version p)))" "fromJSON js = Inr p'"
      "wf_prefix p'" "abs_prefix p' = abs_prefix p" "Cidr p' = Cidr p" "version p' = version p"
    using fromJSON_same [OF assms(2,3)] .
  have e: "entry_ok (Cidr p) p'"
    using p'(4,6) assms(4) by (simp add: entry_ok_def)
  note st = docs_store [where dec = fromJSON, OF _ p'(3) e]
  show "rows_ok (h(Cidr p \<mapsto> js))"
    using assms(1) st(1) p'(1,2,3,7) by (auto simp: rows_ok_def)
  show "hash_view (h(Cidr p \<mapsto> js)) = (hash_view h)(Cidr p \<mapsto> abs_prefix p)"
    using st(2) assms(1) p'(5) by (simp add: rows_ok_def)
qed

lemma rows_remove:
  assumes "rows_ok h"
  shows "rows_ok (h(c := None))" "hash_view (h(c := None)) = (hash_view h)(c := None)"
  using assms hash_remove [of h] by (auto simp: rows_ok_def split: if_split_asm)

lemma rows_entry:
  assumes "rows_ok h" "h c = Some js"
  obtains p where "fromJSON js = Inr p" "wf_prefix p" "Cidr p = c" "hash_view h c = Some (abs_prefix p)"
    "version_member js = Some (sint (version p))" "c \<noteq> []"
proof -
  obtain p where p: "fromJSON js = Inr p" "wf_prefix p" "Cidr p = c" "c \<noteq> []"
    using hash_okD [of h] assms by (auto simp: rows_ok_def)
  moreover have "hash_view h c = Some (abs_prefix p)"
    using p(1) assms(2) by (simp add: docs_view_def)
  ultimately show ?thesis
    using assms that by (auto simp: rows_ok_def)
qed

section \<open>The contract holds\<close>

context sql_laws
begin

abbreviation qinv :: "'d sql \<Rightarrow> bool" where
  "qinv \<equiv> sql_inv up tabs n"

abbreviation qview :: "'d sql \<Rightarrow> store_view" where
  "qview \<equiv> sql_view tabs n"

lemma qinvD:
  assumes "qinv s"
  shows "up (s_db s)" "maxIdLength s = int n"
    "take 6 t = ''prefix'' \<Longrightarrow> tabs (s_db s) t = Some h \<Longrightarrow> (\<exists>ns. sql_name_ok n ns \<and> t = table_of ns) \<and> rows_ok h"
    "ns \<in> s_tables s \<Longrightarrow> sql_name_ok n ns \<and> tabs (s_db s) (table_of ns) \<noteq> None"
  using assms by (auto simp: sql_inv_def)

lemma ident_table:
  assumes "sql_name_ok n ns"
  shows "ident n (getTableName ns) (table_of ns)"
  using ident_getTableName [of ns n] take_table_of [OF assms] long_enough assms by (auto simp: sql_name_ok_def)

lemma qview_Some:
  assumes "qinv s" "qview s ns = Some m"
  obtains h where "sql_name_ok n ns" "tabs (s_db s) (table_of ns) = Some h" "rows_ok h" "m = hash_view h"
  using assms qinvD(3) [OF assms(1) table_of_like] by (auto simp: sql_view_def split: if_split_asm)

lemma qview_same: "tabs d = tabs (s_db s) \<Longrightarrow> qview (s\<lparr>s_db := d\<rparr>) = qview s"
  by (rule ext) (simp add: sql_view_def)

lemma qinv_same: "qinv s \<Longrightarrow> up d \<Longrightarrow> tabs d = tabs (s_db s) \<Longrightarrow> qinv (s\<lparr>s_db := d\<rparr>)"
  by (simp add: sql_inv_def)

lemma q_write:
  assumes s: "qinv s" "sql_name_ok n ns" and h: "rows_ok h" and d: "up d" "tabs d = (tabs (s_db s))(table_of ns \<mapsto> h)"
  shows "qinv (s\<lparr>s_db := d\<rparr>)" "qview (s\<lparr>s_db := d\<rparr>) = (qview s)(ns \<mapsto> hash_view h)"
proof -
  show "qinv (s\<lparr>s_db := d\<rparr>)"
    using qinvD [OF s(1)] s(2) h d by (auto simp: sql_inv_def split: if_split_asm)
  show "qview (s\<lparr>s_db := d\<rparr>) = (qview s)(ns \<mapsto> hash_view h)"
    by (rule ext) (simp add: sql_view_def d(2) s(2))
qed

lemma q_list:
  assumes s: "qinv s"
  shows "\<exists>nss d. sql_ListNamespaces db s = (Inr nss, s\<lparr>s_db := d, s_tables := set nss\<rparr>) \<and> distinct nss \<and>
    set nss = dom (qview s) \<and> up d \<and> tabs d = tabs (s_db s) \<and> qinv (s\<lparr>s_db := d, s_tables := set nss\<rparr>)"
proof -
  obtain ts d where ts: "SelectTexts db list_tables_text (s_db s) = (Inr ts, d)" "distinct ts"
      "set ts = {t \<in> dom (tabs (s_db s)). take 6 t = ''prefix''}" "up d" "tabs d = tabs (s_db s)"
    using list_tables [OF qinvD(1) [OF s]] by blast
  have own: "\<exists>ns. sql_name_ok n ns \<and> t = table_of ns" if "t \<in> set ts" for t
    using that qinvD(3) [OF s, of t] unfolding ts(3) by blast
  let ?nss = "map namespace_of ts"
  have nss: "set ?nss = dom (qview s)"
  proof
    show "set ?nss \<subseteq> dom (qview s)"
    proof
      fix ns assume "ns \<in> set ?nss"
      then obtain t where t: "t \<in> set ts" "ns = namespace_of t"
        by auto
      obtain a where a: "sql_name_ok n a" "t = table_of a"
        using own [OF t(1)] by blast
      with t ts(3) show "ns \<in> dom (qview s)"
        by (auto simp: sql_view_def domIff)
    qed
    show "dom (qview s) \<subseteq> set ?nss"
    proof
      fix ns assume "ns \<in> dom (qview s)"
      then have "table_of ns \<in> set ts"
        unfolding ts(3) by (auto simp: sql_view_def split: if_split_asm)
      then have "namespace_of (table_of ns) \<in> namespace_of ` set ts"
        by (rule imageI)
      then show "ns \<in> set ?nss"
        by simp
    qed
  qed
  have "inj_on namespace_of (set ts)"
  proof (rule inj_onI)
    fix x y assume xy: "x \<in> set ts" "y \<in> set ts" "namespace_of x = namespace_of y"
    obtain a b where "x = table_of a" "y = table_of b"
      using own [OF xy(1)] own [OF xy(2)] by blast
    with xy(3) show "x = y"
      by simp
  qed
  then have "distinct ?nss"
    using ts(2) by (simp add: distinct_map)
  moreover have "s_tables s \<subseteq> dom (qview s)"
    using qinvD(4) [OF s] by (auto simp: sql_view_def)
  ultimately have "sql_ListNamespaces db s = (Inr ?nss, s\<lparr>s_db := d, s_tables := set ?nss\<rparr>)"
    using ts(1) nss by (simp add: sql_ListNamespaces_def on_sql_def Let_def Un_absorb1)
  moreover have "qinv (s\<lparr>s_db := d, s_tables := set ?nss\<rparr>)"
    using qinvD [OF s] ts(4,5) unfolding nss by (auto simp: sql_inv_def sql_view_def split: if_split_asm)
  ultimately show ?thesis
    using ts(4,5) nss \<open>distinct ?nss\<close> by blast
qed

lemma q_found:
  assumes s: "qinv s" "qview s ns = Some m"
  obtains s' h where "sql_checkNamespaceExists db ns s = (Inr (), s')" "qinv s'" "qview s' = qview s"
    "ready s' ns (table_of ns) h" "sql_name_ok n ns" "rows_ok h" "m = hash_view h"
proof -
  obtain h where h: "sql_name_ok n ns" "tabs (s_db s) (table_of ns) = Some h" "rows_ok h" "m = hash_view h"
    using qview_Some [OF s] .
  show ?thesis
  proof (cases "ns \<in> s_tables s")
    case True
    then show ?thesis
      using that [of s h] s(1) h ident_table [OF h(1)] qinvD(1) [OF s(1)]
      by (simp add: ready_def sql_checkNamespaceExists_def)
  next
    case False
    obtain nss d where l: "sql_ListNamespaces db s = (Inr nss, s\<lparr>s_db := d, s_tables := set nss\<rparr>)" "set nss = dom (qview s)"
        "up d" "tabs d = tabs (s_db s)" "qinv (s\<lparr>s_db := d, s_tables := set nss\<rparr>)"
      using q_list [OF s(1)] by blast
    have "ns \<in> set nss"
      using l(2) s(2) by blast
    moreover from this have "sql_checkNamespaceExists db ns s = (Inr (), s\<lparr>s_db := d, s_tables := set nss\<rparr>)"
      using False l(1) by (simp add: sql_checkNamespaceExists_def)
    moreover have "qview (s\<lparr>s_db := d, s_tables := set nss\<rparr>) = qview s"
      by (rule ext) (simp add: sql_view_def l(4))
    ultimately show ?thesis
      using that [of "s\<lparr>s_db := d, s_tables := set nss\<rparr>" h] h l(3-5) ident_table [OF h(1)] by (simp add: ready_def)
  qed
qed

lemma q_missing:
  assumes s: "qinv s" "qview s ns = None"
  obtains s' where "sql_checkNamespaceExists db ns s = (Inl (Sentinel ErrNamespaceDoesNotExist), s')" "qinv s'" "qview s' = qview s"
proof -
  obtain nss d where l: "sql_ListNamespaces db s = (Inr nss, s\<lparr>s_db := d, s_tables := set nss\<rparr>)" "set nss = dom (qview s)"
      "up d" "tabs d = tabs (s_db s)" "qinv (s\<lparr>s_db := d, s_tables := set nss\<rparr>)"
    using q_list [OF s(1)] by blast
  have "ns \<notin> s_tables s" "ns \<notin> set nss"
    using s(2) qinvD(4) [OF s(1), of ns] l(2) by (auto simp: sql_view_def)
  moreover have "qview (s\<lparr>s_db := d, s_tables := set nss\<rparr>) = qview s"
    by (rule ext) (simp add: sql_view_def l(4))
  ultimately show ?thesis
    using that l(1,5) by (simp add: sql_checkNamespaceExists_def)
qed

text \<open>Once the namespace was found, an operation goes on as in the state that knows it.\<close>

lemma enter:
  assumes "sql_checkNamespaceExists db ns s = (Inr (), s')" "ready s' ns t h"
  shows "sql_CreatePrefix db p ns s = sql_CreatePrefix db p ns s'" "sql_ReadPrefix db c ns s = sql_ReadPrefix db c ns s'"
    "sql_DeleteAllPrefixes db ns s = sql_DeleteAllPrefixes db ns s'" "sql_ReadAllPrefixes db ns s = sql_ReadAllPrefixes db ns s'"
    "sql_ReadAllPrefixCidrs db ns s = sql_ReadAllPrefixCidrs db ns s'" "sql_UpdatePrefix db p ns s = sql_UpdatePrefix db p ns s'"
    "sql_DeletePrefix db p ns s = sql_DeletePrefix db p ns s'" "sql_DeleteNamespace db ns s = sql_DeleteNamespace db ns s'"
  using assms(1) readyD(5) [OF assms(2)]
  by (simp_all add: sql_CreatePrefix_def sql_ReadPrefix_def sql_DeleteAllPrefixes_def sql_ReadAllPrefixes_def
      sql_ReadAllPrefixCidrs_def sql_UpdatePrefix_def sql_DeletePrefix_def sql_DeleteNamespace_def)

lemma q_create:
  assumes s: "qinv s" "qview s ns = Some m" and p: "wf_prefix p"
  shows "m (Cidr p) = None \<Longrightarrow> Cidr p \<noteq> [] \<Longrightarrow> \<exists>s'. sql_CreatePrefix db p ns s = (Inr (p\<lparr>version := 0\<rparr>), s') \<and>
      qinv s' \<and> qview s' = (qview s)(ns \<mapsto> m(Cidr p \<mapsto> abs_prefix (p\<lparr>version := 0\<rparr>)))"
    and "m (Cidr p) = Some a \<Longrightarrow> \<exists>q s'. sql_CreatePrefix db p ns s = (Inr q, s') \<and> qinv s' \<and> qview s' = qview s"
proof -
  obtain s1 h where c: "sql_checkNamespaceExists db ns s = (Inr (), s1)" "qinv s1" "qview s1 = qview s"
      "ready s1 ns (table_of ns) h" "sql_name_ok n ns" "rows_ok h" "m = hash_view h"
    using q_found [OF s] .
  note e = enter [OF c(1,4)]
  have ok: "hash_ok h"
    using c(6) by (simp add: rows_ok_def)
  { assume new: "m (Cidr p) = None" "Cidr p \<noteq> []"
    let ?p = "p\<lparr>version := 0\<rparr>"
    have q: "wf_prefix ?p" "Cidr ?p \<noteq> []" "Cidr ?p = Cidr p"
      using p new(2) by (simp_all add: wf_prefix_def)
    have "h (Cidr p) = None"
      using new(1) hash_view_None [OF ok] c(7) by simp
    then obtain js d where js: "sql_CreatePrefix db p ns s1 = (Inr ?p, s1\<lparr>s_db := d\<rparr>)" "up d"
        "tabs d = (tabs (s_db s1))(table_of ns \<mapsto> h(Cidr ?p \<mapsto> js))" "same_json (marshal_prefix (toPrefixJSON ?p)) js"
      using ready_create [OF c(4) _ p] unfolding q(3) by blast
    note st = rows_store [OF c(6) js(4) q(1,2)]
    show "\<exists>s'. sql_CreatePrefix db p ns s = (Inr ?p, s') \<and> qinv s' \<and> qview s' = (qview s)(ns \<mapsto> m(Cidr p \<mapsto> abs_prefix ?p))"
    proof (intro exI conjI)
      show "sql_CreatePrefix db p ns s = (Inr ?p, s1\<lparr>s_db := d\<rparr>)"
        using e(1) js(1) by simp
      show "qinv (s1\<lparr>s_db := d\<rparr>)" "qview (s1\<lparr>s_db := d\<rparr>) = (qview s)(ns \<mapsto> m(Cidr p \<mapsto> abs_prefix ?p))"
        using q_write [OF c(2,5) st(1) js(2,3)] st(2) c(3,7) q(3) by simp_all
    qed }
  { assume "m (Cidr p) = Some a"
    then obtain js where js: "h (Cidr p) = Some js"
      using hash_view_None [OF ok, of "Cidr p"] c(7) by fastforce
    obtain q where q: "fromJSON js = Inr q"
      using rows_entry [OF c(6) js] by blast
    obtain d where "sql_CreatePrefix db p ns s1 = (Inr q, s1\<lparr>s_db := d\<rparr>)" "up d" "tabs d = tabs (s_db s1)"
      using ready_exists [OF c(4) js q] by blast
    then show "\<exists>q s'. sql_CreatePrefix db p ns s = (Inr q, s') \<and> qinv s' \<and> qview s' = qview s"
      using qinv_same [OF c(2)] qview_same [of d s1] c(3) unfolding e(1) by auto }
qed

lemma q_read:
  assumes s: "qinv s" "qview s ns = Some m"
  shows "\<exists>r s'. sql_ReadPrefix db c ns s = (r, s') \<and> qinv s' \<and> qview s' = qview s \<and> (case m c of
      None \<Rightarrow> (\<exists>e. r = Inl e \<and> errors_is e ErrNotFound)
    | Some a \<Rightarrow> (\<exists>p. r = Inr p \<and> abs_prefix p = a \<and> wf_prefix p))"
proof -
  obtain s1 h where c: "sql_checkNamespaceExists db ns s = (Inr (), s1)" "qinv s1" "qview s1 = qview s"
      "ready s1 ns (table_of ns) h" "sql_name_ok n ns" "rows_ok h" "m = hash_view h"
    using q_found [OF s] .
  obtain d where d: "sql_ReadPrefix db c ns s1 = (case h c of
        None \<Rightarrow> Inl (Errorf ''%w prefix:%s not found:%s'' [Sentinel ErrNotFound])
      | Some js \<Rightarrow> fromJSON js, s1\<lparr>s_db := d\<rparr>)" "up d" "tabs d = tabs (s_db s1)"
    using ready_read [OF c(4)] by blast
  have keep: "qinv (s1\<lparr>s_db := d\<rparr>)" "qview (s1\<lparr>s_db := d\<rparr>) = qview s"
    using qinv_same [OF c(2) d(2,3)] qview_same [OF d(3)] c(3) by simp_all
  show ?thesis
  proof (cases "h c")
    case None
    then have "m c = None"
      using c(6,7) by (simp add: docs_view_def)
    with None d(1) keep show ?thesis
      unfolding enter(2) [OF c(1,4)] by simp
  next
    case (Some js)
    obtain p where "fromJSON js = Inr p" "wf_prefix p" "hash_view h c = Some (abs_prefix p)"
      using rows_entry [OF c(6) Some] by blast
    with Some d(1) keep show ?thesis
      unfolding enter(2) [OF c(1,4)] c(7) by simp
  qed
qed

lemma q_update:
  assumes s: "qinv s" "qview s ns = Some m" and p: "wf_prefix p"
  shows "m (Cidr p) = Some a \<Longrightarrow> aVersion a = version p \<Longrightarrow> \<exists>s'. sql_UpdatePrefix db p ns s = (Inr (next_version p), s') \<and>
      qinv s' \<and> qview s' = (qview s)(ns \<mapsto> m(Cidr p \<mapsto> abs_prefix (next_version p)))"
    and "(\<And>a. m (Cidr p) = Some a \<Longrightarrow> aVersion a \<noteq> version p) \<Longrightarrow> \<exists>e s'. sql_UpdatePrefix db p ns s = (Inl e, s') \<and>
      errors_is e ErrOptimisticLockError \<and> qinv s' \<and> qview s' = qview s"
proof -
  obtain s1 h where c: "sql_checkNamespaceExists db ns s = (Inr (), s1)" "qinv s1" "qview s1 = qview s"
      "ready s1 ns (table_of ns) h" "sql_name_ok n ns" "rows_ok h" "m = hash_view h"
    using q_found [OF s] .
  note e = enter [OF c(1,4)]
  { assume old: "m (Cidr p) = Some a" "aVersion a = version p"
    have "hash_ok h"
      using c(6) by (simp add: rows_ok_def)
    then obtain js where h: "h (Cidr p) = Some js"
      using hash_view_None [of h "Cidr p"] old(1) c(7) by fastforce
    obtain q where q: "hash_view h (Cidr p) = Some (abs_prefix q)" "version_member js = Some (sint (version q))" "Cidr p \<noteq> []"
      using rows_entry [OF c(6) h] by blast
    have "version_member js = Some (sint (version p))"
      using q(1,2) old c(7) by auto
    then obtain js' d where js': "sql_UpdatePrefix db p ns s1 = (Inr (next_version p), s1\<lparr>s_db := d\<rparr>)" "up d"
        "tabs d = (tabs (s_db s1))(table_of ns \<mapsto> h(Cidr p \<mapsto> js'))" "same_json (marshal_prefix (toPrefixJSON (next_version p))) js'"
      using ready_update [OF c(4) h _ p] by blast
    have "rows_ok (h(Cidr p \<mapsto> js'))" "hash_view (h(Cidr p \<mapsto> js')) = m(Cidr p \<mapsto> abs_prefix (next_version p))"
      using rows_store [OF c(6) js'(4)] p q(3) c(7) by simp_all
    with q_write [OF c(2,5) _ js'(2,3)] show "\<exists>s'. sql_UpdatePrefix db p ns s = (Inr (next_version p), s') \<and>
        qinv s' \<and> qview s' = (qview s)(ns \<mapsto> m(Cidr p \<mapsto> abs_prefix (next_version p)))"
      unfolding e(6) js'(1) c(3) by auto }
  { assume stale: "\<And>a. m (Cidr p) = Some a \<Longrightarrow> aVersion a \<noteq> version p"
    have "\<exists>k. (h (Cidr p) = None \<or> (\<exists>js. h (Cidr p) = Some js \<and> version_member js = Some k)) \<and>
        (h (Cidr p) = None \<or> k \<noteq> sint (version p))"
    proof (cases "h (Cidr p)")
      case (Some js)
      obtain q where "hash_view h (Cidr p) = Some (abs_prefix q)" "version_member js = Some (sint (version q))"
        using rows_entry [OF c(6) Some] by blast
      with stale Some c(7) show ?thesis
        by (intro exI [of _ "sint (version q)"]) (auto dest: signed_word_eqI)
    qed simp
    then obtain d where "sql_UpdatePrefix db p ns s1 =
        (Inl (Errorf ''%w: select for update did not effect any row'' [Sentinel ErrOptimisticLockError]), s1\<lparr>s_db := d\<rparr>)"
        "up d" "tabs d = tabs (s_db s1)"
      using ready_update_stale [OF c(4)] by blast
    then show "\<exists>e s'. sql_UpdatePrefix db p ns s = (Inl e, s') \<and> errors_is e ErrOptimisticLockError \<and> qinv s' \<and> qview s' = qview s"
      using qinv_same [OF c(2)] qview_same [of d s1] c(3) unfolding e(6) by auto }
qed

lemma q_delete:
  assumes s: "qinv s" "qview s ns = Some m"
  shows "\<exists>s'. sql_DeletePrefix db p ns s = (Inr p, s') \<and> qinv s' \<and> qview s' = (qview s)(ns \<mapsto> m(Cidr p := None))"
proof -
  obtain s1 h where c: "sql_checkNamespaceExists db ns s = (Inr (), s1)" "qinv s1" "qview s1 = qview s"
      "ready s1 ns (table_of ns) h" "sql_name_ok n ns" "rows_ok h" "m = hash_view h"
    using q_found [OF s] .
  obtain d where d: "sql_DeletePrefix db p ns s1 = (Inr p, s1\<lparr>s_db := d\<rparr>)" "up d"
      "tabs d = (tabs (s_db s1))(table_of ns \<mapsto> h(Cidr p := None))"
    using ready_delete [OF c(4)] by blast
  show ?thesis
    using q_write [OF c(2,5) rows_remove(1) [OF c(6)] d(2,3)] rows_remove(2) [OF c(6)] d(1)
    unfolding enter(7) [OF c(1,4)] c(3,7) by auto
qed

lemma q_delete_all:
  assumes s: "qinv s" "qview s ns = Some m"
  shows "\<exists>s'. sql_DeleteAllPrefixes db ns s = (Inr (), s') \<and> qinv s' \<and> qview s' = (qview s)(ns \<mapsto> Map.empty)"
proof -
  obtain s1 h where c: "sql_checkNamespaceExists db ns s = (Inr (), s1)" "qinv s1" "qview s1 = qview s"
      "ready s1 ns (table_of ns) h" "sql_name_ok n ns"
    using q_found [OF s] by metis
  obtain d where d: "sql_DeleteAllPrefixes db ns s1 = (Inr (), s1\<lparr>s_db := d\<rparr>)" "up d"
      "tabs d = (tabs (s_db s1))(table_of ns \<mapsto> Map.empty)"
    using ready_delete_all [OF c(4)] by blast
  show ?thesis
    using q_write [OF c(2,5) rows_ok_empty d(2,3)] d(1) hash_ok_empty(2) unfolding enter(3) [OF c(1,4)] c(3) by auto
qed

lemma q_read_all:
  assumes s: "qinv s" "qview s ns = Some m"
  shows "\<exists>ps s'. sql_ReadAllPrefixes db ns s = (Inr ps, s') \<and> distinct (map Cidr ps) \<and> (\<forall>p \<in> set ps. wf_prefix p) \<and>
      map_of (map (\<lambda>p. (Cidr p, abs_prefix p)) ps) = m \<and> qinv s' \<and> qview s' = qview s"
    and "\<exists>cs s'. sql_ReadAllPrefixCidrs db ns s = (Inr cs, s') \<and> distinct cs \<and> set cs = dom m \<and> qinv s' \<and> qview s' = qview s"
proof -
  obtain s1 h where c: "sql_checkNamespaceExists db ns s = (Inr (), s1)" "qinv s1" "qview s1 = qview s"
      "ready s1 ns (table_of ns) h" "sql_name_ok n ns" "rows_ok h" "m = hash_view h"
    using q_found [OF s] .
  note e = enter [OF c(1,4)]
  have ok: "hash_ok h"
    using c(6) by (simp add: rows_ok_def)
  have keep: "qinv (s1\<lparr>s_db := d\<rparr>)" "qview (s1\<lparr>s_db := d\<rparr>) = qview s" if "up d" "tabs d = tabs (s_db s1)" for d
    using qinv_same [OF c(2) that] qview_same [OF that(2)] c(3) by simp_all
  show "\<exists>ps s'. sql_ReadAllPrefixes db ns s = (Inr ps, s') \<and> distinct (map Cidr ps) \<and> (\<forall>p \<in> set ps. wf_prefix p) \<and>
      map_of (map (\<lambda>p. (Cidr p, abs_prefix p)) ps) = m \<and> qinv s' \<and> qview s' = qview s"
    using ready_read_all [OF c(4) ok] keep unfolding e(4) c(7) by blast
  have "dom m = dom h"
    using hash_view_None [OF ok] c(7) by (simp add: set_eq_iff domIff)
  then show "\<exists>cs s'. sql_ReadAllPrefixCidrs db ns s = (Inr cs, s') \<and> distinct cs \<and> set cs = dom m \<and> qinv s' \<and> qview s' = qview s"
    using ready_cidrs [OF c(4)] keep unfolding e(5) by auto
qed

lemma q_delete_ns:
  assumes s: "qinv s" "qview s ns = Some m"
  shows "\<exists>s'. sql_DeleteNamespace db ns s = (Inr (), s') \<and> qinv s' \<and> qview s' = (qview s)(ns := None)"
proof -
  obtain s1 h where c: "sql_checkNamespaceExists db ns s = (Inr (), s1)" "qinv s1" "qview s1 = qview s"
      "ready s1 ns (table_of ns) h" "sql_name_ok n ns"
    using q_found [OF s] by metis
  obtain d where d: "sql_DeleteNamespace db ns s1 = (Inr (), s1\<lparr>s_db := d, s_tables := s_tables s1 - {ns}\<rparr>)" "up d"
      "tabs d = (tabs (s_db s1))(table_of ns := None)"
    using ready_drop [OF c(4)] by blast
  let ?s = "s1\<lparr>s_db := d, s_tables := s_tables s1 - {ns}\<rparr>"
  have "qinv ?s"
    using qinvD [OF c(2)] d(2,3) by (auto simp: sql_inv_def split: if_split_asm)
  moreover have "qview ?s = (qview s)(ns := None)"
    by (rule ext) (use c(3) [symmetric] in \<open>simp add: sql_view_def d(3)\<close>)
  ultimately show ?thesis
    using d(1) unfolding enter(8) [OF c(1,4)] by blast
qed

lemma create_ns_run:
  assumes "up (s_db s)" "maxIdLength s = int n" "length ns \<le> n" "ns \<notin> s_tables s" "ident n (getTableName ns) t"
  shows "\<exists>d. sql_CreateNamespace db ns s = (Inr (), s\<lparr>s_db := d, s_tables := insert ns (s_tables s)\<rparr>) \<and> up d \<and>
    tabs d = (if tabs (s_db s) t = None then (tabs (s_db s))(t \<mapsto> Map.empty) else tabs (s_db s))"
proof -
  obtain d where "Exec db (createTableSQL ns) (s_db s) = (Inr (), d)" "up d"
      "tabs d = (if tabs (s_db s) t = None then (tabs (s_db s))(t \<mapsto> Map.empty) else tabs (s_db s))"
    using create_table [OF assms(1,5)] unfolding createTableSQL_def by blast
  with assms(2-4) show ?thesis
    by (intro exI [of _ d]) (simp add: sql_CreateNamespace_def on_sql_def)
qed

lemma q_create_ns:
  assumes s: "qinv s" and ns: "sql_name_ok n ns"
  shows "\<exists>s'. sql_CreateNamespace db ns s = (Inr (), s') \<and> qinv s' \<and>
    qview s' = (case qview s ns of None \<Rightarrow> (qview s)(ns \<mapsto> Map.empty) | Some m \<Rightarrow> qview s)"
proof (cases "ns \<in> s_tables s")
  case True
  obtain h where "tabs (s_db s) (table_of ns) = Some h"
    using qinvD(4) [OF s True] by blast
  moreover have "\<not> maxIdLength s < int (length ns)"
    using ns qinvD(2) [OF s] by (simp add: sql_name_ok_def)
  ultimately show ?thesis
    using s ns True by (simp add: sql_CreateNamespace_def sql_view_def)
next
  case False
  obtain d where d: "sql_CreateNamespace db ns s = (Inr (), s\<lparr>s_db := d, s_tables := insert ns (s_tables s)\<rparr>)" "up d"
      "tabs d = (if tabs (s_db s) (table_of ns) = None then (tabs (s_db s))(table_of ns \<mapsto> Map.empty) else tabs (s_db s))"
    using create_ns_run [OF qinvD(1,2) [OF s] _ False ident_table [OF ns]] ns by (auto simp: sql_name_ok_def)
  let ?s = "s\<lparr>s_db := d, s_tables := insert ns (s_tables s)\<rparr>"
  have "qinv ?s"
    using qinvD [OF s] ns d(2,3) by (auto simp: sql_inv_def split: if_split_asm)
  moreover have "qview ?s = (case qview s ns of None \<Rightarrow> (qview s)(ns \<mapsto> Map.empty) | Some m \<Rightarrow> qview s)"
    by (rule ext) (use ns d(3) hash_ok_empty(2) in \<open>auto simp: sql_view_def split: option.split\<close>)
  ultimately show ?thesis
    using d(1) by blast
qed

lemma q_new:
  assumes "up d" "\<forall>t h. take 6 t = ''prefix'' \<longrightarrow> tabs d t = Some h \<longrightarrow> (\<exists>ns. sql_name_ok n ns \<and> t = table_of ns) \<and> rows_ok h"
  shows "\<exists>s. newPostgres db d = Inr s \<and> qinv s \<and> qview s defaultNamespace \<noteq> None \<and>
    (\<forall>t. tabs d t \<noteq> None \<longrightarrow> tabs (s_db s) t = tabs d t)"
proof -
  have root: "ident n ''prefixes'' ''prefixes''" "table_of defaultNamespace = ''prefixes''"
    using ident_table [OF root_name_ok [OF long_enough]] by (simp_all add: getTableName_def table_of_def)
  obtain d1 where d1: "Exec db postgresSchema d = (Inr (), d1)" "up d1"
      "tabs d1 = (if tabs d ''prefixes'' = None then (tabs d)(''prefixes'' \<mapsto> Map.empty) else tabs d)"
    using create_table [OF assms(1) root(1)] unfolding postgresSchema_eq by blast
  obtain d2 where d2: "GetInt db ''show max_identifier_length'' d1 = (Inr (int n), d2)" "up d2" "tabs d2 = tabs d1"
    using max_length [OF d1(2)] by blast
  let ?s = "\<lparr>s_db = d2, maxIdLength = int n, s_tables = {defaultNamespace}\<rparr>"
  have "newPostgres db d = Inr ?s"
    using d1(1) d2(1) by (simp add: newPostgres_def)
  moreover have "tabs d2 ''prefixes'' \<noteq> None"
    using d1(3) d2(3) by simp
  moreover have "qinv ?s"
  proof -
    have "(\<exists>ns. sql_name_ok n ns \<and> t = table_of ns) \<and> rows_ok h" if "take 6 t = ''prefix''" "tabs d2 t = Some h" for t h
      using that assms(2) d1(3) d2(3) root(2) root_name_ok [OF long_enough] by (auto split: if_split_asm)
    then show ?thesis
      using d2(2) root_name_ok [OF long_enough] root(2) \<open>tabs d2 ''prefixes'' \<noteq> None\<close> by (simp add: sql_inv_def)
  qed
  ultimately show ?thesis
    using root(2) root_name_ok [OF long_enough] d1(3) d2(3) by (intro exI [of _ ?s]) (auto simp: sql_view_def)
qed

sublocale sql: full_storage_laws "sql_storage db" qinv qview "sql_name_ok n"
proof unfold_locales
  fix r :: "'d sql" and ns m c a p x r'
  assume r: "qinv r"
  { assume m: "qview r ns = Some m"
    obtain h where h: "rows_ok h" "m = hash_view h"
      using qview_Some [OF r m] .
    then have ok: "hash_ok h"
      by (simp add: rows_ok_def)
    show "m c = Some a \<Longrightarrow> aCidr a = c \<and> c \<noteq> []"
      unfolding h(2) by (rule hash_view_entry [OF ok]) auto
    have "dom m = dom h"
      unfolding h(2) using hash_view_None [OF ok] by (simp add: set_eq_iff domIff)
    with ok show "finite (dom m)"
      by (simp add: docs_ok_def)
    show "wf_prefix p \<Longrightarrow> Cidr p \<noteq> [] \<Longrightarrow> m (Cidr p) = None \<Longrightarrow>
      \<exists>q s'. (q = p \<or> q = p\<lparr>version := 0\<rparr>) \<and> CreatePrefix (sql_storage db) p ns r = (Inr q, s') \<and> qinv s' \<and>
        qview s' = (qview r)(ns \<mapsto> m(Cidr p \<mapsto> abs_prefix q))"
      using q_create(1) [OF r m, of p] by (simp add: sql_storage_def) blast
    show "wf_prefix p \<Longrightarrow> m (Cidr p) \<noteq> None \<Longrightarrow> CreatePrefix (sql_storage db) p ns r = (x, r') \<Longrightarrow>
      qinv r' \<and> qview r' = qview r"
      using q_create(2) [OF r m, of p] by (auto simp: sql_storage_def)
    show "m c = Some a \<Longrightarrow> \<exists>p s'. ReadPrefix (sql_storage db) c ns r = (Inr p, s') \<and> abs_prefix p = a \<and>
        wf_prefix p \<and> qinv s' \<and> qview s' = qview r"
      using q_read [OF r m, of c] by (auto simp: sql_storage_def)
    show "m c = None \<Longrightarrow> \<exists>e s'. ReadPrefix (sql_storage db) c ns r = (Inl e, s') \<and> errors_is e ErrNotFound \<and>
        qinv s' \<and> qview s' = qview r"
      using q_read [OF r m, of c] by (auto simp: sql_storage_def)
    show "\<exists>s'. DeleteAllPrefixes (sql_storage db) ns r = (Inr (), s') \<and> qinv s' \<and> qview s' = (qview r)(ns \<mapsto> Map.empty)"
      using q_delete_all [OF r m] by (simp add: sql_storage_def)
    show "\<exists>ps s'. ReadAllPrefixes (sql_storage db) ns r = (Inr ps, s') \<and> distinct (map Cidr ps) \<and>
        (\<forall>p \<in> set ps. wf_prefix p) \<and> map_of (map (\<lambda>p. (Cidr p, abs_prefix p)) ps) = m \<and> qinv s' \<and> qview s' = qview r"
      using q_read_all(1) [OF r m] by (simp add: sql_storage_def)
    show "\<exists>cs s'. ReadAllPrefixCidrs (sql_storage db) ns r = (Inr cs, s') \<and> distinct cs \<and> set cs = dom m \<and>
        qinv s' \<and> qview s' = qview r"
      using q_read_all(2) [OF r m] by (simp add: sql_storage_def)
    show "wf_prefix p \<Longrightarrow> m (Cidr p) = Some a \<Longrightarrow> aVersion a = version p \<Longrightarrow>
      \<exists>s'. UpdatePrefix (sql_storage db) p ns r = (Inr (next_version p), s') \<and> qinv s' \<and>
        qview s' = (qview r)(ns \<mapsto> m(Cidr p \<mapsto> abs_prefix (next_version p)))"
      using q_update(1) [OF r m, of p a] by (simp add: sql_storage_def)
    show "wf_prefix p \<Longrightarrow> m (Cidr p) = Some a \<Longrightarrow> aVersion a \<noteq> version p \<Longrightarrow>
      \<exists>e s'. UpdatePrefix (sql_storage db) p ns r = (Inl e, s') \<and> errors_is e ErrOptimisticLockError \<and>
        qinv s' \<and> qview s' = qview r"
      using q_update(2) [OF r m, of p] by (simp add: sql_storage_def)
    show "wf_prefix p \<Longrightarrow> m (Cidr p) = None \<Longrightarrow> \<exists>e s'. UpdatePrefix (sql_storage db) p ns r = (Inl e, s') \<and>
        qinv s' \<and> qview s' = qview r"
      using q_update(2) [OF r m, of p] by (auto simp: sql_storage_def)
    show "wf_prefix p \<Longrightarrow> m (Cidr p) = Some a \<Longrightarrow> \<exists>q s'. DeletePrefix (sql_storage db) p ns r = (Inr q, s') \<and>
        (abs_prefix p = a \<longrightarrow> abs_prefix q = a) \<and> qinv s' \<and> qview s' = (qview r)(ns \<mapsto> m(Cidr p := None))"
      using q_delete [OF r m, of p] by (auto simp: sql_storage_def)
    show "wf_prefix p \<Longrightarrow> m (Cidr p) = None \<Longrightarrow> DeletePrefix (sql_storage db) p ns r = (x, r') \<Longrightarrow>
        qinv r' \<and> qview r' = qview r"
      using q_delete [OF r m, of p] m by (auto simp: sql_storage_def fun_upd_idem)
    show "\<exists>s'. DeleteNamespace (sql_storage db) ns r = (Inr (), s') \<and> qinv s' \<and> qview s' = (qview r)(ns := None)"
      using q_delete_ns [OF r m] by (simp add: sql_storage_def)
  }
  show "sql_name_ok n ns \<Longrightarrow> \<exists>s'. CreateNamespace (sql_storage db) ns r = (Inr (), s') \<and> qinv s' \<and>
      qview s' = (case qview r ns of None \<Rightarrow> (qview r)(ns \<mapsto> Map.empty) | Some m \<Rightarrow> qview r)"
    using q_create_ns [OF r] by (simp add: sql_storage_def)
  show "\<exists>nss s'. ListNamespaces (sql_storage db) r = (Inr nss, s') \<and> distinct nss \<and> set nss = dom (qview r) \<and>
      qinv s' \<and> qview s' = qview r"
  proof -
    obtain nss d where l: "sql_ListNamespaces db r = (Inr nss, r\<lparr>s_db := d, s_tables := set nss\<rparr>)" "distinct nss"
        "set nss = dom (qview r)" "tabs d = tabs (s_db r)" "qinv (r\<lparr>s_db := d, s_tables := set nss\<rparr>)"
      using q_list [OF r] by blast
    have "qview (r\<lparr>s_db := d, s_tables := set nss\<rparr>) = qview r"
      by (rule ext) (simp add: sql_view_def l(4))
    with l show ?thesis
      by (simp add: sql_storage_def)
  qed
  { assume none: "qview r ns = None"
    obtain r1 where "sql_checkNamespaceExists db ns r = (Inl (Sentinel ErrNamespaceDoesNotExist), r1)" "qinv r1" "qview r1 = qview r"
      using q_missing [OF r none] .
    then show "(\<exists>e s'. CreatePrefix (sql_storage db) p ns r = (Inl e, s') \<and> errors_is e ErrNamespaceDoesNotExist \<and> qinv s' \<and> qview s' = qview r) \<and>
      (\<exists>e s'. ReadPrefix (sql_storage db) c ns r = (Inl e, s') \<and> errors_is e ErrNamespaceDoesNotExist \<and> qinv s' \<and> qview s' = qview r) \<and>
      (\<exists>e s'. ReadAllPrefixes (sql_storage db) ns r = (Inl e, s') \<and> errors_is e ErrNamespaceDoesNotExist \<and> qinv s' \<and> qview s' = qview r) \<and>
      (\<exists>e s'. ReadAllPrefixCidrs (sql_storage db) ns r = (Inl e, s') \<and> errors_is e ErrNamespaceDoesNotExist \<and> qinv s' \<and> qview s' = qview r) \<and>
      (\<exists>e s'. DeletePrefix (sql_storage db) p ns r = (Inl e, s') \<and> errors_is e ErrNamespaceDoesNotExist \<and> qinv s' \<and> qview s' = qview r) \<and>
      (\<exists>e s'. DeleteNamespace (sql_storage db) ns r = (Inl e, s') \<and> errors_is e ErrNamespaceDoesNotExist \<and> qinv s' \<and> qview s' = qview r) \<and>
      (Cidr p \<noteq> [] \<longrightarrow> (\<exists>e s'. UpdatePrefix (sql_storage db) p ns r = (Inl e, s') \<and> errors_is e ErrNamespaceDoesNotExist \<and> qinv s' \<and> qview s' = qview r))"
      by (simp add: sql_storage_def sql_CreatePrefix_def sql_ReadPrefix_def sql_ReadAllPrefixes_def
          sql_ReadAllPrefixCidrs_def sql_DeletePrefix_def sql_DeleteNamespace_def sql_UpdatePrefix_def)
  }
qed

lemma storage_contract: "full_storage_laws (sql_storage db) qinv qview (sql_name_ok n)"
  by (rule sql.full_storage_laws_axioms)

text \<open>Two names that \<open>CreateNamespace\<close> accepts and whose tables have the same first \<open>n\<close> bytes.\<close>

lemma long_names_share:
  assumes s: "up (s_db s)" "maxIdLength s = int n" "a \<notin> s_tables s" "b \<notin> s_tables s" "a \<noteq> b"
    and names: "plain a" "plain b" "length a \<le> n" "length b \<le> n"
      "take n (table_of a) = take n (table_of b)" "tabs (s_db s) (take n (table_of a)) = None"
    and p: "wf_prefix p" "version p = 0" "Cidr p \<noteq> []"
  shows "\<exists>s1 s2 s3 p' s4. sql_CreateNamespace db a s = (Inr (), s1) \<and> sql_CreateNamespace db b s1 = (Inr (), s2) \<and>
    sql_CreatePrefix db p a s2 = (Inr p, s3) \<and> sql_ReadPrefix db (Cidr p) b s3 = (Inr p', s4) \<and>
    abs_prefix p' = abs_prefix p"
proof -
  let ?t = "take n (table_of a)"
  have id: "ident n (getTableName a) ?t" "ident n (getTableName b) ?t"
    using ident_getTableName [OF names(1) long_enough] ident_getTableName [OF names(2) long_enough] names(5) by simp_all
  obtain d1 where d1: "sql_CreateNamespace db a s = (Inr (), s\<lparr>s_db := d1, s_tables := insert a (s_tables s)\<rparr>)" "up d1"
      "tabs d1 ?t = Some Map.empty"
    using create_ns_run [OF s(1,2) names(3) s(3) id(1)] names(6) by auto
  let ?s1 = "s\<lparr>s_db := d1, s_tables := insert a (s_tables s)\<rparr>"
  obtain d2 where d2: "sql_CreateNamespace db b ?s1 = (Inr (), ?s1\<lparr>s_db := d2, s_tables := insert b (s_tables ?s1)\<rparr>)" "up d2"
      "tabs d2 ?t = Some Map.empty"
    using create_ns_run [of ?s1 b ?t, OF _ _ names(4) _ id(2)] s(2,4,5) d1(2,3) by auto
  let ?s2 = "?s1\<lparr>s_db := d2, s_tables := insert b (s_tables ?s1)\<rparr>"
  have "ready ?s2 a ?t Map.empty"
    using d2(2,3) id(1) by (simp add: ready_def)
  from ready_create [OF this _ p(1)] version_same [OF p(2)] obtain js d3 where
      d3: "sql_CreatePrefix db p a ?s2 = (Inr p, ?s2\<lparr>s_db := d3\<rparr>)" "up d3" "tabs d3 ?t = Some [Cidr p \<mapsto> js]"
      "same_json (marshal_prefix (toPrefixJSON p)) js"
    by auto
  let ?s3 = "?s2\<lparr>s_db := d3\<rparr>"
  have "ready ?s3 b ?t [Cidr p \<mapsto> js]"
    using d3(2,3) id(2) by (simp add: ready_def)
  from ready_read [OF this, of "Cidr p"] obtain d4 where d4: "sql_ReadPrefix db (Cidr p) b ?s3 = (fromJSON js, ?s3\<lparr>s_db := d4\<rparr>)"
    by auto
  obtain p' where "fromJSON js = Inr p'" "abs_prefix p' = abs_prefix p"
    using fromJSON_same [OF d3(4) p(1)] by metis
  with d1(1) d2(1) d3(1) d4 show ?thesis
    by metis
qed

end

section \<open>The contract, and what lies outside it\<close>

text \<open>
  C29: Over a PostgreSQL server that keeps its promises the SQL storage meets the contract of a storage, for
  names of namespaces of printable ASCII characters without the double quote that leave room for the nine bytes
  of \<open>prefixes_\<close> in an identifier.
\<close>

theorem sql_meets_contract:
  assumes "sql_laws db up tabs intx n"
  shows "full_storage_laws (sql_storage db) (sql_inv up tabs n) (sql_view tabs n) (sql_name_ok n)"
  by (rule sql_laws.storage_contract [OF assms])

text \<open>
  \<open>CreateNamespace\<close> compares the length of the name with the limit of identifiers, but the identifier
  is the name after \<open>prefixes_\<close>. For two names within the limit whose table names begin with the same
  \<open>n\<close> bytes, the server gives both namespaces one table: a prefix created in the one is read from the
  other.
\<close>

theorem long_names_share_a_table:
  assumes "sql_laws db up tabs intx n"
    and "up (s_db s)" "maxIdLength s = int n" "a \<notin> s_tables s" "b \<notin> s_tables s" "a \<noteq> b"
    and "plain a" "plain b" "length a \<le> n" "length b \<le> n"
      "take n (table_of a) = take n (table_of b)" "tabs (s_db s) (take n (table_of a)) = None"
    and "wf_prefix p" "version p = 0" "Cidr p \<noteq> []"
  shows "\<exists>s1 s2 s3 p' s4. sql_CreateNamespace db a s = (Inr (), s1) \<and> sql_CreateNamespace db b s1 = (Inr (), s2) \<and>
    sql_CreatePrefix db p a s2 = (Inr p, s3) \<and> sql_ReadPrefix db (Cidr p) b s3 = (Inr p', s4) \<and>
    abs_prefix p' = abs_prefix p"
  by (rule sql_laws.long_names_share [OF assms])

section \<open>A concrete server\<close>

text \<open>
  The reference server finds the table in the text it was given, and keeps its tables as lists, with a
  copy of them while a transaction is open. Any other text is a syntax error.
\<close>

type_synonym ref_tables = "(string \<times> (string \<times> json) list) list"

record ref_sql_db =
  r_tables :: ref_tables
  r_saved :: "ref_tables option"

definition table_arg :: "(string \<Rightarrow> string) \<Rightarrow> nat \<Rightarrow> nat \<Rightarrow> string \<Rightarrow> string option" where
  "table_arg text occurs before q =
     (let x = take ((length q - length (text [])) div occurs) (drop before q) in
      if text x = q then Some x else None)"

definition table_id :: "string \<Rightarrow> string" where
  "table_id x = take 63 (if take 1 x = [CHR 0x22] then butlast (tl x) else x)"

definition syntax_error :: go_error where
  "syntax_error = Errorf ''pq: syntax error'' []"

definition ref_rows :: "string \<Rightarrow> ref_sql_db \<Rightarrow> (string \<times> json) list" where
  "ref_rows x d = (case map_of (r_tables d) (table_id x) of None \<Rightarrow> [] | Some h \<Rightarrow> h)"

definition put_rows :: "string \<Rightarrow> (string \<times> json) list \<Rightarrow> ref_sql_db \<Rightarrow> ref_sql_db" where
  "put_rows x h d = d\<lparr>r_tables := AList.update (table_id x) h (r_tables d)\<rparr>"

definition ref_select_texts :: "string \<Rightarrow> (ref_sql_db, string list) comp" where
  "ref_select_texts q d =
     (if q = list_tables_text then (Inr (filter (\<lambda>t. take 6 t = ''prefix'') (map fst (r_tables d))), d)
      else (case table_arg select_cidrs_text 1 17 q of
          None \<Rightarrow> (Inl syntax_error, d)
        | Some x \<Rightarrow> (Inr (map fst (ref_rows x d)), d)))"

definition ref_select_docs :: "string \<Rightarrow> (ref_sql_db, json list) comp" where
  "ref_select_docs q d = (case table_arg select_docs_text 1 19 q of
      None \<Rightarrow> (Inl syntax_error, d)
    | Some x \<Rightarrow> (Inr (map snd (ref_rows x d)), d))"

definition ref_get_doc :: "string \<Rightarrow> sql_arg list \<Rightarrow> (ref_sql_db, json option) comp" where
  "ref_get_doc q args d = (case (table_arg select_doc_text 1 19 q, args) of
      (Some x, [AText c]) \<Rightarrow> (Inr (map_of (ref_rows x d) c), d)
    | _ \<Rightarrow> (Inl syntax_error, d))"

definition ref_exec :: "string \<Rightarrow> (ref_sql_db, unit) comp" where
  "ref_exec q d = (case table_arg create_table_text 2 28 q of
      Some x \<Rightarrow> (Inr (), if map_of (r_tables d) (table_id x) = None then put_rows x [] d else d)
    | None \<Rightarrow> (case table_arg delete_rows_text 1 12 q of
        Some x \<Rightarrow> (Inr (), put_rows x [] d)
      | None \<Rightarrow> (Inl syntax_error, d)))"

definition row_has :: "(string \<times> json) list \<Rightarrow> string \<Rightarrow> 64 word \<Rightarrow> bool" where
  "row_has h c v \<longleftrightarrow> (case map_of h c of None \<Rightarrow> False | Some js \<Rightarrow> version_member js = Some (sint v))"

definition ref_tx_exec :: "string \<Rightarrow> sql_arg list \<Rightarrow> (ref_sql_db, nat result) comp" where
  "ref_tx_exec q args d =
     (case args of
        [AText c, AJson js] \<Rightarrow> (case table_arg insert_text 1 12 q of
            None \<Rightarrow> (Inl syntax_error, d)
          | Some x \<Rightarrow>
              if map_of (ref_rows x d) c \<noteq> None then (Inl (Errorf ''pq: duplicate key value'' []), d)
              else (Inr (Inr 1), put_rows x (AList.update c js (ref_rows x d)) d))
      | [AText c, AInt v] \<Rightarrow> (case table_arg lock_text 1 19 q of
            None \<Rightarrow> (Inl syntax_error, d)
          | Some x \<Rightarrow> (Inr (Inr (if row_has (ref_rows x d) c v then 1 else 0)), d))
      | [AJson js, AText c, AInt v] \<Rightarrow> (case table_arg update_text 1 7 q of
            None \<Rightarrow> (Inl syntax_error, d)
          | Some x \<Rightarrow>
              if row_has (ref_rows x d) c v then (Inr (Inr 1), put_rows x (AList.update c js (ref_rows x d)) d)
              else (Inr (Inr 0), d))
      | [AText c] \<Rightarrow> (case table_arg delete_text 1 12 q of
            None \<Rightarrow> (Inl syntax_error, d)
          | Some x \<Rightarrow> (Inr (Inr (if map_of (ref_rows x d) c = None then 0 else 1)),
              put_rows x (AList.delete c (ref_rows x d)) d))
      | [] \<Rightarrow> (case table_arg drop_text 1 11 q of
            None \<Rightarrow> (Inl syntax_error, d)
          | Some x \<Rightarrow> (Inr (Inr 0), d\<lparr>r_tables := AList.delete (table_id x) (r_tables d)\<rparr>))
      | _ \<Rightarrow> (Inl syntax_error, d))"

definition ref_sql :: "ref_sql_db sqldb" where
  "ref_sql = \<lparr>SelectTexts = ref_select_texts, SelectDocs = ref_select_docs, GetDoc = ref_get_doc,
     GetInt = (\<lambda>q d. (if q = ''show max_identifier_length'' then Inr 63 else Inl syntax_error, d)),
     Exec = ref_exec,
     Beginx = (\<lambda>d. (Inr (), d\<lparr>r_saved := Some (r_tables d)\<rparr>)),
     TxExec = ref_tx_exec,
     Commit = (\<lambda>d. case r_saved d of
         None \<Rightarrow> (Inl (Errorf ''sql: transaction has already been committed or rolled back'' []), d)
       | Some _ \<Rightarrow> (Inr (), d\<lparr>r_saved := None\<rparr>)),
     Rollback = (\<lambda>d. case r_saved d of
         None \<Rightarrow> (Inl (Errorf ''sql: transaction has already been committed or rolled back'' []), d)
       | Some ts \<Rightarrow> (Inr (), d\<lparr>r_tables := ts, r_saved := None\<rparr>))\<rparr>"

definition tables_ok :: "ref_tables \<Rightarrow> bool" where
  "tables_ok ts \<longleftrightarrow> distinct (map fst ts) \<and> (\<forall>t h. map_of ts t = Some h \<longrightarrow> distinct (map fst h))"

definition tables_view :: "ref_tables \<Rightarrow> string \<rightharpoonup> string \<rightharpoonup> json" where
  "tables_view ts t = map_option map_of (map_of ts t)"

definition ref_sql_up :: "ref_sql_db \<Rightarrow> bool" where
  "ref_sql_up d \<longleftrightarrow> r_saved d = None \<and> tables_ok (r_tables d)"

definition ref_sql_tx :: "ref_sql_db \<Rightarrow> (string \<rightharpoonup> string \<rightharpoonup> json) \<Rightarrow> bool" where
  "ref_sql_tx d T \<longleftrightarrow> tables_ok (r_tables d) \<and> (\<exists>ts. r_saved d = Some ts \<and> tables_ok ts \<and> tables_view ts = T)"

definition ref_sql_tabs :: "ref_sql_db \<Rightarrow> string \<rightharpoonup> string \<rightharpoonup> json" where
  "ref_sql_tabs d = tables_view (r_tables d)"

lemma table_arg_texts [simp]:
  "table_arg select_cidrs_text (Suc 0) 17 (select_cidrs_text x) = Some x" "table_arg select_docs_text (Suc 0) 19 (select_docs_text x) = Some x"
  "table_arg select_doc_text (Suc 0) 19 (select_doc_text x) = Some x" "table_arg delete_rows_text (Suc 0) 12 (delete_rows_text x) = Some x"
  "table_arg insert_text (Suc 0) 12 (insert_text x) = Some x" "table_arg lock_text (Suc 0) 19 (lock_text x) = Some x"
  "table_arg update_text (Suc 0) 7 (update_text x) = Some x" "table_arg delete_text (Suc 0) 12 (delete_text x) = Some x"
  "table_arg drop_text (Suc 0) 11 (drop_text x) = Some x"
  by (simp_all add: table_arg_def select_cidrs_text_def select_docs_text_def select_doc_text_def delete_rows_text_def
      insert_text_def lock_text_def update_text_def delete_text_def drop_text_def)

lemma table_arg_create [simp]:
  "table_arg create_table_text 2 28 (create_table_text x) = Some x" "table_arg create_table_text 2 28 (delete_rows_text x) = None"
  "select_cidrs_text x \<noteq> list_tables_text"
  by (simp_all add: table_arg_def create_table_text_def delete_rows_text_def select_cidrs_text_def list_tables_text_def Let_def)

lemma table_id_ident: "ident 63 x t \<Longrightarrow> table_id x = t"
  by (auto simp: ident_def table_id_def quoted_def)

lemma ref_rowsD:
  assumes "ident 63 x t" "tables_ok (r_tables d)" "ref_sql_tabs d t = Some h"
  shows "map_of (ref_rows x d) = h" "distinct (map fst (ref_rows x d))" "map_of (r_tables d) (table_id x) \<noteq> None"
  using assms by (auto simp: ref_rows_def table_id_ident ref_sql_tabs_def tables_view_def tables_ok_def)

lemma put_rows_simps [simp]: "r_saved (put_rows x es d) = r_saved d"
  by (simp add: put_rows_def)

lemma put_rows_tabs:
  assumes "ident 63 x t" "tables_ok (r_tables d)" "distinct (map fst es)"
  shows "tables_ok (r_tables (put_rows x es d))" "ref_sql_tabs (put_rows x es d) = (ref_sql_tabs d)(t \<mapsto> map_of es)"
  using assms by (auto simp: put_rows_def tables_ok_def ref_sql_tabs_def tables_view_def table_id_ident
      distinct_update update_conv' fun_eq_iff)

lemma put_rows_up:
  assumes "ident 63 x t" "ref_sql_up d" "distinct (map fst es)"
  shows "ref_sql_up (put_rows x es d)" "ref_sql_tabs (put_rows x es d) = (ref_sql_tabs d)(t \<mapsto> map_of es)"
  using put_rows_tabs [OF assms(1) _ assms(3)] assms(2) by (simp_all add: ref_sql_up_def)

lemma put_rows_tx:
  assumes "ident 63 x t" "ref_sql_tx d T" "distinct (map fst es)"
  shows "ref_sql_tx (put_rows x es d) T" "ref_sql_tabs (put_rows x es d) = (ref_sql_tabs d)(t \<mapsto> map_of es)"
  using put_rows_tabs [OF assms(1) _ assms(3)] assms(2) by (simp_all add: ref_sql_tx_def)

interpretation rq: sql_laws ref_sql ref_sql_up ref_sql_tabs ref_sql_tx 63
proof unfold_locales
  fix d x t h c T k v and js new :: json
  { assume up: "ref_sql_up d"
    then have ok: "tables_ok (r_tables d)" "distinct (map fst (r_tables d))" "r_saved d = None"
      by (simp_all add: ref_sql_up_def tables_ok_def)
    show "\<exists>d'. GetInt ref_sql ''show max_identifier_length'' d = (Inr (int 63), d') \<and> ref_sql_up d' \<and> ref_sql_tabs d' = ref_sql_tabs d"
      using up by (simp add: ref_sql_def)
    show "\<exists>ts d'. SelectTexts ref_sql list_tables_text d = (Inr ts, d') \<and> distinct ts \<and>
        set ts = {t \<in> dom (ref_sql_tabs d). take 6 t = ''prefix''} \<and> ref_sql_up d' \<and> ref_sql_tabs d' = ref_sql_tabs d"
    proof -
      have "dom (ref_sql_tabs d) = fst ` set (r_tables d)"
        by (auto simp: ref_sql_tabs_def tables_view_def dom_map_of_conv_image_fst [symmetric] domIff)
      then show ?thesis
        using up ok(2) by (auto simp: ref_sql_def ref_select_texts_def)
    qed
    show "\<exists>d'. Beginx ref_sql d = (Inr (), d') \<and> ref_sql_tx d' (ref_sql_tabs d) \<and> ref_sql_tabs d' = ref_sql_tabs d"
      using ok(1) by (simp add: ref_sql_def ref_sql_tx_def ref_sql_tabs_def)
    show "\<exists>r d'. Rollback ref_sql d = (r, d') \<and> ref_sql_up d' \<and> ref_sql_tabs d' = ref_sql_tabs d"
      using up ok(3) by (simp add: ref_sql_def)
    assume x: "ident 63 x t"
    show "\<exists>d'. Exec ref_sql (create_table_text x) d = (Inr (), d') \<and> ref_sql_up d' \<and>
        ref_sql_tabs d' = (if ref_sql_tabs d t = None then (ref_sql_tabs d)(t \<mapsto> Map.empty) else ref_sql_tabs d)"
      using up put_rows_up [OF x up, of "[]"] table_id_ident [OF x]
      by (auto simp: ref_sql_def ref_exec_def ref_sql_tabs_def tables_view_def)
    assume h: "ref_sql_tabs d t = Some h"
    note rows = ref_rowsD [OF x ok(1) h]
    have dom: "set (map fst (ref_rows x d)) = dom h"
      using dom_map_of_conv_image_fst [of "ref_rows x d"] rows(1) by simp
    show "\<exists>cs d'. SelectTexts ref_sql (select_cidrs_text x) d = (Inr cs, d') \<and> distinct cs \<and> set cs = dom h \<and>
        ref_sql_up d' \<and> ref_sql_tabs d' = ref_sql_tabs d"
      using up rows(2) dom by (simp add: ref_sql_def ref_select_texts_def)
    show "\<exists>cs d'. SelectDocs ref_sql (select_docs_text x) d = (Inr (map (the \<circ> h) cs), d') \<and> distinct cs \<and>
        set cs = dom h \<and> ref_sql_up d' \<and> ref_sql_tabs d' = ref_sql_tabs d"
    proof -
      have "map snd (ref_rows x d) = map (the \<circ> h) (map fst (ref_rows x d))"
        using rows(1,2) by (auto simp: map_of_is_SomeI)
      then show ?thesis
        using up rows(2) dom by (intro exI [of _ "map fst (ref_rows x d)"] exI [of _ d]) (simp add: ref_sql_def ref_select_docs_def)
    qed
    show "\<exists>d'. GetDoc ref_sql (select_doc_text x) [AText c] d = (Inr (h c), d') \<and> ref_sql_up d' \<and> ref_sql_tabs d' = ref_sql_tabs d"
      using up rows(1) by (simp add: ref_sql_def ref_get_doc_def)
    show "\<exists>d'. Exec ref_sql (delete_rows_text x) d = (Inr (), d') \<and> ref_sql_up d' \<and> ref_sql_tabs d' = (ref_sql_tabs d)(t \<mapsto> Map.empty)"
      using put_rows_up [OF x up, of "[]"] by (simp add: ref_sql_def ref_exec_def)
  }
  { assume tx: "ref_sql_tx d T"
    then have ok: "tables_ok (r_tables d)" "\<exists>ts. r_saved d = Some ts \<and> tables_ok ts \<and> tables_view ts = T"
      by (simp_all add: ref_sql_tx_def)
    show "\<exists>d'. Commit ref_sql d = (Inr (), d') \<and> ref_sql_up d' \<and> ref_sql_tabs d' = ref_sql_tabs d"
      using ok by (auto simp: ref_sql_def ref_sql_up_def ref_sql_tabs_def)
    show "\<exists>r d'. Rollback ref_sql d = (r, d') \<and> ref_sql_up d' \<and> ref_sql_tabs d' = T"
      using ok by (auto simp: ref_sql_def ref_sql_up_def ref_sql_tabs_def)
    assume x: "ident 63 x t" and h: "ref_sql_tabs d t = Some h"
    note rows = ref_rowsD [OF x ok(1) h]
    note put = put_rows_tx [OF x tx]
    show "h c = None \<Longrightarrow> same_json js js \<Longrightarrow> \<exists>js' d'. TxExec ref_sql (insert_text x) [AText c, AJson js] d = (Inr (Inr 1), d') \<and>
        same_json js js' \<and> ref_sql_tx d' T \<and> ref_sql_tabs d' = (ref_sql_tabs d)(t \<mapsto> h(c \<mapsto> js'))"
      using put [of "AList.update c js (ref_rows x d)"] rows
      by (auto simp: ref_sql_def ref_tx_exec_def distinct_update update_conv')
    show "h c = None \<or> (\<exists>js. h c = Some js \<and> version_member js = Some k) \<Longrightarrow>
        \<exists>d'. TxExec ref_sql (lock_text x) [AText c, AInt v] d = (Inr (Inr (if h c \<noteq> None \<and> k = sint v then 1 else 0)), d') \<and>
          ref_sql_tx d' T \<and> ref_sql_tabs d' = ref_sql_tabs d"
      using tx rows(1) by (auto simp: ref_sql_def ref_tx_exec_def row_has_def)
    show "h c = Some js \<Longrightarrow> version_member js = Some (sint v) \<Longrightarrow> same_json new new \<Longrightarrow>
        \<exists>new' d'. TxExec ref_sql (update_text x) [AJson new, AText c, AInt v] d = (Inr (Inr 1), d') \<and>
          same_json new new' \<and> ref_sql_tx d' T \<and> ref_sql_tabs d' = (ref_sql_tabs d)(t \<mapsto> h(c \<mapsto> new'))"
      using put [of "AList.update c new (ref_rows x d)"] rows
      by (auto simp: ref_sql_def ref_tx_exec_def row_has_def distinct_update update_conv')
    show "\<exists>k d'. TxExec ref_sql (delete_text x) [AText c] d = (Inr (Inr k), d') \<and> ref_sql_tx d' T \<and>
        ref_sql_tabs d' = (ref_sql_tabs d)(t \<mapsto> h(c := None))"
      using put [of "AList.delete c (ref_rows x d)"] rows
      by (simp add: ref_sql_def ref_tx_exec_def distinct_delete delete_conv')
    show "\<exists>k d'. TxExec ref_sql (drop_text x) [] d = (Inr (Inr k), d') \<and> ref_sql_tx d' T \<and>
        ref_sql_tabs d' = (ref_sql_tabs d)(t := None)"
      using ok table_id_ident [OF x] by (auto simp: ref_sql_def ref_tx_exec_def ref_sql_tx_def tables_ok_def ref_sql_tabs_def
          tables_view_def distinct_delete delete_conv' fun_eq_iff)
  }
qed simp

section \<open>Instances\<close>

definition sample_sql :: "ref_sql_db sql" where
  "sample_sql = \<lparr>s_db = \<lparr>r_tables = [(''prefixes'', []), (''prefixes_tenant'', [(''172.16.0.0/12'', json12)])], r_saved = None\<rparr>,
     maxIdLength = 63, s_tables = {''root''}\<rparr>"

definition long_name :: "string \<Rightarrow> string" where
  "long_name x = ''customer-d4546731-6056-4b48-80e9-ef924ca7f651-production-'' @ x"

theorem long_names_share_a_table_witness:
  "\<exists>s1 s2 s3 p' s4. sql_CreateNamespace ref_sql (long_name ''a'') sample_sql = (Inr (), s1) \<and>
    sql_CreateNamespace ref_sql (long_name ''b'') s1 = (Inr (), s2) \<and>
    sql_CreatePrefix ref_sql prefix12 (long_name ''a'') s2 = (Inr prefix12, s3) \<and>
    sql_ReadPrefix ref_sql (Cidr prefix12) (long_name ''b'') s3 = (Inr p', s4) \<and> abs_prefix p' = abs_prefix prefix12"
  by (rule long_names_share_a_table [OF rq.sql_laws_axioms])
    (simp_all add: sample_sql_def ref_sql_up_def tables_ok_def long_name_def plain_def table_of_def defaultNamespace_def
      ref_sql_tabs_def tables_view_def prefix12_ok)

lemma sample_sql_inv: "sql_inv ref_sql_up ref_sql_tabs 63 sample_sql"
    "sql_view ref_sql_tabs 63 sample_sql ''tenant'' = Some [''172.16.0.0/12'' \<mapsto> abs_prefix prefix12]"
proof -
  have js: "same_json (marshal_prefix (toPrefixJSON prefix12)) json12"
    using marshal_unambiguous [OF prefix12_ok(1)] by (simp add: json12_def)
  have rows: "rows_ok [''172.16.0.0/12'' \<mapsto> json12]"
    using rows_store(1) [OF rows_ok_empty js prefix12_ok(1)] prefix12_ok(2) by simp
  have t: "''prefixes'' = table_of ''root''" "''prefixes_tenant'' = table_of ''tenant''"
      "sql_name_ok 63 ''root''" "sql_name_ok 63 ''tenant''"
    by (simp_all add: table_of_def defaultNamespace_def sql_name_ok_def plain_def)
  have "(\<exists>ns. sql_name_ok 63 ns \<and> t = table_of ns) \<and> rows_ok h" if "ref_sql_tabs (s_db sample_sql) t = Some h" for t h
  proof -
    have "t = ''prefixes'' \<and> h = Map.empty \<or> t = ''prefixes_tenant'' \<and> h = [''172.16.0.0/12'' \<mapsto> json12]"
      using that by (auto simp: sample_sql_def ref_sql_tabs_def tables_view_def split: if_split_asm)
    with t rows show ?thesis
      by auto
  qed
  moreover have "ref_sql_up (s_db sample_sql)"
    by (simp add: sample_sql_def ref_sql_up_def tables_ok_def)
  ultimately show "sql_inv ref_sql_up ref_sql_tabs 63 sample_sql"
    using t(3) by (simp add: sql_inv_def sample_sql_def ref_sql_tabs_def tables_view_def table_of_def defaultNamespace_def)
  show "sql_view ref_sql_tabs 63 sample_sql ''tenant'' = Some [''172.16.0.0/12'' \<mapsto> abs_prefix prefix12]"
    using json12_ok(2) t(4) by (simp add: sql_view_def sample_sql_def ref_sql_tabs_def tables_view_def t(2) [symmetric])
qed

theorem sql_meets_contract_witness:
  "full_storage_laws (sql_storage ref_sql) (sql_inv ref_sql_up ref_sql_tabs 63) (sql_view ref_sql_tabs 63) (sql_name_ok 63) \<and>
    sql_inv ref_sql_up ref_sql_tabs 63 sample_sql"
  using sql_meets_contract [OF rq.sql_laws_axioms] sample_sql_inv(1) by blast

text \<open>The texts of the statements as the reference server reads them.\<close>

lemma sample_texts:
  "getTableName ''a-b'' = [CHR 0x22] @ ''prefixes_a-b'' @ [CHR 0x22]"
  "table_id (getTableName (long_name ''a'')) = table_id (getTableName (long_name ''b''))"
  by code_simp+

end
