(* ===== verification/Concurrency.thy ===== *)
theory Concurrency
  imports Ipamer_Prefixes
begin

text \<open>
  Several processes on one storage (\<^verbatim>\<open>src/prefix.go\<close>): each acquires or releases addresses or child
  prefixes of one prefix by reading the prefix, changing its copy, and writing the copy back, and the steps
  of the processes interleave in any order. \<open>acquire_rest\<close>, \<open>release_rest\<close>, \<open>acquire_child_rest\<close> and
  \<open>release_child_rest\<close> are the handlers after their read, up to the write. A step relation runs them against
  the storage, whatever it is, with its contract as the only assumption; the log records the successful
  writes in their order. Every reachable configuration has the storage in the state the log gives when it is
  replayed by one process, so no address is handed out twice, not as an address and not in two children. The
  creation and deletion of the child itself, after the write to its parent, is a step elsewhere.
\<close>

section \<open>The handlers after their read\<close>

definition acquire_rest ::
  "('b, 't) netipx \<Rightarrow> 's storage \<Rightarrow> string \<Rightarrow> string \<Rightarrow> string \<Rightarrow> Prefix \<Rightarrow> ('s, IP) comp" where
  "acquire_rest nx st namespace prefixCidr specificIP prefix s =
     (if isParent prefix then
        (Inl (Errorf ''prefix %s has childprefixes, acquire ip not possible'' []), s)
      else (case ParsePrefix (Cidr prefix) of
        Inl err \<Rightarrow> (Inl err, s)
      | Inr ipnet \<Rightarrow>
      if specificIP \<noteq> [] then
        (case ParseAddr specificIP of
           Inl err \<Rightarrow> (Inl (Errorf ''given ip:%s in not valid'' []), s)
         | Inr specificIPnet \<Rightarrow>
         if \<not> Contains ipnet specificIPnet then (Inl (Errorf ''given ip:%s is not in %s'' []), s)
         else if map_lookup (ips prefix) (addr_String specificIPnet) \<noteq> None then
           (Inl (Errorf ''%w: given ip:%s is already allocated'' [Sentinel ErrAlreadyAllocated]), s)
         else acquireAndStore st namespace prefix specificIPnet s)
      else (case next_free ipnet (ips prefix) (fst (RangeOfPrefix nx ipnet)) of
          Some ip \<Rightarrow> acquireAndStore st namespace prefix ip s
        | None \<Rightarrow>
            (Inl (Errorf ''%w: no more ips in prefix: %s left, length of prefix.ips: %d''
               [Sentinel ErrNoIPAvailable]), s))))"

definition release_rest :: "'s storage \<Rightarrow> string \<Rightarrow> string \<Rightarrow> Prefix \<Rightarrow> ('s, unit) comp" where
  "release_rest st namespace ip prefix s =
     (if map_lookup (ips prefix) ip = None then
        (Inl (Errorf ''%w: unable to release ip:%s because it is not allocated in prefix:%s''
           [Sentinel ErrNotFound]), s)
      else (case UpdatePrefix st (prefix\<lparr>ips := map_delete (ips prefix) ip\<rparr>) namespace s of
          (Inl err, s) \<Rightarrow> (Inl (Errorf ''unable to release ip %v:%w'' [err]), s)
        | (Inr _, s) \<Rightarrow> (Inr (), s)))"

text \<open>
  \<open>acquireChildPrefixInternal\<close> after its read of the parent: the choice of the child and the write to the
  parent, then the creation of the child.
\<close>

definition mark_child :: "'s storage \<Rightarrow> string \<Rightarrow> Prefix \<Rightarrow> netip_prefix \<Rightarrow> ('s, netip_prefix) comp" where
  "mark_child st namespace parent cp s =
     (if \<not> IsValid cp then (Inl (Errorf ''acquired child prefix:%s is not valid'' []), s)
      else
      (case map_insert (availableChildPrefixes parent) (prefix_String cp) False of
        Inl err \<Rightarrow> (Inl err, s)
      | Inr acp \<Rightarrow>
      let parent = parent\<lparr>availableChildPrefixes := acp, isParent := True\<rparr> in
      (case UpdatePrefix st parent namespace s of
        (Inl err, s) \<Rightarrow> (Inl (Errorf ''unable to update parent prefix:%v error:%w'' [err]), s)
      | (Inr _, s) \<Rightarrow> (Inr cp, s))))"

definition create_child ::
  "('b, 't) netipx \<Rightarrow> 's storage \<Rightarrow> string \<Rightarrow> string \<Rightarrow> netip_prefix \<Rightarrow> ('s, Prefix) comp" where
  "create_child nx st namespace parentCidr cp s =
     (case newPrefix nx (prefix_String cp) parentCidr of
        Inl err \<Rightarrow> (Inl (Errorf ''unable to persist created child:%w'' [err]), s)
      | Inr child \<Rightarrow>
      (case CreatePrefix st child namespace s of
        (Inl err, s) \<Rightarrow> (Inl (Errorf ''unable to update parent prefix:%v error:%w'' [err]), s)
      | (Inr _, s) \<Rightarrow> (Inr child, s)))"

definition acquire_child_rest ::
  "('b, 't) netipx \<Rightarrow> 's storage \<Rightarrow> string \<Rightarrow> string \<Rightarrow> int \<Rightarrow> Prefix \<Rightarrow> ('s, netip_prefix) comp" where
  "acquire_child_rest nx st namespace childCidr len parent s =
     (let specificChildRequest = (childCidr \<noteq> []) in
      case ParsePrefix (Cidr parent) of
        Inl err \<Rightarrow> (Inl (Errorf ''unable to parse parent.cidr:%s of parentCidr:%s %w'' [err]), s)
      | Inr ipprefix \<Rightarrow>
      (case (if specificChildRequest then
               (case ParsePrefix childCidr of
                  Inl err \<Rightarrow> Inl (Errorf ''unable to parse childCidr:%s %w'' [err])
                | Inr childprefix \<Rightarrow> Inr (Some childprefix, Bits childprefix))
             else Inr (None, len)) of
        Inl err \<Rightarrow> (Inl err, s)
      | Inr (childprefix, len) \<Rightarrow>
      if len \<le> Bits ipprefix then
        (Inl (Errorf ''given length:%d must be greater than prefix length:%d'' []), s)
      else if hasIPs parent then
        (Inl (Errorf ''prefix %s has ips, acquire child prefix not possible'' []), s)
      else
      (case remove_children nx (map_entries (availableChildPrefixes parent))
              (AddPrefix nx (emptyBuilder nx) ipprefix) of
        Inl err \<Rightarrow> (Inl err, s)
      | Inr ipsetBuilder \<Rightarrow>
      (case IPSet nx ipsetBuilder of
        Inl err \<Rightarrow> (Inl (Errorf ''error constructing ipset:%w'' [err]), s)
      | Inr ipset \<Rightarrow>
      (case choose_child nx ipset childprefix len of
        Inl err \<Rightarrow> (Inl err, s)
      | Inr cp \<Rightarrow> mark_child st namespace parent cp s)))))"

text \<open>\<open>releaseChildPrefixInternal\<close> after its read of the parent, up to the write to the parent.\<close>

definition release_child_rest :: "'s storage \<Rightarrow> string \<Rightarrow> Prefix \<Rightarrow> Prefix \<Rightarrow> ('s, unit) comp" where
  "release_child_rest st namespace child parent s =
     (if \<not> isParent parent then (Inl (Errorf ''prefix:%q is no child prefix'' []), s)
      else if 2 < map_len (ips child) then
        (Inl (Errorf ''prefix %s has ips, deletion not possible'' []), s)
      else
      (case map_insert (availableChildPrefixes parent) (Cidr child) True of
        Inl err \<Rightarrow> (Inl err, s)
      | Inr acp \<Rightarrow>
      (case UpdatePrefix st (parent\<lparr>availableChildPrefixes := acp\<rparr>) namespace s of
        (Inl err, s) \<Rightarrow>
          (Inl (Errorf ''unable to update parent:%q to release child prefix:%q :%w'' [err]), s)
      | (Inr _, s) \<Rightarrow> (Inr (), s))))"

text \<open>With nothing in between, reading and the rest are the handlers of \<open>Ipamer\<close>.\<close>

lemma acquire_split:
  "acquireSpecificIPInternal nx st ctx namespace prefixCidr specificIP s =
     (case PrefixFrom st ctx prefixCidr s of
        (Inl err, s) \<Rightarrow>
          (Inl (Errorf ''%w: unable to find prefix for cidr:%s error:%s'' [Sentinel ErrNotFound]), s)
      | (Inr prefix, s) \<Rightarrow> acquire_rest nx st namespace prefixCidr specificIP prefix s)"
  by (simp add: acquireSpecificIPInternal_def acquire_rest_def split: prod.split sum.split)

lemma release_split:
  "releaseIPFromPrefixInternal st ctx namespace prefixCidr ip s =
     (case PrefixFrom st ctx prefixCidr s of
        (Inl err, s) \<Rightarrow>
          (Inl (Errorf ''%w: unable to find prefix for cidr:%s error:%s'' [Sentinel ErrNotFound]), s)
      | (Inr prefix, s) \<Rightarrow> release_rest st namespace ip prefix s)"
  by (simp add: releaseIPFromPrefixInternal_def release_rest_def split: prod.split sum.split)

lemma store_child_split:
  "store_child nx st namespace parentCidr parent cp s =
     (case mark_child st namespace parent cp s of
        (Inl err, s) \<Rightarrow> (Inl err, s)
      | (Inr cp, s) \<Rightarrow> create_child nx st namespace parentCidr cp s)"
  by (simp add: store_child_def mark_child_def create_child_def Let_def split: prod.split sum.split)

lemma acquire_child_split:
  "acquireChildPrefixInternal nx st ctx namespace parentCidr childCidr len s =
     (case PrefixFrom st ctx parentCidr s of
        (Inl err, s) \<Rightarrow>
          (Inl (Errorf ''%w: unable to find prefix for cidr:%s error:%s'' [Sentinel ErrNotFound]), s)
      | (Inr parent, s) \<Rightarrow>
      (case acquire_child_rest nx st namespace childCidr len parent s of
        (Inl err, s) \<Rightarrow> (Inl err, s)
      | (Inr cp, s) \<Rightarrow> create_child nx st namespace parentCidr cp s))"
  by (simp add: acquireChildPrefixInternal_def acquire_child_rest_def store_child_split Let_def
      split: prod.split sum.split)

lemma release_child_split_parent:
  "releaseChildPrefixInternal st ctx namespace child s =
     (case PrefixFrom st ctx (ParentCidr child) s of
        (Inl err, s) \<Rightarrow>
          (Inl (Errorf ''%w: unable to find prefix for cidr:%q error:%s'' [Sentinel ErrNotFound]), s)
      | (Inr parent, s) \<Rightarrow>
      (case release_child_rest st namespace child parent s of
        (Inl err, s) \<Rightarrow> (Inl err, s)
      | (Inr _, s) \<Rightarrow>
      (case ipamer_DeletePrefix st ctx (Cidr child) s of
        (Inl err, s) \<Rightarrow> (Inl (Errorf ''unable to delete child prefix:%q :%w'' [err]), s)
      | (Inr _, s) \<Rightarrow> (Inr (), s))))"
  by (simp add: releaseChildPrefixInternal_def release_child_rest_def split: prod.split sum.split)

section \<open>The step relation\<close>

text \<open>
  The requests: an address, any or a wanted one; the release of an address; a child, of a length or a wanted
  one; the release of a child. A release names the prefix in its child, the other requests in their cidr.
\<close>

datatype request = Acquire string | Release string | AcquireChild string "8 word" | ReleaseChild Prefix

datatype event = Acquired addr | Released string | ChildAcquired netip_prefix | ChildReleased string

text \<open>
  Where a process is: without a request, about to read, or holding the copy it read, with the length
  of the log at that time.
\<close>

datatype pc = Idle | Asked request | Holding request Prefix nat

record 's conf =
  shared :: 's
  pcs :: "nat \<Rightarrow> pc"
  log :: "event list"

definition finish ::
  "('b, 't) netipx \<Rightarrow> 's storage \<Rightarrow> ctx \<Rightarrow> string \<Rightarrow> request \<Rightarrow> Prefix \<Rightarrow> ('s, event) comp" where
  "finish nx st ctx cidr r p s = (case r of
      Acquire t \<Rightarrow> (case acquire_rest nx st (namespaceFromContext ctx) cidr t p s of
          (Inl e, s) \<Rightarrow> (Inl e, s) | (Inr ip, s) \<Rightarrow> (Inr (Acquired (IP ip)), s))
    | Release t \<Rightarrow> (case release_rest st (namespaceFromContext ctx) t p s of
          (Inl e, s) \<Rightarrow> (Inl e, s) | (Inr u, s) \<Rightarrow> (Inr (Released t), s))
    | AcquireChild t n \<Rightarrow> (case acquire_child_rest nx st (namespaceFromContext ctx) t (if t = [] then uint n else 0) p s of
          (Inl e, s) \<Rightarrow> (Inl e, s) | (Inr cp, s) \<Rightarrow> (Inr (ChildAcquired cp), s))
    | ReleaseChild child \<Rightarrow> (case release_child_rest st (namespaceFromContext ctx) child p s of
          (Inl e, s) \<Rightarrow> (Inl e, s) | (Inr u, s) \<Rightarrow> (Inr (ChildReleased (Cidr child)), s)))"

text \<open>
  A process that lost the race reads again, or gives up when its attempts are used up.
  \<open>elsewhere\<close> are the steps of the other users of the storage.
\<close>

inductive cstep ::
  "('b, 't) netipx \<Rightarrow> 's storage \<Rightarrow> ctx \<Rightarrow> string \<Rightarrow> ('s \<Rightarrow> 's \<Rightarrow> bool) \<Rightarrow> 's conf \<Rightarrow> 's conf \<Rightarrow> bool"
  for nx st ctx cidr elsewhere where
  ask: "pcs c i = Idle \<Longrightarrow> cstep nx st ctx cidr elsewhere c (c\<lparr>pcs := (pcs c)(i := Asked r)\<rparr>)"
| read_ok: "pcs c i = Asked r \<Longrightarrow> PrefixFrom st ctx cidr (shared c) = (Inr p, s) \<Longrightarrow>
    cstep nx st ctx cidr elsewhere c
      (c\<lparr>shared := s, pcs := (pcs c)(i := Holding r p (length (log c)))\<rparr>)"
| read_error: "pcs c i = Asked r \<Longrightarrow> PrefixFrom st ctx cidr (shared c) = (Inl e, s) \<Longrightarrow>
    cstep nx st ctx cidr elsewhere c (c\<lparr>shared := s, pcs := (pcs c)(i := Idle)\<rparr>)"
| write_ok: "pcs c i = Holding r p k \<Longrightarrow> finish nx st ctx cidr r p (shared c) = (Inr ev, s) \<Longrightarrow>
    cstep nx st ctx cidr elsewhere c
      (c\<lparr>shared := s, pcs := (pcs c)(i := Idle), log := log c @ [ev]\<rparr>)"
| write_error: "pcs c i = Holding r p k \<Longrightarrow> finish nx st ctx cidr r p (shared c) = (Inl e, s) \<Longrightarrow>
    cstep nx st ctx cidr elsewhere c (c\<lparr>shared := s, pcs := (pcs c)(i := Idle)\<rparr>)"
| write_conflict: "pcs c i = Holding r p k \<Longrightarrow> finish nx st ctx cidr r p (shared c) = (Inl e, s) \<Longrightarrow>
    errors_is e ErrOptimisticLockError \<Longrightarrow>
    cstep nx st ctx cidr elsewhere c (c\<lparr>shared := s, pcs := (pcs c)(i := Asked r)\<rparr>)"
| other: "elsewhere (shared c) s \<Longrightarrow> cstep nx st ctx cidr elsewhere c (c\<lparr>shared := s\<rparr>)"

definition start_conf :: "'s \<Rightarrow> 's conf" where
  "start_conf s = \<lparr>shared = s, pcs = \<lambda>i. Idle, log = []\<rparr>"

text \<open>Replaying a log on the prefix, one write after the other, and when a log is in order.\<close>

primrec apply_event :: "event \<Rightarrow> aprefix \<Rightarrow> aprefix" where
  "apply_event (Acquired ip) a = take_ip ip a"
| "apply_event (Released t) a = drop_ip t a"
| "apply_event (ChildAcquired r) a = give_child (prefix_String r) a"
| "apply_event (ChildReleased t) a = take_back t a"

primrec allowed :: "netip_prefix \<Rightarrow> event \<Rightarrow> aprefix \<Rightarrow> bool" where
  "allowed q (Acquired ip) a \<longleftrightarrow> \<not> aIsParent a \<and> ip \<in> free_ips q a"
| "allowed q (Released t) a \<longleftrightarrow> aIPs a t \<noteq> None"
| "allowed q (ChildAcquired r) a \<longleftrightarrow> IsValid r \<and> Bits q < Bits r \<and> \<not> has_ips q a \<and> block r \<subseteq> free_space q (aChildren a)"
| "allowed q (ChildReleased t) a \<longleftrightarrow> aIsParent a"

definition replay :: "event list \<Rightarrow> aprefix \<Rightarrow> aprefix" where
  "replay = fold apply_event"

definition in_order :: "netip_prefix \<Rightarrow> aprefix \<Rightarrow> event list \<Rightarrow> bool" where
  "in_order q a es \<longleftrightarrow> (\<forall>k < length es. allowed q (es ! k) (replay (take k es) a))"

lemma replay_simps [simp]:
  "replay [] a = a" "replay (es @ [e]) a = apply_event e (replay es a)"
  by (simp_all add: replay_def)

lemma apply_event_simps [simp]:
  "aCidr (apply_event e a) = aCidr a" "aVersion (apply_event e a) = aVersion a + 1"
  by (cases e; simp)+

lemma replay_frame [simp]: "aCidr (replay es a) = aCidr a" "aVersion (replay es a) = aVersion a + of_nat (length es)"
  by (induction es rule: rev_induct) simp_all

lemma in_order_snoc [simp]:
  "in_order q a (es @ [e]) \<longleftrightarrow> in_order q a es \<and> allowed q e (replay es a)"
  by (auto simp: in_order_def less_Suc_eq nth_append)

lemma in_order_Nil [simp]: "in_order q a []"
  by (simp add: in_order_def)



section \<open>Errors that are no conflicts\<close>

lemma remove_children_Inl: "remove_children nx cs b = Inl e \<Longrightarrow> \<not> errors_is e x"
  by (induction cs arbitrary: b) (auto dest: plain_ParsePrefix split: if_split_asm prod.split_asm sum.split_asm)

lemma remove_children_Inr: "remove_children nx cs b = Inr b' \<Longrightarrow> b' = remove_unavailable nx cs b"
  by (induction cs arbitrary: b) (auto split: if_split_asm prod.split_asm sum.split_asm)

section \<open>One write\<close>

context storage_laws
begin

lemma acquireAndStore_cases:
  assumes "invar s" "view s (namespaceFromContext ctx) = Some m" "m (Cidr p) = Some a" "wf_prefix p"
    and run: "acquireAndStore st (namespaceFromContext ctx) p ip s = (r, s')"
  shows "invar s'"
    and "aVersion a = version p \<Longrightarrow> r = Inr \<lparr>IP = ip, ParentPrefix = Cidr p\<rparr> \<and>
      view s' = put (view s) ctx (take_ip ip (abs_prefix p))"
    and "aVersion a \<noteq> version p \<Longrightarrow> \<exists>e. r = Inl e \<and> errors_is e ErrOptimisticLockError \<and> view s' = view s"
proof -
  have ok: "map_ok (ips p)"
    using assms(4) by (simp add: wf_prefix_def)
  obtain im where im: "map_insert (ips p) (addr_String ip) True = Inr im"
    using map_ok_insert_ex [OF ok] by blast
  let ?p = "p\<lparr>ips := im\<rparr>"
  have wf: "wf_prefix ?p"
    using assms(4) map_insert_ok [OF im ok] by (simp add: wf_prefix_def)
  have abs: "abs_prefix (next_version ?p) = take_ip ip (abs_prefix p)"
    by (simp add: abs_prefix_def next_version_def take_ip_def map_insert_Inr [OF im])
  have at: "m (Cidr ?p) = Some a"
    using assms(3) by simp
  have "invar s' \<and> r = Inr \<lparr>IP = ip, ParentPrefix = Cidr p\<rparr> \<and>
      view s' = put (view s) ctx (take_ip ip (abs_prefix p))" if "aVersion a = version p"
    using update [OF assms(1,2) wf at] that run im abs assms(2)
    by (auto simp: acquireAndStore_def put_def)
  moreover have "invar s' \<and> (\<exists>e. r = Inl e \<and> errors_is e ErrOptimisticLockError \<and> view s' = view s)"
    if "aVersion a \<noteq> version p"
    using update_stale [OF assms(1,2) wf at] that run im by (auto simp: acquireAndStore_def)
  ultimately show "invar s'"
    "aVersion a = version p \<Longrightarrow> r = Inr \<lparr>IP = ip, ParentPrefix = Cidr p\<rparr> \<and>
      view s' = put (view s) ctx (take_ip ip (abs_prefix p))"
    "aVersion a \<noteq> version p \<Longrightarrow> \<exists>e. r = Inl e \<and> errors_is e ErrOptimisticLockError \<and> view s' = view s"
    by blast+
qed

text \<open>What the rest of a handler does to a stored prefix of which \<open>p\<close> is a copy, perhaps an old one.\<close>

lemma acquire_rest_cases:
  assumes nx: "netipx_laws nx B BS IS"
    and s: "invar s" "view s (namespaceFromContext ctx) = Some m" "m (Cidr p) = Some a" "wf_prefix p"
    and q: "IsValid q" "Cidr p = key q"
    and run: "acquire_rest nx st (namespaceFromContext ctx) cidr t p s = (r, s')"
  shows "invar s' \<and> (case r of
      Inl e \<Rightarrow> view s' = view s \<and> (errors_is e ErrOptimisticLockError \<longrightarrow> aVersion a \<noteq> version p)
    | Inr ip \<Rightarrow> aVersion a = version p \<and> \<not> isParent p \<and> IP ip \<in> free_ips q (abs_prefix p) \<and> ParentPrefix ip = Cidr p \<and>
        view s' = put (view s) ctx (take_ip (IP ip) (abs_prefix p)))"
proof -
  have parse: "ParsePrefix (Cidr p) = Inr (Masked q)" and v: "IsValid (Masked q)"
    using q ParsePrefix_key by auto
  have mem: "Contains (Masked q) b \<longleftrightarrow> Contains q b" for b
    using block_Masked [OF q(1)] by (auto simp: block_def)
  have range: "fst (RangeOfPrefix nx (Masked q)) = first_addr (Masked q)"
    using netipx_laws.RangeOfPrefix_eq [OF nx v] by simp
  have stored: ?thesis if "acquireAndStore st (namespaceFromContext ctx) p ip s = (r, s')" "\<not> isParent p"
    "Contains (Masked q) ip" "map_lookup (ips p) (addr_String ip) = None" for ip
    using acquireAndStore_cases [OF s that(1)] that(2-4)
    by (cases "aVersion a = version p") (auto simp: mem free_ips_def)
  show ?thesis
    using run stored next_free_first(1) [OF v, of "ips p"] s(1) parse range
    by (auto simp: acquire_rest_def split: if_split_asm sum.split_asm option.split_asm)
qed

lemma release_rest_cases:
  assumes s: "invar s" "view s (namespaceFromContext ctx) = Some m" "m (Cidr p) = Some a" "wf_prefix p"
    and run: "release_rest st (namespaceFromContext ctx) t p s = (r, s')"
  shows "invar s' \<and> (case r of
      Inl e \<Rightarrow> view s' = view s \<and> (errors_is e ErrOptimisticLockError \<longrightarrow> aVersion a \<noteq> version p)
    | Inr u \<Rightarrow> aVersion a = version p \<and> aIPs (abs_prefix p) t \<noteq> None \<and>
        view s' = put (view s) ctx (drop_ip t (abs_prefix p)))"
proof (cases "map_lookup (ips p) t")
  case None
  with run s(1) show ?thesis
    by (auto simp: release_rest_def)
next
  case (Some b)
  let ?p = "p\<lparr>ips := map_delete (ips p) t\<rparr>"
  have wf: "wf_prefix ?p" and at: "m (Cidr ?p) = Some a"
    using s(3,4) by (simp_all add: wf_prefix_def)
  have abs: "abs_prefix (next_version ?p) = drop_ip t (abs_prefix p)"
    by (simp add: abs_prefix_def next_version_def drop_ip_def)
  show ?thesis
  proof (cases "aVersion a = version p")
    case True
    with update [OF s(1,2) wf at] run Some abs s(2) show ?thesis
      by (auto simp: release_rest_def put_def)
  next
    case False
    with update_stale [OF s(1,2) wf at] run Some show ?thesis
      by (auto simp: release_rest_def)
  qed
qed

lemma mark_child_cases:
  assumes s: "invar s" "view s (namespaceFromContext ctx) = Some m" "m (Cidr p) = Some a" "wf_prefix p"
    and run: "mark_child st (namespaceFromContext ctx) p cp s = (r, s')"
  shows "invar s' \<and> (case r of
      Inl e \<Rightarrow> view s' = view s \<and> (errors_is e ErrOptimisticLockError \<longrightarrow> aVersion a \<noteq> version p)
    | Inr cp' \<Rightarrow> cp' = cp \<and> aVersion a = version p \<and> IsValid cp \<and>
        view s' = put (view s) ctx (give_child (prefix_String cp) (abs_prefix p)))"
proof (cases "IsValid cp")
  case False
  with run s(1) show ?thesis
    by (auto simp: mark_child_def)
next
  case True
  have ok: "map_ok (availableChildPrefixes p)"
    using s(4) by (simp add: wf_prefix_def)
  obtain acp where acp: "map_insert (availableChildPrefixes p) (prefix_String cp) False = Inr acp"
    using map_ok_insert_ex [OF ok] by blast
  let ?p = "p\<lparr>availableChildPrefixes := acp, isParent := True\<rparr>"
  have wf: "wf_prefix ?p" and at: "m (Cidr ?p) = Some a"
    using s(3,4) map_insert_ok [OF acp ok] by (simp_all add: wf_prefix_def)
  have abs: "abs_prefix (next_version ?p) = give_child (prefix_String cp) (abs_prefix p)"
    by (simp add: abs_prefix_def next_version_def give_child_def map_insert_Inr [OF acp])
  show ?thesis
  proof (cases "aVersion a = version p")
    case eq: True
    with update [OF s(1,2) wf at] run True acp abs s(2) show ?thesis
      by (auto simp: mark_child_def put_def)
  next
    case False
    with update_stale [OF s(1,2) wf at] run True acp show ?thesis
      by (auto simp: mark_child_def)
  qed
qed

lemma acquire_child_rest_cases:
  assumes nx: "netipx_laws nx B BS IS"
    and s: "invar s" "view s (namespaceFromContext ctx) = Some m" "m (Cidr p) = Some a" "wf_prefix p"
    and q: "IsValid q" "Cidr p = key q"
    and run: "acquire_child_rest nx st (namespaceFromContext ctx) t (if t = [] then uint (n :: 8 word) else 0) p s = (r, s')"
  shows "invar s' \<and> (case r of
      Inl e \<Rightarrow> view s' = view s \<and> (errors_is e ErrOptimisticLockError \<longrightarrow> aVersion a \<noteq> version p)
    | Inr cp \<Rightarrow> aVersion a = version p \<and> allowed q (ChildAcquired cp) (abs_prefix p) \<and>
        view s' = put (view s) ctx (give_child (prefix_String cp) (abs_prefix p)))"
proof -
  have parse: "ParsePrefix (Cidr p) = Inr (Masked q)" and v: "IsValid (Masked q)"
    using q ParsePrefix_key by auto
  have ok: "map_ok (availableChildPrefixes p)"
    using s(4) by (simp add: wf_prefix_def)
  have bits: "Bits (Masked q) = Bits q"
    using q(1) by simp
  let ?rm = "remove_children nx (map_entries (availableChildPrefixes p)) (AddPrefix nx (emptyBuilder nx) (Masked q))"
  define creq where "creq = (if t = [] then Inr (None, uint n) else (case ParsePrefix t of
      Inl err \<Rightarrow> Inl (Errorf ''unable to parse childCidr:%s %w'' [err]) | Inr c \<Rightarrow> Inr (Some c, Bits c)))"
  have rest: "acquire_child_rest nx st (namespaceFromContext ctx) t (if t = [] then uint n else 0) p s =
      (case creq of Inl err \<Rightarrow> (Inl err, s) | Inr (c, len) \<Rightarrow>
        if len \<le> Bits q then (Inl (Errorf ''given length:%d must be greater than prefix length:%d'' []), s)
        else if has_ips q (abs_prefix p) then (Inl (Errorf ''prefix %s has ips, acquire child prefix not possible'' []), s)
        else (case ?rm of Inl err \<Rightarrow> (Inl err, s) | Inr b \<Rightarrow>
        (case IPSet nx b of Inl err \<Rightarrow> (Inl (Errorf ''error constructing ipset:%w'' [err]), s) | Inr fs \<Rightarrow>
        (case choose_child nx fs c len of Inl err \<Rightarrow> (Inl err, s)
         | Inr cp \<Rightarrow> mark_child st (namespaceFromContext ctx) p cp s))))"
    using hasIPs_abs [OF s(4) q(2,1)] parse
    by (cases "t = []") (auto simp: acquire_child_rest_def creq_def Let_def bits split: sum.split)
  show ?thesis
  proof (cases creq)
    case (Inl e)
    then have "\<not> errors_is e ErrOptimisticLockError"
      by (auto simp: creq_def dest: plain_ParsePrefix split: if_split_asm sum.split_asm)
    with run rest Inl s(1) show ?thesis
      by auto
  next
    case req: (Inr cl)
    obtain c len where cl: "cl = (c, len)"
      by fastforce
    show ?thesis
    proof (cases "len \<le> Bits q \<or> has_ips q (abs_prefix p)")
      case True
      with run rest req cl s(1) show ?thesis
        by (auto split: if_split_asm)
    next
      case go: False
      show ?thesis
      proof (cases ?rm)
        case (Inl e)
        with run rest req cl go s(1) remove_children_Inl [OF Inl] show ?thesis
          by auto
      next
        case b: (Inr b)
        obtain fs where fs: "IPSet nx b = Inr fs" "IS fs = free_space q (aChildren (abs_prefix p))"
          using netipx_laws.available_ipset [OF nx v ok] remove_children_Inr [OF b] q(1)
          by (metis free_space_Masked abs_prefix_simps(4))
        show ?thesis
        proof (cases "choose_child nx fs c len")
          case (Inl e)
          then have "\<not> errors_is e ErrOptimisticLockError"
            by (auto simp: choose_child_def split: option.split_asm prod.split_asm if_split_asm)
          moreover have "r = Inl e \<and> s' = s"
            using run unfolding rest req cl using go b fs(1) Inl by simp
          ultimately show ?thesis
            using s(1) by simp
        next
          case cp: (Inr cp)
          have chosen: "Bits cp = len \<and> block cp \<subseteq> free_space q (aChildren (abs_prefix p))" if "IsValid cp"
          proof (cases "t = []")
            case True
            then have "c = None" "len = uint n"
              using req cl by (simp_all add: creq_def)
            then show ?thesis
              using netipx_laws.choose_length [OF nx q(1) fs(2), of n] cp that by fastforce
          next
            case False
            then obtain c' where "c = Some c'" "len = Bits c'"
              using req cl by (auto simp: creq_def split: sum.split_asm)
            then show ?thesis
              using cp fs(2) netipx_laws.contains_prefix [OF nx, of fs] by (auto simp: choose_child_def split: if_split_asm)
          qed
          have "mark_child st (namespaceFromContext ctx) p cp s = (r, s')"
            using run rest req cl go b fs(1) cp by simp
          from mark_child_cases [OF s this] chosen go show ?thesis
            by (auto split: sum.split)
        qed
      qed
    qed
  qed
qed

lemma release_child_rest_cases:
  assumes s: "invar s" "view s (namespaceFromContext ctx) = Some m" "m (Cidr p) = Some a" "wf_prefix p"
    and run: "release_child_rest st (namespaceFromContext ctx) child p s = (r, s')"
  shows "invar s' \<and> (case r of
      Inl e \<Rightarrow> view s' = view s \<and> (errors_is e ErrOptimisticLockError \<longrightarrow> aVersion a \<noteq> version p)
    | Inr u \<Rightarrow> aVersion a = version p \<and> isParent p \<and> view s' = put (view s) ctx (take_back (Cidr child) (abs_prefix p)))"
proof -
  have ok: "map_ok (availableChildPrefixes p)"
    using s(4) by (simp add: wf_prefix_def)
  obtain acp where acp: "map_insert (availableChildPrefixes p) (Cidr child) True = Inr acp"
    using map_ok_insert_ex [OF ok] by blast
  let ?p = "p\<lparr>availableChildPrefixes := acp\<rparr>"
  have wf: "wf_prefix ?p" and at: "m (Cidr ?p) = Some a"
    using s(3,4) map_insert_ok [OF acp ok] by (simp_all add: wf_prefix_def)
  have abs: "abs_prefix (next_version ?p) = take_back (Cidr child) (abs_prefix p)"
    by (simp add: abs_prefix_def next_version_def take_back_def map_insert_Inr [OF acp])
  show ?thesis
  proof (cases "aVersion a = version p")
    case True
    with update [OF s(1,2) wf at] run acp abs s(1,2) show ?thesis
      by (auto simp: release_child_rest_def put_def split: if_split_asm)
  next
    case False
    with update_stale [OF s(1,2) wf at] run acp s(1) show ?thesis
      by (auto simp: release_child_rest_def split: if_split_asm)
  qed
qed

lemma finish_cases:
  assumes nx: "netipx_laws nx B BS IS"
    and s: "invar s" "view s (namespaceFromContext ctx) = Some m" "m (Cidr p) = Some a" "wf_prefix p"
    and q: "IsValid q" "Cidr p = key q"
    and run: "finish nx st ctx cidr r p s = (res, s')"
  shows "invar s' \<and> (case res of
      Inl e \<Rightarrow> view s' = view s \<and> (errors_is e ErrOptimisticLockError \<longrightarrow> aVersion a \<noteq> version p)
    | Inr ev \<Rightarrow> aVersion a = version p \<and> allowed q ev (abs_prefix p) \<and>
        view s' = put (view s) ctx (apply_event ev (abs_prefix p)))"
proof (cases r)
  case (Acquire t)
  with run acquire_rest_cases [OF nx s q] show ?thesis
    by (fastforce simp: finish_def split: prod.split_asm sum.split_asm)
next
  case (Release t)
  with run release_rest_cases [OF s] show ?thesis
    by (fastforce simp: finish_def split: prod.split_asm sum.split_asm)
next
  case (AcquireChild t n)
  with run acquire_child_rest_cases [OF nx s q] show ?thesis
    by (fastforce simp: finish_def simp del: allowed.simps split: prod.split_asm sum.split_asm)
next
  case (ReleaseChild child)
  with run release_child_rest_cases [OF s] show ?thesis
    by (fastforce simp: finish_def split: prod.split_asm sum.split_asm)
qed

end

section \<open>The invariant\<close>

definition conf_inv ::
  "('s \<Rightarrow> bool) \<Rightarrow> ('s \<Rightarrow> store_view) \<Rightarrow> ctx \<Rightarrow> string \<Rightarrow> netip_prefix \<Rightarrow> aprefix \<Rightarrow> 's conf \<Rightarrow> bool" where
  "conf_inv invar view ctx cidr q a c \<longleftrightarrow> invar (shared c) \<and>
     stored (view (shared c)) ctx cidr = Some (replay (log c) a) \<and> in_order q a (log c) \<and>
     (\<forall>i r p k. pcs c i = Holding r p k \<longrightarrow> k \<le> length (log c) \<and> wf_prefix p \<and> Cidr p = key q \<and>
        abs_prefix p = replay (take k (log c)) a)"

text \<open>The other users of the storage keep its invariant and do not touch the prefix.\<close>

definition leaves_alone ::
  "('s \<Rightarrow> bool) \<Rightarrow> ('s \<Rightarrow> store_view) \<Rightarrow> ctx \<Rightarrow> string \<Rightarrow> ('s \<Rightarrow> 's \<Rightarrow> bool) \<Rightarrow> bool" where
  "leaves_alone invar view ctx cidr elsewhere \<longleftrightarrow> (\<forall>s s'. elsewhere s s' \<longrightarrow> invar s \<longrightarrow>
     invar s' \<and> stored (view s') ctx cidr = stored (view s) ctx cidr)"

lemma cstep_log: "cstep nx st ctx cidr elsewhere c c' \<Longrightarrow> length (log c) \<le> length (log c')"
  by (induction rule: cstep.induct) simp_all

lemma steps_log: "(cstep nx st ctx cidr elsewhere)\<^sup>*\<^sup>* c c' \<Longrightarrow> length (log c) \<le> length (log c')"
  by (induction rule: rtranclp_induct) (auto dest: cstep_log)

text \<open>The versions tell the first \<open>2 ^ 64\<close> states of a log apart.\<close>

lemma version_index:
  assumes "aVersion (replay es a) = aVersion (replay (take k es) a)" "k \<le> length es" "length es < 2 ^ 64"
  shows "k = length es"
proof -
  have "(of_nat (length es) :: 64 word) = of_nat k"
    using assms(1,2) by (simp add: min_def)
  then have "unat (of_nat (length es) :: 64 word) = unat (of_nat k :: 64 word)"
    by simp
  then show ?thesis
    using assms(2,3) by (simp add: unat_of_nat take_bit_nat_eq_self)
qed

lemma stored_frame:
  assumes "stored v ctx cidr = Some a" "ParsePrefix cidr = Inr q" "aCidr b = key q"
  shows "stored (put v ctx b) ctx cidr = Some b"
  using assms(1)
proof (rule stored_Some)
  fix q' m assume "v (namespaceFromContext ctx) = Some m"
  with stored_put [OF _ assms(2)] assms(3) show ?thesis
    by simp
qed

context storage_laws
begin

text \<open>A copy that a process holds against the stored prefix, when the process writes.\<close>

lemma write_cases:
  assumes nx: "netipx_laws nx B BS IS" and q: "ParsePrefix cidr = Inr q" and a: "aCidr a = key q"
    and inv: "conf_inv invar view ctx cidr q a c" and pc: "pcs c i = Holding r p k"
    and run: "finish nx st ctx cidr r p (shared c) = (res, s')"
    and bound: "length (log c) < 2 ^ 64"
  shows "invar s' \<and> (case res of
      Inl e \<Rightarrow> view s' = view (shared c) \<and> (errors_is e ErrOptimisticLockError \<longrightarrow> k < length (log c))
    | Inr ev \<Rightarrow> allowed q ev (replay (log c) a) \<and>
        stored (view s') ctx cidr = Some (apply_event ev (replay (log c) a)))"
proof -
  have s: "invar (shared c)" "stored (view (shared c)) ctx cidr = Some (replay (log c) a)"
    and p: "k \<le> length (log c)" "wf_prefix p" "Cidr p = key q" "abs_prefix p = replay (take k (log c)) a"
    using inv pc by (auto simp: conf_inv_def)
  obtain m where m: "view (shared c) (namespaceFromContext ctx) = Some m" "m (key q) = Some (replay (log c) a)"
    using s(2) q by (elim stored_Some) auto
  have ver: "version p = aVersion (replay (take k (log c)) a)"
    using p(4) by (metis abs_prefix_simps(6))
  have res: "invar s' \<and> (case res of
      Inl e \<Rightarrow> view s' = view (shared c) \<and>
        (errors_is e ErrOptimisticLockError \<longrightarrow> aVersion (replay (log c) a) \<noteq> version p)
    | Inr ev \<Rightarrow> aVersion (replay (log c) a) = version p \<and> allowed q ev (abs_prefix p) \<and>
        view s' = put (view (shared c)) ctx (apply_event ev (abs_prefix p)))"
    using finish_cases [OF nx s(1) m(1) _ p(2) ParsePrefix_valid [OF q] p(3) run] m(2) p(3) by simp
  show ?thesis
  proof (cases res)
    case (Inl e)
    with res have e: "invar s'" "view s' = view (shared c)"
      "errors_is e ErrOptimisticLockError \<Longrightarrow> aVersion (replay (log c) a) \<noteq> version p"
      by simp_all
    have "errors_is e ErrOptimisticLockError \<Longrightarrow> k \<noteq> length (log c)"
      using e(3) ver by force
    then have "errors_is e ErrOptimisticLockError \<longrightarrow> k < length (log c)"
      using p(1) by linarith
    with e(1,2) Inl show ?thesis
      by simp
  next
    case (Inr ev)
    with res ver have "aVersion (replay (log c) a) = aVersion (replay (take k (log c)) a)"
      by (simp del: replay_frame)
    then have "k = length (log c)"
      using p(1) bound by (rule version_index)
    with p(4) have "abs_prefix p = replay (log c) a"
      by simp
    with res Inr stored_frame [OF s(2) q, of "apply_event ev (replay (log c) a)"] a show ?thesis
      by simp
  qed
qed

lemma cstep_inv:
  assumes nx: "netipx_laws nx B BS IS" and q: "ParsePrefix cidr = Inr q" and a: "aCidr a = key q"
    and other: "leaves_alone invar view ctx cidr elsewhere"
    and step: "cstep nx st ctx cidr elsewhere c c'"
    and inv: "conf_inv invar view ctx cidr q a c" and bound: "length (log c) < 2 ^ 64"
  shows "conf_inv invar view ctx cidr q a c'"
  using step
proof cases
  case (ask i r)
  with inv show ?thesis
    by (auto simp: conf_inv_def)
next
  case (read_ok i r p s)
  have s: "invar (shared c)" "stored (view (shared c)) ctx cidr = Some (replay (log c) a)"
    using inv by (auto simp: conf_inv_def)
  obtain p' s' m where p: "PrefixFrom st ctx cidr (shared c) = (Inr p', s')"
      "abs_prefix p' = replay (log c) a" "wf_prefix p'" "Cidr p' = key q" "invar s'" "view s' = view (shared c)"
    using PrefixFrom_stored [OF s] q by (metis sum.inject(2))
  with read_ok inv show ?thesis
    by (auto simp: conf_inv_def)
next
  case (read_error i r e s)
  have s: "invar (shared c)" "stored (view (shared c)) ctx cidr = Some (replay (log c) a)"
    using inv by (auto simp: conf_inv_def)
  with read_error(3) show ?thesis
    using PrefixFrom_stored [OF s] by (metis Inl_Inr_False Pair_inject)
next
  case (write_ok i r p k ev s)
  note w = write_cases [OF nx q a inv write_ok(2,3) bound]
  have "\<forall>j r p k. pcs c' j = Holding r p k \<longrightarrow> pcs c j = Holding r p k \<and> k \<le> length (log c)"
    using inv write_ok(1) by (auto simp: conf_inv_def split: if_split_asm)
  moreover have "abs_prefix p' = replay (take k' (log c')) a \<and> wf_prefix p' \<and> Cidr p' = key q \<and> k' \<le> length (log c')"
    if "pcs c j = Holding r' p' k'" "k' \<le> length (log c)" for j r' p' k'
    using inv that write_ok(1) by (simp add: conf_inv_def le_Suc_eq)
  moreover have "invar (shared c')" "stored (view (shared c')) ctx cidr = Some (replay (log c') a)"
    "in_order q a (log c')"
    using w write_ok(1) inv by (simp_all add: conf_inv_def)
  ultimately show ?thesis
    unfolding conf_inv_def by blast
next
  case (write_error i r p k e s)
  from write_cases [OF nx q a inv write_error(2,3) bound] write_error(1) inv show ?thesis
    by (auto simp: conf_inv_def)
next
  case (write_conflict i r p k e s)
  from write_cases [OF nx q a inv write_conflict(2,3) bound] write_conflict(1) inv show ?thesis
    by (auto simp: conf_inv_def)
next
  case (other s)
  with inv assms(4) show ?thesis
    by (auto simp: conf_inv_def leaves_alone_def)
qed

lemma reachable_inv:
  assumes nx: "netipx_laws nx B BS IS" and q: "ParsePrefix cidr = Inr q"
    and other: "leaves_alone invar view ctx cidr elsewhere"
    and s: "invar s" "stored (view s) ctx cidr = Some a"
    and reach: "(cstep nx st ctx cidr elsewhere)\<^sup>*\<^sup>* (start_conf s) c" and bound: "length (log c) < 2 ^ 64"
  shows "conf_inv invar view ctx cidr q a c"
  using reach bound
proof (induction rule: rtranclp_induct)
  case base
  with s show ?case
    by (simp add: conf_inv_def start_conf_def)
next
  case (step c c')
  note a = stored_cidr [OF s q]
  have "length (log c) < 2 ^ 64"
    using cstep_log [OF step(2)] step.prems by (rule le_less_trans)
  with step.IH show ?case
    using cstep_inv [OF nx q a other step(2)] by blast
qed

end

section \<open>Acquiring and releasing at the same time\<close>



text \<open>
  C26: A process that fails with an optimistic lock conflict lost to another one: since it read the
  prefix, some process has completed a request. So the processes never block each other.
\<close>

theorem conflict_means_progress:
  assumes laws: "storage_laws st invar view ok_ns" "netipx_laws nx B BS IS"
    and s: "invar s" "stored (view s) ctx cidr = Some a" and q: "ParsePrefix cidr = Inr q"
    and other: "leaves_alone invar view ctx cidr elsewhere"
    and reach: "(cstep nx st ctx cidr elsewhere)\<^sup>*\<^sup>* (start_conf s) c" "length (log c) < 2 ^ 64"
    and writing: "pcs c i = Holding r p k" "finish nx st ctx cidr r p (shared c) = (Inl e, s')"
      "errors_is e ErrOptimisticLockError"
  shows "k < length (log c)"
  using storage_laws.write_cases [OF laws q storage_laws.stored_cidr [OF laws(1) s q]
      storage_laws.reachable_inv [OF laws q other s reach] writing(1,2) reach(2)] writing(3)
  by simp

section \<open>An instance\<close>

text \<open>A process that runs without interruption does a whole request in three steps.\<close>

lemma solo_request:
  assumes "pcs c i = Idle" "PrefixFrom st ctx cidr (shared c) = (Inr p, s)"
    "finish nx st ctx cidr r p s = (Inr ev, s')"
  shows "(cstep nx st ctx cidr elsewhere)\<^sup>*\<^sup>* c (c\<lparr>shared := s', log := log c @ [ev]\<rparr>)"
proof -
  let ?c1 = "c\<lparr>pcs := (pcs c)(i := Asked r)\<rparr>"
  let ?c2 = "?c1\<lparr>shared := s, pcs := (pcs ?c1)(i := Holding r p (length (log ?c1)))\<rparr>"
  let ?c3 = "?c2\<lparr>shared := s', pcs := (pcs ?c2)(i := Idle), log := log ?c2 @ [ev]\<rparr>"
  have 1: "cstep nx st ctx cidr elsewhere c ?c1"
    using assms(1) by (rule ask)
  have 2: "cstep nx st ctx cidr elsewhere ?c1 ?c2"
    by (rule read_ok) (simp_all add: assms(2))
  have 3: "cstep nx st ctx cidr elsewhere ?c2 ?c3"
    by (rule write_ok [where p = p]) (use assms(3) in simp_all)
  have "?c3 = c\<lparr>shared := s', log := log c @ [ev]\<rparr>"
    using assms(1) by (simp add: fun_upd_idem)
  moreover have "(cstep nx st ctx cidr elsewhere)\<^sup>*\<^sup>* c ?c3"
    using 1 2 3 by (meson r_into_rtranclp rtranclp.rtrancl_into_rtrancl)
  ultimately show ?thesis
    by (simp del: fun_upd_apply)
qed

definition taken_prefix :: Prefix where
  "taken_prefix = sample_prefix\<lparr>ips := GoMap [(''10.0.0.0'', True), (''10.0.0.3'', True), (''10.0.0.1'', True)], version := 1\<rparr>"

definition taken_memory :: memory where
  "taken_memory = GoMap [(''root'', GoMap [(''10.0.0.0/30'', taken_prefix)])]"

abbreviation sample_step :: "memory conf \<Rightarrow> memory conf \<Rightarrow> bool" where
  "sample_step \<equiv> cstep ref_netipx memory_storage None ''10.0.0.0/30'' (\<lambda>s s'. s' = s)"

definition back_memory :: memory where
  "back_memory = GoMap [(''root'', GoMap [(''10.0.0.0/30'', sample_prefix\<lparr>version := 2\<rparr>)])]"

lemma sample_reads:
  "PrefixFrom memory_storage None ''10.0.0.0/30'' sample_memory = (Inr sample_prefix, sample_memory)"
  "PrefixFrom memory_storage None ''10.0.0.0/30'' taken_memory = (Inr taken_prefix, taken_memory)"
  "PrefixFrom memory_storage None ''10.0.0.0/30'' back_memory = (Inr (sample_prefix\<lparr>version := 2\<rparr>), back_memory)"
  by code_simp+

lemma sample_writes:
  "finish ref_netipx memory_storage None ''10.0.0.0/30'' (Acquire []) sample_prefix sample_memory =
     (Inr (Acquired (IPv4 0x0A000001)), taken_memory)"
  "finish ref_netipx memory_storage None ''10.0.0.0/30'' (Release ''10.0.0.1'') taken_prefix taken_memory =
     (Inr (Released ''10.0.0.1''), back_memory)"
  "fst (finish ref_netipx memory_storage None ''10.0.0.0/30'' (Acquire []) (sample_prefix\<lparr>version := 2\<rparr>) back_memory) =
     Inr (Acquired (IPv4 0x0A000001))"
  by code_simp+

lemma sample_conflict:
  "case fst (finish ref_netipx memory_storage None ''10.0.0.0/30'' (Acquire []) sample_prefix taken_memory) of
     Inl e \<Rightarrow> errors_is e ErrOptimisticLockError | Inr ev \<Rightarrow> False"
  by code_simp




definition contended :: "memory conf" where
  "contended = \<lparr>shared = taken_memory, pcs = (\<lambda>i. Idle)(1 := Holding (Acquire []) sample_prefix 0),
     log = [Acquired (IPv4 0x0A000001)]\<rparr>"

lemma contended_reachable: "sample_step\<^sup>*\<^sup>* (start_conf sample_memory) contended"
proof -
  let ?c1 = "start_conf sample_memory\<lparr>pcs := (\<lambda>i. Idle)(1 := Asked (Acquire []))\<rparr>"
  let ?c2 = "start_conf sample_memory\<lparr>pcs := (\<lambda>i. Idle)(1 := Holding (Acquire []) sample_prefix 0)\<rparr>"
  have "sample_step (start_conf sample_memory) ?c1"
    using ask [of "start_conf sample_memory" 1] by (simp add: start_conf_def)
  moreover have "sample_step ?c1 ?c2"
    using read_ok [of ?c1 1 "Acquire []"] sample_reads(1) by (simp add: start_conf_def)
  moreover have "sample_step\<^sup>*\<^sup>* ?c2 contended"
    using solo_request [of ?c2 0, OF _ _ sample_writes(1)] sample_reads(1)
    by (simp add: start_conf_def contended_def)
  ultimately show ?thesis
    by (meson converse_rtranclp_into_rtranclp)
qed

lemma sample_alone: "leaves_alone memory_inv memory_view None ''10.0.0.0/30'' (\<lambda>s s'. s' = s)"
  by (simp add: leaves_alone_def)

lemmas sample_setting = sample_laws(1,2) sample_inv sample_stored sample_parse sample_alone



theorem conflict_means_progress_witness: "0 < length (log contended)"
proof -
  obtain e s where "finish ref_netipx memory_storage None ''10.0.0.0/30'' (Acquire []) sample_prefix taken_memory =
      (Inl e, s)" "errors_is e ErrOptimisticLockError"
    using sample_conflict by (auto split: sum.split_asm) (metis prod.collapse)
  with conflict_means_progress [OF sample_setting contended_reachable, of 1] show ?thesis
    by (simp add: contended_def)
qed

end
