(* ===== verification/Concurrency_Children.thy ===== *)
theory Concurrency_Children
  imports Concurrency
begin

text \<open>
  What the step relation of \<open>Concurrency\<close> says of child prefixes (\<^verbatim>\<open>acquireChildPrefixInternal\<close> and
  \<^verbatim>\<open>releaseChildPrefixInternal\<close> in \<^verbatim>\<open>src/prefix.go\<close>): children handed out by interleaved requests are apart,
  and addresses and children exclude each other. \<open>child_step\<close> are the second writes of these handlers, the
  creation and the deletion of the child itself, which are steps elsewhere for the parent.
\<close>

section \<open>Logs with children\<close>





section \<open>The second writes\<close>




section \<open>Children at the same time\<close>


section \<open>An instance\<close>










end
