(* ===== verification/Concurrency_Tree.thy ===== *)
theory Concurrency_Tree
  imports Concurrency_Children
begin

text \<open>
  Several processes on all the prefixes of one namespace (\<^verbatim>\<open>src/prefix.go\<close>): each acquires or releases addresses
  of some prefix, or acquires children of some prefix, and the reads, the writes to the prefix, and the
  creations of the children interleave in any order. Between the write to its parent and its creation a child
  is in no storage; the invariant is that the stored prefixes together with these children form a tree
  (\<open>tree_ok\<close>), as they would if every acquisition were one step.
\<close>

section \<open>The step relation\<close>



text \<open>The number of writes to the prefix with a key.\<close>

definition writes_to :: "string \<Rightarrow> (string \<times> event) list \<Rightarrow> nat" where
  "writes_to k es = length (filter (\<lambda>e. fst e = k) es)"




section \<open>The invariant\<close>







lemma writes_to_simps [simp]:
  "writes_to k [] = 0" "writes_to k (es @ [e]) = writes_to k es + (if fst e = k then 1 else 0)"
  by (simp_all add: writes_to_def)






section \<open>The steps keep the invariant\<close>







section \<open>The tree of prefixes under interleavings\<close>


section \<open>An instance\<close>






end
