(* ===== verification/Races.thy ===== *)
theory Races
  imports Concurrency
begin

text \<open>
  What the version check of \<open>UpdatePrefix\<close> does not protect when several processes use one storage:
  handlers that read the prefixes and then create or delete one (\<^verbatim>\<open>NewPrefix\<close>, \<^verbatim>\<open>DeletePrefix\<close>,
  \<^verbatim>\<open>releaseChildPrefixInternal\<close> in \<^verbatim>\<open>src/prefix.go\<close>). The definitions are these handlers after a
  storage operation at which another process can come in between; the mutex of \<^verbatim>\<open>NewPrefix\<close> is one
  per process. The theorems hold over every storage with the contract.
\<close>

section \<open>Creating prefixes at the same time\<close>

definition new_prefix_rest ::
  "('b, 't) netipx \<Rightarrow> 's storage \<Rightarrow> string \<Rightarrow> string \<Rightarrow> string list \<Rightarrow> ('s, Prefix) comp" where
  "new_prefix_rest nx st namespace cidr existingPrefixes s =
     (case newPrefix nx cidr [] of
        Inl err \<Rightarrow> (Inl err, s)
      | Inr p \<Rightarrow>
      (case PrefixesOverlapping existingPrefixes [Cidr p] of
        Inl err \<Rightarrow> (Inl err, s)
      | Inr _ \<Rightarrow>
      (case CreatePrefix st p namespace s of
        (Inl err, s) \<Rightarrow> (Inl err, s)
      | (Inr created, s) \<Rightarrow> (Inr created, s))))"

lemma new_prefix_split:
  "ipamer_NewPrefix nx st ctx cidr s =
     (case ReadAllPrefixCidrs st (namespaceFromContext ctx) s of
        (Inl err, s) \<Rightarrow> (Inl err, s)
      | (Inr existingPrefixes, s) \<Rightarrow>
          new_prefix_rest nx st (namespaceFromContext ctx) cidr existingPrefixes s)"
  by (simp add: ipamer_NewPrefix_def new_prefix_rest_def Let_def split: prod.split sum.split)

text \<open>
  C30: Two processes that create prefixes at the same time both succeed when each of the prefixes is
  unused before, even when they overlap each other: the second one checks against the list it read
  before the first one wrote.
\<close>

theorem concurrent_NewPrefix_overlap:
  assumes laws: "storage_laws st invar view ok_ns" "netipx_laws nx B BS IS"
    and s: "invar s" "view s (namespaceFromContext ctx) = Some m" "keys_ok m"
    and q: "ParsePrefix cidr = Inr q" "ParsePrefix cidr' = Inr q'" "unused m q" "unused m q'" "key q \<noteq> key q'"
    and read: "ReadAllPrefixCidrs st (namespaceFromContext ctx) s = (Inr existing, s1)"
  shows "\<exists>p' s2 p s3. ipamer_NewPrefix nx st ctx cidr' s1 = (Inr p', s2) \<and>
    new_prefix_rest nx st (namespaceFromContext ctx) cidr existing s2 = (Inr p, s3) \<and>
    stored (view s3) ctx cidr = Some (fresh q []) \<and> stored (view s3) ctx cidr' = Some (fresh q' [])"
proof -
  have v: "IsValid q"
    by (rule ParsePrefix_valid [OF q(1)])
  have s1: "invar s1" "view s1 = view s" "set existing = dom m"
    using storage_laws.read_cidrs [OF laws(1) s(1,2)] read by auto
  then have m1: "view s1 (namespaceFromContext ctx) = Some m"
    using s(2) by simp
  obtain p' s2 where p': "ipamer_NewPrefix nx st ctx cidr' s1 = (Inr p', s2)" "invar s2"
      "view s2 = put (view s1) ctx (fresh q' [])"
    using NewPrefix_law [OF laws s1(1) m1 s(3) q(2)] q(4) by auto
  have m2: "view s2 (namespaceFromContext ctx) = Some (m(key q' \<mapsto> fresh q' []))"
    using p'(3) m1 by (simp add: put_def)
  obtain p where p: "newPrefix nx cidr [] = Inr p" "abs_prefix p = fresh q []" "wf_prefix p"
      "version p = 0" "Cidr p = key q"
    using newPrefix_fresh [OF laws(2) q(1), of "[]" "[]"] by auto
  have ov: "PrefixesOverlapping existing [Cidr p] = Inr ()"
    using PrefixesOverlapping_unused [OF s(3) s1(3) v] p(5) q(3) by simp
  have pre: "Cidr p \<noteq> []" "(m(key q' \<mapsto> fresh q' [])) (Cidr p) = None"
    using unused_key [OF q(3) v] p(5) q(5) by (auto simp: key_def prefix_String_def)
  obtain s3 where "CreatePrefix st p (namespaceFromContext ctx) s2 = (Inr p, s3)"
      "view s3 = (view s2)(namespaceFromContext ctx \<mapsto> m(key q' \<mapsto> fresh q' [], key q \<mapsto> fresh q []))"
    using storage_laws.create [OF laws(1) p'(2) m2 p(3,4) pre] unfolding p(2,5) by blast
  with p p' ov q(1,2,5) show ?thesis
    by (simp add: new_prefix_rest_def stored_def)
qed

section \<open>Deleting a prefix that another process uses\<close>

definition delete_rest :: "'s storage \<Rightarrow> string \<Rightarrow> string \<Rightarrow> Prefix \<Rightarrow> ('s, Prefix) comp" where
  "delete_rest st namespace cidr p s =
     (if hasIPs p then (Inl (Errorf ''prefix %s has ips, delete prefix not possible'' []), s)
      else (case DeletePrefix st p namespace s of
          (Inl err, s) \<Rightarrow> (Inl (Errorf ''delete prefix:%s %w'' [err]), s)
        | (Inr prefix, s) \<Rightarrow> (Inr prefix, s)))"

lemma delete_split:
  "ipamer_DeletePrefix st ctx cidr s =
     (case PrefixFrom st ctx cidr s of
        (Inl err, s) \<Rightarrow>
          (Inl (Errorf ''%w: unable to find prefix for cidr:%s error:%s'' [Sentinel ErrNotFound]), s)
      | (Inr p, s) \<Rightarrow> delete_rest st (namespaceFromContext ctx) cidr p s)"
  by (simp add: ipamer_DeletePrefix_def delete_rest_def Let_def split: prod.split sum.split)

text \<open>
  Deleting does not compare versions: when a process has read a prefix without addresses and
  another one then acquires an address, the first one still deletes the prefix, and the address
  that was handed out is recorded nowhere.
\<close>

theorem delete_loses_acquired_address:
  assumes laws: "storage_laws st invar view ok_ns" "netipx_laws nx B BS IS" "retry_laws retry"
    and s: "invar s" "stored (view s) ctx cidr = Some a" "\<not> aIsParent a" and q: "ParsePrefix cidr = Inr q"
    and read: "PrefixFrom st ctx cidr s = (Inr p, s1)" "\<not> hasIPs p"
    and acquire: "AcquireIP nx retry st ctx cidr s1 = (Inr ip, s2)"
  shows "\<exists>p' s3. delete_rest st (namespaceFromContext ctx) cidr p s2 = (Inr p', s3) \<and> invar s3 \<and>
    stored (view s3) ctx cidr = None"
proof -
  obtain m where p: "wf_prefix p" "Cidr p = key q" "invar s1" "view s1 = view s"
      "view s (namespaceFromContext ctx) = Some m"
    using storage_laws.PrefixFrom_stored [OF laws(1) s(1,2)] q read(1)
    by (metis Pair_inject sum.inject(2))
  have a1: "stored (view s1) ctx cidr = Some a"
    using s(2) p(4) by simp
  obtain ip' where s2: "invar s2" "view s2 = put (view s) ctx (take_ip ip' a)"
    using AcquireIP_law [OF laws p(3) a1 s(3) q] acquire p(4) by (auto split: if_split_asm)
  let ?ns = "namespaceFromContext ctx"
  have m2: "view s2 ?ns = Some (m(key q \<mapsto> take_ip ip' a))"
    using s2(2) p(5) storage_laws.stored_cidr [OF laws(1) s(1,2) q] by (simp add: put_def)
  have at: "(m(key q \<mapsto> take_ip ip' a)) (Cidr p) = Some (take_ip ip' a)"
    using p(2) by simp
  obtain p' s3 where "DeletePrefix st p ?ns s2 = (Inr p', s3)" "invar s3"
      "view s3 = (view s2)(?ns \<mapsto> (m(key q \<mapsto> take_ip ip' a))(Cidr p := None))"
    using storage_laws.delete [OF laws(1) s2(1) m2 p(1) at] by blast
  with p(2) read(2) q show ?thesis
    by (simp add: delete_rest_def stored_def)
qed

text \<open>
  The version does not protect a prefix that is deleted and created again, because the new one
  counts from 0: a process that read the old prefix at version 1 still writes its copy when the new
  prefix is at version 1, and the address \<open>10.0.0.1\<close> is given to two processes.
\<close>

theorem recreated_prefix_gives_address_twice:
  "let cidr = ''10.0.0.0/29'';
       s1 = snd (ipamer_NewPrefix ref_netipx memory_storage None cidr NewMemory);
       s2 = snd (AcquireSpecificIP ref_netipx retry_ref memory_storage None cidr ''10.0.0.2'' s1);
       (copy, s3) = PrefixFrom memory_storage None cidr s2;
       s4 = snd (ReleaseIPFromPrefix retry_ref memory_storage None cidr ''10.0.0.2'' s3);
       s5 = snd (ipamer_DeletePrefix memory_storage None cidr s4);
       s6 = snd (ipamer_NewPrefix ref_netipx memory_storage None cidr s5);
       (other, s7) = AcquireIP ref_netipx retry_ref memory_storage None cidr s6;
       late = (case copy of Inl e \<Rightarrow> Inl e
               | Inr p \<Rightarrow> fst (acquire_rest ref_netipx memory_storage (namespaceFromContext None) cidr [] p s7))
   in other = Inr \<lparr>IP = IPv4 0x0A000001, ParentPrefix = cidr\<rparr> \<and> late = other"
  by code_simp

section \<open>Releasing a child while another process acquires it\<close>

definition release_child_mark :: "'s storage \<Rightarrow> ctx \<Rightarrow> string \<Rightarrow> Prefix \<Rightarrow> ('s, unit) comp" where
  "release_child_mark st ctx namespace child s =
     (case PrefixFrom st ctx (ParentCidr child) s of
        (Inl err, s) \<Rightarrow>
          (Inl (Errorf ''%w: unable to find prefix for cidr:%q error:%s'' [Sentinel ErrNotFound]), s)
      | (Inr parent, s) \<Rightarrow>
      if \<not> isParent parent then (Inl (Errorf ''prefix:%q is no child prefix'' []), s)
      else if 2 < map_len (ips child) then
        (Inl (Errorf ''prefix %s has ips, deletion not possible'' []), s)
      else
      (case map_insert (availableChildPrefixes parent) (Cidr child) True of
        Inl err \<Rightarrow> (Inl err, s)
      | Inr acp \<Rightarrow>
      (case UpdatePrefix st (parent\<lparr>availableChildPrefixes := acp\<rparr>) namespace s of
        (Inl err, s) \<Rightarrow>
          (Inl (Errorf ''unable to update parent:%q to release child prefix:%q :%w'' [err]), s)
      | (Inr _, s) \<Rightarrow> (Inr (), s))))"

lemma release_child_split:
  "releaseChildPrefixInternal st ctx namespace child s =
     (case release_child_mark st ctx namespace child s of
        (Inl err, s) \<Rightarrow> (Inl err, s)
      | (Inr _, s) \<Rightarrow>
      (case ipamer_DeletePrefix st ctx (Cidr child) s of
        (Inl err, s) \<Rightarrow> (Inl (Errorf ''unable to delete child prefix:%q :%w'' [err]), s)
      | (Inr _, s) \<Rightarrow> (Inr (), s)))"
  by (simp add: releaseChildPrefixInternal_def release_child_mark_def split: prod.split sum.split)

context storage_laws
begin

text \<open>A child that is stored already: the parent is written, then the creation is refused or not.\<close>

lemma store_child_exists:
  assumes nx: "netipx_laws nx B BS IS" and s: "invar s" "view s (namespaceFromContext ctx) = Some m"
    and p: "m (key q) = Some (abs_prefix p)" "wf_prefix p" "Cidr p = key q" and q: "ParsePrefix parentCidr = Inr q"
    and r: "IsValid r" "m (key r) = Some b" "key r \<noteq> key q"
  obtains x s' where "store_child nx st (namespaceFromContext ctx) parentCidr p r s = (x, s')" "invar s'"
    "view s' = put (view s) ctx (give_child (prefix_String r) (abs_prefix p))"
proof -
  have ok: "map_ok (availableChildPrefixes p)"
    using p(2) by (simp add: wf_prefix_def)
  obtain acp where acp: "map_insert (availableChildPrefixes p) (prefix_String r) False = Inr acp"
    using map_ok_insert_ex [OF ok] by blast
  let ?p = "p\<lparr>availableChildPrefixes := acp, isParent := True\<rparr>"
  have wf: "wf_prefix ?p"
    using p(2) map_insert_ok [OF acp ok] by (simp add: wf_prefix_def)
  have abs: "abs_prefix (next_version ?p) = give_child (prefix_String r) (abs_prefix p)"
    by (simp add: abs_prefix_def next_version_def give_child_def map_insert_Inr [OF acp])
  have mp: "m (Cidr p) = Some (abs_prefix p)"
    using p(1,3) by simp
  obtain s1 where s1: "UpdatePrefix st ?p (namespaceFromContext ctx) s = (Inr (next_version ?p), s1)" "invar s1"
      "view s1 = put (view s) ctx (give_child (prefix_String r) (abs_prefix p))"
    using update_read [OF s mp wf] unfolding abs by auto
  define m1 where "m1 = m(key q \<mapsto> give_child (prefix_String r) (abs_prefix p))"
  have view1: "view s1 (namespaceFromContext ctx) = Some m1"
    using s1(3) s(2) p(3) by (simp add: put_def m1_def)
  have "parentCidr \<noteq> []"
    using q by (auto simp: ParsePrefix_def)
  then obtain c where c: "newPrefix nx (prefix_String r) parentCidr = Inr c" "wf_prefix c" "Cidr c = key r"
    using newPrefix_fresh [OF nx ParsePrefix_String [OF r(1)], of parentCidr "key q"] q by auto
  have "m1 (Cidr c) \<noteq> None"
    using c(3) r(2,3) by (simp add: m1_def)
  note ex = create_exists [OF s1(2) view1 c(2) this]
  obtain y s2 where s2: "CreatePrefix st c (namespaceFromContext ctx) s1 = (y, s2)"
    by fastforce
  note ex [OF s2]
  moreover have "\<exists>x. store_child nx st (namespaceFromContext ctx) parentCidr p r s = (x, s2)"
    using s1(1) c(1) s2 acp r(1) by (simp add: store_child_def split: sum.split)
  ultimately show ?thesis
    using that s1(3) by auto
qed

end

text \<open>
  Releasing a child writes the parent first and deletes the child afterwards; when another
  process asks for the same child in between, the parent marks the child as taken again, and then the
  child is deleted: its addresses are lost, they are neither free nor in a stored prefix.
\<close>

theorem release_race_loses_child:
  assumes laws: "storage_laws st invar view ok_ns" "netipx_laws nx B BS IS"
    and s: "invar s" "view s (namespaceFromContext ctx) = Some m"
    and q: "ParsePrefix (ParentCidr c) = Inr q" "m (key q) = Some a" "aIsParent a" "\<not> has_ips q a"
    and r: "ParsePrefix (Cidr c) = Inr r" "Cidr c = prefix_String r" "m (key r) = Some b" "\<not> has_ips r b"
      "Bits q < Bits r" "map_len (ips c) \<le> 2"
    and free: "children_ok a" "block r \<subseteq> free_space q ((aChildren a)(Cidr c \<mapsto> True))"
  shows "\<exists>s1 x s2 p s3. release_child_mark st ctx (namespaceFromContext ctx) c s = (Inr (), s1) \<and>
    acquireChildPrefixInternal nx st ctx (namespaceFromContext ctx) (ParentCidr c) (Cidr c) 0 s1 = (x, s2) \<and>
    ipamer_DeletePrefix st ctx (Cidr c) s2 = (Inr p, s3) \<and> stored (view s3) ctx (Cidr c) = None \<and>
    (\<exists>a'. stored (view s3) ctx (ParentCidr c) = Some a' \<and> aChildren a' (Cidr c) = Some False)"
proof -
  let ?ns = "namespaceFromContext ctx"
  have v: "IsValid q" "IsValid r" and ne: "Cidr c \<noteq> []"
    using ParsePrefix_valid [OF q(1)] ParsePrefix_valid [OF r(1)] r(1) by (auto simp: ParsePrefix_def)
  have qr: "key r \<noteq> key q"
    using r(5) key_eq_iff [OF v(2,1)] v by (metis Masked_simps(2) less_irrefl)
  have st: "stored (view s) ctx (ParentCidr c) = Some a"
    using s(2) q by (simp add: stored_def)
  obtain p s0 where p: "PrefixFrom st ctx (ParentCidr c) s = (Inr p, s0)" "abs_prefix p = a" "wf_prefix p"
    "Cidr p = key q" "invar s0" "view s0 = view s"
    using storage_laws.PrefixFrom_stored [OF laws(1) s(1) st] q(1) by (metis sum.inject(2))
  obtain acp s1 where s1: "map_insert (availableChildPrefixes p) (Cidr c) True = Inr acp"
      "UpdatePrefix st (p\<lparr>availableChildPrefixes := acp\<rparr>) ?ns s0 =
         (Inr (next_version (p\<lparr>availableChildPrefixes := acp\<rparr>)), s1)" "invar s1"
      "view s1 = (view s)(?ns \<mapsto> m(key q \<mapsto> take_back (Cidr c) a))"
    using storage_laws.mark_available [OF laws(1) s q(2) p(5,6,2-4)] .
  have mark: "release_child_mark st ctx ?ns c s = (Inr (), s1)"
    using p(1,2) q(3) r(6) s1(1,2) by (auto simp: release_child_mark_def)
  let ?a = "take_back (Cidr c) a"
  have ca: "children_ok ?a"
    using free(1) by (auto simp: children_ok_def)
  have st1: "stored (view s1) ctx (ParentCidr c) = Some ?a"
    using s1(4) q(1) by (simp add: stored_def)
  obtain p1 s1' fs m1 where acq: "IS fs = free_space q (aChildren ?a)" "abs_prefix p1 = ?a" "wf_prefix p1" "Cidr p1 = key q"
    "invar s1'" "view s1' = view s1" "view s1 ?ns = Some m1" "m1 (key q) = Some ?a"
    "acquireChildPrefixInternal nx st ctx ?ns (ParentCidr c) (Cidr c) 0 s1 =
      (if Bits r \<le> Bits q then (Inl (Errorf ''given length:%d must be greater than prefix length:%d'' []), s1')
       else if has_ips q ?a then (Inl (Errorf ''prefix %s has ips, acquire child prefix not possible'' []), s1')
       else (case choose_child nx fs (Some r) (Bits r) of
           Inl err \<Rightarrow> (Inl err, s1')
         | Inr cp \<Rightarrow> store_child nx st ?ns (ParentCidr c) p1 cp s1'))"
    by (rule storage_laws.acquire_child_unfold [OF laws s1(3) st1 ca q(1), of "Cidr c" "Some r" "Bits r" 0])
      (use r(1) ne in simp, erule that, assumption+)
  have ch: "choose_child nx fs (Some r) (Bits r) = Inr r"
    using netipx_laws.contains_prefix [OF laws(2), of fs r] v(2) acq(1) free(2) by (simp add: choose_child_def)
  have noips: "\<not> has_ips q ?a"
    using q(4) by (simp add: has_ips_def)
  have vm: "view s1' ?ns = Some m1" "m1 (key q) = Some (abs_prefix p1)" "m1 (key r) = Some b"
    using acq(2,6,7,8) s1(4) r(3) qr by auto
  obtain x s2 where s2: "store_child nx st ?ns (ParentCidr c) p1 r s1' = (x, s2)" "invar s2"
      "view s2 = put (view s1') ctx (give_child (prefix_String r) (abs_prefix p1))"
    using storage_laws.store_child_exists [OF laws acq(5) vm(1,2) acq(3,4) q(1) v(2) vm(3) qr] .
  let ?b = "give_child (Cidr c) ?a"
  have "view s2 ?ns = Some (m1(key q \<mapsto> ?b))"
    using s2(3) vm(1) acq(2) r(2) storage_laws.view_cidr [OF laws(1) s q(2)] by (simp add: put_def)
  moreover have "(m1(key q \<mapsto> ?b)) (key r) = Some b"
    using vm(3) qr by simp
  ultimately obtain p3 s3 where "ipamer_DeletePrefix st ctx (Cidr c) s2 = (Inr p3, s3)"
      "view s3 = (view s2)(?ns \<mapsto> (m1(key q \<mapsto> ?b))(key r := None))"
    using DeletePrefix_law [OF laws(1) s2(2) _ r(1)] r(4) by fastforce
  with mark acq(9) noips ch r(1,5) q(1) qr s2(1) show ?thesis
    by (simp add: stored_def)
qed

text \<open>
  C10: Releasing a child looks at its addresses before it marks the child as available in the parent, and deletes
  it afterwards. When another process acquires an address of the child in between, the deletion is refused but
  the mark stays: the space of the child is given away again, to a wider child, which then hands out the same
  address a second time, although both requests for it succeeded and it was never released.
\<close>

theorem release_race_hands_out_twice:
  assumes laws: "storage_laws st invar view ok_ns" "netipx_laws nx B BS IS" "retry_laws rp" "retry_laws ri"
    and s: "invar s" "view s (namespaceFromContext ctx) = Some m"
    and q: "ParsePrefix (ParentCidr c) = Inr q" "m (key q) = Some a" "aIsParent a" "\<not> has_ips q a" "children_ok a"
    and r: "ParsePrefix (Cidr c) = Inr r" "m (key r) = Some b" "\<not> aIsParent b" "map_len (ips c) \<le> 2" "key r \<noteq> key q"
    and u: "ParsePrefix wide = Inr u" "m (key u) = None" "Bits q < Bits u" "block u \<subseteq> free_space q ((aChildren a)(Cidr c \<mapsto> True))"
    and ip: "ip \<in> free_ips r b" "has_ips r (take_ip ip b)" "ip \<in> free_ips u (fresh u (key q))" "ParseAddr text = Inr ip" "text \<noteq> []"
  shows "\<exists>s1 s2 e s3 p s4 s5 b' d. release_child_mark st ctx (namespaceFromContext ctx) c s = (Inr (), s1) \<and>
    AcquireSpecificIP nx ri st ctx (Cidr c) text s1 = (Inr \<lparr>IP = ip, ParentPrefix = key r\<rparr>, s2) \<and>
    ipamer_DeletePrefix st ctx (Cidr c) s2 = (Inl e, s3) \<and>
    AcquireSpecificChildPrefix nx rp st ctx (ParentCidr c) wide s3 = (Inr p, s4) \<and>
    AcquireSpecificIP nx ri st ctx wide text s4 = (Inr \<lparr>IP = ip, ParentPrefix = key u\<rparr>, s5) \<and>
    stored (view s5) ctx (Cidr c) = Some b' \<and> aIPs b' (addr_String ip) \<noteq> None \<and>
    stored (view s5) ctx wide = Some d \<and> aIPs d (addr_String ip) \<noteq> None"
proof -
  let ?ns = "namespaceFromContext ctx" and ?a = "take_back (Cidr c) a" and ?b = "take_ip ip b"
  have st: "stored (view s) ctx (ParentCidr c) = Some a"
    using s(2) q by (simp add: stored_def)
  obtain p s0 where p: "PrefixFrom st ctx (ParentCidr c) s = (Inr p, s0)" "abs_prefix p = a" "wf_prefix p"
    "Cidr p = key q" "invar s0" "view s0 = view s"
    using storage_laws.PrefixFrom_stored [OF laws(1) s(1) st] q(1) by (metis sum.inject(2))
  obtain acp s1 where s1: "map_insert (availableChildPrefixes p) (Cidr c) True = Inr acp"
      "UpdatePrefix st (p\<lparr>availableChildPrefixes := acp\<rparr>) ?ns s0 =
         (Inr (next_version (p\<lparr>availableChildPrefixes := acp\<rparr>)), s1)" "invar s1"
      "view s1 = (view s)(?ns \<mapsto> m(key q \<mapsto> ?a))"
    using storage_laws.mark_available [OF laws(1) s q(2) p(5,6,2-4)] .
  have mark: "release_child_mark st ctx ?ns c s = (Inr (), s1)"
    using p(1,2) q(3) r(4) s1(1,2) by (auto simp: release_child_mark_def)
  have b1: "stored (view s1) ctx (Cidr c) = Some b"
    using s1(4) r(1,2,5) by (simp add: stored_def)
  have cb: "aCidr b = key r"
    using storage_laws.stored_cidr [OF laws(1) s1(3) b1 r(1)] .
  obtain s2 where s2: "AcquireSpecificIP nx ri st ctx (Cidr c) text s1 = (Inr \<lparr>IP = ip, ParentPrefix = key r\<rparr>, s2)"
      "invar s2" "view s2 = put (view s1) ctx ?b"
    using AcquireSpecificIP_law [OF laws(1,4) s1(3) b1 r(3,1) ip(4,5), where nx = nx] ip(1) by auto
  define m2 where "m2 = m(key q \<mapsto> ?a, key r \<mapsto> ?b)"
  have view2: "view s2 ?ns = Some m2" "m2 (key r) = Some ?b" "m2 (key q) = Some ?a" "children_ok ?a"
    using s2(3) s1(4) cb r(5) q(5) by (auto simp: put_def m2_def children_ok_def)
  obtain e s3 where s3: "ipamer_DeletePrefix st ctx (Cidr c) s2 = (Inl e, s3)" "invar s3" "view s3 = view s2"
    using DeletePrefix_law [OF laws(1) s2(2) view2(1) r(1) view2(2)] ip(2) by auto
  have uq: "key u \<noteq> key q" "key u \<noteq> key r"
    using u(2) q(2) r(2) by auto
  have new: "m2 (key u) = None \<and> key u \<noteq> key q" "view s3 ?ns = Some m2" "\<not> has_ips q ?a"
    using uq u(2) s3(3) view2(1) q(4) by (auto simp: m2_def has_ips_def)
  define m4 where "m4 = m2(key q \<mapsto> give_child (prefix_String u) ?a, key u \<mapsto> fresh u (key q))"
  obtain p4 s4 where s4: "AcquireSpecificChildPrefix nx rp st ctx (ParentCidr c) wide s3 = (Inr p4, s4)" "invar s4"
      "view s4 = (view s3)(?ns \<mapsto> m4)"
    using AcquireSpecificChildPrefix_any [OF laws(1-3) s3(2) new(2) view2(4) q(1) view2(3) u(1) new(1)] u(3,4) new(3)
    unfolding m4_def by auto
  have d4: "stored (view s4) ctx wide = Some (fresh u (key q))"
    using s4(3) u(1) by (simp add: stored_def m4_def)
  obtain s5 where s5: "AcquireSpecificIP nx ri st ctx wide text s4 = (Inr \<lparr>IP = ip, ParentPrefix = key u\<rparr>, s5)"
      "view s5 = put (view s4) ctx (take_ip ip (fresh u (key q)))"
    using AcquireSpecificIP_law [OF laws(1,4) s4(2) d4 _ u(1) ip(4,5), where nx = nx] ip(3) by auto
  have "stored (view s5) ctx (Cidr c) = Some ?b" "stored (view s5) ctx wide = Some (take_ip ip (fresh u (key q)))"
    using s5(2) s4(3) r(1,5) u(1) uq view2(2) by (simp_all add: put_def stored_def m4_def)
  with mark s2(1) s3(1) s4(1) s5(1) show ?thesis
    by (intro exI [of _ s1] exI [of _ s2] exI [of _ e] exI [of _ s3] exI [of _ p4] exI [of _ s4] exI [of _ s5]
        exI [of _ ?b] exI [of _ "take_ip ip (fresh u (key q))"]) simp
qed

section \<open>An instance\<close>

theorem delete_loses_acquired_address_witness:
  "\<exists>ip s2 p' s3. AcquireIP ref_netipx retry_ref memory_storage None ''10.0.0.0/30'' sample_memory = (Inr ip, s2) \<and>
     delete_rest memory_storage (namespaceFromContext None) ''10.0.0.0/30'' sample_prefix s2 = (Inr p', s3) \<and>
     stored (memory_view s3) None ''10.0.0.0/30'' = None"
proof -
  have "\<not> hasIPs sample_prefix"
    by code_simp
  moreover obtain ip s2 where "AcquireIP ref_netipx retry_ref memory_storage None ''10.0.0.0/30'' sample_memory = (Inr ip, s2)"
    using AcquireIP_law [OF sample_laws sample_inv sample_stored sample_not_parent sample_parse] sample_free
    by (auto split: if_split_asm)
  ultimately show ?thesis
    using delete_loses_acquired_address [OF sample_laws sample_inv sample_stored sample_not_parent
        sample_parse sample_reads(1)] by blast
qed


definition net25 :: netip_prefix where
  "net25 = \<lparr>Addr = IPv4 0x0A000000, Bits = 25\<rparr>"

theorem concurrent_NewPrefix_overlap_witness:
  "\<exists>s. stored (memory_view s) None ''10.0.0.0/24'' \<noteq> None \<and> stored (memory_view s) None ''10.0.0.0/25'' \<noteq> None \<and>
     Overlaps net24 net25"
proof -
  have n: "ParsePrefix ''10.0.0.0/25'' = Inr net25" "key net24 \<noteq> key net25" "Overlaps net24 net25"
    by code_simp+
  have v: "memory_view NewMemory (namespaceFromContext None) = Some Map.empty"
    by (simp add: memory_inv_NewMemory namespaceFromContext_def)
  have u: "keys_ok Map.empty" "unused Map.empty net24" "unused Map.empty net25"
    by (simp_all add: keys_ok_def unused_def)
  obtain cs s1 where "ReadAllPrefixCidrs memory_storage (namespaceFromContext None) NewMemory = (Inr cs, s1)"
    using mem.read_cidrs [OF memory_inv_NewMemory(1) v] by blast
  from concurrent_NewPrefix_overlap [OF sample_laws(1,2) memory_inv_NewMemory(1) v u(1) sample_nets(1) n(1) u(2,3) n(2) this]
    n(3) show ?thesis
    by fastforce
qed

theorem release_race_loses_child_witness:
  "\<exists>s. stored (memory_view s) None ''10.0.0.0/26'' = None \<and>
     (\<exists>a. stored (memory_view s) None ''10.0.0.0/24'' = Some a \<and> aChildren a ''10.0.0.0/26'' = Some False)"
proof -
  have c: "ParentCidr child26 = ''10.0.0.0/24''" "Cidr child26 = ''10.0.0.0/26''" "map_len (ips child26) \<le> 2"
    "aIsParent (abs_prefix parent24)" "''10.0.0.0/26'' = prefix_String net26" "Bits net24 < Bits net26"
    by code_simp+
  have ch: "aChildren (abs_prefix parent24) = [''10.0.0.0/26'' \<mapsto> False]"
    by (simp add: parent24_def map_lookup_def fun_eq_iff)
  have ok: "children_ok (abs_prefix parent24)"
    using ch sample_nets(3) by (simp add: children_ok_def)
  have ips: "\<not> has_ips net24 (abs_prefix parent24)"
    using sample_no_ips(1) by (simp add: has_ips_def parent24_def)
  have free: "block net26 \<subseteq> free_space net24 ((aChildren (abs_prefix parent24))(''10.0.0.0/26'' \<mapsto> True))"
    using sample_free_block unfolding ch by (auto simp: free_space_def taken_def prefix24_def map_lookup_def)
  from release_race_loses_child [OF sample_laws(1,2) sample_memories(2) view_memory_of _ sample_lookups(2) c(4) ips _ _
      sample_lookups(3) sample_no_ips(2) c(6,3) ok]
  show ?thesis
    using sample_nets c free by fastforce
qed

theorem release_race_hands_out_twice_witness:
  "\<exists>s b d. stored (memory_view s) None ''10.0.0.0/26'' = Some b \<and> aIPs b ''10.0.0.5'' \<noteq> None \<and>
     stored (memory_view s) None ''10.0.0.0/25'' = Some d \<and> aIPs d ''10.0.0.5'' \<noteq> None"
proof -
  let ?ip = "IPv4 0x0A000005" and ?b = "abs_prefix child26"
  have c: "ParentCidr child26 = ''10.0.0.0/24''" "Cidr child26 = ''10.0.0.0/26''" "map_len (ips child26) \<le> 2"
    "aIsParent (abs_prefix parent24)" "Bits net24 < Bits net25" "\<not> aIsParent ?b" "key net26 \<noteq> key net24"
    "ParsePrefix ''10.0.0.0/25'' = Inr net25" "inner_view inner_tree (key net25) = None" "addr_String ?ip = ''10.0.0.5''"
    "ParseAddr ''10.0.0.5'' = Inr ?ip" "Is4 (Addr net26)" "Contains net26 ?ip" "Contains net25 ?ip"
    "reserved net25 ''10.0.0.5'' = None" "Overlaps net24 net25"
    by code_simp+
  have ips: "aIPs ?b = [''10.0.0.0'' \<mapsto> True, ''10.0.0.63'' \<mapsto> True]"
    by (simp add: child26_def map_lookup_def fun_eq_iff)
  then have taken: "has_ips net26 (take_ip ?ip ?b)"
    using c(10,12) by (simp add: has_ips_def)
  have ip: "?ip \<in> free_ips net26 ?b" "?ip \<in> free_ips net25 (fresh net25 (key net24))"
    using ips c(10,13-15) by (simp_all add: free_ips_def)
  have ch: "aChildren (abs_prefix parent24) = [''10.0.0.0/26'' \<mapsto> False]"
    by (simp add: parent24_def map_lookup_def fun_eq_iff)
  have ok: "children_ok (abs_prefix parent24)"
    using ch sample_nets(3) by (simp add: children_ok_def)
  have ips24: "\<not> has_ips net24 (abs_prefix parent24)"
    using sample_no_ips(1) by (simp add: has_ips_def parent24_def)
  have free: "block net25 \<subseteq> free_space net24 ((aChildren (abs_prefix parent24))(Cidr child26 \<mapsto> True))"
    using Overlaps_nested [OF sample_valid(1) ParsePrefix_valid [OF c(8)] less_imp_le [OF c(5)] c(16)]
    unfolding ch c(2) by (auto simp: free_space_def taken_def)
  have p: "ParsePrefix (ParentCidr child26) = Inr net24" "ParsePrefix (Cidr child26) = Inr net26" "''10.0.0.5'' \<noteq> []"
    using sample_nets c(1,2) by simp_all
  from release_race_hands_out_twice [OF sample_laws sample_laws(3) sample_memories(2) view_memory_of p(1) sample_lookups(2) c(4)
      ips24 ok p(2) sample_lookups(3) c(6,3,7,8,9,5) free ip(1) taken ip(2) c(11) p(3)]
  show ?thesis
    unfolding c(2,10) by blast
qed

end
