(* ===== verification/Histories.thy ===== *)
theory Histories
  imports Ipamer_Prefixes
begin

text \<open>
  Whole histories of the ipamer (\<^verbatim>\<open>src/prefix.go\<close>): any sequence of calls, successful or not, in any namespaces,
  over any storage, that starts without prefixes. The events of a history record which address of which
  prefix was handed out and given back. In every history an address is held in at most one prefix of a
  namespace, and what is held is what is stored.

  Two things are asked of the callers, and the program checks neither: not to release the network and
  broadcast address that every prefix reserves, and not to release a child prefix that still has children or
  addresses of its own. \<open>Ipamer_Limits\<close> shows what the first leads to, the end of this theory the second.
\<close>

section \<open>A namespace in good order\<close>

text \<open>
  What the addresses of a prefix obey: the reserved ones stay allocated, all lie in the prefix, and a prefix
  that has given space to children has no others.
\<close>

definition ips_ok :: "netip_prefix \<Rightarrow> aprefix \<Rightarrow> bool" where
  "ips_ok q a \<longleftrightarrow> dom (reserved q) \<subseteq> dom (aIPs a) \<and> dom (aIPs a) \<subseteq> addr_String ` block q \<and>
     (taken (aChildren a) \<noteq> {} \<longrightarrow> aIsParent a) \<and> (aIsParent a \<longrightarrow> dom (aIPs a) = dom (reserved q))"

text \<open>The parent a prefix names, if it is stored, is the next larger prefix around it.\<close>

definition parent_ok :: "namespace_view \<Rightarrow> string \<Rightarrow> aprefix \<Rightarrow> bool" where
  "parent_ok m c a \<longleftrightarrow> aParentCidr a = [] \<or>
     (\<exists>p. IsValid p \<and> aParentCidr a = key p) \<and> cidr_block c \<subset> cidr_block (aParentCidr a) \<and>
     (aParentCidr a \<in> dom m \<longrightarrow> (\<forall>e \<in> dom m. \<not> (cidr_block c \<subset> cidr_block e \<and> cidr_block e \<subset> cidr_block (aParentCidr a))))"

definition ns_ok :: "namespace_view \<Rightarrow> bool" where
  "ns_ok m \<longleftrightarrow> tree_ok m \<and> (\<forall>q a. IsValid q \<longrightarrow> m (key q) = Some a \<longrightarrow> ips_ok q a) \<and>
     (\<forall>c a. m c = Some a \<longrightarrow> parent_ok m c a)"

lemma ns_okD:
  assumes "ns_ok m"
  shows "tree_ok m" "IsValid q \<Longrightarrow> m (key q) = Some a \<Longrightarrow> ips_ok q a" "m c = Some a \<Longrightarrow> parent_ok m c a"
  using assms by (auto simp: ns_ok_def)

lemma ns_ok_empty: "ns_ok Map.empty"
  by (simp add: ns_ok_def tree_ok_def keys_ok_def)

lemma key_nonempty: "key q \<noteq> []"
  by (simp add: key_def prefix_String_def)

lemma reserved_key:
  assumes "IsValid q" "IsValid r" "key q = key r"
  shows "reserved q = reserved r" "block q = block r"
proof -
  have m: "Masked q = Masked r"
    using assms key_eq_iff by blast
  have "first_addr q = first_addr r" "last_addr q = last_addr r"
    using assms(1,2) m Masked_simps [of q] Masked_simps [of r] Masked_addr [of q] Masked_addr [of r]
    by (auto intro!: addr_eqI simp: last_addr_num) 
  moreover have "Is4 (Addr q) = Is4 (Addr r)"
    using family_Masked(1) [OF assms(1)] family_Masked(1) [OF assms(2)] m by simp
  ultimately show "reserved q = reserved r"
    by (simp add: reserved_def)
  show "block q = block r"
    using m block_Masked [OF assms(1)] block_Masked [OF assms(2)] by simp
qed

lemma ips_ok_key: "IsValid q \<Longrightarrow> IsValid r \<Longrightarrow> key q = key r \<Longrightarrow> ips_ok q a = ips_ok r a"
  using reserved_key [of q r] by (simp add: ips_ok_def)

lemma reserved_block: "IsValid q \<Longrightarrow> dom (reserved q) \<subseteq> addr_String ` block q"
  using Contains_first_last [of q] by (auto simp: reserved_def mem_block split: if_split_asm)

text \<open>A prefix without allocated addresses in the sense of the program has exactly the reserved ones.\<close>

lemma only_reserved:
  assumes q: "IsValid q" and ok: "ips_ok q a" and no: "\<not> has_ips q a"
  shows "dom (aIPs a) = dom (reserved q)"
proof -
  have sub: "dom (reserved q) \<subseteq> dom (aIPs a)" "dom (aIPs a) \<subseteq> addr_String ` block q"
    using ok by (auto simp: ips_ok_def)
  have fin: "finite (dom (aIPs a))"
    using finite_subset [OF sub(2)] card_block(1) [OF q] by simp
  have d: "dom (reserved q) = insert (addr_String (first_addr q)) (if Is4 (Addr q) then {addr_String (last_addr q)} else {})"
    by (auto simp: reserved_def split: if_split_asm)
  have "card (dom (aIPs a)) \<le> card (dom (reserved q))"
  proof (cases "Is4 (Addr q)")
    case False
    then have "Is6 (Addr q)"
      using IsValidD(1) [OF q] by (cases "Addr q") auto
    with no False card_reserved(2) show ?thesis
      by (simp add: has_ips_def)
  next
    case True
    show ?thesis
    proof (cases "host_bits q = 0")
      case True
      then have "card (addr_String ` block q) \<le> 1"
        using card_block [OF q] card_image_le [OF card_block(1) [OF q], of addr_String] by simp
      moreover have "card (dom (aIPs a)) \<le> card (addr_String ` block q)"
        using sub(2) card_block(1) [OF q] by (intro card_mono) auto
      moreover have "1 \<le> card (dom (reserved q))"
        unfolding d by (simp add: Suc_le_eq card_gt_0_iff)
      ultimately show ?thesis
        by linarith
    next
      case False
      then have "(2::nat) \<le> 2 ^ host_bits q"
        using self_le_power [of "2::nat" "host_bits q"] by simp
      then have "addr_num (first_addr q) \<noteq> addr_num (last_addr q)"
        unfolding first_addr_num [OF q] last_addr_num [OF q] by linarith
      then have "first_addr q \<noteq> last_addr q"
        by auto
      then have "card (dom (reserved q)) = 2"
        unfolding d using \<open>Is4 (Addr q)\<close> by simp
      with no \<open>Is4 (Addr q)\<close> show ?thesis
        by (simp add: has_ips_def)
    qed
  qed
  moreover have "card (dom (reserved q)) \<le> card (dom (aIPs a))"
    by (rule card_mono [OF fin sub(1)])
  ultimately show ?thesis
    by (intro card_subset_eq [OF fin sub(1), symmetric] le_antisym)
qed

lemma has_ips_reserved: "IsValid q \<Longrightarrow> dom (aIPs a) = dom (reserved q) \<Longrightarrow> \<not> has_ips q a"
  using fresh_no_ips [of q "[]"] by (simp add: has_ips_def)

section \<open>Every change keeps the order\<close>

lemma ns_okI:
  assumes "tree_ok m" "\<And>c a q. m c = Some a \<Longrightarrow> IsValid q \<Longrightarrow> c = key q \<Longrightarrow> ips_ok q a"
    "\<And>c a. m c = Some a \<Longrightarrow> parent_ok m c a"
  shows "ns_ok m"
  using assms by (auto simp: ns_ok_def)

lemma stored_key:
  assumes "tree_ok m" "m c = Some a"
  obtains q where "IsValid q" "c = key q" "cidr_block c = block q" "block q \<noteq> {}"
  using tree_okD(1) [OF assms(1)] assms(2) block_nonempty that unfolding keys_ok_def
  by (metis cidr_block_key domI)

text \<open>A change to one prefix that leaves its place in the tree.\<close>

lemma ns_ok_write:
  assumes m: "ns_ok m" "m (key q) = Some a" and q: "IsValid q"
    and b: "tree_ok (m(key q \<mapsto> b))" "ips_ok q b" "aParentCidr b = aParentCidr a"
  shows "ns_ok (m(key q \<mapsto> b))"
proof (rule ns_okI [OF b(1)])
  fix c d r assume d: "(m(key q \<mapsto> b)) c = Some d" and r: "IsValid r" "c = key r"
  show "ips_ok r d"
  proof (cases "c = key q")
    case True
    then have "d = b"
      using d by simp
    with b(2) ips_ok_key [OF r(1) q] r(2) True show ?thesis
      by simp
  next
    case False
    with d have "m c = Some d"
      by simp
    with ns_okD(2) [OF m(1) r(1)] r(2) show ?thesis
      by simp
  qed
next
  fix c d assume d: "(m(key q \<mapsto> b)) c = Some d"
  have "dom (m(key q \<mapsto> b)) = dom m"
    using m(2) by auto
  then have "parent_ok (m(key q \<mapsto> b)) c e \<longleftrightarrow> parent_ok m c e" for e
    by (simp add: parent_ok_def)
  then show "parent_ok (m(key q \<mapsto> b)) c d"
    using ns_okD(3) [OF m(1), of c] m(2) b(3) d
    by (auto simp: parent_ok_def split: if_split_asm)
qed

text \<open>A new prefix that no stored one lies in.\<close>

lemma ns_ok_new:
  assumes m: "ns_ok m" and t: "tree_ok (m(key r \<mapsto> fresh r p))" and r: "IsValid r"
    and out: "\<And>c b. m c = Some b \<Longrightarrow> \<not> cidr_block c \<subseteq> block r"
    and p: "parent_ok (m(key r \<mapsto> fresh r p)) (key r) (fresh r p)"
  shows "ns_ok (m(key r \<mapsto> fresh r p))"
proof (rule ns_okI [OF t])
  fix c d q assume d: "(m(key r \<mapsto> fresh r p)) c = Some d" and q: "IsValid q" "c = key q"
  show "ips_ok q d"
  proof (cases "c = key r")
    case True
    have "ips_ok r (fresh r p)"
      using reserved_block [OF r] by (simp add: ips_ok_def)
    with d True ips_ok_key [OF q(1) r] q(2) show ?thesis
      by simp
  next
    case False
    with d have "m c = Some d"
      by simp
    with ns_okD(2) [OF m q(1)] q(2) show ?thesis
      by simp
  qed
next
  fix c d assume d: "(m(key r \<mapsto> fresh r p)) c = Some d"
  show "parent_ok (m(key r \<mapsto> fresh r p)) c d"
  proof (cases "c = key r")
    case True
    with d p show ?thesis
      by simp
  next
    case False
    with d have d': "m c = Some d"
      by simp
    have old: "parent_ok m c d"
      by (rule ns_okD(3) [OF m d'])
    have far: "\<not> cidr_block c \<subset> cidr_block (key r)"
      using out [OF d'] r by auto
    then have "aParentCidr d \<noteq> key r" if "aParentCidr d \<noteq> []"
      using old that unfolding parent_ok_def by metis
    with far show ?thesis
      using old unfolding parent_ok_def by (auto simp del: cidr_block_key)
  qed
qed

lemma ns_ok_unused:
  assumes m: "ns_ok m" and r: "IsValid r" and u: "unused m r"
  shows "ns_ok (m(key r \<mapsto> fresh r []))"
proof (rule ns_ok_new [OF m tree_ok_unused [OF ns_okD(1) [OF m] r u] r])
  fix c b assume b: "m c = Some b"
  then have "cidr_block c \<inter> block r = {}"
    using u by (auto simp: unused_def)
  moreover obtain q where "cidr_block c = block q" "block q \<noteq> {}"
    using stored_key [OF ns_okD(1) [OF m] b] .
  ultimately show "\<not> cidr_block c \<subseteq> block r"
    by auto
qed (simp add: parent_ok_def)

text \<open>A child cut out of free space: no stored prefix lies in it, and none lies between it and its parent.\<close>

lemma ns_ok_child:
  assumes m: "ns_ok m" "m (key q) = Some a" and q: "IsValid q" and r: "IsValid r"
    and sub: "block r \<subseteq> free_space q (aChildren a)" and bits: "Bits q < Bits r" and no: "\<not> has_ips q a"
  shows "ns_ok (m(key q \<mapsto> give_child (prefix_String r) a, key r \<mapsto> fresh r (key q)))"
proof -
  note t = ns_okD(1) [OF m(1)]
  note new = free_child_new [OF t m(2) q r sub bits]
  let ?b = "give_child (prefix_String r) a"
  let ?m = "m(key q \<mapsto> ?b)"
  have ok: "ips_ok q a"
    by (rule ns_okD(2) [OF m(1) q m(2)])
  have tr: "tree_ok ?m"
    using taken_give_child [OF r, of a] r tree_okD(3) [OF t m(2)]
    by (intro tree_ok_grow [OF t m(2)]) (auto simp: children_ok_def ParsePrefix_String)
  have "ips_ok q ?b"
    using ok only_reserved [OF q ok no] by (simp add: ips_ok_def)
  then have okm: "ns_ok ?m"
    using ns_ok_write [OF m q tr] by simp
  have near: "cidr_block c \<inter> block r = {} \<or> block r \<subset> cidr_block c" if "m c = Some b" for c b
  proof (cases "c = key q")
    case True
    with new(3) q show ?thesis
      by simp
  next
    case False
    with free_child_apart [OF t m(2) q r sub that] r show ?thesis
      by (auto simp: below_def)
  qed
  have out: "\<not> cidr_block c \<subseteq> block r" if b: "?m c = Some b" for c b
  proof -
    obtain b' where b': "m c = Some b'"
      using b m(2) by (cases "c = key q") auto
    obtain u where "cidr_block c = block u" "block u \<noteq> {}"
      using stored_key [OF t b'] .
    with near [OF b'] show ?thesis
      by auto
  qed
  have between: "\<not> (block r \<subset> cidr_block e \<and> cidr_block e \<subset> block q)" if e: "m e = Some b" for e b
  proof
    assume in_between: "block r \<subset> cidr_block e \<and> cidr_block e \<subset> block q"
    then have "e \<noteq> key q"
      using q by auto
    then have "apart (key q) a e b"
      using tree_okD(2) [OF t m(2) e] by blast
    moreover have "block r \<noteq> {}"
      by (rule block_nonempty [OF r])
    ultimately have "cidr_block e \<subseteq> taken (aChildren a)"
      using in_between q by (auto simp: apart_def below_def)
    with in_between sub \<open>block r \<noteq> {}\<close> show False
      by (auto simp: free_space_def)
  qed
  have "parent_ok (?m(key r \<mapsto> fresh r (key q))) (key r) (fresh r (key q))"
    using between new(3) q r m(2) by (auto simp: parent_ok_def dom_def split: if_split_asm)
  then show ?thesis
    by (intro ns_ok_new [OF okm tree_ok_child [OF t m(2) q r sub bits] r out])
qed

lemma ns_ok_take:
  assumes m: "ns_ok m" "m (key q) = Some a" and q: "IsValid q" and ip: "ip \<in> free_ips q a" "\<not> aIsParent a"
  shows "ns_ok (m(key q \<mapsto> take_ip ip a))"
proof (rule ns_ok_write [OF m q])
  show "tree_ok (m(key q \<mapsto> take_ip ip a))"
    using tree_okD(3) [OF ns_okD(1) [OF m(1)] m(2)]
    by (intro tree_ok_grow [OF ns_okD(1) [OF m(1)] m(2)]) (auto simp: children_ok_def)
  show "ips_ok q (take_ip ip a)"
    using ns_okD(2) [OF m(1) q m(2)] ip by (auto simp: ips_ok_def free_ips_def mem_block)
qed simp

lemma ns_ok_drop:
  assumes m: "ns_ok m" "m (key q) = Some a" and q: "IsValid q" and k: "reserved q k = None"
  shows "ns_ok (m(key q \<mapsto> drop_ip k a))"
proof (rule ns_ok_write [OF m q])
  show "tree_ok (m(key q \<mapsto> drop_ip k a))"
    using tree_okD(3) [OF ns_okD(1) [OF m(1)] m(2)]
    by (intro tree_ok_grow [OF ns_okD(1) [OF m(1)] m(2)]) (auto simp: children_ok_def)
  show "ips_ok q (drop_ip k a)"
    using ns_okD(2) [OF m(1) q m(2)] k by (auto simp: ips_ok_def)
qed simp

lemma tree_ok_remove: "tree_ok m \<Longrightarrow> tree_ok (m(c := None))"
  unfolding tree_ok_def keys_ok_def ran_def by (auto split: if_split_asm)

lemma parent_ok_remove: "parent_ok m c a \<Longrightarrow> parent_ok (m(d := None)) c a"
  by (auto simp: parent_ok_def)

lemma ns_ok_delete:
  assumes m: "ns_ok m"
  shows "ns_ok (m(key q := None))"
proof (rule ns_okI [OF tree_ok_remove [OF ns_okD(1) [OF m]]])
  show "ips_ok r a" if "(m(key q := None)) c = Some a" "IsValid r" "c = key r" for c a r
    using that ns_okD(2) [OF m] by (auto split: if_split_asm)
  show "parent_ok (m(key q := None)) c a" if "(m(key q := None)) c = Some a" for c a
    using that ns_okD(3) [OF m] parent_ok_remove by (auto split: if_split_asm)
qed

text \<open>Releasing a child that no stored prefix lies in: the space its parent gets back is used by nobody.\<close>

lemma ns_ok_release:
  assumes m: "ns_ok m" "m (key q) = Some a" "m (key r) = Some b" and q: "IsValid q" and r: "IsValid r"
    and p: "aParentCidr b = key q" and leaf: "\<And>c. c \<in> dom m \<Longrightarrow> c \<noteq> key r \<Longrightarrow> \<not> cidr_block c \<subseteq> block r"
  shows "ns_ok (m(key q \<mapsto> take_back (key r) a, key r := None))"
proof -
  let ?b = "take_back (key r) a"
  let ?m = "m(key r := None)"
  note t = ns_okD(1) [OF m(1)]
  have par: "parent_ok m (key r) b"
    by (rule ns_okD(3) [OF m(1,3)])
  then have inside: "block r \<subset> block q"
    "\<And>e. e \<in> dom m \<Longrightarrow> \<not> (block r \<subset> cidr_block e \<and> cidr_block e \<subset> block q)"
    using p q r m(2) key_nonempty [of q] by (auto simp: parent_ok_def)
  then have ne: "key q \<noteq> key r"
    using reserved_key(2) [OF q r] by auto
  have mq: "?m (key q) = Some a"
    using m(2) ne by simp
  have keep: "taken (aChildren a) - block r \<subseteq> taken (aChildren ?b)"
  proof
    fix x assume "x \<in> taken (aChildren a) - block r"
    then obtain c where c: "aChildren a c = Some False" "x \<in> cidr_block c" and x: "x \<notin> block r"
      by (auto simp: taken_cidr_block)
    have "c \<noteq> key r"
      using c(2) x r by auto
    with c show "x \<in> taken (aChildren ?b)"
      by (auto simp: taken_cidr_block intro!: exI [of _ c])
  qed
  have "apart (key q) ?b c d" if d: "?m c = Some d" and c: "c \<noteq> key q" for c d
  proof -
    have d': "m c = Some d" and cr: "c \<noteq> key r"
      using d by (auto split: if_split_asm)
    have leaf_c: "\<not> cidr_block c \<subseteq> block r"
      using leaf d' cr by blast
    consider "cidr_block (key q) \<inter> cidr_block c = {}" | "below c (key q) a" | "below (key q) c d"
      using tree_okD(2) [OF t m(2) d'] c by (auto simp: apart_def)
    then show ?thesis
    proof cases
      case 2
      then have "cidr_block c \<subset> block q" "cidr_block c \<subseteq> taken (aChildren a)"
        using q by (auto simp: below_def)
      moreover have "cidr_block c \<inter> block r = {}"
        using tree_okD(2) [OF t m(3) d'] cr leaf_c inside(2) [of c] d' r calculation(1)
        by (auto simp: apart_def below_def)
      ultimately have "cidr_block c \<subseteq> taken (aChildren ?b)"
        using keep by blast
      with 2 show ?thesis
        by (simp add: apart_def below_def)
    qed (auto simp: apart_def)
  qed
  then have "tree_ok (?m(key q \<mapsto> ?b))"
    using tree_okD(3) [OF t m(2)]
    by (intro tree_ok_upd [OF tree_ok_remove [OF t] q]) (auto simp: children_ok_def split: if_split_asm)
  moreover have "ips_ok q ?b"
    using ns_okD(2) [OF m(1) q m(2)] taken_upd_True [of "aChildren a" "key r"] by (auto simp: ips_ok_def)
  moreover have "aParentCidr ?b = aParentCidr a"
    by (simp add: take_back_def)
  ultimately have "ns_ok (?m(key q \<mapsto> ?b))"
    using ns_ok_write [OF ns_ok_delete [OF m(1), of r] mq q] by blast
  then show ?thesis
    using ne by (simp add: fun_upd_twist)
qed

section \<open>Calls\<close>

text \<open>
  A call of the ipamer. A child prefix is released as the service does it: it is read, and what was read is
  released.
\<close>

datatype ipam_call =
  NewPrefix_call string
| DeletePrefix_call string
| AcquireChild_call string "8 word"
| AcquireSpecificChild_call string string
| ReleaseChild_call string
| AcquireIP_call string
| AcquireSpecificIP_call string string
| ReleaseIP_call string string
| CreateNamespace_call string

text \<open>The events of a history, each with namespace, prefix and address.\<close>

datatype ip_event = Got string string string | Gave string string string

definition release_read_child :: "('s, unit) retry_do \<Rightarrow> 's storage \<Rightarrow> ctx \<Rightarrow> string \<Rightarrow> ('s, unit) comp" where
  "release_read_child ru st ctx cidr s = (case PrefixFrom st ctx cidr s of
      (Inl err, s) \<Rightarrow> (Inl err, s)
    | (Inr prefix, s) \<Rightarrow> ReleaseChildPrefix ru st ctx prefix s)"

definition prefix_key :: "string \<Rightarrow> string" where
  "prefix_key cidr = (case ParsePrefix cidr of Inl err \<Rightarrow> [] | Inr q \<Rightarrow> key q)"

definition got :: "string \<Rightarrow> IP result \<times> 's \<Rightarrow> ip_event list \<times> 's" where
  "got ns r = (case r of
      (Inl err, s) \<Rightarrow> ([], s)
    | (Inr ip, s) \<Rightarrow> ([Got ns (ParentPrefix ip) (addr_String (IP ip))], s))"

definition gave :: "string \<Rightarrow> string \<Rightarrow> string \<Rightarrow> unit result \<times> 's \<Rightarrow> ip_event list \<times> 's" where
  "gave ns cidr ip r = (case r of
      (Inl err, s) \<Rightarrow> ([], s)
    | (Inr _, s) \<Rightarrow> ([Gave ns (prefix_key cidr) ip], s))"

definition run ::
  "('b, 't) netipx \<Rightarrow> ('s, Prefix) retry_do \<Rightarrow> ('s, unit) retry_do \<Rightarrow> ('s, IP) retry_do \<Rightarrow> 's storage \<Rightarrow> ctx \<Rightarrow>
    ipam_call \<Rightarrow> 's \<Rightarrow> ip_event list \<times> 's" where
  "run nx rp ru ri st ctx c s = (let ns = namespaceFromContext ctx in case c of
      NewPrefix_call cidr \<Rightarrow> ([], snd (ipamer_NewPrefix nx st ctx cidr s))
    | DeletePrefix_call cidr \<Rightarrow> ([], snd (ipamer_DeletePrefix st ctx cidr s))
    | AcquireChild_call cidr len \<Rightarrow> ([], snd (AcquireChildPrefix nx rp st ctx cidr len s))
    | AcquireSpecificChild_call cidr child \<Rightarrow> ([], snd (AcquireSpecificChildPrefix nx rp st ctx cidr child s))
    | ReleaseChild_call cidr \<Rightarrow> ([], snd (release_read_child ru st ctx cidr s))
    | AcquireIP_call cidr \<Rightarrow> got ns (AcquireIP nx ri st ctx cidr s)
    | AcquireSpecificIP_call cidr ip \<Rightarrow> got ns (AcquireSpecificIP nx ri st ctx cidr ip s)
    | ReleaseIP_call cidr ip \<Rightarrow> gave ns cidr ip (ReleaseIPFromPrefix ru st ctx cidr ip s)
    | CreateNamespace_call name \<Rightarrow> ([], snd (ipamer_CreateNamespace st name s)))"

text \<open>What is asked of the callers.\<close>

definition orderly :: "(string \<Rightarrow> bool) \<Rightarrow> store_view \<Rightarrow> ctx \<Rightarrow> ipam_call \<Rightarrow> bool" where
  "orderly ok_ns v ctx c = (case c of
      ReleaseIP_call cidr ip \<Rightarrow> \<forall>q. ParsePrefix cidr = Inr q \<longrightarrow> reserved q ip = None
    | ReleaseChild_call cidr \<Rightarrow> \<forall>q m. ParsePrefix cidr = Inr q \<longrightarrow> v (namespaceFromContext ctx) = Some m \<longrightarrow>
        (\<forall>a. m (key q) = Some a \<longrightarrow> \<not> has_ips q a) \<and> (\<forall>e \<in> dom m. e \<noteq> key q \<longrightarrow> \<not> cidr_block e \<subseteq> block q)
    | CreateNamespace_call name \<Rightarrow> ok_ns name
    | _ \<Rightarrow> True)"

inductive history ::
  "('b, 't) netipx \<Rightarrow> ('s, Prefix) retry_do \<Rightarrow> ('s, unit) retry_do \<Rightarrow> ('s, IP) retry_do \<Rightarrow> 's storage \<Rightarrow>
    ('s \<Rightarrow> store_view) \<Rightarrow> (string \<Rightarrow> bool) \<Rightarrow> 's \<Rightarrow> ip_event list \<Rightarrow> 's \<Rightarrow> bool"
  for nx rp ru ri st view ok_ns s0 where
  start: "history nx rp ru ri st view ok_ns s0 [] s0"
| call: "history nx rp ru ri st view ok_ns s0 es s \<Longrightarrow> orderly ok_ns (view s) ctx c \<Longrightarrow>
    run nx rp ru ri st ctx c s = (new, s') \<Longrightarrow> history nx rp ru ri st view ok_ns s0 (es @ new) s'"

text \<open>The addresses that are held after a history.\<close>

primrec after_event :: "ip_event \<Rightarrow> (string \<times> string \<times> string) set \<Rightarrow> (string \<times> string \<times> string) set" where
  "after_event (Got ns c ip) H = insert (ns, c, ip) H"
| "after_event (Gave ns c ip) H = H - {(ns, c, ip)}"

definition held :: "ip_event list \<Rightarrow> (string \<times> string \<times> string) set" where
  "held es = fold after_event es {}"

section \<open>What is stored is what is held\<close>

definition handed_out :: "string \<Rightarrow> aprefix \<Rightarrow> string set" where
  "handed_out c a = {k \<in> dom (aIPs a). \<exists>q. ParsePrefix c = Inr q \<and> reserved q k = None}"

definition allocated :: "store_view \<Rightarrow> (string \<times> string \<times> string) set" where
  "allocated v = {(ns, c, k). \<exists>m a. v ns = Some m \<and> m c = Some a \<and> k \<in> handed_out c a}"

definition good :: "store_view \<Rightarrow> bool" where
  "good v \<longleftrightarrow> (\<forall>ns m. v ns = Some m \<longrightarrow> ns_ok m)"

lemma handed_out_key:
  assumes "IsValid q"
  shows "handed_out (key q) a = dom (aIPs a) - dom (reserved q)"
proof -
  have "reserved (Masked q) = reserved q"
    using assms key_Masked [OF assms] by (intro reserved_key) simp_all
  then show ?thesis
    using ParsePrefix_key [OF assms] by (auto simp: handed_out_def)
qed

lemma good_upd: "good v \<Longrightarrow> ns_ok m \<Longrightarrow> good (v(ns \<mapsto> m))"
  by (auto simp: good_def)

lemma mem_allocated: "(ns, c, k) \<in> allocated v \<longleftrightarrow>
  (case v ns of None \<Rightarrow> False | Some m \<Rightarrow> (case m c of None \<Rightarrow> False | Some a \<Rightarrow> k \<in> handed_out c a))"
  by (auto simp: allocated_def split: option.split)

lemma allocated_same:
  assumes "v ns = Some m" "\<And>c a. m c = Some a \<Longrightarrow> c \<in> C \<Longrightarrow> handed_out c a = {}"
    "\<And>c a. m' c = Some a \<Longrightarrow> c \<in> C \<Longrightarrow> handed_out c a = {}" "\<And>c. c \<notin> C \<Longrightarrow> m' c = m c"
  shows "allocated (v(ns \<mapsto> m')) = allocated v"
proof -
  have "(ns', c, k) \<in> allocated (v(ns \<mapsto> m')) \<longleftrightarrow> (ns', c, k) \<in> allocated v" for ns' c k
    using assms by (cases "ns' = ns"; cases "c \<in> C") (auto simp: mem_allocated split: option.split)
  then show ?thesis
    by auto
qed

lemma allocated_write:
  assumes "v ns = Some m" "m c = Some a"
  shows "allocated (v(ns \<mapsto> m(c \<mapsto> b))) =
    (allocated v - {ns} \<times> {c} \<times> handed_out c a) \<union> {ns} \<times> {c} \<times> handed_out c b"
proof -
  have "(ns', d, k) \<in> allocated (v(ns \<mapsto> m(c \<mapsto> b))) \<longleftrightarrow>
      (ns', d, k) \<in> (allocated v - {ns} \<times> {c} \<times> handed_out c a) \<union> {ns} \<times> {c} \<times> handed_out c b" for ns' d k
    using assms by (cases "ns' = ns"; cases "d = c") (auto simp: mem_allocated)
  then show ?thesis
    by auto
qed

lemma allocated_unchanged: "v ns = Some m \<Longrightarrow> m c = Some a \<Longrightarrow> handed_out c b = handed_out c a \<Longrightarrow>
  allocated (v(ns \<mapsto> m(c \<mapsto> b))) = allocated v"
  by (subst allocated_write) (auto simp: mem_allocated)

text \<open>An address that lies in a prefix without children is handed out by no other prefix.\<close>

lemma handed_out_not_parent:
  assumes "ns_ok m" "m c = Some a" "k \<in> handed_out c a"
  shows "\<not> aIsParent a" "\<exists>ip. k = addr_String ip \<and> ip \<in> cidr_block c"
proof -
  obtain q where q: "IsValid q" "c = key q" "cidr_block c = block q"
    using stored_key [OF ns_okD(1) [OF assms(1)] assms(2)] .
  have ok: "ips_ok q a"
    using ns_okD(2) [OF assms(1) q(1)] assms(2) q(2) by simp
  have k: "k \<in> dom (aIPs a)" "k \<notin> dom (reserved q)"
    using assms(3) handed_out_key [OF q(1)] q(2) by auto
  show "\<not> aIsParent a"
    using ok k by (auto simp: ips_ok_def)
  have "k \<in> addr_String ` block q"
    using ok k(1) by (auto simp: ips_ok_def)
  then show "\<exists>ip. k = addr_String ip \<and> ip \<in> cidr_block c"
    using q(3) by blast
qed

lemma one_holder:
  assumes m: "ns_ok m" "m c = Some a" "\<not> aIsParent a" and ip: "ip \<in> cidr_block c"
    and d: "m d = Some b" "addr_String ip \<in> handed_out d b"
  shows "d = c"
proof (rule ccontr)
  assume ne: "d \<noteq> c"
  note not_parent = handed_out_not_parent [OF m(1) d]
  have none: "taken (aChildren e) = {}" if e: "m c' = Some e" "\<not> aIsParent e" for c' e
  proof -
    obtain q where "IsValid q" "c' = key q"
      using stored_key [OF ns_okD(1) [OF m(1)] e(1)] by metis
    then have "ips_ok q e"
      using ns_okD(2) [OF m(1)] e(1) by blast
    with e(2) show ?thesis
      by (auto simp: ips_ok_def)
  qed
  have "ip \<in> cidr_block d"
    using not_parent(2) by auto
  moreover have "apart c a d b"
    using tree_okD(2) [OF ns_okD(1) [OF m(1)] m(2) d(1)] ne by simp
  ultimately show False
    using ip none [OF m(2,3)] none [OF d(1) not_parent(1)] by (auto simp: apart_def below_def)
qed

section \<open>Every call\<close>

definition safe_step :: "('s \<Rightarrow> bool) \<Rightarrow> ('s \<Rightarrow> store_view) \<Rightarrow> 's \<Rightarrow> ip_event list \<times> 's \<Rightarrow> bool" where
  "safe_step invar view s r \<longleftrightarrow> (case r of (new, s') \<Rightarrow> invar s' \<and> good (view s') \<and>
     allocated (view s') = fold after_event new (allocated (view s)) \<and>
     (\<forall>ns c k. Got ns c k \<in> set new \<longrightarrow> (\<forall>d. (ns, d, k) \<notin> allocated (view s))))"

lemma safe_quiet:
  assumes "invar s'" "good (view s')" "allocated (view s') = allocated (view s)"
  shows "safe_step invar view s ([], s')"
  using assms by (simp add: safe_step_def)

lemma safe_unchanged: "good (view s) \<Longrightarrow> invar s' \<Longrightarrow> view s' = view s \<Longrightarrow> safe_step invar view s ([], s')"
  by (simp add: safe_step_def)

lemma stored_None_cases:
  assumes "stored v ctx cidr = None"
  obtains e where "ParsePrefix cidr = Inl e" | q where "ParsePrefix cidr = Inr q" "v (namespaceFromContext ctx) = None"
    | q m where "ParsePrefix cidr = Inr q" "v (namespaceFromContext ctx) = Some m" "m (key q) = None"
  using assms by (auto simp: stored_def split: sum.split_asm option.split_asm)

context storage_laws
begin

lemma call_NewPrefix:
  assumes nx: "netipx_laws nx B BS IS" and s: "invar s" "good (view s)"
  shows "safe_step invar view s ([], snd (ipamer_NewPrefix nx st ctx cidr s))"
proof (cases "view s (namespaceFromContext ctx)")
  case None
  with no_ns_read_cidrs [OF s(1) None] s(2) show ?thesis
    by (auto simp: ipamer_NewPrefix_def intro: safe_unchanged)
next
  case (Some m)
  have m: "ns_ok m"
    using s(2) Some by (simp add: good_def)
  show ?thesis
  proof (cases "ParsePrefix cidr")
    case (Inl e)
    with read_cidrs [OF s(1) Some] s(2) show ?thesis
      by (auto simp: ipamer_NewPrefix_def newPrefix_def intro: safe_unchanged)
  next
    case (Inr q)
    note v = ParsePrefix_valid [OF Inr]
    note law = NewPrefix_law [OF storage_laws_axioms nx s(1) Some tree_okD(1) [OF ns_okD(1) [OF m]] Inr]
    show ?thesis
    proof (cases "unused m q")
      case True
      with law obtain s' where s': "snd (ipamer_NewPrefix nx st ctx cidr s) = s'" "invar s'"
          "view s' = (view s)(namespaceFromContext ctx \<mapsto> m(key q \<mapsto> fresh q []))"
        using Some by (auto simp: put_def)
      have "allocated (view s') = allocated (view s)"
        unfolding s'(3) using unused_key [OF True v]
        by (intro allocated_same [where v = "view s" and m = m and C = "{key q}"]) (auto simp: Some handed_out_key [OF v])
      with s' good_upd [OF s(2) ns_ok_unused [OF m v True]] show ?thesis
        by (auto intro: safe_quiet)
    next
      case False
      with law s(2) show ?thesis
        by (auto intro: safe_unchanged)
    qed
  qed
qed

text \<open>Calls that read a prefix first change nothing when it is not stored.\<close>

lemma call_not_stored:
  assumes s: "invar s" "good (view s)" and no: "stored (view s) ctx cidr = None"
    and f: "\<And>e s'. PrefixFrom st ctx cidr s = (Inl e, s') \<Longrightarrow> \<exists>e. f s = (Inl e, s')"
  shows "safe_step invar view s ([], snd (f s))"
proof -
  obtain e s' where "PrefixFrom st ctx cidr s = (Inl e, s')" "invar s'" "view s' = view s"
    using PrefixFrom_not_stored [OF s(1) no] .
  with f [OF this(1)] s(2) show ?thesis
    by (auto intro: safe_unchanged)
qed

lemma call_DeletePrefix:
  assumes s: "invar s" "good (view s)"
  shows "safe_step invar view s ([], snd (ipamer_DeletePrefix st ctx cidr s))"
proof (cases "stored (view s) ctx cidr")
  case None
  then show ?thesis
    by (rule call_not_stored [OF s]) (simp add: ipamer_DeletePrefix_def)
next
  case (Some a)
  then obtain q m where q: "ParsePrefix cidr = Inr q" and m: "view s (namespaceFromContext ctx) = Some m" "m (key q) = Some a"
    by (rule stored_Some)
  note v = ParsePrefix_valid [OF q]
  have ok: "ns_ok m"
    using s(2) m(1) by (simp add: good_def)
  note law = DeletePrefix_law [OF storage_laws_axioms s(1) m(1) q m(2)]
  show ?thesis
  proof (cases "has_ips q a")
    case True
    with law s(2) show ?thesis
      by (auto intro: safe_unchanged)
  next
    case False
    with law obtain s' where s': "snd (ipamer_DeletePrefix st ctx cidr s) = s'" "invar s'"
        "view s' = (view s)(namespaceFromContext ctx \<mapsto> m(key q := None))"
      by auto
    have "allocated (view s') = allocated (view s)"
      unfolding s'(3) using m(2) only_reserved [OF v ns_okD(2) [OF ok v m(2)] False]
      by (intro allocated_same [where v = "view s" and m = m and C = "{key q}"]) (auto simp: m(1) handed_out_key [OF v])
    with s' good_upd [OF s(2) ns_ok_delete [OF ok]] show ?thesis
      by (auto intro: safe_quiet)
  qed
qed

lemma child_safe:
  assumes s: "good (view s)" "view s (namespaceFromContext ctx) = Some m" and a: "m (key q) = Some a"
    and q: "IsValid q" and r: "IsValid r" "block r \<subseteq> free_space q (aChildren a)" "Bits q < Bits r" "\<not> has_ips q a"
    and s': "invar s'" "view s' = (view s)(namespaceFromContext ctx \<mapsto>
      m(key q \<mapsto> give_child (prefix_String r) a, key r \<mapsto> fresh r (key q)))"
  shows "safe_step invar view s ([], s')"
proof -
  have m: "ns_ok m"
    using s by (simp add: good_def)
  have none: "handed_out (key q) a = {}" "handed_out (key q) (give_child (prefix_String r) a) = {}"
    using only_reserved [OF q ns_okD(2) [OF m q a] r(4)] by (simp_all add: handed_out_key [OF q])
  have "allocated (view s') = allocated (view s)"
    unfolding s'(2) using none a free_child_new(1,2) [OF ns_okD(1) [OF m] a q r(1-3)]
    by (intro allocated_same [where v = "view s" and m = m and C = "{key q, key r}"])
      (auto simp: s(2) handed_out_key [OF r(1)] split: if_split_asm)
  with s' good_upd [OF s(1) ns_ok_child [OF m a q r]] show ?thesis
    by (intro safe_quiet) auto
qed

lemma call_AcquireChildPrefix:
  assumes nx: "netipx_laws nx B BS IS" and rp: "retry_laws rp" and s: "invar s" "good (view s)"
  shows "safe_step invar view s ([], snd (AcquireChildPrefix nx rp st ctx cidr n s))"
proof (cases "stored (view s) ctx cidr")
  case None
  then show ?thesis
  proof (rule call_not_stored [OF s])
    fix e s' assume "PrefixFrom st ctx cidr s = (Inl e, s')"
    then show "\<exists>e. AcquireChildPrefix nx rp st ctx cidr n s = (Inl e, s')"
      by (auto simp: AcquireChildPrefix_def acquireChildPrefixInternal_def intro!: exI retry_Inl [OF rp])
  qed
next
  case (Some a)
  then obtain q m where q: "ParsePrefix cidr = Inr q" and m: "view s (namespaceFromContext ctx) = Some m" "m (key q) = Some a"
    by (rule stored_Some)
  have ok: "ns_ok m"
    using s(2) m(1) by (simp add: good_def)
  note law = AcquireChildPrefix_law [OF storage_laws_axioms nx rp s(1) m(1) ns_okD(1) [OF ok] q m(2), of n]
  show ?thesis
  proof (cases "Bits q < uint n \<and> \<not> has_ips q a \<and> (\<exists>r. IsValid r \<and> Bits r = uint n \<and> block r \<subseteq> free_space q (aChildren a))")
    case True
    with law obtain r s' where r: "IsValid r" "Bits r = uint n" "block r \<subseteq> free_space q (aChildren a)"
        and s': "snd (AcquireChildPrefix nx rp st ctx cidr n s) = s'" "invar s'"
          "view s' = (view s)(namespaceFromContext ctx \<mapsto> m(key q \<mapsto> give_child (prefix_String r) a, key r \<mapsto> fresh r (key q)))"
      by auto
    with True child_safe [OF s(2) m ParsePrefix_valid [OF q] r(1,3)] show ?thesis
      by simp
  next
    case False
    with law s(2) show ?thesis
      by (auto intro: safe_unchanged)
  qed
qed

text \<open>A specific child whose text does not parse, or is empty, is refused.\<close>

lemma specific_child_refused:
  assumes nx: "netipx_laws nx B BS IS" and rp: "retry_laws rp"
    and s: "invar s" "view s (namespaceFromContext ctx) = Some m" "tree_ok m"
    and q: "ParsePrefix cidr = Inr q" "m (key q) = Some a" and e: "ParsePrefix child = Inl e"
  shows "\<exists>e s'. AcquireSpecificChildPrefix nx rp st ctx cidr child s = (Inl e, s') \<and> invar s' \<and> view s' = view s"
proof (cases "child = []")
  case True
  obtain fs s1 where res: "child_result nx st view invar ctx m q a cidr [] 0 None 0 s fs s1"
    by (rule acquire_child_result [OF nx s(1,2) tree_okD(3) [OF s(3) q(2)] q, of "[]" None 0 0]) (simp, erule that)
  have "\<not> (Bits q < 0 \<and> \<not> has_ips q a)"
    using IsValidD(3) [OF ParsePrefix_valid [OF q(1)]] by simp
  then obtain e where e: "acquireChildPrefixInternal nx st ctx (namespaceFromContext ctx) cidr [] 0 s = (Inl e, s1)"
      "\<not> errors_is e ErrOptimisticLockError" "invar s1" "view s1 = view s"
    using child_resultD(2) [OF res] by blast
  with True show ?thesis
    by (simp add: AcquireSpecificChildPrefix_def retry_Inl [OF rp])
next
  case False
  obtain p s1 where p: "PrefixFrom st ctx cidr s = (Inr p, s1)" "Cidr p = key q" "invar s1" "view s1 = view s"
    using PrefixFrom_found [OF s(1,2) q] .
  have "acquireChildPrefixInternal nx st ctx (namespaceFromContext ctx) cidr child 0 s =
      (Inl (Errorf ''unable to parse childCidr:%s %w'' [e]), s1)"
    using p(1,2) False e ParsePrefix_key [OF ParsePrefix_valid [OF q(1)]] by (simp add: acquireChildPrefixInternal_def)
  moreover have "\<not> errors_is (Errorf ''unable to parse childCidr:%s %w'' [e]) ErrOptimisticLockError"
    using plain_ParsePrefix [OF e] by simp
  ultimately show ?thesis
    using p(3,4) retry_Inl [OF rp] by (auto simp: AcquireSpecificChildPrefix_def)
qed

lemma call_AcquireSpecificChildPrefix:
  assumes nx: "netipx_laws nx B BS IS" and rp: "retry_laws rp" and s: "invar s" "good (view s)"
  shows "safe_step invar view s ([], snd (AcquireSpecificChildPrefix nx rp st ctx cidr child s))"
proof (cases "stored (view s) ctx cidr")
  case None
  then show ?thesis
  proof (rule call_not_stored [OF s])
    fix e s' assume "PrefixFrom st ctx cidr s = (Inl e, s')"
    then show "\<exists>e. AcquireSpecificChildPrefix nx rp st ctx cidr child s = (Inl e, s')"
      by (auto simp: AcquireSpecificChildPrefix_def acquireChildPrefixInternal_def intro!: exI retry_Inl [OF rp])
  qed
next
  case (Some a)
  then obtain q m where q: "ParsePrefix cidr = Inr q" and m: "view s (namespaceFromContext ctx) = Some m" "m (key q) = Some a"
    by (rule stored_Some)
  have ok: "ns_ok m"
    using s(2) m(1) by (simp add: good_def)
  note t = ns_okD(1) [OF ok]
  show ?thesis
  proof (cases "ParsePrefix child")
    case (Inl e)
    with specific_child_refused [OF nx rp s(1) m(1) t q m(2) Inl] s(2) show ?thesis
      by (auto intro: safe_unchanged)
  next
    case (Inr r)
    note law = AcquireSpecificChildPrefix_law [OF storage_laws_axioms nx rp s(1) m(1) t q m(2) Inr]
    show ?thesis
    proof (cases "Bits q < Bits r \<and> \<not> has_ips q a \<and> block r \<subseteq> free_space q (aChildren a)")
      case True
      with law obtain s' where "snd (AcquireSpecificChildPrefix nx rp st ctx cidr child s) = s'" "invar s'"
          "view s' = (view s)(namespaceFromContext ctx \<mapsto> m(key q \<mapsto> give_child (prefix_String r) a, key r \<mapsto> fresh r (key q)))"
        by auto
      with True child_safe [OF s(2) m ParsePrefix_valid [OF q] ParsePrefix_valid [OF Inr]] show ?thesis
        by simp
    next
      case False
      with law s(2) show ?thesis
        by (auto intro: safe_unchanged)
    qed
  qed
qed

lemma call_ReleaseChildPrefix:
  assumes ru: "retry_laws ru" and s: "invar s" "good (view s)" and ord: "orderly ok (view s) ctx (ReleaseChild_call cidr)"
  shows "safe_step invar view s ([], snd (release_read_child ru st ctx cidr s))"
proof (cases "stored (view s) ctx cidr")
  case None
  then show ?thesis
    by (rule call_not_stored [OF s]) (simp add: release_read_child_def)
next
  case (Some b)
  then obtain r m where r: "ParsePrefix cidr = Inr r" and m: "view s (namespaceFromContext ctx) = Some m" "m (key r) = Some b"
    by (rule stored_Some)
  note v = ParsePrefix_valid [OF r]
  have leaf: "\<not> has_ips r b" "\<And>e. e \<in> dom m \<Longrightarrow> e \<noteq> key r \<Longrightarrow> \<not> cidr_block e \<subseteq> block r"
    using ord r m by (auto simp: orderly_def)
  have ok: "ns_ok m"
    using s(2) m(1) by (simp add: good_def)
  note ips = ns_okD(2) [OF ok v m(2)]
  obtain p s1 where p: "PrefixFrom st ctx cidr s = (Inr p, s1)" "abs_prefix p = b" "wf_prefix p" "Cidr p = key r"
      "invar s1" "view s1 = view s"
    using PrefixFrom_found [OF s(1) m(1) r m(2)] .
  have m1: "view s1 (namespaceFromContext ctx) = Some m"
    using m(1) p(6) by simp
  have pp: "ParentCidr p = aParentCidr b"
    using p(2) by auto
  have run: "release_read_child ru st ctx cidr s = ReleaseChildPrefix ru st ctx p s1"
    using p(1) by (simp add: release_read_child_def)
  have quiet: "safe_step invar view s ([], snd (ReleaseChildPrefix ru st ctx p s1))"
    if "releaseChildPrefixInternal st ctx (namespaceFromContext ctx) p s1 = (Inl e, s2)" "\<not> errors_is e ErrOptimisticLockError"
      "invar s2" "view s2 = view s1" for e s2
    using that s(2) p(6) by (auto simp: ReleaseChildPrefix_def retry_Inl [OF ru] intro: safe_unchanged)
  show ?thesis
  proof (cases "stored (view s1) ctx (ParentCidr p)")
    case None
    obtain e s2 where e: "PrefixFrom st ctx (ParentCidr p) s1 = (Inl e, s2)" "invar s2" "view s2 = view s1"
      using PrefixFrom_not_stored [OF p(5) None] .
    then have "releaseChildPrefixInternal st ctx (namespaceFromContext ctx) p s1 =
        (Inl (Errorf ''%w: unable to find prefix for cidr:%q error:%s'' [Sentinel ErrNotFound]), s2)"
      by (simp add: releaseChildPrefixInternal_def)
    from quiet [OF this _ e(2,3)] show ?thesis
      unfolding run by simp
  next
    case (Some a)
    then obtain q where q: "ParsePrefix (ParentCidr p) = Inr q" "m (key q) = Some a"
      using m1 by (elim stored_Some) auto
    note vq = ParsePrefix_valid [OF q(1)]
    show ?thesis
    proof (cases "aIsParent a")
      case False
      obtain p' s2 where p': "PrefixFrom st ctx (ParentCidr p) s1 = (Inr p', s2)" "abs_prefix p' = a" "invar s2" "view s2 = view s1"
        using PrefixFrom_stored [OF p(5) Some] by metis
      with False have "releaseChildPrefixInternal st ctx (namespaceFromContext ctx) p s1 =
          (Inl (Errorf ''prefix:%q is no child prefix'' []), s2)"
        by (auto simp: releaseChildPrefixInternal_def)
      from quiet [OF this _ p'(3,4)] show ?thesis
        unfolding run by simp
    next
      case True
      have par: "parent_ok m (key r) b"
        by (rule ns_okD(3) [OF ok m(2)])
      have ne: "aParentCidr b \<noteq> []"
        using q(1) pp by (auto simp: ParsePrefix_def)
      with par obtain u where u: "IsValid u" "aParentCidr b = key u"
        by (auto simp: parent_ok_def)
      then have qu: "q = Masked u"
        using q(1) pp ParsePrefix_key by simp
      have parent: "aParentCidr b = key q" "IsValid q"
        using u qu key_Masked by simp_all
      have "cidr_block (key r) \<subset> block q"
        using par ne parent by (auto simp: parent_ok_def)
      then have kne: "key r \<noteq> key q"
        using reserved_key(2) [OF v parent(2)] v by auto
      have few: "map_len (ips p) \<le> 2"
        using only_reserved [OF v ips leaf(1)] card_reserved(1) [of r] p(2,3) map_len_card [of "ips p"]
        by (auto simp: wf_prefix_def map_keys_def)
      have mr: "ParsePrefix (Cidr p) = Inr (Masked r)" "m (key (Masked r)) = Some b" "key (Masked r) \<noteq> key q"
          "\<not> has_ips (Masked r) b"
        using p(4) ParsePrefix_key [OF v] key_Masked [OF v] m(2) kne leaf(1) family_Masked [OF v] by (simp_all add: has_ips_def)
      obtain s' where s': "ReleaseChildPrefix ru st ctx p s1 = (Inr (), s')" "invar s'"
          "view s' = (view s)(namespaceFromContext ctx \<mapsto> m(key q \<mapsto> take_back (key r) a, key r := None))"
        using ReleaseChildPrefix_law [OF storage_laws_axioms ru p(5) m1 q True mr(1-3) few mr(4)]
          p(4,6) key_Masked [OF v] by auto
      have none: "handed_out (key r) b = {}" "handed_out (key q) (take_back (key r) a) = handed_out (key q) a"
        using only_reserved [OF v ips leaf(1)] by (simp_all add: handed_out_key [OF v] handed_out_key [OF parent(2)])
      have "allocated (view s') = allocated ((view s)(namespaceFromContext ctx \<mapsto> m(key q \<mapsto> take_back (key r) a)))"
        unfolding s'(3) using none m kne
          allocated_same [of "(view s)(namespaceFromContext ctx \<mapsto> m(key q \<mapsto> take_back (key r) a))" "namespaceFromContext ctx"
            "m(key q \<mapsto> take_back (key r) a)" "{key r}" "m(key q \<mapsto> take_back (key r) a, key r := None)"]
        by simp
      also have "\<dots> = allocated (view s)"
        by (intro allocated_unchanged [where m = m and a = a] m(1) q(2) none(2))
      finally show ?thesis
        using s' run good_upd [OF s(2) ns_ok_release [OF ok q(2) m(2) parent(2) v parent(1) leaf(2)]]
        by (auto intro: safe_quiet)
    qed
  qed
qed

lemma got_safe:
  assumes s: "invar s" "good (view s)" "view s (namespaceFromContext ctx) = Some m" and a: "m (key q) = Some a" "\<not> aIsParent a"
    and q: "IsValid q" and ip: "ip \<in> free_ips q a" and s': "invar s'" "view s' = put (view s) ctx (take_ip ip a)"
  shows "safe_step invar view s ([Got (namespaceFromContext ctx) (key q) (addr_String ip)], s')"
proof -
  let ?ns = "namespaceFromContext ctx" and ?k = "addr_String ip"
  have ok: "ns_ok m"
    using s(2,3) by (simp add: good_def)
  have k: "?k \<notin> dom (aIPs a)" "?k \<notin> dom (reserved q)" "ip \<in> cidr_block (key q)"
    using ip q ns_okD(2) [OF ok q a(1)] by (auto simp: free_ips_def ips_ok_def mem_block)
  have v: "view s' = (view s)(?ns \<mapsto> m(key q \<mapsto> take_ip ip a))"
    using s'(2) s(3) view_cidr [OF s(1,3) a(1)] by (simp add: put_def)
  have "handed_out (key q) (take_ip ip a) = insert ?k (handed_out (key q) a)"
    using k by (auto simp: handed_out_key [OF q])
  then have "allocated (view s') = insert (?ns, key q, ?k) (allocated (view s))"
    unfolding v by (subst allocated_write [where m = m and a = a]) (auto simp: s(3) a(1) mem_allocated)
  moreover have "(?ns, d, ?k) \<notin> allocated (view s)" for d
  proof
    assume "(?ns, d, ?k) \<in> allocated (view s)"
    then obtain b where b: "m d = Some b" "?k \<in> handed_out d b"
      using s(3) by (auto simp: mem_allocated split: option.splits)
    then have "d = key q"
      by (rule one_holder [OF ok a k(3)])
    with b a(1) k(1) show False
      by (simp add: handed_out_key [OF q])
  qed
  moreover have "good (view s')"
    unfolding v by (rule good_upd [OF s(2) ns_ok_take [OF ok a(1) q ip a(2)]])
  ultimately show ?thesis
    using s'(1) by (simp add: safe_step_def)
qed

text \<open>An attempt that fails for another reason than a conflict ends the acquisition.\<close>

lemma acquire_fails:
  assumes ri: "retry_laws ri" and s: "good (view s)"
    and fail: "\<exists>e s'. acquireSpecificIPInternal nx st ctx (namespaceFromContext ctx) cidr text s = (Inl e, s') \<and>
      \<not> errors_is e ErrOptimisticLockError \<and> invar s' \<and> view s' = view s"
  shows "safe_step invar view s (got ns (AcquireSpecificIP nx ri st ctx cidr text s))"
  using fail s by (auto simp: AcquireSpecificIP_def retry_Inl [OF ri] got_def intro: safe_unchanged)

lemma call_AcquireSpecificIP:
  assumes nx: "netipx_laws nx B BS IS" and ri: "retry_laws ri" and s: "invar s" "good (view s)"
  shows "safe_step invar view s (got (namespaceFromContext ctx) (AcquireSpecificIP nx ri st ctx cidr text s))"
proof (cases "stored (view s) ctx cidr")
  case None
  with acquire_not_stored [OF s(1) None] show ?thesis
    by (intro acquire_fails [OF ri s(2)]) blast
next
  case (Some a)
  then obtain q m where q: "ParsePrefix cidr = Inr q" and m: "view s (namespaceFromContext ctx) = Some m" "m (key q) = Some a"
    by (rule stored_Some)
  note v = ParsePrefix_valid [OF q]
  show ?thesis
  proof (cases "aIsParent a")
    case True
    with acquire_parent [OF s(1) Some] show ?thesis
      by (intro acquire_fails [OF ri s(2)]) blast
  next
    case np: False
    show ?thesis
    proof (cases "text = []")
      case True
      note law = AcquireIP_law [OF storage_laws_axioms nx ri s(1) Some np q, unfolded AcquireIP_def]
      show ?thesis
      proof (cases "free_ips q a = {}")
        case True
        with law \<open>text = []\<close> s(2) show ?thesis
          by (auto simp: got_def intro: safe_unchanged)
      next
        case False
        with law \<open>text = []\<close> obtain ip s' where "AcquireSpecificIP nx ri st ctx cidr text s = (Inr \<lparr>IP = ip, ParentPrefix = key q\<rparr>, s')"
            "ip \<in> free_ips q a" "invar s'" "view s' = put (view s) ctx (take_ip ip a)"
          by auto
        with got_safe [OF s m np v] show ?thesis
          by (simp add: got_def)
      qed
    next
      case nonempty: False
      show ?thesis
      proof (cases "ParseAddr text")
        case (Inl e)
        obtain p s1 where "PrefixFrom st ctx cidr s = (Inr p, s1)" "abs_prefix p = a" "invar s1" "view s1 = view s"
            "ParsePrefix (Cidr p) = Inr (Masked q)"
          using PrefixFrom_stored [OF s(1) Some] q by (metis sum.inject(2))
        then show ?thesis
          using nonempty np Inl by (intro acquire_fails [OF ri s(2)]) (auto simp: acquireSpecificIPInternal_def)
      next
        case (Inr ip)
        note law = AcquireSpecificIP_law [OF storage_laws_axioms ri s(1) Some np q Inr nonempty, where nx = nx]
        show ?thesis
        proof (cases "ip \<in> free_ips q a")
          case True
          with law obtain s' where "AcquireSpecificIP nx ri st ctx cidr text s = (Inr \<lparr>IP = ip, ParentPrefix = key q\<rparr>, s')"
              "invar s'" "view s' = put (view s) ctx (take_ip ip a)"
            by auto
          with got_safe [OF s m np v True] show ?thesis
            by (simp add: got_def)
        next
          case False
          with law s(2) show ?thesis
            by (auto simp: got_def intro: safe_unchanged)
        qed
      qed
    qed
  qed
qed

lemma call_ReleaseIP:
  assumes ru: "retry_laws ru" and s: "invar s" "good (view s)" and ord: "orderly ok (view s) ctx (ReleaseIP_call cidr k)"
  shows "safe_step invar view s (gave (namespaceFromContext ctx) cidr k (ReleaseIPFromPrefix ru st ctx cidr k s))"
proof (cases "stored (view s) ctx cidr")
  case None
  obtain e s' where "releaseIPFromPrefixInternal st ctx (namespaceFromContext ctx) cidr k s = (Inl e, s')"
      "\<not> errors_is e ErrOptimisticLockError" "invar s'" "view s' = view s"
    using release_not_stored [OF s(1) None] by blast
  with s(2) show ?thesis
    by (auto simp: ReleaseIPFromPrefix_def retry_Inl [OF ru] gave_def intro: safe_unchanged)
next
  case (Some a)
  then obtain q m where q: "ParsePrefix cidr = Inr q" and m: "view s (namespaceFromContext ctx) = Some m" "m (key q) = Some a"
    by (rule stored_Some)
  note v = ParsePrefix_valid [OF q]
  have ok: "ns_ok m"
    using s(2) m(1) by (simp add: good_def)
  note law = ReleaseIPFromPrefix_law [OF storage_laws_axioms ru s(1) Some, of k]
  show ?thesis
  proof (cases "aIPs a k = None")
    case True
    with law s(2) show ?thesis
      by (auto simp: gave_def intro: safe_unchanged)
  next
    case False
    with law obtain s' where s': "ReleaseIPFromPrefix ru st ctx cidr k s = (Inr (), s')" "invar s'"
        "view s' = (view s)(namespaceFromContext ctx \<mapsto> m(key q \<mapsto> drop_ip k a))"
      using m(1) view_cidr [OF s(1) m] by (auto simp: put_def)
    have res: "reserved q k = None"
      using ord q by (simp add: orderly_def)
    have "handed_out (key q) (drop_ip k a) = handed_out (key q) a - {k}"
      by (auto simp: handed_out_key [OF v])
    then have "(n, d, x) \<in> allocated (view s') \<longleftrightarrow>
        (n, d, x) \<in> allocated (view s) - {(namespaceFromContext ctx, key q, k)}" for n d x
      using m unfolding s'(3) by (cases "n = namespaceFromContext ctx"; cases "d = key q") (simp_all add: mem_allocated)
    then have "allocated (view s') = allocated (view s) - {(namespaceFromContext ctx, key q, k)}"
      by (intro set_eqI) (metis prod_cases3)
    moreover have "good (view s')"
      unfolding s'(3) by (rule good_upd [OF s(2) ns_ok_drop [OF ok m(2) v res]])
    ultimately show ?thesis
      using s'(1,2) q by (simp add: gave_def prefix_key_def safe_step_def)
  qed
qed

lemma call_CreateNamespace:
  assumes s: "invar s" "good (view s)" and name: "ok_ns name"
  shows "safe_step invar view s ([], snd (ipamer_CreateNamespace st name s))"
proof -
  obtain s' where s': "CreateNamespace st name s = (Inr (), s')" "invar s'"
      "view s' = (case view s name of None \<Rightarrow> (view s)(name \<mapsto> Map.empty) | Some m \<Rightarrow> view s)"
    using create_ns [OF s(1) name] by blast
  show ?thesis
  proof (cases "view s name")
    case (Some m)
    with s' s(2) show ?thesis
      by (auto simp: ipamer_CreateNamespace_def intro: safe_unchanged)
  next
    case None
    then have "(n, c, k) \<in> allocated (view s') \<longleftrightarrow> (n, c, k) \<in> allocated (view s)" for n c k
      using s'(3) by (cases "n = name") (auto simp: mem_allocated)
    then have "allocated (view s') = allocated (view s)"
      by auto
    with None s' good_upd [OF s(2) ns_ok_empty] show ?thesis
      by (auto simp: ipamer_CreateNamespace_def intro: safe_quiet)
  qed
qed

text \<open>Every call, and every history.\<close>

lemma run_safe:
  assumes laws: "netipx_laws nx B BS IS" "retry_laws rp" "retry_laws ru" "retry_laws ri"
    and s: "invar s" "good (view s)" and ord: "orderly ok_ns (view s) ctx c"
  shows "safe_step invar view s (run nx rp ru ri st ctx c s)"
proof (cases c)
  case (ReleaseChild_call cidr)
  with call_ReleaseChildPrefix [OF laws(3) s] ord show ?thesis
    by (simp add: run_def)
next
  case (ReleaseIP_call cidr k)
  with call_ReleaseIP [OF laws(3) s] ord show ?thesis
    by (simp add: run_def)
next
  case (CreateNamespace_call name)
  with call_CreateNamespace [OF s] ord show ?thesis
    by (simp add: run_def orderly_def)
qed (simp_all add: run_def AcquireIP_def call_NewPrefix [OF laws(1) s] call_DeletePrefix [OF s]
    call_AcquireChildPrefix [OF laws(1,2) s] call_AcquireSpecificChildPrefix [OF laws(1,2) s]
    call_AcquireSpecificIP [OF laws(1,4) s])

lemma history_safe:
  assumes laws: "netipx_laws nx B BS IS" "retry_laws rp" "retry_laws ru" "retry_laws ri"
    and s0: "invar s0" "\<And>ns m. view s0 ns = Some m \<Longrightarrow> m = Map.empty"
    and h: "history nx rp ru ri st view ok_ns s0 es s"
  shows "invar s \<and> good (view s) \<and> allocated (view s) = held es"
  using h
proof (induction rule: history.induct)
  case start
  have "good (view s0)" "allocated (view s0) = {}"
    using s0(2) ns_ok_empty by (force simp: good_def allocated_def)+
  with s0(1) show ?case
    by (simp add: held_def)
next
  case (call es s ctx c new s')
  with run_safe [OF laws, of s ctx c] show ?case
    by (simp add: safe_step_def held_def)
qed

end

section \<open>No address is held twice\<close>

text \<open>
  C2: In every history of orderly calls of one process after the other, over any storage without prefixes at
  the start, the prefixes of every namespace form a tree; the addresses that were handed out and not given back
  are exactly the ones that the storage has as allocated beside the reserved ones; no address is held in two
  prefixes of a namespace; and an address that is handed out next is one that nobody holds. The calls create and
  delete prefixes, acquire and release children and addresses, and create namespaces; orderly callers do not
  release the reserved addresses of a prefix, nor a child that has addresses or children.
\<close>

theorem histories_hold_addresses_once:
  assumes laws: "storage_laws st invar view ok_ns" "netipx_laws nx B BS IS" "retry_laws rp" "retry_laws ru" "retry_laws ri"
    and s0: "invar s0" "\<And>ns m. view s0 ns = Some m \<Longrightarrow> m = Map.empty"
    and h: "history nx rp ru ri st view ok_ns s0 es s"
  shows "(view s ns = Some m \<longrightarrow> tree_ok m) \<and> allocated (view s) = held es \<and>
    ((ns, c, k) \<in> held es \<longrightarrow> (ns, d, k) \<in> held es \<longrightarrow> c = d) \<and>
    (run nx rp ru ri st ctx (AcquireIP_call cidr) s = ([Got ns c k], s') \<longrightarrow> (ns, d, k) \<notin> held es) \<and>
    (run nx rp ru ri st ctx (AcquireSpecificIP_call cidr text) s = ([Got ns c k], s') \<longrightarrow> (ns, d, k) \<notin> held es)"
proof -
  note safe = storage_laws.history_safe [OF laws s0 h]
  have "c = d" if cd: "(ns, c, k) \<in> allocated (view s)" "(ns, d, k) \<in> allocated (view s)"
  proof -
    obtain m a where m: "view s ns = Some m" "m c = Some a" "k \<in> handed_out c a"
      using cd(1) by (auto simp: allocated_def)
    obtain b where b: "m d = Some b" "k \<in> handed_out d b"
      using cd(2) m(1) by (auto simp: allocated_def)
    have ok: "ns_ok m"
      using safe m(1) by (auto simp: good_def)
    note np = handed_out_not_parent [OF ok m(2,3)]
    obtain ip where "k = addr_String ip" "ip \<in> cidr_block c"
      using np(2) by blast
    with one_holder [OF ok m(2) np(1) _ b(1)] b(2) show ?thesis
      by blast
  qed
  moreover have "(ns, d, k) \<notin> allocated (view s)"
    if "run nx rp ru ri st ctx call s = ([Got ns c k], s')" "orderly ok_ns (view s) ctx call" for call
    using storage_laws.run_safe [OF laws conjunct1 [OF safe] _ that(2)] safe that(1) by (auto simp: safe_step_def)
  moreover have "tree_ok m" if "view s ns = Some m"
    using safe that ns_okD(1) by (auto simp: good_def)
  ultimately show ?thesis
    using safe by (auto simp: orderly_def)
qed

section \<open>A released parent\<close>

text \<open>
  C9: \<open>ReleaseChildPrefix\<close> does not look at the children of the child: when a prefix that still has children is
  released, its space is given away again while the children stay stored, and an address that one of them has
  handed out is handed out a second time.
\<close>

theorem released_parent_hands_out_twice:
  assumes laws: "storage_laws st invar view ok_ns" "netipx_laws nx B BS IS" "retry_laws rp" "retry_laws ru" "retry_laws ri"
    and s: "invar s" "view s (namespaceFromContext ctx) = Some m" "ns_ok m"
    and parent: "IsValid q" "m (key q) = Some a"
    and child: "IsValid r" "m (key r) = Some b" "aParentCidr b = key q" "aIsParent b"
    and alone: "block r \<subseteq> free_space q ((aChildren a)(key r \<mapsto> True))"
    and grandchild: "m (key g) = Some d" "key g \<noteq> key r" "key g \<noteq> key q"
    and ip: "ip \<in> block r" "aIPs d (addr_String ip) \<noteq> None" "reserved r (addr_String ip) = None"
  shows "\<exists>s1 p s2 s3 m3 b3. release_read_child ru st ctx (key r) s = (Inr (), s1) \<and>
    AcquireSpecificChildPrefix nx rp st ctx (key q) (key r) s1 = (Inr p, s2) \<and>
    AcquireSpecificIP nx ri st ctx (key r) (addr_String ip) s2 = (Inr \<lparr>IP = ip, ParentPrefix = key r\<rparr>, s3) \<and>
    view s3 (namespaceFromContext ctx) = Some m3 \<and> m3 (key g) = Some d \<and>
    m3 (key r) = Some b3 \<and> aIPs b3 (addr_String ip) \<noteq> None"
proof -
  note t = ns_okD(1) [OF s(3)]
  have par: "parent_ok m (key r) b"
    by (rule ns_okD(3) [OF s(3) child(2)])
  have sub: "block r \<subset> block q"
    using par child(1,3) parent(1) key_nonempty [of q] by (auto simp: parent_ok_def)
  then have ne: "key r \<noteq> key q"
    using reserved_key(2) [OF child(1) parent(1)] by auto
  have none: "\<not> has_ips r b" "dom (aIPs b) = dom (reserved r)"
    using ns_okD(2) [OF s(3) child(1,2)] child(4) has_ips_reserved [OF child(1)] by (auto simp: ips_ok_def)
  have "apart (key q) a (key r) b"
    using tree_okD(2) [OF t parent(2) child(2)] ne by simp
  then have "taken (aChildren a) \<noteq> {}"
    using sub parent(1) child(1) block_nonempty [OF child(1)] by (auto simp: apart_def below_def)
  then have ap: "aIsParent a" "\<not> has_ips q a"
    using ns_okD(2) [OF s(3) parent] has_ips_reserved [OF parent(1)] by (auto simp: ips_ok_def)
  obtain p s0 where p: "PrefixFrom st ctx (key r) s = (Inr p, s0)" "abs_prefix p = b" "wf_prefix p" "Cidr p = key r"
      "invar s0" "view s0 = view s"
    using storage_laws.PrefixFrom_found [OF laws(1) s(1,2) ParsePrefix_key [OF child(1)], of b] child key_Masked [OF child(1)] by metis
  have few: "map_len (ips p) \<le> 2"
    using none(2) card_reserved(1) [of r] p(2,3) map_len_card [of "ips p"] by (auto simp: wf_prefix_def map_keys_def)
  have m0: "view s0 (namespaceFromContext ctx) = Some m" "ParentCidr p = key q"
    using s(2) p(2,6) child(3) by auto
  have kq: "key (Masked q) = key q" "key (Masked r) = key r"
    using key_Masked parent(1) child(1) by simp_all
  let ?a = "take_back (key r) a"
  let ?m1 = "m(key q \<mapsto> ?a, key r := None)"
  obtain s1 where s1: "release_read_child ru st ctx (key r) s = (Inr (), s1)" "invar s1"
      "view s1 = (view s)(namespaceFromContext ctx \<mapsto> ?m1)"
    using ReleaseChildPrefix_law [OF laws(1,4) p(5) m0(1), of p "Masked q" a "Masked r" b]
      p m0(2) ParsePrefix_key [OF parent(1)] ParsePrefix_key [OF child(1)] kq parent(2) ap(1) child(2) ne few none(1)
      family_Masked [OF child(1)] by (auto simp: release_read_child_def has_ips_def)
  let ?m2 = "?m1(key q \<mapsto> give_child (key r) ?a, key r \<mapsto> fresh r (key q))"
  have bits: "Bits (Masked q) < Bits (Masked r)"
    using sub block_subset_iff [OF parent(1) child(1)] block_subset_iff [OF child(1) parent(1)]
      Overlaps_sym [OF parent(1) child(1)] parent(1) child(1) by auto
  have fr: "fresh (Masked r) (key q) = fresh r (key q)" "prefix_String (Masked r) = key r"
    using reserved_key(1) [of "Masked r" r] child(1) kq(2) by (simp_all add: fresh_def key_def)
  have free: "block (Masked r) \<subseteq> free_space (Masked q) (aChildren ?a)" "\<not> has_ips (Masked q) ?a"
    using alone child(1) parent(1) ap(2) family_Masked [OF parent(1)] by (simp_all add: free_space_Masked has_ips_def)
  have m1: "view s1 (namespaceFromContext ctx) = Some ?m1" "?m1 (key (Masked q)) = Some ?a" "children_ok ?a"
    using s1(3) kq ne tree_okD(3) [OF t parent(2)] by (auto simp: children_ok_def)
  have new: "?m1 (key (Masked r)) = None \<and> key (Masked r) \<noteq> key (Masked q)"
    using kq ne by simp
  obtain p2 s2 where s2: "AcquireSpecificChildPrefix nx rp st ctx (key q) (key r) s1 = (Inr p2, s2)" "invar s2"
      "view s2 = (view s1)(namespaceFromContext ctx \<mapsto> ?m2)"
    using AcquireSpecificChildPrefix_any [OF laws(1-3) s1(2) m1(1,3) ParsePrefix_key [OF parent(1)] m1(2)
        ParsePrefix_key [OF child(1)] new] bits free unfolding fr kq by auto
  have st2: "stored (view s2) ctx (key r) = Some (fresh r (key q))" "\<not> aIsParent (fresh r (key q))"
    using s2(3) ParsePrefix_key [OF child(1)] kq by (simp_all add: stored_def)
  have "ip \<noteq> ZeroAddr"
    using ip(1) IsValidD(1) [OF child(1)] BitLen_eq_0 [of "Addr r"] by (auto simp: mem_block Contains_iff)
  then have "ParseAddr (addr_String ip) = Inr ip"
    by (rule ParseAddr_String)
  moreover have "ParseAddr [] \<noteq> Inr x" for x
    by (simp add: ParseAddr_def)
  ultimately have str: "ParseAddr (addr_String ip) = Inr ip" "addr_String ip \<noteq> []"
    by metis+
  have ipf: "ip \<in> free_ips (Masked r) (fresh r (key q))"
    using ip(1,3) child(1) block_Masked [OF child(1)] by (auto simp: free_ips_def simp flip: mem_block)
  obtain s3 where s3: "AcquireSpecificIP nx ri st ctx (key r) (addr_String ip) s2 = (Inr \<lparr>IP = ip, ParentPrefix = key r\<rparr>, s3)"
      "view s3 = put (view s2) ctx (take_ip ip (fresh r (key q)))"
    using AcquireSpecificIP_law [OF laws(1,5) s2(2) st2 ParsePrefix_key [OF child(1)] str, where nx = nx] ipf unfolding kq by auto
  have "view s3 (namespaceFromContext ctx) = Some (?m2(key r \<mapsto> take_ip ip (fresh r (key q))))"
    using s3(2) s2(3) by (simp add: put_def)
  with s1(1) s2(1) s3(1) grandchild show ?thesis
    by (intro exI [of _ s1] exI [of _ p2] exI [of _ s2] exI [of _ s3] exI [of _ "?m2(key r \<mapsto> take_ip ip (fresh r (key q)))"]
        exI [of _ "take_ip ip (fresh r (key q))"]) simp
qed

section \<open>Instances\<close>

text \<open>A history in memory: a prefix, a child, a child of the child, and an address of the last.\<close>

definition parent26 :: Prefix where
  "parent26 = child26\<lparr>isParent := True, availableChildPrefixes := GoMap [(''10.0.0.16/28'', False)], version := 1\<rparr>"

definition child28 :: Prefix where
  "child28 = \<lparr>Cidr = ''10.0.0.16/28'', ParentCidr = ''10.0.0.0/26'', isParent = False,
     availableChildPrefixes = GoMap [], childPrefixLength = 0,
     ips = GoMap [(''10.0.0.16'', True), (''10.0.0.31'', True)], version = 0\<rparr>"

definition taken28 :: Prefix where
  "taken28 = child28\<lparr>ips := GoMap [(''10.0.0.16'', True), (''10.0.0.31'', True), (''10.0.0.17'', True)], version := 1\<rparr>"

definition inner_nested :: "Prefix \<Rightarrow> Prefix gomap" where
  "inner_nested p = GoMap [(''10.0.0.0/24'', parent24), (''10.0.0.0/26'', parent26), (''10.0.0.16/28'', p)]"

abbreviation memory_run :: "ipam_call \<Rightarrow> memory \<Rightarrow> ip_event list \<times> memory" where
  "memory_run \<equiv> run ref_netipx retry_ref retry_ref retry_ref memory_storage None"

abbreviation memory_history :: "ip_event list \<Rightarrow> memory \<Rightarrow> bool" where
  "memory_history \<equiv> history ref_netipx retry_ref retry_ref retry_ref memory_storage memory_view (\<lambda>ns. True) NewMemory"

lemma nested_runs:
  "memory_run (NewPrefix_call ''10.0.0.0/24'') NewMemory = ([], memory_of inner24)"
  "memory_run (AcquireSpecificChild_call ''10.0.0.0/24'' ''10.0.0.0/26'') (memory_of inner24) = ([], memory_of inner_tree)"
  "memory_run (AcquireSpecificChild_call ''10.0.0.0/26'' ''10.0.0.16/28'') (memory_of inner_tree) = ([], memory_of (inner_nested child28))"
  "memory_run (AcquireIP_call ''10.0.0.16/28'') (memory_of (inner_nested child28)) =
     ([Got ''root'' ''10.0.0.16/28'' ''10.0.0.17''], memory_of (inner_nested taken28))"
  by code_simp+

lemma nested_history: "memory_history [Got ''root'' ''10.0.0.16/28'' ''10.0.0.17''] (memory_of (inner_nested taken28))"
proof -
  have ord: "orderly (\<lambda>ns. True) v None (NewPrefix_call cidr)" "orderly (\<lambda>ns. True) v None (AcquireSpecificChild_call cidr child)"
      "orderly (\<lambda>ns. True) v None (AcquireIP_call cidr)" for v cidr child
    by (simp_all add: orderly_def)
  from history.call [OF history.call [OF history.call [OF history.call [OF history.start
      ord(1) nested_runs(1)] ord(2) nested_runs(2)] ord(2) nested_runs(3)] ord(3) nested_runs(4)]
  show ?thesis
    by simp
qed

lemmas memory_laws = mem.storage_laws_axioms rx.netipx_laws_axioms retry_laws_ref retry_laws_ref retry_laws_ref

lemma new_memory: "memory_inv NewMemory" "memory_view NewMemory ns = Some m \<Longrightarrow> m = Map.empty"
  by (auto simp: memory_inv_NewMemory split: if_split_asm)

theorem histories_hold_addresses_once_witness:
  "allocated (memory_view (memory_of (inner_nested taken28))) = {(''root'', ''10.0.0.16/28'', ''10.0.0.17'')}"
  using histories_hold_addresses_once [OF memory_laws new_memory nested_history] by (simp add: held_def)

definition net28 :: netip_prefix where
  "net28 = \<lparr>Addr = IPv4 0x0A000010, Bits = 28\<rparr>"

theorem released_parent_hands_out_twice_witness:
  "\<exists>s1 p s2 s3 m3 b3. release_read_child retry_ref memory_storage None ''10.0.0.0/26'' (memory_of (inner_nested taken28)) = (Inr (), s1) \<and>
    AcquireSpecificChildPrefix ref_netipx retry_ref memory_storage None ''10.0.0.0/24'' ''10.0.0.0/26'' s1 = (Inr p, s2) \<and>
    AcquireSpecificIP ref_netipx retry_ref memory_storage None ''10.0.0.0/26'' ''10.0.0.17'' s2 =
      (Inr \<lparr>IP = IPv4 0x0A000011, ParentPrefix = ''10.0.0.0/26''\<rparr>, s3) \<and>
    memory_view s3 (namespaceFromContext None) = Some m3 \<and> m3 ''10.0.0.16/28'' = Some (abs_prefix taken28) \<and>
    m3 ''10.0.0.0/26'' = Some b3 \<and> aIPs b3 ''10.0.0.17'' \<noteq> None"
proof -
  let ?m = "inner_view (inner_nested taken28)"
  have safe: "memory_inv (memory_of (inner_nested taken28))" "ns_ok ?m"
    using mem.history_safe [OF memory_laws(2-5) new_memory nested_history] view_memory_of [of "inner_nested taken28"]
    by (auto simp: good_def)
  have k: "key net28 = ''10.0.0.16/28''" "addr_String (IPv4 0x0A000011) = ''10.0.0.17''"
    by code_simp+
  have m: "?m (key net24) = Some (abs_prefix parent24)" "?m (key net26) = Some (abs_prefix parent26)" "?m (key net28) = Some (abs_prefix taken28)"
    by (simp_all add: inner_view_def inner_nested_def map_lookup_def sample_nets k)
  have "Overlaps net24 net26"
    by code_simp
  then have "block net26 \<subseteq> block net24"
    using block_subset_iff [of net24 net26] sample_valid by simp
  moreover have "taken ((aChildren (abs_prefix parent24))(key net26 \<mapsto> True)) = {}"
    by (auto simp: taken_def parent24_def map_lookup_def sample_nets split: if_split_asm)
  ultimately have free: "block net26 \<subseteq> free_space net24 ((aChildren (abs_prefix parent24))(key net26 \<mapsto> True))"
    by (simp add: free_space_def)
  have p: "aParentCidr (abs_prefix parent26) = key net24" "aIsParent (abs_prefix parent26)"
    by (simp_all add: parent26_def child26_def sample_nets)
  have ip: "IPv4 0x0A000011 \<in> block net26" "aIPs (abs_prefix taken28) (addr_String (IPv4 0x0A000011)) \<noteq> None"
      "reserved net26 (addr_String (IPv4 0x0A000011)) = None"
    unfolding mem_block k by (code_simp, simp add: taken28_def map_lookup_def, code_simp)
  have ne: "key net28 \<noteq> key net26" "key net28 \<noteq> key net24"
    by (simp_all add: k sample_nets)
  from released_parent_hands_out_twice [OF memory_laws safe(1) view_memory_of safe(2) sample_valid(1) m(1) sample_valid(2) m(2) p free m(3) ne ip]
  show ?thesis
    unfolding k sample_nets by blast
qed

end
