(* ===== verification/Dumps.thy ===== *)
theory Dumps
  imports Ipamer_Limits
begin

text \<open>
  Backups: \<open>NamespacedDump\<close> and \<open>NamespacedLoad\<close> of \<open>src/ipamer.go\<close> over any two storages that meet
  the contract. A load creates the prefixes one after the other, and a storage may start the version of a
  new prefix again at 0; \<open>R\<close> below relates the prefix that was dumped to the one that was stored.
\<close>

section \<open>Creating the prefixes of a dump\<close>

definition creates_as ::
  "'s storage \<Rightarrow> ('s \<Rightarrow> bool) \<Rightarrow> ('s \<Rightarrow> store_view) \<Rightarrow> (Prefix \<Rightarrow> Prefix \<Rightarrow> bool) \<Rightarrow> bool" where
  "creates_as st invar view R \<longleftrightarrow>
     (\<forall>s ns m p. invar s \<longrightarrow> view s ns = Some m \<longrightarrow> wf_prefix p \<longrightarrow> Cidr p \<noteq> [] \<longrightarrow> m (Cidr p) = None \<longrightarrow>
       (\<exists>q s'. R p q \<and> CreatePrefix st p ns s = (Inr q, s') \<and> invar s' \<and>
         view s' = (view s)(ns \<mapsto> m(Cidr p \<mapsto> abs_prefix q))))"

lemma creates_asD:
  assumes "creates_as st invar view R" "invar s" "view s ns = Some m" "wf_prefix p" "Cidr p \<noteq> []" "m (Cidr p) = None"
  obtains q s' where "R p q" "CreatePrefix st p ns s = (Inr q, s')" "invar s'"
    "view s' = (view s)(ns \<mapsto> m(Cidr p \<mapsto> abs_prefix q))"
  using assms unfolding creates_as_def by blast

lemma create_all_as:
  assumes c: "creates_as st invar view R"
    and t: "invar t" "view t ns = Some m" "distinct (map Cidr ps)"
      "\<forall>p \<in> set ps. wf_prefix p \<and> Cidr p \<noteq> [] \<and> m (Cidr p) = None"
  shows "\<exists>t' m'. create_all st ns ps t = (Inr (), t') \<and> invar t' \<and> view t' = (view t)(ns \<mapsto> m') \<and>
    dom m' = dom m \<union> Cidr ` set ps \<and> (\<forall>c. c \<notin> Cidr ` set ps \<longrightarrow> m' c = m c) \<and>
    (\<forall>p \<in> set ps. \<exists>q. R p q \<and> m' (Cidr p) = Some (abs_prefix q))"
  using t
proof (induction ps arbitrary: t m)
  case Nil
  then show ?case
    by (intro exI [of _ t] exI [of _ m]) (simp add: fun_upd_idem)
next
  case (Cons p ps)
  have p: "wf_prefix p" "Cidr p \<noteq> []" "m (Cidr p) = None"
    using Cons.prems(4) by auto
  obtain q t1 where t1: "R p q" "CreatePrefix st p ns t = (Inr q, t1)" "invar t1"
      "view t1 = (view t)(ns \<mapsto> m(Cidr p \<mapsto> abs_prefix q))"
    using c Cons.prems(1,2) p by (rule creates_asD)
  let ?m = "m(Cidr p \<mapsto> abs_prefix q)"
  have v1: "view t1 ns = Some ?m"
    using t1(4) by simp
  have d: "distinct (map Cidr ps)" and new: "Cidr p \<notin> Cidr ` set ps"
    using Cons.prems(3) by simp_all
  have "\<forall>x \<in> set ps. wf_prefix x \<and> Cidr x \<noteq> [] \<and> ?m (Cidr x) = None"
    using Cons.prems(4) new by (auto simp: image_iff)
  from Cons.IH [OF t1(3) v1 d this] obtain t' m' where t': "create_all st ns ps t1 = (Inr (), t')" "invar t'"
      "view t' = (view t1)(ns \<mapsto> m')" "dom m' = dom ?m \<union> Cidr ` set ps" "\<forall>c. c \<notin> Cidr ` set ps \<longrightarrow> m' c = ?m c"
      "\<forall>x \<in> set ps. \<exists>q. R x q \<and> m' (Cidr x) = Some (abs_prefix q)"
    by blast
  have "m' (Cidr p) = Some (abs_prefix q)"
    using t'(5) new by simp
  moreover have "create_all st ns (p # ps) t = (Inr (), t')"
    using t1(2) t'(1) by simp
  moreover have "view t' = (view t)(ns \<mapsto> m')"
    by (simp add: t'(3) t1(4))
  ultimately show ?case
    using t1(1) t'(2,4,5,6) by (intro exI [of _ t'] exI [of _ m']) auto
qed

section \<open>Dump and load\<close>

lemma dump_law:
  assumes st: "storage_laws st invar view oks" and s: "invar s" "view s ns = Some m"
  shows "\<exists>js ps s'. NamespacedDump st ns s = (Inr js, s') \<and> invar s' \<and> view s' = view s \<and> fromJSONs js = Inr (map reread ps) \<and>
    distinct (map Cidr ps) \<and> (\<forall>p \<in> set ps. wf_prefix p \<and> Cidr p \<noteq> []) \<and>
    dom m = Cidr ` set ps \<and> (\<forall>p \<in> set ps. m (Cidr p) = Some (abs_prefix p))"
proof -
  obtain ps s' where ps: "ReadAllPrefixes st ns s = (Inr ps, s')" "distinct (map Cidr ps)"
      "\<forall>p \<in> set ps. wf_prefix p" "map_of (map (\<lambda>p. (Cidr p, abs_prefix p)) ps) = m" "invar s'" "view s' = view s"
    using storage_laws.read_all [OF st s] by blast
  obtain js where js: "Prefixes_toJSON ps = Inr js" "fromJSONs js = Inr (map reread ps)"
    using Prefixes_roundtrip [of ps] ps(3) wf_json_ok by blast
  have m: "m (Cidr p) = Some (abs_prefix p)" if "p \<in> set ps" for p
    using that ps(2,4) by (auto simp: map_of_eq_Some_iff distinct_map comp_def)
  have "Cidr p \<noteq> []" if "p \<in> set ps" for p
    using m [OF that] storage_laws.view_cidr [OF st s] by blast
  moreover have "dom m = Cidr ` set ps"
    by (simp add: dom_map_of_conv_image_fst image_image flip: ps(4))
  ultimately show ?thesis
    using ps js m by (intro exI [of _ js] exI [of _ ps] exI [of _ s']) (simp add: NamespacedDump_def)
qed

lemma load_as:
  assumes st: "storage_laws st invar view oks" and c: "creates_as st invar view R"
    and t: "invar t" "view t ns = Some Map.empty"
    and js: "fromJSONs js = Inr ps" "distinct (map Cidr ps)" "\<forall>p \<in> set ps. wf_prefix p \<and> Cidr p \<noteq> []"
  shows "\<exists>t' m'. NamespacedLoad st ns js t = (Inr (), t') \<and> invar t' \<and> view t' = (view t)(ns \<mapsto> m') \<and>
    dom m' = Cidr ` set ps \<and> (\<forall>p \<in> set ps. \<exists>q. R p q \<and> m' (Cidr p) = Some (abs_prefix q))"
proof -
  obtain es t1 where es: "ReadAllPrefixes st ns t = (Inr es, t1)" "invar t1" "view t1 = view t"
      "map_of (map (\<lambda>p. (Cidr p, abs_prefix p)) es) = Map.empty"
    using storage_laws.read_all [OF st t] by blast
  have v1: "view t1 ns = Some Map.empty"
    using es(3) t(2) by simp
  obtain t2 where t2: "DeleteAllPrefixes st ns t1 = (Inr (), t2)" "invar t2" "view t2 = (view t1)(ns \<mapsto> Map.empty)"
    using storage_laws.delete_all [OF st es(2) v1] by blast
  have v2: "view t2 ns = Some Map.empty"
    using t2(3) by simp
  obtain t' m' where "create_all st ns ps t2 = (Inr (), t')" "invar t'" "view t' = (view t2)(ns \<mapsto> m')"
      "dom m' = Cidr ` set ps" "\<forall>p \<in> set ps. \<exists>q. R p q \<and> m' (Cidr p) = Some (abs_prefix q)"
    using create_all_as [OF c t2(2) v2 js(2)] js(3) by auto
  then show ?thesis
    using es(1,3,4) t2(1,3) js(1) by (intro exI [of _ t'] exI [of _ m']) (simp add: NamespacedLoad_def)
qed

lemma roundtrip_as:
  assumes st: "storage_laws st invar view oks" "storage_laws st' invar' view' oks'" and c: "creates_as st' invar' view' R"
    and s: "invar s" "view s ns = Some m" and t: "invar' t" "view' t ns' = Some Map.empty"
  shows "\<exists>js s' t' m'. NamespacedDump st ns s = (Inr js, s') \<and> view s' = view s \<and>
    NamespacedLoad st' ns' js t = (Inr (), t') \<and> invar' t' \<and> view' t' = (view' t)(ns' \<mapsto> m') \<and> dom m' = dom m \<and>
    (\<forall>c a. m c = Some a \<longrightarrow> (\<exists>p q. abs_prefix p = a \<and> R p q \<and> m' c = Some (abs_prefix q)))"
proof -
  obtain js ps s' where d: "NamespacedDump st ns s = (Inr js, s')" "view s' = view s" "fromJSONs js = Inr (map reread ps)"
      "distinct (map Cidr ps)" "\<forall>p \<in> set ps. wf_prefix p \<and> Cidr p \<noteq> []" "dom m = Cidr ` set ps"
      "\<forall>p \<in> set ps. m (Cidr p) = Some (abs_prefix p)"
    using dump_law [OF st(1) s] by blast
  have re: "distinct (map Cidr (map reread ps))" "\<forall>p \<in> set (map reread ps). wf_prefix p \<and> Cidr p \<noteq> []"
      "Cidr ` set (map reread ps) = Cidr ` set ps"
    using d(4,5) by (auto simp: comp_def reread_wf image_image)
  obtain t' m' where l: "NamespacedLoad st' ns' js t = (Inr (), t')" "invar' t'" "view' t' = (view' t)(ns' \<mapsto> m')"
      "dom m' = Cidr ` set ps" "\<forall>p \<in> set (map reread ps). \<exists>q. R p q \<and> m' (Cidr p) = Some (abs_prefix q)"
    using load_as [OF st(2) c t d(3) re(1,2)] unfolding re(3) by blast
  have "\<exists>p q. abs_prefix p = a \<and> R p q \<and> m' k = Some (abs_prefix q)" if a: "m k = Some a" for k a
  proof -
    obtain p where p: "p \<in> set ps" "k = Cidr p"
      using a d(6) by blast
    then have "a = abs_prefix (reread p)"
      using a d(5,7) by (simp add: reread_abs)
    with l(5) p show ?thesis
      by (metis (no_types, lifting) image_eqI list.set_map reread_Cidr)
  qed
  with d(1,2,6) l(1-4) show ?thesis
    by (intro exI [of _ js] exI [of _ s'] exI [of _ t'] exI [of _ m']) simp
qed

lemma creates_as_any:
  assumes "storage_laws st invar view oks"
  shows "creates_as st invar view (\<lambda>p q. q = p \<or> q = p\<lparr>version := 0\<rparr>)"
  using storage_laws.create_any [OF assms] unfolding creates_as_def by blast

lemma creates_as_memory: "creates_as memory_storage memory_inv memory_view (\<lambda>p q. q = p)"
proof -
  have "\<exists>m'. CreatePrefix memory_storage p ns m = (Inr p, m') \<and> memory_inv m' \<and>
      memory_view m' = (memory_view m)(ns \<mapsto> v(Cidr p \<mapsto> abs_prefix p))"
    if "memory_inv m" "memory_view m ns = Some v" "wf_prefix p" "Cidr p \<noteq> []" "v (Cidr p) = None" for m ns v p
    using that memory_create [OF that(1)] memory_view_Some [OF that(2)] unfolding memory_storage_def storage.simps by metis
  then show ?thesis
    unfolding creates_as_def by blast
qed

text \<open>What a load restores: the same prefixes with the same contents, up to versions that start again at 0.\<close>

definition restored :: "(string \<rightharpoonup> aprefix) \<Rightarrow> (string \<rightharpoonup> aprefix) \<Rightarrow> bool" where
  "restored m m' \<longleftrightarrow> dom m' = dom m \<and> (\<forall>c a. m c = Some a \<longrightarrow> m' c = Some a \<or> m' c = Some (a\<lparr>aVersion := 0\<rparr>))"

lemma abs_version [simp]: "abs_prefix (p\<lparr>version := v\<rparr>) = (abs_prefix p)\<lparr>aVersion := v\<rparr>"
  by (simp add: abs_prefix_def)

lemma dump_load_law:
  assumes st: "storage_laws st invar view oks" "storage_laws st' invar' view' oks'"
    and s: "invar s" "view s ns = Some m" and t: "invar' t" "view' t ns' = Some Map.empty"
  shows "\<exists>js s' t' m'. NamespacedDump st ns s = (Inr js, s') \<and> view s' = view s \<and>
    NamespacedLoad st' ns' js t = (Inr (), t') \<and> invar' t' \<and> view' t' = (view' t)(ns' \<mapsto> m') \<and> restored m m'"
proof -
  obtain js s' t' m' where r: "NamespacedDump st ns s = (Inr js, s')" "view s' = view s"
      "NamespacedLoad st' ns' js t = (Inr (), t')" "invar' t'" "view' t' = (view' t)(ns' \<mapsto> m')" "dom m' = dom m"
      "\<forall>c a. m c = Some a \<longrightarrow> (\<exists>p q. abs_prefix p = a \<and> (q = p \<or> q = p\<lparr>version := 0\<rparr>) \<and> m' c = Some (abs_prefix q))"
    using roundtrip_as [OF st creates_as_any [OF st(2)] s t] by blast
  have "restored m m'"
    using r(6,7) unfolding restored_def by (metis abs_version)
  with r(1-5) show ?thesis
    by blast
qed

text \<open>A load never overwrites: with a prefix left in the namespace it fails and changes nothing.\<close>

lemma load_refused_law:
  assumes st: "storage_laws st invar view oks" and s: "invar s" "view s ns = Some m" "m \<noteq> Map.empty"
  shows "\<exists>e s'. NamespacedLoad st ns js s = (Inl e, s') \<and> invar s' \<and> view s' = view s"
proof -
  obtain ps s' where ps: "ReadAllPrefixes st ns s = (Inr ps, s')" "invar s'" "view s' = view s"
      "map_of (map (\<lambda>p. (Cidr p, abs_prefix p)) ps) = m"
    using storage_laws.read_all [OF st s(1,2)] by blast
  then have "ps \<noteq> []"
    using s(3) by auto
  with ps show ?thesis
    by (simp add: NamespacedLoad_def)
qed

text \<open>
  C21: A dump of any storage loads into an empty namespace of any other storage that meets the contract: every
  prefix is back with its addresses and children, its version kept or 0, and no other namespace changed.
\<close>

theorem dump_load_any_storage:
  assumes "storage_laws st invar view oks" "storage_laws st' invar' view' oks'"
    and "invar s" "view s ns = Some m" "invar' t" "view' t ns' = Some Map.empty"
  shows "\<exists>js s' t' m'. NamespacedDump st ns s = (Inr js, s') \<and> view s' = view s \<and>
    NamespacedLoad st' ns' js t = (Inr (), t') \<and> invar' t' \<and> view' t' = (view' t)(ns' \<mapsto> m') \<and> restored m m'"
  by (rule dump_load_law [OF assms])

text \<open>The memory storage keeps the versions too.\<close>

theorem dump_load_roundtrip:
  assumes s: "memory_inv s" "memory_view s ns = Some m" and t: "memory_inv t" "memory_view t ns' = Some Map.empty"
  shows "\<exists>js s' t'. NamespacedDump memory_storage ns s = (Inr js, s') \<and>
    NamespacedLoad memory_storage ns' js t = (Inr (), t') \<and> memory_inv t' \<and>
    memory_view t' = (memory_view t)(ns' \<mapsto> m)"
proof -
  obtain js s' t' m' where r: "NamespacedDump memory_storage ns s = (Inr js, s')"
      "NamespacedLoad memory_storage ns' js t = (Inr (), t')" "memory_inv t'" "memory_view t' = (memory_view t)(ns' \<mapsto> m')"
      "dom m' = dom m" "\<forall>c a. m c = Some a \<longrightarrow> (\<exists>p q. abs_prefix p = a \<and> q = p \<and> m' c = Some (abs_prefix q))"
    using roundtrip_as [OF mem.storage_laws_axioms mem.storage_laws_axioms creates_as_memory s t] by blast
  have "m' c = m c" for c
    using r(6) domIff [of c m] domIff [of c m'] unfolding r(5) by (cases "m c") auto
  then have "m' = m"
    by blast
  with r(1-4) show ?thesis
    by blast
qed

theorem dump_load_roundtrip_witness:
  "\<exists>js s' t'. NamespacedDump memory_storage ''root'' (memory_of inner_tree) = (Inr js, s') \<and>
    NamespacedLoad memory_storage ''root'' js NewMemory = (Inr (), t') \<and>
    memory_view t' ''root'' = Some (inner_view inner_tree)"
proof -
  have "memory_view (memory_of inner_tree) ''root'' = Some (inner_view inner_tree)"
    "memory_view NewMemory ''root'' = Some Map.empty"
    using view_memory_of [of inner_tree] by (simp_all add: namespaceFromContext_def defaultNamespace_def memory_inv_NewMemory)
  from dump_load_roundtrip [OF sample_memories(2) this(1) memory_inv_NewMemory(1) this(2)] show ?thesis
    by auto
qed

theorem dump_load_any_storage_witness:
  "\<exists>js s' t' m'. NamespacedDump memory_storage ''root'' (memory_of inner_tree) = (Inr js, s') \<and>
    NamespacedLoad memory_storage ''root'' js NewMemory = (Inr (), t') \<and>
    memory_view t' ''root'' = Some m' \<and> restored (inner_view inner_tree) m'"
proof -
  have "memory_view (memory_of inner_tree) ''root'' = Some (inner_view inner_tree)"
    "memory_view NewMemory ''root'' = Some Map.empty"
    using view_memory_of [of inner_tree] by (simp_all add: namespaceFromContext_def defaultNamespace_def memory_inv_NewMemory)
  from dump_load_any_storage [where st = memory_storage and st' = memory_storage and invar = memory_inv and invar' = memory_inv
      and view = memory_view and view' = memory_view, OF mem.storage_laws_axioms mem.storage_laws_axioms sample_memories(2) this(1)
      memory_inv_NewMemory(1) this(2)]
  obtain js s' t' m' where "NamespacedDump memory_storage ''root'' (memory_of inner_tree) = (Inr js, s')"
      "NamespacedLoad memory_storage ''root'' js NewMemory = (Inr (), t')"
      "memory_view t' = (memory_view NewMemory)(''root'' \<mapsto> m')" "restored (inner_view inner_tree) m'"
    by blast
  then show ?thesis
    by auto
qed

end
