(* ===== verification/Rpc.thy ===== *)
theory Rpc
  imports Service
begin

text \<open>
  The code between client and service, \<^verbatim>\<open>src/api/v1/apiv1connect/ipam.connect.go\<close>, which is generated from
  the interface description and is part of the repository: the paths of the procedures, the client that
  calls them, and the handler that routes a path to a method of the service.

  The connect library and HTTP carry a request of a client to the handler that serves the path, and its
  response or error back. They are a parameter: \<open>reach\<close> says which handler of which type answers at a URL,
  \<open>on_wire\<close> what is left of an error on the other side, \<open>no_answer\<close> is the error of a call that reaches no
  handler for its messages. Values of a context are not sent: a handler starts with an empty context. A
  request and a response are the messages they carry; the empty messages are \<open>unit\<close>.
\<close>

section \<open>Procedures\<close>

definition IpamServiceName :: string where
  "IpamServiceName = ''api.v1.IpamService''"

definition IpamServiceCreatePrefixProcedure :: string where
  "IpamServiceCreatePrefixProcedure = ''/api.v1.IpamService/CreatePrefix''"

definition IpamServiceDeletePrefixProcedure :: string where
  "IpamServiceDeletePrefixProcedure = ''/api.v1.IpamService/DeletePrefix''"

definition IpamServiceGetPrefixProcedure :: string where
  "IpamServiceGetPrefixProcedure = ''/api.v1.IpamService/GetPrefix''"

definition IpamServiceListPrefixesProcedure :: string where
  "IpamServiceListPrefixesProcedure = ''/api.v1.IpamService/ListPrefixes''"

definition IpamServicePrefixUsageProcedure :: string where
  "IpamServicePrefixUsageProcedure = ''/api.v1.IpamService/PrefixUsage''"

definition IpamServiceAcquireChildPrefixProcedure :: string where
  "IpamServiceAcquireChildPrefixProcedure = ''/api.v1.IpamService/AcquireChildPrefix''"

definition IpamServiceReleaseChildPrefixProcedure :: string where
  "IpamServiceReleaseChildPrefixProcedure = ''/api.v1.IpamService/ReleaseChildPrefix''"

definition IpamServiceAcquireIPProcedure :: string where
  "IpamServiceAcquireIPProcedure = ''/api.v1.IpamService/AcquireIP''"

definition IpamServiceReleaseIPProcedure :: string where
  "IpamServiceReleaseIPProcedure = ''/api.v1.IpamService/ReleaseIP''"

definition IpamServiceDumpProcedure :: string where
  "IpamServiceDumpProcedure = ''/api.v1.IpamService/Dump''"

definition IpamServiceLoadProcedure :: string where
  "IpamServiceLoadProcedure = ''/api.v1.IpamService/Load''"

definition IpamServiceCreateNamespaceProcedure :: string where
  "IpamServiceCreateNamespaceProcedure = ''/api.v1.IpamService/CreateNamespace''"

definition IpamServiceListNamespacesProcedure :: string where
  "IpamServiceListNamespacesProcedure = ''/api.v1.IpamService/ListNamespaces''"

definition IpamServiceDeleteNamespaceProcedure :: string where
  "IpamServiceDeleteNamespaceProcedure = ''/api.v1.IpamService/DeleteNamespace''"

definition IpamServiceVersionProcedure :: string where
  "IpamServiceVersionProcedure = ''/api.v1.IpamService/Version''"

lemmas procedures =
  IpamServiceCreatePrefixProcedure_def IpamServiceDeletePrefixProcedure_def IpamServiceGetPrefixProcedure_def
  IpamServiceListPrefixesProcedure_def IpamServicePrefixUsageProcedure_def IpamServiceAcquireChildPrefixProcedure_def
  IpamServiceReleaseChildPrefixProcedure_def IpamServiceAcquireIPProcedure_def IpamServiceReleaseIPProcedure_def
  IpamServiceDumpProcedure_def IpamServiceLoadProcedure_def IpamServiceCreateNamespaceProcedure_def
  IpamServiceListNamespacesProcedure_def IpamServiceDeleteNamespaceProcedure_def IpamServiceVersionProcedure_def

section \<open>The interface of the service\<close>

text \<open>\<open>IpamServiceHandler\<close> and \<open>IpamServiceClient\<close> have the same methods.\<close>

record 's ipam_service =
  rpc_CreatePrefix :: "ctx \<Rightarrow> CreatePrefixRequest \<Rightarrow> ('s, Prefix_msg) handler"
  rpc_DeletePrefix :: "ctx \<Rightarrow> DeletePrefixRequest \<Rightarrow> ('s, Prefix_msg) handler"
  rpc_GetPrefix :: "ctx \<Rightarrow> GetPrefixRequest \<Rightarrow> ('s, Prefix_msg) handler"
  rpc_ListPrefixes :: "ctx \<Rightarrow> ListPrefixesRequest \<Rightarrow> ('s, Prefix_msg list) handler"
  rpc_PrefixUsage :: "ctx \<Rightarrow> PrefixUsageRequest \<Rightarrow> ('s, PrefixUsageResponse) handler"
  rpc_AcquireChildPrefix :: "ctx \<Rightarrow> AcquireChildPrefixRequest \<Rightarrow> ('s, Prefix_msg) handler"
  rpc_ReleaseChildPrefix :: "ctx \<Rightarrow> ReleaseChildPrefixRequest \<Rightarrow> ('s, Prefix_msg) handler"
  rpc_AcquireIP :: "ctx \<Rightarrow> AcquireIPRequest \<Rightarrow> ('s, IP_msg) handler"
  rpc_ReleaseIP :: "ctx \<Rightarrow> ReleaseIPRequest \<Rightarrow> ('s, IP_msg) handler"
  rpc_Dump :: "ctx \<Rightarrow> DumpRequest \<Rightarrow> ('s, json) handler"
  rpc_Load :: "ctx \<Rightarrow> LoadRequest \<Rightarrow> ('s, unit) handler"
  rpc_CreateNamespace :: "ctx \<Rightarrow> CreateNamespaceRequest \<Rightarrow> ('s, unit) handler"
  rpc_ListNamespaces :: "ctx \<Rightarrow> unit \<Rightarrow> ('s, string list) handler"
  rpc_DeleteNamespace :: "ctx \<Rightarrow> DeleteNamespaceRequest \<Rightarrow> ('s, unit) handler"
  rpc_Version :: "ctx \<Rightarrow> unit \<Rightarrow> ('s, VersionResponse) handler"

text \<open>\<open>connect.NewUnaryHandler\<close> for each pair of messages: what answers the requests of one procedure.\<close>

datatype 's unary_handler =
  CreatePrefix_handler "ctx \<Rightarrow> CreatePrefixRequest \<Rightarrow> ('s, Prefix_msg) handler"
| DeletePrefix_handler "ctx \<Rightarrow> DeletePrefixRequest \<Rightarrow> ('s, Prefix_msg) handler"
| GetPrefix_handler "ctx \<Rightarrow> GetPrefixRequest \<Rightarrow> ('s, Prefix_msg) handler"
| ListPrefixes_handler "ctx \<Rightarrow> ListPrefixesRequest \<Rightarrow> ('s, Prefix_msg list) handler"
| PrefixUsage_handler "ctx \<Rightarrow> PrefixUsageRequest \<Rightarrow> ('s, PrefixUsageResponse) handler"
| AcquireChildPrefix_handler "ctx \<Rightarrow> AcquireChildPrefixRequest \<Rightarrow> ('s, Prefix_msg) handler"
| ReleaseChildPrefix_handler "ctx \<Rightarrow> ReleaseChildPrefixRequest \<Rightarrow> ('s, Prefix_msg) handler"
| AcquireIP_handler "ctx \<Rightarrow> AcquireIPRequest \<Rightarrow> ('s, IP_msg) handler"
| ReleaseIP_handler "ctx \<Rightarrow> ReleaseIPRequest \<Rightarrow> ('s, IP_msg) handler"
| Dump_handler "ctx \<Rightarrow> DumpRequest \<Rightarrow> ('s, json) handler"
| Load_handler "ctx \<Rightarrow> LoadRequest \<Rightarrow> ('s, unit) handler"
| CreateNamespace_handler "ctx \<Rightarrow> CreateNamespaceRequest \<Rightarrow> ('s, unit) handler"
| ListNamespaces_handler "ctx \<Rightarrow> unit \<Rightarrow> ('s, string list) handler"
| DeleteNamespace_handler "ctx \<Rightarrow> DeleteNamespaceRequest \<Rightarrow> ('s, unit) handler"
| Version_handler "ctx \<Rightarrow> unit \<Rightarrow> ('s, VersionResponse) handler"

section \<open>Routing\<close>

text \<open>The path on which to mount the handler, and the handler; \<open>None\<close> is \<open>http.NotFound\<close>.\<close>

definition NewIpamServiceHandler :: "'s ipam_service \<Rightarrow> string \<times> (string \<Rightarrow> 's unary_handler option)" where
  "NewIpamServiceHandler svc = (''/api.v1.IpamService/'', \<lambda>path.
     if path = IpamServiceCreatePrefixProcedure then Some (CreatePrefix_handler (rpc_CreatePrefix svc))
     else if path = IpamServiceDeletePrefixProcedure then Some (DeletePrefix_handler (rpc_DeletePrefix svc))
     else if path = IpamServiceGetPrefixProcedure then Some (GetPrefix_handler (rpc_GetPrefix svc))
     else if path = IpamServiceListPrefixesProcedure then Some (ListPrefixes_handler (rpc_ListPrefixes svc))
     else if path = IpamServicePrefixUsageProcedure then Some (PrefixUsage_handler (rpc_PrefixUsage svc))
     else if path = IpamServiceAcquireChildPrefixProcedure then Some (AcquireChildPrefix_handler (rpc_AcquireChildPrefix svc))
     else if path = IpamServiceReleaseChildPrefixProcedure then Some (ReleaseChildPrefix_handler (rpc_ReleaseChildPrefix svc))
     else if path = IpamServiceAcquireIPProcedure then Some (AcquireIP_handler (rpc_AcquireIP svc))
     else if path = IpamServiceReleaseIPProcedure then Some (ReleaseIP_handler (rpc_ReleaseIP svc))
     else if path = IpamServiceDumpProcedure then Some (Dump_handler (rpc_Dump svc))
     else if path = IpamServiceLoadProcedure then Some (Load_handler (rpc_Load svc))
     else if path = IpamServiceCreateNamespaceProcedure then Some (CreateNamespace_handler (rpc_CreateNamespace svc))
     else if path = IpamServiceListNamespacesProcedure then Some (ListNamespaces_handler (rpc_ListNamespaces svc))
     else if path = IpamServiceDeleteNamespaceProcedure then Some (DeleteNamespace_handler (rpc_DeleteNamespace svc))
     else if path = IpamServiceVersionProcedure then Some (Version_handler (rpc_Version svc))
     else None)"

section \<open>The client\<close>

record 's connect_lib =
  reach :: "string \<Rightarrow> 's unary_handler option"
  on_wire :: "service_error \<Rightarrow> service_error"
  no_answer :: service_error

text \<open>\<open>strings.TrimRight(s, "/")\<close>.\<close>

definition TrimRight_slash :: "string \<Rightarrow> string" where
  "TrimRight_slash u = rev (dropWhile (\<lambda>c. c = CHR 0x2F) (rev u))"

text \<open>\<open>CallUnary\<close> with a handler that was reached: it runs without the values of the caller's context.\<close>

definition call :: "'s connect_lib \<Rightarrow> (ctx \<Rightarrow> 'q \<Rightarrow> ('s, 'r) handler) option \<Rightarrow> ctx \<Rightarrow> 'q \<Rightarrow> ('s, 'r) handler" where
  "call lib h ctx req s = (case h of
      None \<Rightarrow> (Inl (no_answer lib), s)
    | Some f \<Rightarrow> (case f None req s of
        (Inl err, s) \<Rightarrow> (Inl (on_wire lib err), s)
      | (Inr resp, s) \<Rightarrow> (Inr resp, s)))"

text \<open>A client reaches a handler for its own messages only.\<close>

definition CreatePrefix_of :: "'s unary_handler option \<Rightarrow> (ctx \<Rightarrow> CreatePrefixRequest \<Rightarrow> ('s, Prefix_msg) handler) option" where
  "CreatePrefix_of h = (case h of Some (CreatePrefix_handler f) \<Rightarrow> Some f | _ \<Rightarrow> None)"

definition DeletePrefix_of :: "'s unary_handler option \<Rightarrow> (ctx \<Rightarrow> DeletePrefixRequest \<Rightarrow> ('s, Prefix_msg) handler) option" where
  "DeletePrefix_of h = (case h of Some (DeletePrefix_handler f) \<Rightarrow> Some f | _ \<Rightarrow> None)"

definition GetPrefix_of :: "'s unary_handler option \<Rightarrow> (ctx \<Rightarrow> GetPrefixRequest \<Rightarrow> ('s, Prefix_msg) handler) option" where
  "GetPrefix_of h = (case h of Some (GetPrefix_handler f) \<Rightarrow> Some f | _ \<Rightarrow> None)"

definition ListPrefixes_of :: "'s unary_handler option \<Rightarrow> (ctx \<Rightarrow> ListPrefixesRequest \<Rightarrow> ('s, Prefix_msg list) handler) option" where
  "ListPrefixes_of h = (case h of Some (ListPrefixes_handler f) \<Rightarrow> Some f | _ \<Rightarrow> None)"

definition PrefixUsage_of :: "'s unary_handler option \<Rightarrow> (ctx \<Rightarrow> PrefixUsageRequest \<Rightarrow> ('s, PrefixUsageResponse) handler) option" where
  "PrefixUsage_of h = (case h of Some (PrefixUsage_handler f) \<Rightarrow> Some f | _ \<Rightarrow> None)"

definition AcquireChildPrefix_of :: "'s unary_handler option \<Rightarrow> (ctx \<Rightarrow> AcquireChildPrefixRequest \<Rightarrow> ('s, Prefix_msg) handler) option" where
  "AcquireChildPrefix_of h = (case h of Some (AcquireChildPrefix_handler f) \<Rightarrow> Some f | _ \<Rightarrow> None)"

definition ReleaseChildPrefix_of :: "'s unary_handler option \<Rightarrow> (ctx \<Rightarrow> ReleaseChildPrefixRequest \<Rightarrow> ('s, Prefix_msg) handler) option" where
  "ReleaseChildPrefix_of h = (case h of Some (ReleaseChildPrefix_handler f) \<Rightarrow> Some f | _ \<Rightarrow> None)"

definition AcquireIP_of :: "'s unary_handler option \<Rightarrow> (ctx \<Rightarrow> AcquireIPRequest \<Rightarrow> ('s, IP_msg) handler) option" where
  "AcquireIP_of h = (case h of Some (AcquireIP_handler f) \<Rightarrow> Some f | _ \<Rightarrow> None)"

definition ReleaseIP_of :: "'s unary_handler option \<Rightarrow> (ctx \<Rightarrow> ReleaseIPRequest \<Rightarrow> ('s, IP_msg) handler) option" where
  "ReleaseIP_of h = (case h of Some (ReleaseIP_handler f) \<Rightarrow> Some f | _ \<Rightarrow> None)"

definition Dump_of :: "'s unary_handler option \<Rightarrow> (ctx \<Rightarrow> DumpRequest \<Rightarrow> ('s, json) handler) option" where
  "Dump_of h = (case h of Some (Dump_handler f) \<Rightarrow> Some f | _ \<Rightarrow> None)"

definition Load_of :: "'s unary_handler option \<Rightarrow> (ctx \<Rightarrow> LoadRequest \<Rightarrow> ('s, unit) handler) option" where
  "Load_of h = (case h of Some (Load_handler f) \<Rightarrow> Some f | _ \<Rightarrow> None)"

definition CreateNamespace_of :: "'s unary_handler option \<Rightarrow> (ctx \<Rightarrow> CreateNamespaceRequest \<Rightarrow> ('s, unit) handler) option" where
  "CreateNamespace_of h = (case h of Some (CreateNamespace_handler f) \<Rightarrow> Some f | _ \<Rightarrow> None)"

definition ListNamespaces_of :: "'s unary_handler option \<Rightarrow> (ctx \<Rightarrow> unit \<Rightarrow> ('s, string list) handler) option" where
  "ListNamespaces_of h = (case h of Some (ListNamespaces_handler f) \<Rightarrow> Some f | _ \<Rightarrow> None)"

definition DeleteNamespace_of :: "'s unary_handler option \<Rightarrow> (ctx \<Rightarrow> DeleteNamespaceRequest \<Rightarrow> ('s, unit) handler) option" where
  "DeleteNamespace_of h = (case h of Some (DeleteNamespace_handler f) \<Rightarrow> Some f | _ \<Rightarrow> None)"

definition Version_of :: "'s unary_handler option \<Rightarrow> (ctx \<Rightarrow> unit \<Rightarrow> ('s, VersionResponse) handler) option" where
  "Version_of h = (case h of Some (Version_handler f) \<Rightarrow> Some f | _ \<Rightarrow> None)"

definition NewIpamServiceClient :: "'s connect_lib \<Rightarrow> string \<Rightarrow> 's ipam_service" where
  "NewIpamServiceClient lib baseURL = (let baseURL = TrimRight_slash baseURL in \<lparr>
     rpc_CreatePrefix = call lib (CreatePrefix_of (reach lib (baseURL @ IpamServiceCreatePrefixProcedure))),
     rpc_DeletePrefix = call lib (DeletePrefix_of (reach lib (baseURL @ IpamServiceDeletePrefixProcedure))),
     rpc_GetPrefix = call lib (GetPrefix_of (reach lib (baseURL @ IpamServiceGetPrefixProcedure))),
     rpc_ListPrefixes = call lib (ListPrefixes_of (reach lib (baseURL @ IpamServiceListPrefixesProcedure))),
     rpc_PrefixUsage = call lib (PrefixUsage_of (reach lib (baseURL @ IpamServicePrefixUsageProcedure))),
     rpc_AcquireChildPrefix = call lib (AcquireChildPrefix_of (reach lib (baseURL @ IpamServiceAcquireChildPrefixProcedure))),
     rpc_ReleaseChildPrefix = call lib (ReleaseChildPrefix_of (reach lib (baseURL @ IpamServiceReleaseChildPrefixProcedure))),
     rpc_AcquireIP = call lib (AcquireIP_of (reach lib (baseURL @ IpamServiceAcquireIPProcedure))),
     rpc_ReleaseIP = call lib (ReleaseIP_of (reach lib (baseURL @ IpamServiceReleaseIPProcedure))),
     rpc_Dump = call lib (Dump_of (reach lib (baseURL @ IpamServiceDumpProcedure))),
     rpc_Load = call lib (Load_of (reach lib (baseURL @ IpamServiceLoadProcedure))),
     rpc_CreateNamespace = call lib (CreateNamespace_of (reach lib (baseURL @ IpamServiceCreateNamespaceProcedure))),
     rpc_ListNamespaces = call lib (ListNamespaces_of (reach lib (baseURL @ IpamServiceListNamespacesProcedure))),
     rpc_DeleteNamespace = call lib (DeleteNamespace_of (reach lib (baseURL @ IpamServiceDeleteNamespaceProcedure))),
     rpc_Version = call lib (Version_of (reach lib (baseURL @ IpamServiceVersionProcedure)))\<rparr>)"

text \<open>\<open>UnimplementedIpamServiceHandler\<close>.\<close>

definition unimplemented :: "string \<Rightarrow> ctx \<Rightarrow> 'q \<Rightarrow> ('s, 'r) handler" where
  "unimplemented method ctx req s = (Inl (ConnectError CodeUnimplemented
     (Errorf (''api.v1.IpamService.'' @ method @ '' is not implemented'') [])), s)"

definition UnimplementedIpamServiceHandler :: "'s ipam_service" where
  "UnimplementedIpamServiceHandler = \<lparr>
     rpc_CreatePrefix = unimplemented ''CreatePrefix'',
     rpc_DeletePrefix = unimplemented ''DeletePrefix'',
     rpc_GetPrefix = unimplemented ''GetPrefix'',
     rpc_ListPrefixes = unimplemented ''ListPrefixes'',
     rpc_PrefixUsage = unimplemented ''PrefixUsage'',
     rpc_AcquireChildPrefix = unimplemented ''AcquireChildPrefix'',
     rpc_ReleaseChildPrefix = unimplemented ''ReleaseChildPrefix'',
     rpc_AcquireIP = unimplemented ''AcquireIP'',
     rpc_ReleaseIP = unimplemented ''ReleaseIP'',
     rpc_Dump = unimplemented ''Dump'',
     rpc_Load = unimplemented ''Load'',
     rpc_CreateNamespace = unimplemented ''CreateNamespace'',
     rpc_ListNamespaces = unimplemented ''ListNamespaces'',
     rpc_DeleteNamespace = unimplemented ''DeleteNamespace'',
     rpc_Version = unimplemented ''Version''\<rparr>"

text \<open>The service of \<^verbatim>\<open>src/pkg/service\<close> with its handlers as methods; \<open>v\<close> is the version of the build.\<close>

definition service_New :: "('b, 't) netipx \<Rightarrow> VersionResponse \<Rightarrow> 's ipamer \<Rightarrow> 's ipam_service" where
  "service_New nx v i = \<lparr>
     rpc_CreatePrefix = svc_CreatePrefix i,
     rpc_DeletePrefix = svc_DeletePrefix i,
     rpc_GetPrefix = svc_GetPrefix i,
     rpc_ListPrefixes = svc_ListPrefixes i,
     rpc_PrefixUsage = svc_PrefixUsage nx i,
     rpc_AcquireChildPrefix = svc_AcquireChildPrefix i,
     rpc_ReleaseChildPrefix = svc_ReleaseChildPrefix i,
     rpc_AcquireIP = svc_AcquireIP i,
     rpc_ReleaseIP = svc_ReleaseIP i,
     rpc_Dump = svc_Dump i,
     rpc_Load = svc_Load i,
     rpc_CreateNamespace = (\<lambda>ctx. svc_CreateNamespace i),
     rpc_ListNamespaces = (\<lambda>ctx req. svc_ListNamespaces i),
     rpc_DeleteNamespace = (\<lambda>ctx. svc_DeleteNamespace i),
     rpc_Version = (\<lambda>ctx req. svc_Version v)\<rparr>"

section \<open>The client calls the service\<close>

text \<open>A service seen through the network: without the context of the caller, errors as they arrive.\<close>

definition remote :: "'s connect_lib \<Rightarrow> 's ipam_service \<Rightarrow> 's ipam_service" where
  "remote lib svc = \<lparr>
     rpc_CreatePrefix = call lib (Some (rpc_CreatePrefix svc)),
     rpc_DeletePrefix = call lib (Some (rpc_DeletePrefix svc)),
     rpc_GetPrefix = call lib (Some (rpc_GetPrefix svc)),
     rpc_ListPrefixes = call lib (Some (rpc_ListPrefixes svc)),
     rpc_PrefixUsage = call lib (Some (rpc_PrefixUsage svc)),
     rpc_AcquireChildPrefix = call lib (Some (rpc_AcquireChildPrefix svc)),
     rpc_ReleaseChildPrefix = call lib (Some (rpc_ReleaseChildPrefix svc)),
     rpc_AcquireIP = call lib (Some (rpc_AcquireIP svc)),
     rpc_ReleaseIP = call lib (Some (rpc_ReleaseIP svc)),
     rpc_Dump = call lib (Some (rpc_Dump svc)),
     rpc_Load = call lib (Some (rpc_Load svc)),
     rpc_CreateNamespace = call lib (Some (rpc_CreateNamespace svc)),
     rpc_ListNamespaces = call lib (Some (rpc_ListNamespaces svc)),
     rpc_DeleteNamespace = call lib (Some (rpc_DeleteNamespace svc)),
     rpc_Version = call lib (Some (rpc_Version svc))\<rparr>"

text \<open>What the library promises: a request to a URL below \<open>base\<close> is answered by what serves its path.\<close>

definition serves :: "'s connect_lib \<Rightarrow> string \<Rightarrow> 's ipam_service \<Rightarrow> bool" where
  "serves lib base svc \<longleftrightarrow> (\<forall>path. reach lib (base @ path) = snd (NewIpamServiceHandler svc) path)"

lemma route_simps:
  "CreatePrefix_of (snd (NewIpamServiceHandler svc) IpamServiceCreatePrefixProcedure) = Some (rpc_CreatePrefix svc)"
  "DeletePrefix_of (snd (NewIpamServiceHandler svc) IpamServiceDeletePrefixProcedure) = Some (rpc_DeletePrefix svc)"
  "GetPrefix_of (snd (NewIpamServiceHandler svc) IpamServiceGetPrefixProcedure) = Some (rpc_GetPrefix svc)"
  "ListPrefixes_of (snd (NewIpamServiceHandler svc) IpamServiceListPrefixesProcedure) = Some (rpc_ListPrefixes svc)"
  "PrefixUsage_of (snd (NewIpamServiceHandler svc) IpamServicePrefixUsageProcedure) = Some (rpc_PrefixUsage svc)"
  "AcquireChildPrefix_of (snd (NewIpamServiceHandler svc) IpamServiceAcquireChildPrefixProcedure) = Some (rpc_AcquireChildPrefix svc)"
  "ReleaseChildPrefix_of (snd (NewIpamServiceHandler svc) IpamServiceReleaseChildPrefixProcedure) = Some (rpc_ReleaseChildPrefix svc)"
  "AcquireIP_of (snd (NewIpamServiceHandler svc) IpamServiceAcquireIPProcedure) = Some (rpc_AcquireIP svc)"
  "ReleaseIP_of (snd (NewIpamServiceHandler svc) IpamServiceReleaseIPProcedure) = Some (rpc_ReleaseIP svc)"
  "Dump_of (snd (NewIpamServiceHandler svc) IpamServiceDumpProcedure) = Some (rpc_Dump svc)"
  "Load_of (snd (NewIpamServiceHandler svc) IpamServiceLoadProcedure) = Some (rpc_Load svc)"
  "CreateNamespace_of (snd (NewIpamServiceHandler svc) IpamServiceCreateNamespaceProcedure) = Some (rpc_CreateNamespace svc)"
  "ListNamespaces_of (snd (NewIpamServiceHandler svc) IpamServiceListNamespacesProcedure) = Some (rpc_ListNamespaces svc)"
  "DeleteNamespace_of (snd (NewIpamServiceHandler svc) IpamServiceDeleteNamespaceProcedure) = Some (rpc_DeleteNamespace svc)"
  "Version_of (snd (NewIpamServiceHandler svc) IpamServiceVersionProcedure) = Some (rpc_Version svc)"
  by (simp_all add: NewIpamServiceHandler_def procedures CreatePrefix_of_def DeletePrefix_of_def GetPrefix_of_def ListPrefixes_of_def PrefixUsage_of_def AcquireChildPrefix_of_def ReleaseChildPrefix_of_def AcquireIP_of_def ReleaseIP_of_def Dump_of_def Load_of_def CreateNamespace_of_def ListNamespaces_of_def DeleteNamespace_of_def Version_of_def)

lemma router_paths:
  assumes "snd (NewIpamServiceHandler svc) path = Some h"
  shows "take (length (fst (NewIpamServiceHandler svc))) path = fst (NewIpamServiceHandler svc)"
  using assms by (auto simp: NewIpamServiceHandler_def procedures split: if_split_asm)

text \<open>One server at one address, and a network that changes no error.\<close>

definition one_server :: "string \<Rightarrow> 's ipam_service \<Rightarrow> 's connect_lib" where
  "one_server base svc = \<lparr>
     reach = (\<lambda>url. if take (length base) url = base then snd (NewIpamServiceHandler svc) (drop (length base) url) else None),
     on_wire = (\<lambda>err. err),
     no_answer = PlainError (Errorf ''connection refused'' [])\<rparr>"

lemma one_server_serves: "serves (one_server base svc) base svc"
  by (simp add: serves_def one_server_def)

lemma client_law:
  assumes "serves lib (TrimRight_slash baseURL) svc"
  shows "NewIpamServiceClient lib baseURL = remote lib svc"
  using assms by (simp add: NewIpamServiceClient_def remote_def serves_def route_simps)

text \<open>
  Through the generated client and the generated router every method of the client calls the method
  of the same name of the service, whatever slashes the base URL ends with: no procedure is routed to
  another one, and none is missing.
\<close>

theorem client_calls_service:
  assumes "serves lib (TrimRight_slash baseURL) svc"
  shows "NewIpamServiceClient lib baseURL = remote lib svc"
  by (rule client_law [OF assms])

definition sample_service :: "memory ipam_service" where
  "sample_service = service_New ref_netipx
     \<lparr>VersionResponse_Version = ''v1'', VersionResponse_Revision = [], VersionResponse_GitSha1 = [], VersionResponse_BuildDate = []\<rparr>
     (NewWithStorage ref_netipx retry_ref retry_ref retry_ref memory_storage)"

lemma sample_endpoint: "TrimRight_slash ''http://localhost:9090/'' = ''http://localhost:9090''"
  by code_simp

theorem client_calls_service_witness:
  "NewIpamServiceClient (one_server ''http://localhost:9090'' sample_service) ''http://localhost:9090/'' =
    remote (one_server ''http://localhost:9090'' sample_service) sample_service"
  by (rule client_calls_service) (simp only: sample_endpoint one_server_serves)

end
