(* ===== verification/Flags.thy ===== *)
theory Flags
  imports Prelude "HOL-Library.Word"
begin

text \<open>
  The contexts of the two commands. The library \<^verbatim>\<open>urfave/cli\<close> parses arguments and environment variables and
  calls the action of a command with a context, from which the action reads the values of the flags by their
  names. The context is an argument of the actions; a flag that is declared neither by the application nor by
  the command has no value of its own there. \<open>uint\<close> has 64 bits.
\<close>

record cli_context =
  flag_String :: "string \<Rightarrow> string"
  flag_Uint :: "string \<Rightarrow> 64 word"
  flag_Bool :: "string \<Rightarrow> bool"

text \<open>A flag: its name, and for a string its default value and the environment variables it is read from.\<close>

datatype cli_flag = StringFlag string string "string list" | UintFlag string | BoolFlag string bool "string list"

text \<open>Two contexts that give the same value to a flag, read with its type.\<close>

primrec same_flag :: "cli_context \<Rightarrow> cli_context \<Rightarrow> cli_flag \<Rightarrow> bool" where
  "same_flag ctx ctx' (StringFlag name val vars) = (flag_String ctx name = flag_String ctx' name)"
| "same_flag ctx ctx' (UintFlag name) = (flag_Uint ctx name = flag_Uint ctx' name)"
| "same_flag ctx ctx' (BoolFlag name val vars) = (flag_Bool ctx name = flag_Bool ctx' name)"

text \<open>The context of a command that was started without any argument or variable: every flag has its default.\<close>

primrec with_default :: "cli_flag \<Rightarrow> cli_context \<Rightarrow> cli_context" where
  "with_default (StringFlag name val vars) ctx = ctx\<lparr>flag_String := (flag_String ctx)(name := val)\<rparr>"
| "with_default (UintFlag name) ctx = ctx\<lparr>flag_Uint := (flag_Uint ctx)(name := 0)\<rparr>"
| "with_default (BoolFlag name val vars) ctx = ctx\<lparr>flag_Bool := (flag_Bool ctx)(name := val)\<rparr>"

definition default_context :: "cli_flag list \<Rightarrow> cli_context" where
  "default_context flags = foldr with_default flags
     \<lparr>flag_String = (\<lambda>name. []), flag_Uint = (\<lambda>name. 0), flag_Bool = (\<lambda>name. False)\<rparr>"

end
