(* ===== verification/Cli.thy ===== *)
theory Cli
  imports Rpc Dumps Flags
begin

text \<open>
  The command line client, \<^verbatim>\<open>src/cmd/client/client.go\<close>. An action calls the service through the generated client of \<open>Rpc\<close> and prints. What it prints is a list of
  \<open>Printf\<close> with their format and arguments; a dump is the JSON document itself, and so is the content of a
  file.
\<close>

section \<open>Commands and output\<close>

datatype cli_output = Printf string "string list" | Println json

datatype cli_error = Remote service_error | Local go_error

type_synonym readFile = "string \<Rightarrow> json result"

type_synonym 's action = "'s connect_lib \<Rightarrow> readFile \<Rightarrow> cli_context \<Rightarrow> 's \<Rightarrow> (cli_error + cli_output list) \<times> 's"

record 's subcommand =
  sub_Name :: string
  sub_Usage :: string
  sub_Flags :: "cli_flag list"
  sub_Action :: "'s action"

record 's command =
  cmd_Name :: string
  cmd_Aliases :: "string list"
  cmd_Usage :: string
  Subcommands :: "'s subcommand list"

text \<open>A format that ends with a line feed.\<close>

definition printf_line :: "string \<Rightarrow> string list \<Rightarrow> cli_output" where
  "printf_line fmt args = Printf (fmt @ [CHR 0x0A]) args"

definition cli_client :: "'s connect_lib \<Rightarrow> cli_context \<Rightarrow> 's ipam_service" where
  "cli_client lib ctx = NewIpamServiceClient lib (flag_String ctx ''grpc-server-endpoint'')"

text \<open>\<open>GetPrefix\<close> of a response: the responses of the model carry their prefix.\<close>

definition response_GetPrefix :: "Prefix_msg \<Rightarrow> Prefix_msg option" where
  "response_GetPrefix msg = Some msg"

section \<open>Actions\<close>

definition cli_prefix_create :: "'s action" where
  "cli_prefix_create lib readFile ctx s =
     (let c = cli_client lib ctx in
      case rpc_CreatePrefix c None
          \<lparr>CreatePrefixRequest_Cidr = flag_String ctx ''cidr'', CreatePrefixRequest_Namespace = None\<rparr> s of
        (Inl err, s) \<Rightarrow> (Inl (Remote err), s)
      | (Inr result, s) \<Rightarrow> (Inr [printf_line ''prefix:%q created'' [Prefix_msg_Cidr result]], s))"

definition cli_prefix_acquire :: "'s action" where
  "cli_prefix_acquire lib readFile ctx s =
     (let c = cli_client lib ctx in
      case rpc_AcquireChildPrefix c None
          \<lparr>AcquireChildPrefixRequest_Cidr = flag_String ctx ''parent'',
           AcquireChildPrefixRequest_Length = ucast (flag_Uint ctx ''length''),
           AcquireChildPrefixRequest_ChildCidr = None, AcquireChildPrefixRequest_Namespace = None\<rparr> s of
        (Inl err, s) \<Rightarrow> (Inl (Remote err), s)
      | (Inr result, s) \<Rightarrow> (Inr [printf_line ''child prefix:%q from %q created''
          [Prefix_msg_Cidr result, Prefix_msg_ParentCidr result]], s))"

definition cli_prefix_release :: "'s action" where
  "cli_prefix_release lib readFile ctx s =
     (let c = cli_client lib ctx in
      case rpc_ReleaseChildPrefix c None
          \<lparr>ReleaseChildPrefixRequest_Cidr = flag_String ctx ''cidr'', ReleaseChildPrefixRequest_Namespace = None\<rparr> s of
        (Inl err, s) \<Rightarrow> (Inl (Remote err), s)
      | (Inr result, s) \<Rightarrow> (case response_GetPrefix result of
          None \<Rightarrow> (Inl (Local (Errorf ''result contains no prefix'' [])), s)
        | Some p \<Rightarrow> (Inr [printf_line ''child prefix:%q from %q released'' [Prefix_msg_Cidr p, Prefix_msg_ParentCidr p]], s)))"

definition cli_prefix_list :: "'s action" where
  "cli_prefix_list lib readFile ctx s =
     (let c = cli_client lib ctx in
      case rpc_ListPrefixes c None \<lparr>ListPrefixesRequest_Namespace = None\<rparr> s of
        (Inl err, s) \<Rightarrow> (Inl (Remote err), s)
      | (Inr result, s) \<Rightarrow>
          (Inr (map (\<lambda>p. printf_line ''Prefix:%q parent:%q'' [Prefix_msg_Cidr p, Prefix_msg_ParentCidr p]) result), s))"

definition cli_prefix_delete :: "'s action" where
  "cli_prefix_delete lib readFile ctx s =
     (let c = cli_client lib ctx in
      case rpc_DeletePrefix c None
          \<lparr>DeletePrefixRequest_Cidr = flag_String ctx ''cidr'', DeletePrefixRequest_Namespace = None\<rparr> s of
        (Inl err, s) \<Rightarrow> (Inl (Remote err), s)
      | (Inr result, s) \<Rightarrow> (Inr [printf_line ''prefix:%q deleted'' [Prefix_msg_Cidr result]], s))"

definition cli_ip_acquire :: "'s action" where
  "cli_ip_acquire lib readFile ctx s =
     (let c = cli_client lib ctx in
      case rpc_AcquireIP c None
          \<lparr>AcquireIPRequest_PrefixCidr = flag_String ctx ''prefix'', AcquireIPRequest_Ip = None,
           AcquireIPRequest_Namespace = None\<rparr> s of
        (Inl err, s) \<Rightarrow> (Inl (Remote err), s)
      | (Inr result, s) \<Rightarrow> (Inr [printf_line ''ip:%q acquired'' [IP_msg_Ip result]], s))"

definition cli_ip_release :: "'s action" where
  "cli_ip_release lib readFile ctx s =
     (let c = cli_client lib ctx in
      case rpc_ReleaseIP c None
          \<lparr>ReleaseIPRequest_PrefixCidr = flag_String ctx ''prefix'', ReleaseIPRequest_Ip = flag_String ctx ''ip'',
           ReleaseIPRequest_Namespace = None\<rparr> s of
        (Inl err, s) \<Rightarrow> (Inl (Remote err), s)
      | (Inr result, s) \<Rightarrow> (Inr [printf_line ''ip:%q released'' [IP_msg_Ip result]], s))"

definition cli_backup_create :: "'s action" where
  "cli_backup_create lib readFile ctx s =
     (let c = cli_client lib ctx in
      case rpc_Dump c None \<lparr>DumpRequest_Namespace = None\<rparr> s of
        (Inl err, s) \<Rightarrow> (Inl (Remote err), s)
      | (Inr result, s) \<Rightarrow> (Inr [Println result], s))"

definition cli_backup_restore :: "'s action" where
  "cli_backup_restore lib readFile ctx s =
     (let c = cli_client lib ctx in
      case readFile (flag_String ctx ''file'') of
        Inl err \<Rightarrow> (Inl (Local err), s)
      | Inr json \<Rightarrow>
      (case rpc_Load c None \<lparr>LoadRequest_Dump = json, LoadRequest_Namespace = None\<rparr> s of
        (Inl err, s) \<Rightarrow> (Inl (Remote err), s)
      | (Inr _, s) \<Rightarrow> (Inr [printf_line ''database restored'' []], s)))"

section \<open>The application\<close>

definition app_flags :: "cli_flag list" where
  "app_flags = [StringFlag ''grpc-server-endpoint'' ''http://localhost:9090'' [''GOIPAM_CLI_GRPC_SERVER_ENDPOINT'']]"

definition prefix_command :: "'s command" where
  "prefix_command = \<lparr>cmd_Name = ''prefix'', cmd_Aliases = [''p''], cmd_Usage = ''prefix manipulation'', Subcommands = [
     \<lparr>sub_Name = ''create'', sub_Usage = ''create a prefix'',
      sub_Flags = [StringFlag ''cidr'' [] []], sub_Action = cli_prefix_create\<rparr>,
     \<lparr>sub_Name = ''acquire'', sub_Usage = ''acquire a child prefix'',
      sub_Flags = [StringFlag ''parent'' [] [], UintFlag ''length''], sub_Action = cli_prefix_acquire\<rparr>,
     \<lparr>sub_Name = ''release'', sub_Usage = ''release a child prefix'',
      sub_Flags = [StringFlag ''cidr'' [] []], sub_Action = cli_prefix_release\<rparr>,
     \<lparr>sub_Name = ''list'', sub_Usage = ''list all prefixes'',
      sub_Flags = [], sub_Action = cli_prefix_list\<rparr>,
     \<lparr>sub_Name = ''delete'', sub_Usage = ''delete a prefix'',
      sub_Flags = [StringFlag ''cidr'' [] []], sub_Action = cli_prefix_delete\<rparr>]\<rparr>"

definition ip_command :: "'s command" where
  "ip_command = \<lparr>cmd_Name = ''ip'', cmd_Aliases = [''i''], cmd_Usage = ''ip manipulation'', Subcommands = [
     \<lparr>sub_Name = ''acquire'', sub_Usage = ''acquire a ip'',
      sub_Flags = [StringFlag ''prefix'' [] []], sub_Action = cli_ip_acquire\<rparr>,
     \<lparr>sub_Name = ''release'', sub_Usage = ''release a ip'',
      sub_Flags = [StringFlag ''ip'' [] [], StringFlag ''prefix'' [] []], sub_Action = cli_ip_release\<rparr>]\<rparr>"

definition backup_command :: "'s command" where
  "backup_command = \<lparr>cmd_Name = ''backup'', cmd_Aliases = [], cmd_Usage = ''create and restore a backup'', Subcommands = [
     \<lparr>sub_Name = ''create'', sub_Usage = ''create a json file of the whole ipam db for backup purpose'',
      sub_Flags = [], sub_Action = cli_backup_create\<rparr>,
     \<lparr>sub_Name = ''restore'',
      sub_Usage = ''load the whole ipam db from json file, previously created, only works if database is already empty'',
      sub_Flags = [StringFlag ''file'' [] []], sub_Action = cli_backup_restore\<rparr>]\<rparr>"

definition app_commands :: "'s command list" where
  "app_commands = [prefix_command, ip_command, backup_command]"

text \<open>The end of \<open>main\<close>: the output and the exit code; the error of an action is printed.\<close>

definition cli_exit :: "(cli_error + cli_output list) \<times> 's \<Rightarrow> (cli_error option \<times> cli_output list \<times> nat) \<times> 's" where
  "cli_exit r = (case r of (Inl err, s) \<Rightarrow> ((Some err, [], 1), s) | (Inr out, s) \<Rightarrow> ((None, out, 0), s))"

section \<open>Flags\<close>

lemmas cli_actions =
  cli_prefix_create_def cli_prefix_acquire_def cli_prefix_release_def cli_prefix_list_def cli_prefix_delete_def
  cli_ip_acquire_def cli_ip_release_def cli_backup_create_def cli_backup_restore_def

text \<open>
  C39: Every action reads only flags that its command or the application declares, each with the type of its
  declaration: contexts that agree on these flags give the same calls, the same output and the same state.
\<close>

theorem cli_reads_declared_flags:
  assumes "cmd \<in> set app_commands" "sub \<in> set (Subcommands cmd)"
    and "list_all (same_flag ctx ctx') (app_flags @ sub_Flags sub)"
  shows "sub_Action sub lib readFile ctx s = sub_Action sub lib readFile ctx' s"
  using assms
  by (auto simp: app_commands_def prefix_command_def ip_command_def backup_command_def app_flags_def cli_client_def cli_actions)

section \<open>Commands on a service\<close>

text \<open>The client of a command whose endpoint is served by the service of the repository.\<close>

lemma cli_client_served:
  assumes "serves lib (TrimRight_slash (flag_String ctx ''grpc-server-endpoint'')) svc"
  shows "cli_client lib ctx = remote lib svc"
  using client_law [OF assms] by (simp add: cli_client_def)

lemmas cli_calls = remote_def call_def service_New_def api_simps

lemmas no_namespace =
  AcquireIPRequest_GetIp_def AcquireIPRequest_GetNamespace_def ReleaseIPRequest_GetNamespace_def
  AcquireChildPrefixRequest_GetChildCidr_def AcquireChildPrefixRequest_GetNamespace_def DumpRequest_GetNamespace_def
  LoadRequest_GetNamespace_def request_ctx_def

lemma cli_ip_acquire_law:
  assumes laws: "storage_laws st invar view ok_ns" "netipx_laws nx B BS IS" "retry_laws ri"
    and up: "serves lib (TrimRight_slash (flag_String ctx ''grpc-server-endpoint'')) (service_New nx v (NewWithStorage nx rp ru ri st))"
    and s: "invar s" "stored (view s) None (flag_String ctx ''prefix'') = Some a" "\<not> aIsParent a"
    and q: "ParsePrefix (flag_String ctx ''prefix'') = Inr q"
  shows "if free_ips q a \<noteq> {}
    then \<exists>ip s'. cli_ip_acquire lib readFile ctx s = (Inr [printf_line ''ip:%q acquired'' [addr_String ip]], s') \<and>
      ip \<in> free_ips q a \<and> invar s' \<and> view s' = put (view s) None (take_ip ip a)
    else \<exists>e s'. cli_ip_acquire lib readFile ctx s = (Inl (Remote (on_wire lib (ConnectError CodeNotFound e))), s') \<and>
      invar s' \<and> view s' = view s"
  using AcquireIP_law [OF laws s q]
  by (auto simp: cli_ip_acquire_def cli_client_served [OF up] cli_calls svc_AcquireIP_def Let_def no_namespace split: if_split_asm)

lemma cli_ip_release_law:
  assumes laws: "storage_laws st invar view ok_ns" "retry_laws ru"
    and up: "serves lib (TrimRight_slash (flag_String ctx ''grpc-server-endpoint'')) (service_New nx v (NewWithStorage nx rp ru ri st))"
    and s: "invar s" "stored (view s) None (flag_String ctx ''prefix'') = Some a"
    and ip: "ParseAddr (flag_String ctx ''ip'') = Inr ip" "aIPs a (addr_String ip) \<noteq> None"
  shows "\<exists>s'. cli_ip_release lib readFile ctx s = (Inr [printf_line ''ip:%q released'' [flag_String ctx ''ip'']], s') \<and>
    invar s' \<and> view s' = put (view s) None (drop_ip (addr_String ip) a)"
proof -
  let ?req = "\<lparr>ReleaseIPRequest_PrefixCidr = flag_String ctx ''prefix'', ReleaseIPRequest_Ip = flag_String ctx ''ip'',
    ReleaseIPRequest_Namespace = None\<rparr>"
  have r: "None = request_ctx None (ReleaseIPRequest_GetNamespace ?req)" "ReleaseIPRequest_PrefixCidr ?req = flag_String ctx ''prefix''"
      "ReleaseIPRequest_Ip ?req = flag_String ctx ''ip''"
    by (simp_all add: no_namespace)
  show ?thesis
    using svc_ReleaseIP_spec [OF laws r(1), where nx = nx and rp = rp and ri = ri, unfolded r(2,3), OF s ip(1),
        unfolded if_P [OF ip(2)]]
    by (auto simp: cli_ip_release_def cli_client_served [OF up] cli_calls)
qed

text \<open>
  C38: \<^verbatim>\<open>ip acquire\<close> on the command line, through client, router, handler and ipamer, over any storage, prints an
  address that was free in the prefix; \<^verbatim>\<open>ip release\<close> with what was printed gives it back, and the prefix is as
  before but for its version.
\<close>

theorem cli_ip_roundtrip:
  assumes laws: "storage_laws st invar view ok_ns" "netipx_laws nx B BS IS" "retry_laws ri" "retry_laws ru"
    and up: "serves lib (TrimRight_slash endpoint) (service_New nx v (NewWithStorage nx rp ru ri st))"
    and s: "invar s" "stored (view s) None pref = Some a" "\<not> aIsParent a"
    and q: "ParsePrefix pref = Inr q" and free: "free_ips q a \<noteq> {}"
    and ctx: "flag_String ctx ''grpc-server-endpoint'' = endpoint" "flag_String ctx ''prefix'' = pref"
  shows "\<exists>ip s1. cli_ip_acquire lib readFile ctx s = (Inr [printf_line ''ip:%q acquired'' [ip]], s1) \<and>
    ip \<in> addr_String ` free_ips q a \<and>
    (\<forall>ctx'. flag_String ctx' ''grpc-server-endpoint'' = endpoint \<longrightarrow> flag_String ctx' ''prefix'' = pref \<longrightarrow>
      flag_String ctx' ''ip'' = ip \<longrightarrow>
      (\<exists>s2. cli_ip_release lib readFile ctx' s1 = (Inr [printf_line ''ip:%q released'' [ip]], s2) \<and> invar s2 \<and>
        view s2 = put (view s) None (a\<lparr>aVersion := aVersion a + 2\<rparr>)))"
proof -
  have up1: "serves lib (TrimRight_slash (flag_String ctx ''grpc-server-endpoint'')) (service_New nx v (NewWithStorage nx rp ru ri st))"
    using up ctx(1) by simp
  obtain ip s1 where acq: "cli_ip_acquire lib readFile ctx s = (Inr [printf_line ''ip:%q acquired'' [addr_String ip]], s1)"
      "ip \<in> free_ips q a" "invar s1" "view s1 = put (view s) None (take_ip ip a)"
    using cli_ip_acquire_law [OF laws(1-3) up1, unfolded ctx(2), OF s q, where readFile = readFile] free by auto
  obtain m where m: "view s (namespaceFromContext None) = Some m"
    using s(2) by (rule stored_Some)
  have cidr: "aCidr a = key q"
    using storage_laws.stored_cidr [OF laws(1) s(1,2) q] .
  have st1: "stored (view s1) None pref = Some (take_ip ip a)"
    using stored_put [of "view s" None m pref q "take_ip ip a", OF m q] cidr acq(4) by simp
  have ip: "ParseAddr (addr_String ip) = Inr ip" "aIPs (take_ip ip a) (addr_String ip) \<noteq> None"
    using ParseAddr_String [of ip] acq(2) by (cases ip; auto simp: free_ips_def Contains_def split: if_split_asm addr.split_asm)+
  have b: "drop_ip (addr_String ip) (take_ip ip a) = a\<lparr>aVersion := aVersion a + 2\<rparr>"
    using acq(2) by (auto simp: take_ip_def drop_ip_def free_ips_def fun_upd_idem)
  have "\<exists>s2. cli_ip_release lib readFile ctx' s1 = (Inr [printf_line ''ip:%q released'' [addr_String ip]], s2) \<and> invar s2 \<and>
      view s2 = put (view s) None (a\<lparr>aVersion := aVersion a + 2\<rparr>)"
    if f: "flag_String ctx' ''grpc-server-endpoint'' = endpoint" "flag_String ctx' ''prefix'' = pref"
      "flag_String ctx' ''ip'' = addr_String ip" for ctx'
    using cli_ip_release_law [where ctx = ctx', OF laws(1,4), unfolded f, OF up acq(3) st1 ip, where readFile = readFile]
      acq(4) put_put [of "take_ip ip a" "a\<lparr>aVersion := aVersion a + 2\<rparr>"] unfolding b by auto
  with acq(1,2) show ?thesis
    by blast
qed

text \<open>
  The length of a child is a \<open>uint\<close> on the command line and 32 bits wide in the message: \<^verbatim>\<open>prefix acquire\<close>
  uses the low 32 bits, so a length far out of range creates a child of another length instead of an error.
\<close>

theorem cli_child_length_wraps:
  assumes laws: "storage_laws st invar view ok_ns" "netipx_laws nx B BS IS" "retry_laws rp"
    and up: "serves lib (TrimRight_slash (flag_String ctx ''grpc-server-endpoint'')) (service_New nx v (NewWithStorage nx rp ru ri st))"
    and s: "invar s" "view s (namespaceFromContext None) = Some m" "tree_ok m"
    and q: "ParsePrefix (flag_String ctx ''parent'') = Inr q" "m (key q) = Some a"
    and ok: "cli_prefix_acquire lib readFile ctx s = (Inr out, s')"
  shows "\<exists>r parent. out = [printf_line ''child prefix:%q from %q created'' [prefix_String r, parent]] \<and>
    Bits r = uint (flag_Uint ctx ''length'') mod 2 ^ 32 \<and> block r \<subseteq> free_space q (aChildren a)"
proof -
  let ?req = "\<lparr>AcquireChildPrefixRequest_Cidr = flag_String ctx ''parent'',
    AcquireChildPrefixRequest_Length = ucast (flag_Uint ctx ''length''),
    AcquireChildPrefixRequest_ChildCidr = None, AcquireChildPrefixRequest_Namespace = None\<rparr>"
  have r: "None = request_ctx None (AcquireChildPrefixRequest_GetNamespace ?req)"
      "AcquireChildPrefixRequest_Cidr ?req = flag_String ctx ''parent''" "AcquireChildPrefixRequest_GetChildCidr ?req = []"
      "AcquireChildPrefixRequest_Length ?req = ucast (flag_Uint ctx ''length'')"
    by (simp_all add: no_namespace)
  obtain msg where msg: "svc_AcquireChildPrefix (NewWithStorage nx rp ru ri st) None ?req s = (Inr msg, s')"
      "out = [printf_line ''child prefix:%q from %q created'' [Prefix_msg_Cidr msg, Prefix_msg_ParentCidr msg]]"
    using ok by (auto simp: cli_prefix_acquire_def cli_client_served [OF up] cli_calls split: prod.split_asm sum.split_asm)
  have "uint (ucast (flag_Uint ctx ''length'') :: 32 word) = uint (flag_Uint ctx ''length'') mod 2 ^ 32"
    by (simp add: unsigned_ucast_eq take_bit_eq_mod)
  moreover obtain r where "Prefix_msg_Cidr msg = prefix_String r" "Bits r = uint (AcquireChildPrefixRequest_Length ?req)"
      "block r \<subseteq> free_space q (aChildren a)"
    using svc_AcquireChildPrefix_law [OF laws r(1) s, unfolded r(2), OF q r(3) msg(1)] by blast
  ultimately show ?thesis
    using msg(2) unfolding r(4) by (intro exI [of _ r] exI [of _ "Prefix_msg_ParentCidr msg"]) simp
qed

text \<open>
  \<^verbatim>\<open>backup create\<close> of one service and \<^verbatim>\<open>backup restore\<close> into another one with an empty default namespace, each
  over any storage, bring back every prefix of the default namespace and change no other namespace: a backup
  is not of the whole database.
\<close>

theorem cli_backup_roundtrip:
  assumes laws: "storage_laws st invar view ok_ns" "storage_laws st' invar' view' ok_ns'"
    and up: "serves lib (TrimRight_slash (flag_String ctx ''grpc-server-endpoint'')) (service_New nx v (NewWithStorage nx rp ru ri st))"
      "serves lib' (TrimRight_slash (flag_String ctx' ''grpc-server-endpoint'')) (service_New nx v (NewWithStorage nx rp' ru' ri' st'))"
    and s: "invar s" "view s defaultNamespace = Some m" and t: "invar' t" "view' t defaultNamespace = Some Map.empty"
    and saved: "\<And>js s'. cli_backup_create lib readFile ctx s = (Inr [Println js], s') \<Longrightarrow> readFile' (flag_String ctx' ''file'') = Inr js"
  shows "\<exists>js s' t' m'. cli_backup_create lib readFile ctx s = (Inr [Println js], s') \<and> view s' = view s \<and>
    cli_backup_restore lib' readFile' ctx' t = (Inr [printf_line ''database restored'' []], t') \<and> invar' t' \<and>
    view' t' = (view' t)(defaultNamespace \<mapsto> m') \<and> restored m m'"
proof -
  obtain js s' t' m' where r: "NamespacedDump st defaultNamespace s = (Inr js, s')" "view s' = view s"
      "NamespacedLoad st' defaultNamespace js t = (Inr (), t')" "invar' t'"
      "view' t' = (view' t)(defaultNamespace \<mapsto> m')" "restored m m'"
    using dump_load_law [OF laws s t] by blast
  have c: "cli_backup_create lib readFile ctx s = (Inr [Println js], s')"
    using r(1) by (simp add: cli_backup_create_def cli_client_served [OF up(1)] cli_calls svc_Dump_def NewWithStorage_def Dump_def)
  have "cli_backup_restore lib' readFile' ctx' t = (Inr [printf_line ''database restored'' []], t')"
    using r(3) saved [OF c]
    by (simp add: cli_backup_restore_def cli_client_served [OF up(2)] cli_calls svc_Load_def NewWithStorage_def Load_def)
  with c r(2,4-6) show ?thesis
    by blast
qed

section \<open>The theorems at work\<close>

definition sample_cli :: "string \<Rightarrow> 64 word \<Rightarrow> cli_context" where
  "sample_cli arg n = \<lparr>flag_String = (\<lambda>name. if name = ''grpc-server-endpoint'' then ''http://localhost:9090/'' else arg),
     flag_Uint = (\<lambda>name. n), flag_Bool = (\<lambda>name. False)\<rparr>"

abbreviation sample_net_lib :: "memory connect_lib" where
  "sample_net_lib \<equiv> one_server ''http://localhost:9090'' sample_service"

lemma sample_served:
  "serves sample_net_lib (TrimRight_slash (flag_String (sample_cli arg n) ''grpc-server-endpoint''))
    (service_New ref_netipx
     \<lparr>VersionResponse_Version = ''v1'', VersionResponse_Revision = [], VersionResponse_GitSha1 = [], VersionResponse_BuildDate = []\<rparr>
     (NewWithStorage ref_netipx retry_ref retry_ref retry_ref memory_storage))"
  unfolding sample_service_def [symmetric] by (simp add: sample_cli_def sample_endpoint one_server_serves)

theorem cli_reads_declared_flags_witness:
  "cli_ip_acquire sample_net_lib (\<lambda>f. Inr (JInt 0)) (sample_cli ''10.0.0.0/30'' 0) sample_memory =
    cli_ip_acquire sample_net_lib (\<lambda>f. Inr (JInt 0)) (sample_cli ''10.0.0.0/30'' 7) sample_memory"
proof -
  let ?sub = "\<lparr>sub_Name = ''acquire'', sub_Usage = ''acquire a ip'', sub_Flags = [StringFlag ''prefix'' [] []], sub_Action = cli_ip_acquire\<rparr>"
  have "ip_command \<in> set app_commands" "?sub \<in> set (Subcommands ip_command)"
    by (simp_all add: app_commands_def ip_command_def)
  from cli_reads_declared_flags [OF this, where ctx = "sample_cli ''10.0.0.0/30'' 0" and ctx' = "sample_cli ''10.0.0.0/30'' 7"]
  show ?thesis
    by (simp add: app_flags_def sample_cli_def)
qed

theorem cli_ip_roundtrip_witness:
  "\<exists>ip s1 ctx' s2. cli_ip_acquire sample_net_lib (\<lambda>f. Inr (JInt 0)) (sample_cli ''10.0.0.0/30'' 0) sample_memory =
      (Inr [printf_line ''ip:%q acquired'' [ip]], s1) \<and>
    cli_ip_release sample_net_lib (\<lambda>f. Inr (JInt 0)) ctx' s1 = (Inr [printf_line ''ip:%q released'' [ip]], s2)"
proof -
  have ne: "free_ips sample_net (abs_prefix sample_prefix) \<noteq> {}"
    using sample_free by blast
  have flags: "flag_String (sample_cli ''10.0.0.0/30'' 0) ''grpc-server-endpoint'' = ''http://localhost:9090/''"
      "flag_String (sample_cli ''10.0.0.0/30'' 0) ''prefix'' = ''10.0.0.0/30''"
    by (simp_all add: sample_cli_def)
  have up: "serves sample_net_lib (TrimRight_slash ''http://localhost:9090/'') sample_service"
    by (simp add: sample_endpoint one_server_serves)
  obtain ip s1 where ip: "cli_ip_acquire sample_net_lib (\<lambda>f. Inr (JInt 0)) (sample_cli ''10.0.0.0/30'' 0) sample_memory =
        (Inr [printf_line ''ip:%q acquired'' [ip]], s1)"
      "\<forall>ctx'. flag_String ctx' ''grpc-server-endpoint'' = ''http://localhost:9090/'' \<longrightarrow> flag_String ctx' ''prefix'' = ''10.0.0.0/30'' \<longrightarrow>
        flag_String ctx' ''ip'' = ip \<longrightarrow>
        (\<exists>s2. cli_ip_release sample_net_lib (\<lambda>f. Inr (JInt 0)) ctx' s1 = (Inr [printf_line ''ip:%q released'' [ip]], s2))"
    using cli_ip_roundtrip [OF sample_laws sample_laws(3) up [unfolded sample_service_def]
      sample_inv sample_stored sample_not_parent sample_parse ne flags, where readFile = "\<lambda>f. Inr (JInt 0)"]
    unfolding sample_service_def [symmetric] by blast
  let ?ctx' = "\<lparr>flag_String = (\<lambda>name. if name = ''grpc-server-endpoint'' then ''http://localhost:9090/''
      else if name = ''ip'' then ip else ''10.0.0.0/30''), flag_Uint = (\<lambda>name. 0), flag_Bool = (\<lambda>name. False)\<rparr>"
  show ?thesis
    using ip(1) ip(2) [rule_format, of ?ctx'] by auto
qed

theorem cli_child_length_wraps_witness:
  "\<exists>r parent s'. cli_prefix_acquire sample_net_lib (\<lambda>f. Inr (JInt 0)) (sample_cli ''10.0.0.0/24'' 0x10000001A) (memory_of inner24) =
      (Inr [printf_line ''child prefix:%q from %q created'' [prefix_String r, parent]], s') \<and> Bits r = 26"
proof -
  let ?ctx = "sample_cli ''10.0.0.0/24'' 0x10000001A"
  have a: "inner_view inner24 (key net24) = Some (abs_prefix prefix24)"
    by (simp add: sample_lookups)
  have free: "Bits net24 < uint (26 :: 8 word) \<and> \<not> has_ips net24 (abs_prefix prefix24) \<and>
      (\<exists>r. IsValid r \<and> Bits r = uint (26 :: 8 word) \<and> block r \<subseteq> free_space net24 (aChildren (abs_prefix prefix24)))"
    using sample_free_block sample_no_ips(1) sample_valid(3) by (intro conjI exI [of _ net26]) simp_all
  obtain p s' where p: "AcquireChildPrefix ref_netipx retry_ref memory_storage None ''10.0.0.0/24'' 26 (memory_of inner24) = (Inr p, s')"
    using AcquireChildPrefix_law [OF sample_laws sample_memories(1) view_memory_of sample_tree sample_nets(1) a, of 26,
        unfolded if_P [OF free]] by blast
  have flags: "flag_String ?ctx ''parent'' = ''10.0.0.0/24''" "(ucast (flag_Uint ?ctx ''length'') :: 32 word) = 26"
      "uint (flag_Uint ?ctx ''length'') mod 2 ^ 32 = 26"
    by (simp_all add: sample_cli_def)
  obtain out where ok: "cli_prefix_acquire sample_net_lib (\<lambda>f. Inr (JInt 0)) ?ctx (memory_of inner24) = (Inr out, s')"
    using p flags by (simp add: cli_prefix_acquire_def cli_client_served [OF sample_served] cli_calls svc_AcquireChildPrefix_def
        Let_def no_namespace)
  have parse: "ParsePrefix (flag_String ?ctx ''parent'') = Inr net24"
    by (simp add: flags sample_nets)
  from cli_child_length_wraps [OF sample_laws sample_served sample_memories(1) view_memory_of sample_tree parse a ok] ok show ?thesis
    unfolding flags(3) by auto
qed

theorem cli_backup_roundtrip_witness:
  "\<exists>js s' t'. cli_backup_create sample_net_lib (\<lambda>f. Inr (JInt 0)) (sample_cli [] 0) (memory_of inner_tree) = (Inr [Println js], s') \<and>
    cli_backup_restore sample_net_lib (\<lambda>f. Inr js) (sample_cli ''dump.json'' 0) NewMemory = (Inr [printf_line ''database restored'' []], t')"
proof -
  have v: "memory_view (memory_of inner_tree) defaultNamespace = Some (inner_view inner_tree)"
    "memory_view NewMemory defaultNamespace = Some Map.empty"
    using view_memory_of [of inner_tree] by (simp_all add: namespaceFromContext_def memory_inv_NewMemory)
  define f :: readFile where "f = (\<lambda>_. case cli_backup_create sample_net_lib (\<lambda>f. Inr (JInt 0)) (sample_cli [] 0) (memory_of inner_tree) of
      (Inr [Println js], s') \<Rightarrow> Inr js | _ \<Rightarrow> Inl (Errorf [] []))"
  obtain js s' t' where r: "cli_backup_create sample_net_lib (\<lambda>f. Inr (JInt 0)) (sample_cli [] 0) (memory_of inner_tree) = (Inr [Println js], s')"
      "cli_backup_restore sample_net_lib f (sample_cli ''dump.json'' 0) NewMemory = (Inr [printf_line ''database restored'' []], t')"
    using cli_backup_roundtrip [where readFile' = f and readFile = "\<lambda>f. Inr (JInt 0)" and ctx' = "sample_cli ''dump.json'' 0",
      OF mem.storage_laws_axioms mem.storage_laws_axioms sample_served [of "[]" 0] sample_served sample_memories(2) v(1) memory_inv_NewMemory(1) v(2)]
    by (auto simp: f_def)
  then have "f = (\<lambda>_. Inr js)"
    by (simp add: f_def)
  with r show ?thesis
    by blast
qed

end
