(* ===== verification/Server.thy ===== *)
theory Server
  imports Rpc Flags
begin

text \<open>
  The server, \<^verbatim>\<open>src/cmd/server\<close>. \<open>main\<close> reads the configuration and the choice of a backend from the flags, opens
  the storage, and serves the service of \<^verbatim>\<open>src/pkg/service\<close> behind an interceptor that logs every call. Opening
  a storage, reading a file and the version of the build are arguments. The other endpoints (metrics,
  profiling, health, reflection), the listeners and the interceptor of the telemetry library, which counts
  calls and passes them on, are libraries the server only starts. Log entries keep their level, message and
  attributes, but not the content of messages.
\<close>

section \<open>Configuration\<close>

text \<open>The levels of \<^verbatim>\<open>log/slog\<close>.\<close>

abbreviation LevelDebug :: int where
  "LevelDebug \<equiv> - 4"

abbreviation LevelInfo :: int where
  "LevelInfo \<equiv> 0"

abbreviation LevelError :: int where
  "LevelError \<equiv> 8"

record config =
  GrpcServerEndpoint :: string
  MetricsEndpoint :: string
  Log :: int  \<comment> \<open>the level of the logger\<close>

record 's storage_config = config +
  Storage :: "'s storage"

definition getConfig :: "cli_context \<Rightarrow> config" where
  "getConfig ctx = (let level = LevelInfo;
       level = (if flag_String ctx ''log-level'' = ''debug'' then LevelDebug
         else if flag_String ctx ''log-level'' = ''error'' then LevelError else level) in
     \<lparr>GrpcServerEndpoint = flag_String ctx ''grpc-server-endpoint'',
      MetricsEndpoint = flag_String ctx ''metrics-endpoint'',
      Log = level\<rparr>)"

section \<open>Backends\<close>

record mongo_options =
  DatabaseName :: string
  mongo_URI :: string
  AuthMechanism :: string
  Username :: string
  Password :: string

text \<open>The constructor of a storage and its arguments. Certificates and keys are the contents of files.\<close>

datatype backend =
  NewMemory_args
| NewLocalFile_args string
| NewPostgresStorage_args string string string string string string
| NewRedis_args string string
| NewEtcd_args string string string string bool
| NewMongo_args mongo_options

type_synonym server_action = "(string \<Rightarrow> string result) \<Rightarrow> cli_context \<Rightarrow> (config \<times> backend) result"

definition memory_action :: server_action where
  "memory_action readFile ctx = Inr (getConfig ctx, NewMemory_args)"

definition file_action :: server_action where
  "file_action readFile ctx = Inr (getConfig ctx, NewLocalFile_args (flag_String ctx ''path''))"

definition postgres_action :: server_action where
  "postgres_action readFile ctx = (let c = getConfig ctx;
       host = flag_String ctx ''host''; port = flag_String ctx ''port''; user = flag_String ctx ''user'';
       password = flag_String ctx ''password''; dbname = flag_String ctx ''dbname''; sslmode = flag_String ctx ''sslmode'' in
     Inr (c, NewPostgresStorage_args host port user password dbname sslmode))"

definition redis_action :: server_action where
  "redis_action readFile ctx = (let c = getConfig ctx; host = flag_String ctx ''host''; port = flag_String ctx ''port'' in
     Inr (c, NewRedis_args host port))"

definition etcd_action :: server_action where
  "etcd_action readFile ctx = (let c = getConfig ctx;
       host = flag_String ctx ''host''; port = flag_String ctx ''port'';
       certFile = flag_String ctx ''cert-file''; keyFile = flag_String ctx ''key-file'' in
     case readFile certFile of
       Inl err \<Rightarrow> Inl err
     | Inr cert \<Rightarrow>
     (case readFile keyFile of
       Inl err \<Rightarrow> Inl err
     | Inr pkey \<Rightarrow> (let insecureSkip = flag_Bool ctx ''insecure-skip-verify'' in
         Inr (c, NewEtcd_args host port cert pkey insecureSkip))))"

definition mongodb_action :: server_action where
  "mongodb_action readFile ctx = (let c = getConfig ctx;
       host = flag_String ctx ''host''; port = flag_String ctx ''port''; user = flag_String ctx ''user'';
       password = flag_String ctx ''password''; dbname = flag_String ctx ''db-name'' in
     Inr (c, NewMongo_args
       \<lparr>DatabaseName = dbname, mongo_URI = ''mongodb://'' @ host @ '':'' @ port, AuthMechanism = ''SCRAM-SHA-1'',
        Username = user, Password = password\<rparr>))"

record server_command =
  server_Name :: string
  server_Aliases :: "string list"
  server_Usage :: string
  server_Flags :: "cli_flag list"
  server_Action :: server_action

definition server_flags :: "cli_flag list" where
  "server_flags = [
     StringFlag ''grpc-server-endpoint'' '':9090'' [''GOIPAM_GRPC_SERVER_ENDPOINT''],
     StringFlag ''metrics-endpoint'' '':2112'' [''GOIPAM_METRICS_ENDPOINT''],
     StringFlag ''log-level'' ''info'' [''GOIPAM_LOG_LEVEL'']]"

definition memory_command :: server_command where
  "memory_command = \<lparr>server_Name = ''memory'', server_Aliases = [''m''], server_Usage = ''start with memory backend'',
     server_Flags = [], server_Action = memory_action\<rparr>"

text \<open>The default path of the state file is computed at start (\<^verbatim>\<open>DefaultLocalFilePath\<close>).\<close>

definition file_command :: "string \<Rightarrow> server_command" where
  "file_command DefaultLocalFilePath = \<lparr>server_Name = ''file'', server_Aliases = [''f'', ''local''],
     server_Usage = ''start with local JSON file backend'',
     server_Flags = [StringFlag ''path'' DefaultLocalFilePath [''GOIPAM_FILE_PATH'']],
     server_Action = file_action\<rparr>"

definition postgres_command :: server_command where
  "postgres_command = \<lparr>server_Name = ''postgres'', server_Aliases = [''pg''], server_Usage = ''start with postgres backend'',
     server_Flags = [
       StringFlag ''host'' ''localhost'' [''GOIPAM_PG_HOST''],
       StringFlag ''port'' ''5432'' [''GOIPAM_PG_PORT''],
       StringFlag ''user'' ''go-ipam'' [''GOIPAM_PG_USER''],
       StringFlag ''password'' ''secret'' [''GOIPAM_PG_PASSWORD''],
       StringFlag ''dbname'' ''goipam'' [''GOIPAM_PG_DBNAME''],
       StringFlag ''sslmode'' ''disable'' [''GOIPAM_PG_SSLMODE'']],
     server_Action = postgres_action\<rparr>"

definition redis_command :: server_command where
  "redis_command = \<lparr>server_Name = ''redis'', server_Aliases = [], server_Usage = ''start with redis backend'',
     server_Flags = [
       StringFlag ''host'' ''localhost'' [''GOIPAM_REDIS_HOST''],
       StringFlag ''port'' ''6379'' [''GOIPAM_REDIS_PORT'']],
     server_Action = redis_action\<rparr>"

definition etcd_command :: server_command where
  "etcd_command = \<lparr>server_Name = ''etcd'', server_Aliases = [], server_Usage = ''start with etcd backend'',
     server_Flags = [
       StringFlag ''host'' ''localhost'' [''GOIPAM_ETCD_HOST''],
       StringFlag ''port'' ''2379'' [''GOIPAM_ETCD_PORT''],
       StringFlag ''cert-file'' ''cert.pem'' [''GOIPAM_ETCD_CERT_FILE''],
       StringFlag ''key-file'' ''key.pem'' [''GOIPAM_ETCD_KEY_FILE''],
       BoolFlag ''insecure-skip-verify'' False [''GOIPAM_ETCD_INSECURE_SKIP_VERIFY'']],
     server_Action = etcd_action\<rparr>"

definition mongodb_command :: server_command where
  "mongodb_command = \<lparr>server_Name = ''mongodb'', server_Aliases = [], server_Usage = ''start with mongodb backend'',
     server_Flags = [
       StringFlag ''host'' ''localhost'' [''GOIPAM_MONGODB_HOST''],
       StringFlag ''port'' ''27017'' [''GOIPAM_MONGODB_PORT''],
       StringFlag ''db-name'' ''go-ipam'' [''GOIPAM_MONGODB_DB_NAME''],
       StringFlag ''collection-name'' ''prefixes'' [''GOIPAM_MONGODB_COLLECTION_NAME''],
       StringFlag ''user'' ''mongodb'' [''GOIPAM_MONGODB_USER''],
       StringFlag ''password'' ''mongodb'' [''GOIPAM_MONGODB_PASSWORD'']],
     server_Action = mongodb_action\<rparr>"

definition server_commands :: "string \<Rightarrow> server_command list" where
  "server_commands DefaultLocalFilePath = [memory_command, file_command DefaultLocalFilePath, postgres_command, redis_command,
     etcd_command, mongodb_command]"

lemmas server_commands_simps =
  server_commands_def memory_command_def file_command_def postgres_command_def redis_command_def etcd_command_def
  mongodb_command_def
lemmas server_actions =
  memory_action_def file_action_def postgres_action_def redis_action_def etcd_action_def mongodb_action_def

text \<open>
  The action of every command of the server reads only flags that the command or the application declares,
  each with the type of its declaration.
\<close>

theorem server_reads_declared_flags:
  assumes "cmd \<in> set (server_commands path)" "list_all (same_flag ctx ctx') (server_flags @ server_Flags cmd)"
  shows "server_Action cmd readFile ctx = server_Action cmd readFile ctx'"
  using assms by (auto simp: server_commands_simps server_flags_def server_actions getConfig_def Let_def split: sum.split)

section \<open>Logging\<close>

datatype log_value = Proc string | Message | Err service_error | Attr string | Failure go_error

record log_entry =
  entry_Level :: int
  entry_Msg :: string
  entry_Attrs :: "(string \<times> log_value) list"

text \<open>A logger writes the entries of its level and above.\<close>

definition log_at :: "int \<Rightarrow> log_entry \<Rightarrow> log_entry list \<Rightarrow> log_entry list" where
  "log_at level e log = (if level \<le> entry_Level e then log @ [e] else log)"

definition log_call :: "string \<Rightarrow> log_entry" where
  "log_call procedure = \<lparr>entry_Level = LevelDebug, entry_Msg = ''call'',
     entry_Attrs = [(''proc'', Proc procedure), (''req'', Message)]\<rparr>"

definition log_result :: "string \<Rightarrow> service_error + 'r \<Rightarrow> log_entry" where
  "log_result procedure r = (case r of
       Inl err \<Rightarrow> \<lparr>entry_Level = LevelError, entry_Msg = ''call'',
         entry_Attrs = [(''proc'', Proc procedure), (''error'', Err err)]\<rparr>
     | Inr response \<Rightarrow> \<lparr>entry_Level = LevelDebug, entry_Msg = ''call'',
         entry_Attrs = [(''proc'', Proc procedure), (''req'', Message), (''resp'', Message)]\<rparr>)"

definition newLoggingInterceptor ::
  "int \<Rightarrow> string \<Rightarrow> (ctx \<Rightarrow> 'q \<Rightarrow> ('s, 'r) handler) \<Rightarrow> ctx \<Rightarrow> 'q \<Rightarrow> ('s \<times> log_entry list, 'r) handler" where
  "newLoggingInterceptor level procedure f ctx req s = (case s of (s, log) \<Rightarrow>
     if procedure = IpamServiceVersionProcedure then (case f ctx req s of (r, s) \<Rightarrow> (r, (s, log)))
     else (let log = log_at level (log_call procedure) log in
       case f ctx req s of (r, s) \<Rightarrow> (r, (s, log_at level (log_result procedure r) log))))"

text \<open>
  The interceptor answers what the handler answers and leaves the storage as the handler leaves it. A call
  of \<open>Version\<close> is not logged; any other call writes two entries at level debug, one of them at level error
  when the call fails, of which the logger keeps those of its level: at the default level a call is logged
  exactly when it fails.
\<close>

theorem logging_is_transparent:
  "newLoggingInterceptor level procedure f ctx req (s, log) = (r, (s', log')) \<longleftrightarrow>
    f ctx req s = (r, s') \<and>
    log' = log @ (if procedure = IpamServiceVersionProcedure then []
      else filter (\<lambda>e. level \<le> entry_Level e) [log_call procedure, log_result procedure r])"
  by (auto simp: newLoggingInterceptor_def log_at_def Let_def split: prod.split)

section \<open>The server\<close>

record 's server =
  server_c :: "'s storage_config"
  server_ipamer :: "'s ipamer"
  server_storage :: "'s storage"
  server_log :: int

definition newServer ::
  "('b, 't) netipx \<Rightarrow> ('s, Prefix) retry_do \<Rightarrow> ('s, unit) retry_do \<Rightarrow> ('s, IP) retry_do \<Rightarrow> 's storage_config \<Rightarrow> 's server" where
  "newServer nx rp ru ri c = \<lparr>
     server_c = c,
     server_ipamer = NewWithStorage nx rp ru ri (Storage c),
     server_storage = Storage c,
     server_log = Log c\<rparr>"

text \<open>The end of an action: open the storage, then make the server that is run.\<close>

definition start_server ::
  "('b, 't) netipx \<Rightarrow> ('s, Prefix) retry_do \<Rightarrow> ('s, unit) retry_do \<Rightarrow> ('s, IP) retry_do \<Rightarrow> (backend \<Rightarrow> 's storage result) \<Rightarrow>
    (config \<times> backend) result \<Rightarrow> 's server result" where
  "start_server nx rp ru ri open_storage choice = (case choice of
       Inl err \<Rightarrow> Inl err
     | Inr (c, b) \<Rightarrow> (case open_storage b of
         Inl err \<Rightarrow> Inl err
       | Inr st \<Rightarrow> Inr (newServer nx rp ru ri (config.extend c \<lparr>Storage = st\<rparr>))))"

text \<open>The option \<open>WithInterceptors\<close> of the handler puts the interceptor around every method.\<close>

definition with_logging :: "int \<Rightarrow> 's ipam_service \<Rightarrow> ('s \<times> log_entry list) ipam_service" where
  "with_logging level svc = \<lparr>
     rpc_CreatePrefix = newLoggingInterceptor level IpamServiceCreatePrefixProcedure (rpc_CreatePrefix svc),
     rpc_DeletePrefix = newLoggingInterceptor level IpamServiceDeletePrefixProcedure (rpc_DeletePrefix svc),
     rpc_GetPrefix = newLoggingInterceptor level IpamServiceGetPrefixProcedure (rpc_GetPrefix svc),
     rpc_ListPrefixes = newLoggingInterceptor level IpamServiceListPrefixesProcedure (rpc_ListPrefixes svc),
     rpc_PrefixUsage = newLoggingInterceptor level IpamServicePrefixUsageProcedure (rpc_PrefixUsage svc),
     rpc_AcquireChildPrefix = newLoggingInterceptor level IpamServiceAcquireChildPrefixProcedure (rpc_AcquireChildPrefix svc),
     rpc_ReleaseChildPrefix = newLoggingInterceptor level IpamServiceReleaseChildPrefixProcedure (rpc_ReleaseChildPrefix svc),
     rpc_AcquireIP = newLoggingInterceptor level IpamServiceAcquireIPProcedure (rpc_AcquireIP svc),
     rpc_ReleaseIP = newLoggingInterceptor level IpamServiceReleaseIPProcedure (rpc_ReleaseIP svc),
     rpc_Dump = newLoggingInterceptor level IpamServiceDumpProcedure (rpc_Dump svc),
     rpc_Load = newLoggingInterceptor level IpamServiceLoadProcedure (rpc_Load svc),
     rpc_CreateNamespace = newLoggingInterceptor level IpamServiceCreateNamespaceProcedure (rpc_CreateNamespace svc),
     rpc_ListNamespaces = newLoggingInterceptor level IpamServiceListNamespacesProcedure (rpc_ListNamespaces svc),
     rpc_DeleteNamespace = newLoggingInterceptor level IpamServiceDeleteNamespaceProcedure (rpc_DeleteNamespace svc),
     rpc_Version = newLoggingInterceptor level IpamServiceVersionProcedure (rpc_Version svc)\<rparr>"

text \<open>\<open>http.ServeMux\<close>: a pattern that ends with a slash takes the paths that begin with it.\<close>

definition mux_Handle :: "string \<times> (string \<Rightarrow> 'h option) \<Rightarrow> string \<Rightarrow> 'h option" where
  "mux_Handle ph path = (if take (length (fst ph)) path = fst ph then snd ph path else None)"

definition server_mux :: "('b, 't) netipx \<Rightarrow> VersionResponse \<Rightarrow> 's server \<Rightarrow> string \<Rightarrow> ('s \<times> log_entry list) unary_handler option" where
  "server_mux nx v srv = mux_Handle (NewIpamServiceHandler
     (with_logging (server_log srv) (service_New nx v (server_ipamer srv))))"

section \<open>Clients of the server\<close>

text \<open>A method of a client, seen without the log of the server.\<close>

definition without_log ::
  "log_entry list \<Rightarrow> (ctx \<Rightarrow> 'q \<Rightarrow> ('s \<times> log_entry list, 'r) handler) \<Rightarrow> ctx \<Rightarrow> 'q \<Rightarrow> ('s, 'r) handler" where
  "without_log l f ctx req s = (case f ctx req (s, l) of (r, (s', l')) \<Rightarrow> (r, s'))"

definition forget_log :: "log_entry list \<Rightarrow> ('s \<times> log_entry list) ipam_service \<Rightarrow> 's ipam_service" where
  "forget_log l svc = \<lparr>
     rpc_CreatePrefix = without_log l (rpc_CreatePrefix svc),
     rpc_DeletePrefix = without_log l (rpc_DeletePrefix svc),
     rpc_GetPrefix = without_log l (rpc_GetPrefix svc),
     rpc_ListPrefixes = without_log l (rpc_ListPrefixes svc),
     rpc_PrefixUsage = without_log l (rpc_PrefixUsage svc),
     rpc_AcquireChildPrefix = without_log l (rpc_AcquireChildPrefix svc),
     rpc_ReleaseChildPrefix = without_log l (rpc_ReleaseChildPrefix svc),
     rpc_AcquireIP = without_log l (rpc_AcquireIP svc),
     rpc_ReleaseIP = without_log l (rpc_ReleaseIP svc),
     rpc_Dump = without_log l (rpc_Dump svc),
     rpc_Load = without_log l (rpc_Load svc),
     rpc_CreateNamespace = without_log l (rpc_CreateNamespace svc),
     rpc_ListNamespaces = without_log l (rpc_ListNamespaces svc),
     rpc_DeleteNamespace = without_log l (rpc_DeleteNamespace svc),
     rpc_Version = without_log l (rpc_Version svc)\<rparr>"

text \<open>The same network, for a service that writes no log.\<close>

definition no_log :: "('s \<times> log_entry list) connect_lib \<Rightarrow> 's connect_lib" where
  "no_log lib = \<lparr>reach = (\<lambda>url. None), on_wire = on_wire lib, no_answer = no_answer lib\<rparr>"

lemma mux_router: "mux_Handle (NewIpamServiceHandler svc) path = snd (NewIpamServiceHandler svc) path"
  using router_paths [of svc path] by (cases "snd (NewIpamServiceHandler svc) path") (auto simp: mux_Handle_def)

lemma without_log_call:
  "without_log l (call lib (Some (newLoggingInterceptor level procedure f))) = call (no_log lib) (Some f)"
  by (intro ext) (auto simp: without_log_def call_def no_log_def newLoggingInterceptor_def Let_def split: prod.split sum.split)

text \<open>
  C37: A client that reaches the server works like a client of the bare service over the storage the server was
  started with: routing, logging and the network in between change neither the answers nor the state.
\<close>

theorem client_of_server:
  assumes "start_server nx rp ru ri open_storage choice = Inr srv"
    and "\<And>path. reach lib (TrimRight_slash baseURL @ path) = server_mux nx v srv path"
  shows "\<exists>c b st. choice = Inr (c, b) \<and> open_storage b = Inr st \<and>
    forget_log l (NewIpamServiceClient lib baseURL) = remote (no_log lib) (service_New nx v (NewWithStorage nx rp ru ri st))"
proof -
  obtain c b st where c: "choice = Inr (c, b)" "open_storage b = Inr st"
      "srv = newServer nx rp ru ri (config.extend c \<lparr>Storage = st\<rparr>)"
    using assms(1) by (auto simp: start_server_def split: sum.split_asm prod.split_asm)
  have "serves lib (TrimRight_slash baseURL) (with_logging (server_log srv) (service_New nx v (server_ipamer srv)))"
    using assms(2) by (simp add: serves_def server_mux_def mux_router)
  then have "NewIpamServiceClient lib baseURL = remote lib (with_logging (server_log srv) (service_New nx v (server_ipamer srv)))"
    by (rule client_law)
  then have "forget_log l (NewIpamServiceClient lib baseURL) = remote (no_log lib) (service_New nx v (server_ipamer srv))"
    by (simp add: forget_log_def remote_def with_logging_def without_log_call)
  moreover have "server_ipamer srv = NewWithStorage nx rp ru ri st"
    by (simp add: c(3) newServer_def config.extend_def)
  ultimately show ?thesis
    using c(1,2) by auto
qed

section \<open>What the flags promise\<close>

text \<open>The usage of \<^verbatim>\<open>log-level\<close> lists \<^verbatim>\<open>warn\<close>, which \<open>getConfig\<close> does not know: the server logs at level info.\<close>

lemma warn_is_info: "flag_String ctx ''log-level'' = ''warn'' \<Longrightarrow> Log (getConfig ctx) = LevelInfo"
  by (simp add: getConfig_def)

text \<open>The flag \<^verbatim>\<open>collection-name\<close> of the MongoDB backend has no effect.\<close>

lemma collection_name_ignored:
  "mongodb_action readFile (ctx\<lparr>flag_String := (flag_String ctx)(''collection-name'' := name)\<rparr>) = mongodb_action readFile ctx"
  by (simp add: mongodb_action_def getConfig_def)

text \<open>
  The etcd storage can be opened without certificates, but the command cannot: without readable files it
  stops, whatever \<^verbatim>\<open>insecure-skip-verify\<close> says.
\<close>

lemma etcd_needs_certificates:
  "readFile (flag_String ctx ''cert-file'') = Inl err \<Longrightarrow> start_server nx rp ru ri open_storage (etcd_action readFile ctx) = Inl err"
  by (simp add: start_server_def etcd_action_def)

section \<open>The theorems at work\<close>

theorem server_reads_declared_flags_witness:
  "redis_action (\<lambda>f. Inr []) ((default_context (server_flags @ server_Flags redis_command))\<lparr>flag_Uint := (\<lambda>name. 7)\<rparr>) =
    redis_action (\<lambda>f. Inr []) (default_context (server_flags @ server_Flags redis_command))"
proof -
  have cmd: "redis_command \<in> set (server_commands [])"
    by (simp add: server_commands_def)
  have "server_Action redis_command = redis_action"
    by (simp add: redis_command_def)
  with server_reads_declared_flags [OF cmd, of "(default_context (server_flags @ server_Flags redis_command))\<lparr>flag_Uint := (\<lambda>name. 7)\<rparr>"
      "default_context (server_flags @ server_Flags redis_command)" "\<lambda>f. Inr []"]
  show ?thesis
    by (simp add: server_flags_def redis_command_def)
qed

text \<open>With the defaults of all flags.\<close>

lemma default_configs:
  "redis_action (\<lambda>f. Inr []) (default_context (server_flags @ server_Flags redis_command)) =
    Inr (\<lparr>GrpcServerEndpoint = '':9090'', MetricsEndpoint = '':2112'', Log = LevelInfo\<rparr>, NewRedis_args ''localhost'' ''6379'')"
  by code_simp

theorem client_of_server_witness:
  "\<exists>srv. start_server ref_netipx retry_ref retry_ref retry_ref (\<lambda>b. Inr memory_storage)
      (memory_action (\<lambda>f. Inr []) (default_context server_flags)) = Inr srv \<and>
    forget_log [] (NewIpamServiceClient
      \<lparr>reach = (\<lambda>url. if take 21 url = ''http://localhost:9090'' then server_mux ref_netipx
          \<lparr>VersionResponse_Version = ''v1'', VersionResponse_Revision = [], VersionResponse_GitSha1 = [], VersionResponse_BuildDate = []\<rparr>
          srv (drop 21 url) else None),
       on_wire = (\<lambda>err. err), no_answer = PlainError (Errorf [] [])\<rparr> ''http://localhost:9090/'') =
    remote \<lparr>reach = (\<lambda>url. None), on_wire = (\<lambda>err. err), no_answer = PlainError (Errorf [] [])\<rparr> sample_service"
proof -
  obtain srv where srv: "start_server ref_netipx retry_ref retry_ref retry_ref (\<lambda>b. Inr memory_storage)
      (memory_action (\<lambda>f. Inr []) (default_context server_flags)) = Inr srv"
    by (simp add: start_server_def memory_action_def)
  let ?v = "\<lparr>VersionResponse_Version = ''v1'', VersionResponse_Revision = [], VersionResponse_GitSha1 = [], VersionResponse_BuildDate = []\<rparr>"
  let ?lib = "\<lparr>reach = (\<lambda>url. if take 21 url = ''http://localhost:9090'' then server_mux ref_netipx ?v srv (drop 21 url) else None),
       on_wire = (\<lambda>err. err), no_answer = PlainError (Errorf [] [])\<rparr>"
  have "reach ?lib (TrimRight_slash ''http://localhost:9090/'' @ path) = server_mux ref_netipx ?v srv path" for path
    by (simp add: sample_endpoint)
  from client_of_server [OF srv this, where l = "[]"] have
    "forget_log [] (NewIpamServiceClient ?lib ''http://localhost:9090/'') =
      remote (no_log ?lib) (service_New ref_netipx ?v (NewWithStorage ref_netipx retry_ref retry_ref retry_ref memory_storage))"
    by auto
  then have "forget_log [] (NewIpamServiceClient ?lib ''http://localhost:9090/'') =
      remote \<lparr>reach = (\<lambda>url. None), on_wire = (\<lambda>err. err), no_answer = PlainError (Errorf [] [])\<rparr> sample_service"
    unfolding sample_service_def no_log_def connect_lib.simps .
  with srv show ?thesis
    by blast
qed

end
