(* ===== verification/Run.thy ===== *)
theory Run
  imports Server Memory
begin

text \<open>
  The run of the server, \<^verbatim>\<open>src/cmd/server/server.go\<close>: the log it writes, the routines it starts, the errors
  with which it stops before it listens, and the handlers it serves. The exporter of metrics, the interceptor
  of the telemetry library, the listeners, and the handlers for health and reflection are parameters; of those
  handlers only the patterns matter here, each a path that ends with a slash. \<open>New\<close> of \<^verbatim>\<open>src/ipam.go\<close> is here,
  too: an ipamer of its own, without a server.
\<close>

section \<open>An ipamer in memory\<close>

definition ipam_New ::
  "('b, 't) netipx \<Rightarrow> (memory, Prefix) retry_do \<Rightarrow> (memory, unit) retry_do \<Rightarrow> (memory, IP) retry_do \<Rightarrow> memory ipamer \<times> memory" where
  "ipam_New nx rp ru ri = (NewWithStorage nx rp ru ri memory_storage, NewMemory)"

section \<open>The handlers\<close>

text \<open>\<open>http.ServeMux\<close> with several patterns: the longest one that begins the path takes it.\<close>

definition better_pattern :: "string \<Rightarrow> string option \<Rightarrow> string \<Rightarrow> string option" where
  "better_pattern path best p =
     (if take (length p) path = p \<and> (case best of None \<Rightarrow> True | Some b \<Rightarrow> length b < length p) then Some p else best)"

definition longest_pattern :: "string list \<Rightarrow> string \<Rightarrow> string option" where
  "longest_pattern patterns path = foldl (better_pattern path) None patterns"

datatype 'h route = Ipam_route 'h | Library_route string

definition server_routes ::
  "('b, 't) netipx \<Rightarrow> VersionResponse \<Rightarrow> 's server \<Rightarrow> string list \<Rightarrow> string \<Rightarrow> ('s \<times> log_entry list) unary_handler route option" where
  "server_routes nx v srv others path =
     (let (pattern, handler) = NewIpamServiceHandler (with_logging (server_log srv) (service_New nx v (server_ipamer srv))) in
      case longest_pattern (pattern # others) path of
        None \<Rightarrow> None
      | Some p \<Rightarrow> if p = pattern then map_option Ipam_route (handler path) else Some (Library_route p))"

lemma longest_pattern_in: "longest_pattern ps path = Some p \<Longrightarrow> p \<in> set ps \<and> take (length p) path = p"
proof -
  have "foldl (better_pattern path) b ps = Some p \<Longrightarrow> b = Some p \<or> p \<in> set ps \<and> take (length p) path = p" for b
  proof (induction ps arbitrary: b)
    case (Cons q ps)
    from Cons.IH [of "better_pattern path b q"] Cons.prems show ?case
      by (auto simp: better_pattern_def split: if_split_asm)
  qed simp
  then show "longest_pattern ps path = Some p \<Longrightarrow> ?thesis"
    unfolding longest_pattern_def by fastforce
qed

lemma longest_pattern_none: "longest_pattern ps path = None \<Longrightarrow> p \<in> set ps \<Longrightarrow> take (length p) path \<noteq> p"
proof -
  have keep: "foldl (better_pattern path) (Some b) ps \<noteq> None" for b ps
  proof (induction ps arbitrary: b)
    case (Cons q ps)
    then show ?case
      by (cases "better_pattern path (Some b) q") (auto simp: better_pattern_def split: if_split_asm)
  qed simp
  have "foldl (better_pattern path) None ps = None \<Longrightarrow> p \<in> set ps \<Longrightarrow> take (length p) path \<noteq> p"
  proof (induction ps)
    case (Cons q ps)
    have "better_pattern path None q = (if take (length q) path = q then Some q else None)"
      by (simp add: better_pattern_def)
    with Cons keep [of q ps] show ?case
      by (auto split: if_split_asm)
  qed simp
  then show "longest_pattern ps path = None \<Longrightarrow> p \<in> set ps \<Longrightarrow> ?thesis"
    by (simp add: longest_pattern_def)
qed

text \<open>
  The handlers beside the service take no path of the service, and the service takes none of theirs, as long as
  no pattern begins another.
\<close>

lemma server_routes_ipam:
  assumes "\<And>p. p \<in> set others \<Longrightarrow> take (length p) path \<noteq> p"
  shows "server_routes nx v srv others path = map_option Ipam_route (server_mux nx v srv path)"
proof -
  define svc where "svc = with_logging (server_log srv) (service_New nx v (server_ipamer srv))"
  obtain pattern handler where ph: "NewIpamServiceHandler svc = (pattern, handler)"
    by fastforce
  show ?thesis
    using longest_pattern_in [of "pattern # others" path] longest_pattern_none [of "pattern # others" path pattern] assms
    by (auto simp: server_routes_def server_mux_def mux_Handle_def svc_def [symmetric] ph split: option.split)
qed

lemma server_routes_library:
  assumes "p \<in> set others" "take (length p) path = p" "take (length ''/api.v1.IpamService/'') path \<noteq> ''/api.v1.IpamService/''"
  shows "\<exists>q \<in> set others. server_routes nx v srv others path = Some (Library_route q) \<and> take (length q) path = q"
proof -
  have "longest_pattern (''/api.v1.IpamService/'' # others) path \<noteq> None"
    using longest_pattern_none [of _ path p] assms(1,2) by fastforce
  then obtain q where q: "longest_pattern (''/api.v1.IpamService/'' # others) path = Some q"
    by blast
  from longest_pattern_in [OF q] assms(3) have "q \<in> set others" "take (length q) path = q" "q \<noteq> ''/api.v1.IpamService/''"
    by auto
  with q show ?thesis
    by (simp add: server_routes_def NewIpamServiceHandler_def)
qed

section \<open>The run\<close>

text \<open>\<open>ListenAndServe\<close> returns only with an error.\<close>

record run_libs =
  prometheus_New :: "unit result"
  otel_NewInterceptor :: "unit result"
  ListenAndServe :: "string \<Rightarrow> go_error"

definition log_info :: "int \<Rightarrow> string \<Rightarrow> (string \<times> log_value) list \<Rightarrow> log_entry list \<Rightarrow> log_entry list" where
  "log_info level msg attrs = log_at level \<lparr>entry_Level = LevelInfo, entry_Msg = msg, entry_Attrs = attrs\<rparr>"

definition log_error :: "int \<Rightarrow> string \<Rightarrow> (string \<times> log_value) list \<Rightarrow> log_entry list \<Rightarrow> log_entry list" where
  "log_error level msg attrs = log_at level \<lparr>entry_Level = LevelError, entry_Msg = msg, entry_Attrs = attrs\<rparr>"

text \<open>The two routines, as what they do to the log until their listener has stopped.\<close>

definition metrics_routine :: "run_libs \<Rightarrow> 's server \<Rightarrow> log_entry list \<Rightarrow> log_entry list" where
  "metrics_routine lib srv log = (let at = MetricsEndpoint (server_c srv);
       log = log_info (server_log srv) ''serving metrics'' [(''at'', Attr (at @ ''/metrics''))] log in
     log_error (server_log srv) ''unable to start metric endpoint'' [(''error'', Failure (ListenAndServe lib at))] log)"

definition pprof_routine :: "run_libs \<Rightarrow> 's server \<Rightarrow> log_entry list \<Rightarrow> log_entry list" where
  "pprof_routine lib srv log = (let
       log = log_info (server_log srv) ''starting pprof endpoint of :2113'' [] log in
     log_error (server_log srv) ''failed to start pprof endpoint'' [(''error'', Failure (ListenAndServe lib '':2113''))] log)"

text \<open>
  What a run leaves: the error it returns, its own log, the routines it started, and the address and the
  handlers it served until then.
\<close>

record 's run_result =
  run_error :: go_error
  run_log :: "log_entry list"
  run_routines :: "(log_entry list \<Rightarrow> log_entry list) list"
  run_served :: "(string \<times> (string \<Rightarrow> ('s \<times> log_entry list) unary_handler route option)) option"

definition server_Run ::
  "run_libs \<Rightarrow> ('b, 't) netipx \<Rightarrow> VersionResponse \<Rightarrow> string \<Rightarrow> string list \<Rightarrow> 's server \<Rightarrow> 's run_result" where
  "server_Run lib nx v build others srv =
     (let level = server_log srv;
        log = log_info level ''starting go-ipam'' [(''version'', Attr build), (''backend'', Attr (Name (server_storage srv)))] [] in
      case prometheus_New lib of
        Inl err \<Rightarrow> \<lparr>run_error = err, run_log = log, run_routines = [], run_served = None\<rparr>
      | Inr _ \<Rightarrow> (let routines = [metrics_routine lib srv, pprof_routine lib srv] in
      case otel_NewInterceptor lib of
        Inl err \<Rightarrow> \<lparr>run_error = err, run_log = log, run_routines = routines, run_served = None\<rparr>
      | Inr _ \<Rightarrow> (let
          mux = server_routes nx v srv others;
          at = GrpcServerEndpoint (server_c srv);
          log = log_info level ''started grpc server'' [(''at'', Attr at)] log;
          err = ListenAndServe lib at in
        \<lparr>run_error = err, run_log = log, run_routines = routines, run_served = Some (at, mux)\<rparr>)))"

text \<open>
  A server serves exactly when exporter and interceptor can be made, at the endpoint of its configuration; it
  logs that it has started before it listens, so also when it cannot listen.
\<close>

lemma server_Run_serves:
  "run_served (server_Run lib nx v build others srv) \<noteq> None \<longleftrightarrow>
    (\<exists>x y. prometheus_New lib = Inr x \<and> otel_NewInterceptor lib = Inr y)"
  by (auto simp: server_Run_def Let_def split: sum.split)

lemma server_Run_logs_before_listening:
  assumes "run_served (server_Run lib nx v build others srv) = Some (at, mux)" "server_log srv \<le> LevelInfo"
  shows "run_log (server_Run lib nx v build others srv) =
      [\<lparr>entry_Level = LevelInfo, entry_Msg = ''starting go-ipam'',
         entry_Attrs = [(''version'', Attr build), (''backend'', Attr (Name (server_storage srv)))]\<rparr>,
       \<lparr>entry_Level = LevelInfo, entry_Msg = ''started grpc server'', entry_Attrs = [(''at'', Attr at)]\<rparr>]"
    "run_error (server_Run lib nx v build others srv) = ListenAndServe lib at"
  using assms by (auto simp: server_Run_def log_info_def log_at_def Let_def split: sum.split_asm)

text \<open>
  From the flags to an answer: a server that was started over a storage serves, at the endpoint of its
  configuration, the handlers of the service over that storage, whatever the other handlers are.
\<close>

theorem started_server_serves:
  assumes "start_server nx rp ru ri open_storage choice = Inr srv"
    and "run_served (server_Run lib nx v build others srv) = Some (at, mux)"
    and "\<And>p. p \<in> set others \<Longrightarrow> take (length p) path \<noteq> p"
  shows "\<exists>c b st. choice = Inr (c, b) \<and> open_storage b = Inr st \<and> at = GrpcServerEndpoint c \<and>
    mux path = map_option Ipam_route (snd (NewIpamServiceHandler
      (with_logging (Log c) (service_New nx v (NewWithStorage nx rp ru ri st)))) path)"
proof -
  obtain c b st where c: "choice = Inr (c, b)" "open_storage b = Inr st"
      "srv = newServer nx rp ru ri (config.extend c \<lparr>Storage = st\<rparr>)"
    using assms(1) by (auto simp: start_server_def split: sum.split_asm prod.split_asm)
  have m: "mux = server_routes nx v srv others" "at = GrpcServerEndpoint (server_c srv)"
    using assms(2) by (auto simp: server_Run_def Let_def split: sum.split_asm)
  have "mux path = map_option Ipam_route (server_mux nx v srv path)"
    unfolding m(1) by (rule server_routes_ipam) (fact assms(3))
  then show ?thesis
    using c m(2) by (simp add: server_mux_def mux_router newServer_def config.extend_def)
qed

end
