(* ===== verification/Url.thy ===== *)
theory Url
  imports Netip_Text
begin

text \<open>
  The part of \<open>net/url\<close> that the connection string of \<^verbatim>\<open>src/postgres.go\<close> uses: escaping, parsing a URL that
  begins with a scheme and \<^verbatim>\<open>://\<close>, and printing it. Strings are lists of bytes.
\<close>

section \<open>Escaping\<close>

datatype url_mode = encodePath | encodePathSegment | encodeHost | encodeUserPassword | encodeFragment

definition byte :: "char \<Rightarrow> nat" where
  "byte c = of_char c"

definition alnum :: "char \<Rightarrow> bool" where
  "alnum c \<longleftrightarrow> 48 \<le> byte c \<and> byte c \<le> 57 \<or> 65 \<le> byte c \<and> byte c \<le> 90 \<or> 97 \<le> byte c \<and> byte c \<le> 122"

definition shouldEscape :: "char \<Rightarrow> url_mode \<Rightarrow> bool" where
  "shouldEscape c mode =
     (if alnum c then False
      else if mode = encodeHost \<and> c \<in> set (''!$&()*+,;=:[]<>'' @ [CHR 0x27, CHR 0x22]) then False
      else if c \<in> set ''-_.~'' then False
      else if c \<in> set ''$&+,/:;=?@'' then
        (case mode of
           encodePath \<Rightarrow> c = CHR ''?''
         | encodePathSegment \<Rightarrow> c \<in> set ''/;,?''
         | encodeUserPassword \<Rightarrow> c \<in> set ''@/?:''
         | encodeFragment \<Rightarrow> False
         | _ \<Rightarrow> True)
      else if mode = encodeFragment \<and> c \<in> set ''!()*'' then False
      else True)"

definition upperhex :: "nat \<Rightarrow> char" where
  "upperhex n = ''0123456789ABCDEF'' ! n"

primrec escape :: "url_mode \<Rightarrow> string \<Rightarrow> string" where
  "escape mode [] = []"
| "escape mode (c # s) =
     (if shouldEscape c mode then CHR ''%'' # upperhex (byte c div 16) # upperhex (byte c mod 16) # escape mode s
      else c # escape mode s)"

definition PathEscape :: "string \<Rightarrow> string" where
  "PathEscape s = escape encodePathSegment s"

definition ishex :: "char \<Rightarrow> bool" where
  "ishex c \<longleftrightarrow> 48 \<le> byte c \<and> byte c \<le> 57 \<or> 97 \<le> byte c \<and> byte c \<le> 102 \<or> 65 \<le> byte c \<and> byte c \<le> 70"

definition unhex :: "char \<Rightarrow> nat" where
  "unhex c = (if 48 \<le> byte c \<and> byte c \<le> 57 then byte c - 48
     else if 97 \<le> byte c \<and> byte c \<le> 102 then byte c - 97 + 10
     else if 65 \<le> byte c \<and> byte c \<le> 70 then byte c - 65 + 10 else 0)"

text \<open>In a host only bytes beyond ASCII and the percent sign may be escaped.\<close>

fun unescape :: "url_mode \<Rightarrow> string \<Rightarrow> string result" where
  "unescape mode [] = Inr []"
| "unescape mode (c # s) =
     (if c = CHR ''%'' then
        (case s of
           h # l # t \<Rightarrow>
             if \<not> ishex h \<or> \<not> ishex l \<or> mode = encodeHost \<and> unhex h < 8 \<and> (h, l) \<noteq> (CHR ''2'', CHR ''5'') then Inl (Errorf ''invalid URL escape %q'' [])
             else (case unescape mode t of
                 Inl err \<Rightarrow> Inl err
               | Inr r \<Rightarrow> Inr (char_of (unhex h * 16 + unhex l) # r))
         | _ \<Rightarrow> Inl (Errorf ''invalid URL escape %q'' []))
      else if mode = encodeHost \<and> byte c < 128 \<and> shouldEscape c mode then
        Inl (Errorf ''invalid character %q in host name'' [])
      else (case unescape mode s of
          Inl err \<Rightarrow> Inl err
        | Inr r \<Rightarrow> Inr (c # r)))"

section \<open>Parsing\<close>

text \<open>\<open>strings.Cut\<close> at a byte, and the cut at its last occurrence.\<close>

definition Cut :: "char \<Rightarrow> string \<Rightarrow> string \<times> string" where
  "Cut c s = (takeWhile (\<lambda>x. x \<noteq> c) s, drop 1 (dropWhile (\<lambda>x. x \<noteq> c) s))"

definition cut_last :: "char \<Rightarrow> string \<Rightarrow> string \<times> string" where
  "cut_last c s = (rev (drop 1 (dropWhile (\<lambda>x. x \<noteq> c) (rev s))), rev (takeWhile (\<lambda>x. x \<noteq> c) (rev s)))"

record url =
  Scheme :: string
  User :: "(string \<times> string option) option"
  Host :: string
  Path :: string
  RawPath :: string
  ForceQuery :: bool
  RawQuery :: string
  Fragment :: string
  RawFragment :: string

definition validOptionalPort :: "string \<Rightarrow> bool" where
  "validOptionalPort port = (case port of
      [] \<Rightarrow> True
    | c # s \<Rightarrow> c = CHR '':'' \<and> list_all (\<lambda>d. 48 \<le> byte d \<and> byte d \<le> 57) s)"

definition validUserinfo :: "string \<Rightarrow> bool" where
  "validUserinfo s = list_all (\<lambda>c. alnum c \<or> c \<in> set (''-._:~!$&()*+,;=%@'' @ [CHR 0x27])) s"

text \<open>
  The host. For the scheme of PostgreSQL a host may have several colons, of which the last begins the port. A
  host with brackets is an IPv6 address; \<open>ip_literal\<close> parses it, in a way that has changed between the versions
  of the library.
\<close>

definition parseHost :: "(string \<Rightarrow> string result) \<Rightarrow> string \<Rightarrow> string result" where
  "parseHost ip_literal host =
     (if CHR ''['' \<in> set host then ip_literal host
      else if CHR '':'' \<in> set host \<and> \<not> validOptionalPort (CHR '':'' # snd (cut_last (CHR '':'') host)) then
        Inl (Errorf ''invalid port %q after host'' [])
      else unescape encodeHost host)"

definition parse_userinfo :: "string \<Rightarrow> (string \<times> string option) result" where
  "parse_userinfo userinfo =
     (if \<not> validUserinfo userinfo then Inl (Errorf ''net/url: invalid userinfo'' [])
      else if CHR '':'' \<notin> set userinfo then
        (case unescape encodeUserPassword userinfo of Inl err \<Rightarrow> Inl err | Inr u \<Rightarrow> Inr (u, None))
      else (case unescape encodeUserPassword (fst (Cut (CHR '':'') userinfo)) of
          Inl err \<Rightarrow> Inl err
        | Inr u \<Rightarrow> (case unescape encodeUserPassword (snd (Cut (CHR '':'') userinfo)) of
            Inl err \<Rightarrow> Inl err
          | Inr p \<Rightarrow> Inr (u, Some p))))"

definition parseAuthority :: "(string \<Rightarrow> string result) \<Rightarrow> string \<Rightarrow> ((string \<times> string option) option \<times> string) result" where
  "parseAuthority ip_literal authority =
     (case parseHost ip_literal (snd (cut_last (CHR ''@'') authority)) of
        Inl err \<Rightarrow> Inl err
      | Inr host \<Rightarrow>
        if CHR ''@'' \<notin> set authority then Inr (None, host)
        else (case parse_userinfo (fst (cut_last (CHR ''@'') authority)) of
            Inl err \<Rightarrow> Inl err
          | Inr u \<Rightarrow> Inr (Some u, host)))"

text \<open>\<open>url.Parse\<close> of \<open>scheme\<close>, \<^verbatim>\<open>://\<close> and \<open>rest\<close>.\<close>

definition url_Parse :: "(string \<Rightarrow> string result) \<Rightarrow> string \<Rightarrow> string \<Rightarrow> url result" where
  "url_Parse ip_literal scheme rest =
     (let (rest, frag) = Cut (CHR ''#'') rest in
      if list_ex (\<lambda>c. byte c < 32 \<or> byte c = 127) rest then
        Inl (Errorf ''net/url: invalid control character in URL'' [])
      else (let force = (rest \<noteq> [] \<and> last rest = CHR ''?'' \<and> CHR ''?'' \<notin> set (butlast rest));
          (rest, query) = (if force then (butlast rest, []) else Cut (CHR ''?'') rest);
          (authority, p) = (takeWhile (\<lambda>c. c \<noteq> CHR ''/'') rest, dropWhile (\<lambda>c. c \<noteq> CHR ''/'') rest) in
        case parseAuthority ip_literal authority of
          Inl err \<Rightarrow> Inl err
        | Inr (user, host) \<Rightarrow>
        (case unescape encodePath p of
          Inl err \<Rightarrow> Inl err
        | Inr path \<Rightarrow>
        (case unescape encodeFragment frag of
          Inl err \<Rightarrow> Inl err
        | Inr fragment \<Rightarrow>
          Inr \<lparr>Scheme = scheme, User = user, Host = host, Path = path,
            RawPath = (if p = escape encodePath path then [] else p), ForceQuery = force, RawQuery = query,
            Fragment = fragment, RawFragment = (if frag = escape encodeFragment fragment then [] else frag)\<rparr>))))"

section \<open>Printing\<close>

definition validEncoded :: "string \<Rightarrow> url_mode \<Rightarrow> bool" where
  "validEncoded s mode = list_all (\<lambda>c. c \<in> set (''!$&()*+,;=:@[]%'' @ [CHR 0x27]) \<or> \<not> shouldEscape c mode) s"

definition EscapedPath :: "url \<Rightarrow> string" where
  "EscapedPath u =
     (if RawPath u \<noteq> [] \<and> validEncoded (RawPath u) encodePath \<and> unescape encodePath (RawPath u) = Inr (Path u) then RawPath u
      else if Path u = ''*'' then ''*''
      else escape encodePath (Path u))"

definition EscapedFragment :: "url \<Rightarrow> string" where
  "EscapedFragment u =
     (if RawFragment u \<noteq> [] \<and> validEncoded (RawFragment u) encodeFragment \<and>
         unescape encodeFragment (RawFragment u) = Inr (Fragment u) then RawFragment u
      else escape encodeFragment (Fragment u))"

definition Userinfo_String :: "string \<times> string option \<Rightarrow> string" where
  "Userinfo_String ui = escape encodeUserPassword (fst ui) @
     (case snd ui of None \<Rightarrow> [] | Some p \<Rightarrow> CHR '':'' # escape encodeUserPassword p)"

definition url_String :: "url \<Rightarrow> string" where
  "url_String u = Scheme u @ '':'' @
     (if Host u \<noteq> [] \<or> Path u \<noteq> [] \<or> User u \<noteq> None then ''//'' else []) @
     (case User u of None \<Rightarrow> [] | Some ui \<Rightarrow> Userinfo_String ui @ ''@'') @
     escape encodeHost (Host u) @
     (let path = EscapedPath u in (if path \<noteq> [] \<and> hd path \<noteq> CHR ''/'' \<and> Host u \<noteq> [] then ''/'' @ path else path)) @
     (if ForceQuery u \<or> RawQuery u \<noteq> [] then ''?'' @ RawQuery u else []) @
     (if Fragment u \<noteq> [] then ''#'' @ EscapedFragment u else [])"

section \<open>Escaping and its inverse\<close>

lemma byte_less: "byte c < 256"
  by (simp add: byte_def)

lemma char_of_byte [simp]: "char_of (byte c) = c"
  by (simp add: byte_def)

lemma hex_digits: "n < 16 \<Longrightarrow> ishex (upperhex n) \<and> unhex (upperhex n) = n \<and> alnum (upperhex n)"
proof -
  have "\<forall>n \<in> set [0..<16]. ishex (upperhex n) \<and> unhex (upperhex n) = n \<and> alnum (upperhex n)"
    by code_simp
  then show "n < 16 \<Longrightarrow> ?thesis"
    by simp
qed

lemma percent_escaped: "shouldEscape (CHR ''%'') mode"
  by (simp add: shouldEscape_def alnum_def byte_def)

lemma hex_facts [simp]:
  "ishex (upperhex (byte c div 16))" "ishex (upperhex (byte c mod 16))"
  "unhex (upperhex (byte c div 16)) = byte c div 16" "unhex (upperhex (byte c mod 16)) = byte c mod 16"
  "alnum (upperhex (byte c div 16))" "alnum (upperhex (byte c mod 16))"
  using hex_digits [of "byte c div 16"] hex_digits [of "byte c mod 16"] byte_less [of c] by simp_all

lemma unescape_escape: "mode \<noteq> encodeHost \<Longrightarrow> unescape mode (escape mode' s) = Inr s"
proof (induction s)
  case (Cons c s)
  have "byte c div 16 * 16 + byte c mod 16 = byte c"
    by simp
  with Cons percent_escaped [of mode'] show ?case
    by (auto simp del: mult_div_mod_eq)
qed simp

lemma unescape_plain: "mode \<noteq> encodeHost \<Longrightarrow> CHR ''%'' \<notin> set s \<Longrightarrow> unescape mode s = Inr s"
  by (induction s) auto

lemma host_plain: "list_all (\<lambda>c. c \<noteq> CHR ''%'' \<and> \<not> shouldEscape c encodeHost) s \<Longrightarrow>
  unescape encodeHost s = Inr s \<and> escape encodeHost s = s"
  by (induction s) auto

lemma escape_append: "escape mode (s @ t) = escape mode s @ escape mode t"
  by (induction s) auto

lemma escape_chars: "c \<in> set (escape mode s) \<Longrightarrow> alnum c \<or> c = CHR ''%'' \<or> c \<in> set s \<and> \<not> shouldEscape c mode"
  by (induction s) (auto split: if_split_asm)

lemma escape_free: "shouldEscape d mode \<Longrightarrow> d \<noteq> CHR ''%'' \<Longrightarrow> d \<notin> set (escape mode s)"
  using escape_chars [of d mode s] by (auto simp: shouldEscape_def)

text \<open>No control characters, and no question mark or number sign, in escaped text.\<close>

definition ctl :: "char \<Rightarrow> bool" where
  "ctl c \<longleftrightarrow> byte c < 32 \<or> byte c = 127"

lemma ctl_not_alnum: "ctl c \<Longrightarrow> \<not> alnum c"
  by (auto simp: ctl_def alnum_def)

lemma ctl_escaped: "ctl c \<Longrightarrow> shouldEscape c mode"
proof -
  assume c: "ctl c"
  then have "c \<noteq> d" if "\<not> ctl d" for d
    using that by blast
  moreover have "list_all (\<lambda>d. \<not> ctl d) (''!$&()*+,;=:[]<>-_.~/?@'' @ [CHR 0x27, CHR 0x22])"
    by code_simp
  ultimately have "c \<notin> set (''!$&()*+,;=:[]<>-_.~/?@'' @ [CHR 0x27, CHR 0x22])"
    by (auto simp: list_all_iff)
  with ctl_not_alnum [OF c] show ?thesis
    by (auto simp: shouldEscape_def)
qed

lemma escape_no_ctl: "c \<in> set (escape mode s) \<Longrightarrow> \<not> ctl c"
  using escape_chars [of c mode s] ctl_escaped [of c mode] ctl_not_alnum [of c]
  by (auto simp: ctl_def byte_def)

section \<open>Cutting\<close>

lemma cut_at: "c \<notin> set a \<Longrightarrow> Cut c (a @ c # b) = (a, b)"
  by (induction a) (auto simp: Cut_def)

lemma cut_none: "c \<notin> set a \<Longrightarrow> Cut c a = (a, [])"
  by (induction a) (auto simp: Cut_def)

lemma cut_last_at: "c \<notin> set b \<Longrightarrow> cut_last c (a @ c # b) = (a, b)"
proof -
  assume "c \<notin> set b"
  then have "\<forall>x \<in> set (rev b). x \<noteq> c"
    by auto
  then have "takeWhile (\<lambda>x. x \<noteq> c) (rev b @ c # rev a) = rev b" "dropWhile (\<lambda>x. x \<noteq> c) (rev b @ c # rev a) = c # rev a"
    by (auto simp: takeWhile_append dropWhile_append)
  then show ?thesis
    by (simp add: cut_last_def)
qed

lemma cut_escape: "\<not> shouldEscape c mode \<Longrightarrow> \<not> alnum c \<Longrightarrow> c \<noteq> CHR ''%'' \<Longrightarrow>
  Cut c (escape mode s) = (escape mode (fst (Cut c s)), escape mode (snd (Cut c s)))"
proof (induction s)
  case (Cons d s)
  then show ?case
    by (cases "d = c"; cases "shouldEscape d mode") (auto simp: Cut_def)
qed (simp add: Cut_def)

section \<open>URLs in parts\<close>

lemma parse_parts:
  assumes ui: "\<And>c. c \<in> set ui \<Longrightarrow> c \<notin> set ''/?#'' \<and> \<not> ctl c"
    and host: "\<And>c. c \<in> set host \<Longrightarrow> c \<notin> set ''/?#@'' \<and> \<not> ctl c"
    and p: "\<And>c. c \<in> set p \<Longrightarrow> c \<notin> set ''?#'' \<and> \<not> ctl c" "p = CHR ''/'' # p'"
    and q: "\<And>c. c \<in> set query \<Longrightarrow> c \<noteq> CHR ''#'' \<and> \<not> ctl c" "query \<noteq> []"
    and parsed: "parse_userinfo ui = Inr u" "parseHost ip_literal host = Inr h" "unescape encodePath p = Inr path"
  shows "url_Parse ip_literal scheme (ui @ ''@'' @ host @ p @ ''?'' @ query) =
    Inr \<lparr>Scheme = scheme, User = Some u, Host = h, Path = path, RawPath = (if p = escape encodePath path then [] else p),
      ForceQuery = False, RawQuery = query, Fragment = [], RawFragment = []\<rparr>"
proof -
  define front where "front = ui @ ''@'' @ host @ p"
  define rest where "rest = front @ CHR ''?'' # query"
  have "CHR ''#'' \<notin> set rest"
    using ui host p(1) q(1) by (auto simp: rest_def front_def)
  note frag = cut_none [OF this]
  have "\<not> ctl (CHR ''@'')" "\<not> ctl (CHR ''?'')"
    by code_simp+
  then have noctl: "\<not> list_ex (\<lambda>c. byte c < 32 \<or> byte c = 127) rest"
    using ui host p(1) q(1) by (auto simp: list_ex_iff ctl_def rest_def front_def)
  have "CHR ''?'' \<notin> set front"
    using ui host p(1) by (auto simp: front_def)
  from cut_at [OF this, of query] have query: "Cut (CHR ''?'') rest = (front, query)"
    by (simp add: rest_def)
  have "CHR ''?'' \<in> set (butlast rest)"
    using q(2) by (simp add: rest_def butlast_append)
  then have force: "(rest \<noteq> [] \<and> last rest = CHR ''?'' \<and> CHR ''?'' \<notin> set (butlast rest)) = False"
    by blast
  have slash: "\<forall>c \<in> set (ui @ ''@'' @ host). c \<noteq> CHR ''/''"
    using ui host by auto
  have split: "takeWhile (\<lambda>c. c \<noteq> CHR ''/'') front = ui @ ''@'' @ host" "dropWhile (\<lambda>c. c \<noteq> CHR ''/'') front = p"
    using takeWhile_append2 [of "ui @ ''@'' @ host" "\<lambda>c. c \<noteq> CHR ''/''" p] slash
      dropWhile_append2 [of "ui @ ''@'' @ host" "\<lambda>c. c \<noteq> CHR ''/''" p] p(2) by (auto simp: front_def)
  have "CHR ''@'' \<notin> set host"
    using host by auto
  then have auth: "parseAuthority ip_literal (ui @ ''@'' @ host) = Inr (Some u, h)"
    using cut_last_at [of "CHR ''@''" host ui] parsed(1,2) by (simp add: parseAuthority_def)
  have "url_Parse ip_literal scheme rest =
      Inr \<lparr>Scheme = scheme, User = Some u, Host = h, Path = path, RawPath = (if p = escape encodePath path then [] else p),
        ForceQuery = False, RawQuery = query, Fragment = [], RawFragment = []\<rparr>"
    unfolding url_Parse_def Let_def frag prod.case force if_False query split auth sum.case parsed(3) if_not_P [OF noctl]
    by simp
  then show ?thesis
    by (simp add: rest_def front_def)
qed

section \<open>Characters that are safe\<close>

lemma alnum_plain: "alnum c \<Longrightarrow> c \<notin> set ''/?#@%[:''"
proof -
  have "list_all (\<lambda>d. \<not> alnum d) ''/?#@%[:''"
    by code_simp
  then show "alnum c \<Longrightarrow> ?thesis"
    by (auto simp: list_all_iff)
qed

lemma host_char:
  assumes "alnum c \<or> c \<in> set ''-._:''"
  shows "c \<notin> set ''/?#@%[''" "\<not> ctl c" "\<not> shouldEscape c encodeHost"
proof -
  have "list_all (\<lambda>d. d \<notin> set ''/?#@%['' \<and> \<not> ctl d \<and> \<not> shouldEscape d encodeHost) ''-._:''"
    by code_simp
  with assms alnum_plain [of c] ctl_not_alnum [of c] show "c \<notin> set ''/?#@%[''" "\<not> ctl c" "\<not> shouldEscape c encodeHost"
    by (auto simp: list_all_iff shouldEscape_def [of c])
qed

lemma escape_keep: "\<not> shouldEscape c mode \<Longrightarrow> c \<in> set s \<Longrightarrow> c \<in> set (escape mode s)"
  by (induction s) auto

lemma kept_chars:
  assumes "\<not> shouldEscape c mode" "mode = encodePathSegment \<or> mode = encodeUserPassword"
  shows "alnum c \<or> c \<in> set ''-_.~$&+,:;=@''"
proof (rule ccontr)
  assume no: "\<not> (alnum c \<or> c \<in> set ''-_.~$&+,:;=@'')"
  then have "shouldEscape c mode \<or> c = CHR ''/'' \<or> c = CHR ''?''"
    using assms(2) by (auto simp: shouldEscape_def)
  moreover have "shouldEscape (CHR ''/'') mode" "shouldEscape (CHR ''?'') mode"
    using assms(2) by (auto simp: shouldEscape_def alnum_def byte_def)
  ultimately show False
    using assms(1) by auto
qed

lemma valid_escaped:
  assumes "mode = encodePathSegment \<or> mode = encodeUserPassword"
  shows "validUserinfo (escape mode s)"
proof -
  have "list_all (\<lambda>c. c \<in> set (''-._:~!$&()*+,;=%@'' @ [CHR 0x27])) ''-_.~$&+,:;=@%''"
    by code_simp
  with escape_chars [of _ mode s] kept_chars [OF _ assms] show ?thesis
    unfolding validUserinfo_def list_all_iff by (metis list.set_intros(1) list.set_intros(2) set_ConsD)
qed

lemma validUserinfo_append: "validUserinfo (s @ t) \<longleftrightarrow> validUserinfo s \<and> validUserinfo t"
  by (simp add: validUserinfo_def)

text \<open>The two ways to write a user and a password, and what is read from them.\<close>

lemma colon_escaped [simp]: "\<not> shouldEscape (CHR '':'') encodePathSegment" "shouldEscape (CHR '':'') encodeUserPassword"
  by code_simp+

lemma parse_escaped_userinfo:
  assumes "CHR '':'' \<in> set s"
  shows "parse_userinfo (escape encodePathSegment s) = Inr (fst (Cut (CHR '':'') s), Some (snd (Cut (CHR '':'') s)))"
proof -
  have "\<not> alnum (CHR '':'')"
    by code_simp
  with cut_escape [of "CHR '':''" encodePathSegment s] escape_keep [OF colon_escaped(1) assms] show ?thesis
    by (simp add: parse_userinfo_def valid_escaped unescape_escape)
qed

lemma parse_Userinfo_String: "parse_userinfo (Userinfo_String (x, Some y)) = Inr (x, Some y)"
proof -
  have c: "CHR '':'' \<notin> set (escape encodeUserPassword x)"
    by (intro escape_free) simp_all
  have v: "validUserinfo [CHR '':'']"
    by code_simp
  have "validUserinfo (Userinfo_String (x, Some y))"
    using v valid_escaped [of encodeUserPassword x] valid_escaped [of encodeUserPassword y]
      validUserinfo_append [of "escape encodeUserPassword x @ [CHR '':'']" "escape encodeUserPassword y"]
    by (simp add: Userinfo_String_def validUserinfo_append)
  moreover have "Cut (CHR '':'') (Userinfo_String (x, Some y)) = (escape encodeUserPassword x, escape encodeUserPassword y)"
    using cut_at [OF c] by (simp add: Userinfo_String_def)
  ultimately show ?thesis
    by (simp add: parse_userinfo_def unescape_escape Userinfo_String_def)
qed

lemma userinfo_chars:
  assumes "c \<in> set (escape mode s)" "mode = encodePathSegment \<or> mode = encodeUserPassword"
  shows "c \<notin> set ''/?#'' \<and> \<not> ctl c"
proof -
  have "list_all (\<lambda>d. d \<noteq> CHR ''%'' \<and> shouldEscape d encodePathSegment \<and> shouldEscape d encodeUserPassword) ''/?#''"
    by code_simp
  then have "d \<notin> set (escape mode s)" if "d \<in> set ''/?#''" for d
    using that assms(2) escape_free [of d mode s] by (auto simp: list_all_iff)
  with assms(1) escape_no_ctl [OF assms(1)] show ?thesis
    by blast
qed

text \<open>The path of a parsed URL, printed and read again.\<close>

lemma EscapedPath_ok:
  assumes p: "Path u = CHR ''/'' # p" "\<And>c. c \<in> set p \<Longrightarrow> c \<notin> set ''?#%'' \<and> \<not> ctl c"
    and raw: "RawPath u \<in> {[], Path u}"
  shows "\<exists>e. EscapedPath u = CHR ''/'' # e" "unescape encodePath (EscapedPath u) = Inr (Path u)"
    "c \<in> set (EscapedPath u) \<Longrightarrow> c \<notin> set ''?#'' \<and> \<not> ctl c"
proof -
  have slash: "\<not> shouldEscape (CHR ''/'') encodePath" "shouldEscape (CHR ''?'') encodePath" "shouldEscape (CHR ''#'') encodePath"
      "\<not> ctl (CHR ''/'')"
    by code_simp+
  have e: "EscapedPath u = Path u \<or> EscapedPath u = escape encodePath (Path u)"
    using raw p(1) by (auto simp: EscapedPath_def)
  then show "\<exists>e. EscapedPath u = CHR ''/'' # e"
    using p(1) slash(1) by auto
  have "CHR ''%'' \<notin> set (Path u)"
    using p by auto
  with e show "unescape encodePath (EscapedPath u) = Inr (Path u)"
    using unescape_plain [of encodePath "Path u"] unescape_escape [of encodePath encodePath "Path u"] by auto
  show "c \<in> set (EscapedPath u) \<Longrightarrow> c \<notin> set ''?#'' \<and> \<not> ctl c"
    using e
  proof
    assume c: "c \<in> set (EscapedPath u)" and "EscapedPath u = Path u"
    with p slash(4) show ?thesis
      by auto
  next
    assume c: "c \<in> set (EscapedPath u)" and "EscapedPath u = escape encodePath (Path u)"
    then show ?thesis
      using escape_no_ctl [of c encodePath "Path u"] escape_free [OF slash(2), of "Path u"] escape_free [OF slash(3), of "Path u"]
      by auto
  qed
qed

end
