(* ===== verification/Capacity.thy ===== *)
theory Capacity
  imports Ipamer_Limits
begin

text \<open>
  How much a prefix has to give. A client that asks again and again for an address, or for a child of one
  length, is served exactly as often as the prefix has free addresses or free blocks of that length, never
  twice with the same, and refused from then on. Both are instances of one interface: an operation that takes
  one element out of a finite set while there is one, and fails when there is none.
\<close>

section \<open>Asking again and again\<close>

primrec repeat_call :: "nat \<Rightarrow> ('s, 'a) comp \<Rightarrow> ('s, 'a list) comp" where
  "repeat_call 0 f s = (Inr [], s)"
| "repeat_call (Suc n) f s = (case f s of
      (Inl err, s) \<Rightarrow> (Inl err, s)
    | (Inr x, s) \<Rightarrow> (case repeat_call n f s of
        (Inl err, s) \<Rightarrow> (Inl err, s)
      | (Inr xs, s) \<Rightarrow> (Inr (x # xs), s)))"

text \<open>
  The interface: \<open>free\<close> is what a state still has to give, \<open>out\<close> what an answer takes, \<open>full\<close> how the operation
  fails when nothing is left.
\<close>

locale drain =
  fixes call :: "('s, 'a) comp" and ok :: "'s \<Rightarrow> bool" and free :: "'s \<Rightarrow> 'x set"
    and out :: "'a \<Rightarrow> 'x" and full :: "go_error \<Rightarrow> bool"
  assumes free_finite: "ok s \<Longrightarrow> finite (free s)"
    and call_some: "ok s \<Longrightarrow> free s \<noteq> {} \<Longrightarrow>
      \<exists>x s'. call s = (Inr x, s') \<and> out x \<in> free s \<and> ok s' \<and> free s' = free s - {out x}"
    and call_none: "ok s \<Longrightarrow> free s = {} \<Longrightarrow> \<exists>e s'. call s = (Inl e, s') \<and> full e"
begin

lemma enough:
  "ok s \<Longrightarrow> n \<le> card (free s) \<Longrightarrow> \<exists>xs s'. repeat_call n call s = (Inr xs, s') \<and> length xs = n \<and>
    distinct (map out xs) \<and> out ` set xs \<subseteq> free s \<and> ok s' \<and> free s' = free s - out ` set xs"
proof (induction n arbitrary: s)
  case (Suc n)
  then have "free s \<noteq> {}"
    by auto
  with Suc.prems(1) obtain x s1 where x: "call s = (Inr x, s1)" "out x \<in> free s" "ok s1" "free s1 = free s - {out x}"
    using call_some by blast
  have "n \<le> card (free s1)"
    using Suc.prems(2) x(2,4) free_finite [OF Suc.prems(1)] by simp
  with Suc.IH [OF x(3)] obtain xs s2 where "repeat_call n call s1 = (Inr xs, s2)" "length xs = n" "distinct (map out xs)"
      "out ` set xs \<subseteq> free s1" "ok s2" "free s2 = free s1 - out ` set xs"
    by blast
  with x show ?case
    by (intro exI [of _ "x # xs"] exI [of _ s2]) auto
qed simp

lemma too_much: "ok s \<Longrightarrow> card (free s) < n \<Longrightarrow> \<exists>e s'. repeat_call n call s = (Inl e, s') \<and> full e"
proof (induction n arbitrary: s)
  case (Suc n)
  show ?case
  proof (cases "free s = {}")
    case True
    with Suc.prems(1) call_none show ?thesis
      by fastforce
  next
    case False
    with Suc.prems(1) obtain x s1 where x: "call s = (Inr x, s1)" "out x \<in> free s" "ok s1" "free s1 = free s - {out x}"
      using call_some by blast
    have "card (free s1) < n"
      using Suc.prems(2) x(2,4) card_Suc_Diff1 [OF free_finite [OF Suc.prems(1)] x(2)] by simp
    with Suc.IH [OF x(3)] x(1) show ?thesis
      by auto
  qed
qed simp

end

text \<open>When the operation takes the least element, the answers come in order.\<close>

locale drain_least = drain call ok free out full
  for call :: "('s, 'a) comp" and ok :: "'s \<Rightarrow> bool" and free :: "'s \<Rightarrow> nat set"
    and out :: "'a \<Rightarrow> nat" and full :: "go_error \<Rightarrow> bool" +
  assumes call_least: "ok s \<Longrightarrow> call s = (Inr x, s') \<Longrightarrow> n \<in> free s \<Longrightarrow> out x \<le> n"
begin

lemma in_order:
  "ok s \<Longrightarrow> n \<le> card (free s) \<Longrightarrow>
    \<exists>xs s'. repeat_call n call s = (Inr xs, s') \<and> map out xs = take n (sorted_list_of_set (free s))"
proof (induction n arbitrary: s)
  case (Suc n)
  then have ne: "free s \<noteq> {}"
    by auto
  with Suc.prems(1) obtain x s1 where x: "call s = (Inr x, s1)" "out x \<in> free s" "ok s1" "free s1 = free s - {out x}"
    using call_some by blast
  note fin = free_finite [OF Suc.prems(1)]
  have "out x = Min (free s)"
    using x(2) call_least [OF Suc.prems(1) x(1)] by (intro Min_eqI [symmetric] fin) auto
  then have list: "sorted_list_of_set (free s) = out x # sorted_list_of_set (free s1)"
    using sorted_list_of_set_nonempty [OF fin ne] x(4) by simp
  have "n \<le> card (free s1)"
    using Suc.prems(2) x(2,4) fin by simp
  with Suc.IH [OF x(3)] obtain xs s2 where "repeat_call n call s1 = (Inr xs, s2)"
      "map out xs = take n (sorted_list_of_set (free s1))"
    by blast
  with x(1) list show ?case
    by (intro exI [of _ "x # xs"] exI [of _ s2]) simp
qed simp

end

section \<open>Addresses\<close>

text \<open>The numbers of the free addresses of the prefix a cidr denotes.\<close>

definition free_numbers :: "store_view \<Rightarrow> ctx \<Rightarrow> string \<Rightarrow> nat set" where
  "free_numbers v ctx cidr = (case (ParsePrefix cidr, stored v ctx cidr) of
      (Inr q, Some a) \<Rightarrow> addr_num ` free_ips q a
    | _ \<Rightarrow> {})"

definition gives_ips :: "store_view \<Rightarrow> ctx \<Rightarrow> string \<Rightarrow> bool" where
  "gives_ips v ctx cidr \<longleftrightarrow> (\<exists>a. stored v ctx cidr = Some a \<and> \<not> aIsParent a)"

lemma free_ips_block: "free_ips q a \<subseteq> block q"
  by (auto simp: free_ips_def mem_block)

lemma addr_num_inj: "inj_on addr_num (block q)"
  by (auto simp: inj_on_def block_def Contains_iff intro: addr_eqI)

lemma free_ips_take: "Contains q ip \<Longrightarrow> free_ips q (take_ip ip a) = free_ips q a - {ip}"
  by (auto simp: free_ips_def Contains_def split: if_split_asm)

lemma drain_AcquireIP:
  assumes laws: "storage_laws st invar view ok_ns" "netipx_laws nx B BS IS" "retry_laws retry"
  shows "drain_least (AcquireIP nx retry st ctx cidr) (\<lambda>s. invar s \<and> gives_ips (view s) ctx cidr)
    (\<lambda>s. free_numbers (view s) ctx cidr) (\<lambda>ip. addr_num (IP ip)) (\<lambda>e. errors_is e ErrNoIPAvailable)"
proof -
  have step: "\<exists>q a. ParsePrefix cidr = Inr q \<and> stored (view s) ctx cidr = Some a \<and> finite (free_numbers (view s) ctx cidr) \<and>
      free_numbers (view s) ctx cidr = addr_num ` free_ips q a \<and>
      (if free_ips q a \<noteq> {}
       then \<exists>ip s'. AcquireIP nx retry st ctx cidr s = (Inr \<lparr>IP = ip, ParentPrefix = key q\<rparr>, s') \<and>
         ip \<in> free_ips q a \<and> (\<forall>b \<in> free_ips q a. addr_num ip \<le> addr_num b) \<and>
         invar s' \<and> gives_ips (view s') ctx cidr \<and> free_numbers (view s') ctx cidr = free_numbers (view s) ctx cidr - {addr_num ip}
       else \<exists>e s'. AcquireIP nx retry st ctx cidr s = (Inl e, s') \<and> errors_is e ErrNoIPAvailable)"
    if s: "invar s" "gives_ips (view s) ctx cidr" for s
  proof -
    obtain a where a: "stored (view s) ctx cidr = Some a" "\<not> aIsParent a"
      using s(2) by (auto simp: gives_ips_def)
    obtain q m where q: "ParsePrefix cidr = Inr q" "view s (namespaceFromContext ctx) = Some m" "m (key q) = Some a"
      using a(1) by (rule stored_Some)
    note law = AcquireIP_law [OF laws s(1) a q(1)]
    have numbers: "free_numbers (view s) ctx cidr = addr_num ` free_ips q a"
      by (simp add: free_numbers_def q(1) a(1))
    have fin: "finite (free_ips q a)"
      using card_block(1) [OF ParsePrefix_valid [OF q(1)]] free_ips_block by (rule finite_subset [rotated])
    have "gives_ips (view s') ctx cidr \<and> free_numbers (view s') ctx cidr = free_numbers (view s) ctx cidr - {addr_num ip}"
      if "ip \<in> free_ips q a" "view s' = put (view s) ctx (take_ip ip a)" for ip s'
    proof -
      have "stored (view s') ctx cidr = Some (take_ip ip a)"
        using stored_put [where v = "view s" and a = "take_ip ip a", OF q(2,1)] storage_laws.stored_cidr [OF laws(1) s(1) a(1) q(1)] that(2) by simp
      moreover have "free_ips q (take_ip ip a) = free_ips q a - {ip}"
        using that(1) by (intro free_ips_take) (simp add: free_ips_def)
      moreover have "addr_num ` (free_ips q a - {ip}) = addr_num ` free_ips q a - {addr_num ip}"
        using inj_on_image_set_diff [OF addr_num_inj [of q], of "free_ips q a" "{ip}"] free_ips_block [of q a] that(1) by auto
      ultimately show ?thesis
        using a by (simp add: gives_ips_def free_numbers_def q(1))
    qed
    with law fin numbers q(1) a(1) show ?thesis
      by (intro exI [of _ q] exI [of _ a]) (auto split: if_split_asm; blast)
  qed
  show ?thesis
  proof unfold_locales
    fix s assume "invar s \<and> gives_ips (view s) ctx cidr"
    then show "finite (free_numbers (view s) ctx cidr)"
      using step by blast
  next
    fix s assume s: "invar s \<and> gives_ips (view s) ctx cidr" "free_numbers (view s) ctx cidr \<noteq> {}"
    then show "\<exists>x s'. AcquireIP nx retry st ctx cidr s = (Inr x, s') \<and> addr_num (IP x) \<in> free_numbers (view s) ctx cidr \<and>
        (invar s' \<and> gives_ips (view s') ctx cidr) \<and> free_numbers (view s') ctx cidr = free_numbers (view s) ctx cidr - {addr_num (IP x)}"
      using step [of s] by (fastforce split: if_split_asm)
  next
    fix s assume s: "invar s \<and> gives_ips (view s) ctx cidr" "free_numbers (view s) ctx cidr = {}"
    then show "\<exists>e s'. AcquireIP nx retry st ctx cidr s = (Inl e, s') \<and> errors_is e ErrNoIPAvailable"
      using step [of s] by (auto split: if_split_asm)
  next
    fix s x s' n
    assume s: "invar s \<and> gives_ips (view s) ctx cidr" "AcquireIP nx retry st ctx cidr s = (Inr x, s')"
      "n \<in> free_numbers (view s) ctx cidr"
    then show "addr_num (IP x) \<le> n"
      using step [of s] by (auto split: if_split_asm)
  qed
qed

text \<open>The free addresses of a new prefix: all but the network address and, for IPv4, the broadcast address.\<close>

lemma fresh_numbers:
  assumes q: "IsValid q"
  shows "addr_num ` free_ips q (fresh q p) =
    {Suc (addr_num (first_addr q)) ..< addr_num (first_addr q) + 2 ^ host_bits q - (if Is4 (Addr q) then 1 else 0)}"
proof -
  have last: "addr_num (last_addr q) = addr_num (first_addr q) + (2 ^ host_bits q - 1)"
    using first_addr_num [OF q] last_addr_num [OF q] by simp
  have num: "x = first_addr q \<longleftrightarrow> addr_num x = addr_num (first_addr q)" "x = last_addr q \<longleftrightarrow> addr_num x = addr_num (last_addr q)"
    if "Contains q x" for x
    using Contains_same [OF that] Contains_first_last [OF q] by blast+
  have mem: "x \<in> free_ips q (fresh q p) \<longleftrightarrow> Contains q x \<and> addr_num x \<noteq> addr_num (first_addr q) \<and>
      (Is4 (Addr q) \<longrightarrow> addr_num x \<noteq> addr_num (last_addr q))" for x
    using num by (auto simp: free_ips_def reserved_def)
  have "n \<in> addr_num ` free_ips q (fresh q p)"
    if n: "addr_num (first_addr q) \<le> n" "n \<le> addr_num (last_addr q)" "n \<noteq> addr_num (first_addr q)"
      "Is4 (Addr q) \<longrightarrow> n \<noteq> addr_num (last_addr q)" for n
  proof -
    have "n < 2 ^ BitLen (Addr q)"
      using n(2) addr_num_bound [of "last_addr q"] by simp
    then have "addr_num (addr_like (Addr q) n) = n"
      by (rule addr_num_like)
    with n q show ?thesis
      by (intro image_eqI [of _ _ "addr_like (Addr q) n"]) (simp_all add: mem Contains_between)
  qed
  then show ?thesis
    using Contains_between [OF q] last by (auto simp: mem)
qed

text \<open>
  C3: A new prefix hands out its addresses in ascending order, beginning after its network address: asked n
  times it gives the first n addresses, for every n up to the number of its addresses without the network
  address and, for IPv4, without the broadcast address; asked once more it fails with \<open>ErrNoIPAvailable\<close>.
\<close>

theorem new_prefix_hands_out_all:
  assumes laws: "storage_laws st invar view ok_ns" "netipx_laws nx B BS IS" "retry_laws retry"
    and s: "invar s" "view s (namespaceFromContext ctx) = Some m" "keys_ok m"
    and q: "ParsePrefix cidr = Inr q" "unused m q"
    and c: "c = 2 ^ host_bits q - 1 - (if Is4 (Addr q) then 1 else 0)"
  shows "\<exists>p s1. ipamer_NewPrefix nx st ctx cidr s = (Inr p, s1) \<and>
    (\<forall>n. if n \<le> c
      then \<exists>ips s2. repeat_call n (AcquireIP nx retry st ctx cidr) s1 = (Inr ips, s2) \<and>
        map (\<lambda>ip. addr_num (IP ip)) ips = map (\<lambda>i. addr_num (first_addr q) + i) [1..<Suc n]
      else \<exists>e s2. repeat_call n (AcquireIP nx retry st ctx cidr) s1 = (Inl e, s2) \<and> errors_is e ErrNoIPAvailable)"
proof -
  let ?f = "addr_num (first_addr q)"
  note d = drain_AcquireIP [OF laws, of ctx cidr]
  obtain p s1 where p: "ipamer_NewPrefix nx st ctx cidr s = (Inr p, s1)" "invar s1" "view s1 = put (view s) ctx (fresh q [])"
    using NewPrefix_law [OF laws(1,2) s q(1)] q(2) by auto
  have st1: "stored (view s1) ctx cidr = Some (fresh q [])"
    using stored_put [where v = "view s" and a = "fresh q []", OF s(2) q(1)] p(3) by simp
  then have ok: "invar s1 \<and> gives_ips (view s1) ctx cidr"
    using p(2) by (simp add: gives_ips_def)
  have numbers: "free_numbers (view s1) ctx cidr = {Suc ?f ..< Suc ?f + c}"
    using fresh_numbers [OF ParsePrefix_valid [OF q(1)], of "[]"] by (auto simp: free_numbers_def q(1) st1 c)
  have list: "take n (sorted_list_of_set {Suc ?f ..< Suc ?f + c}) = map (\<lambda>i. ?f + i) [1..<Suc n]" if "n \<le> c" for n
    using that by (intro nth_equalityI) (auto simp del: upt_Suc)
  have "\<exists>ips s2. repeat_call n (AcquireIP nx retry st ctx cidr) s1 = (Inr ips, s2) \<and>
      map (\<lambda>ip. addr_num (IP ip)) ips = map (\<lambda>i. ?f + i) [1..<Suc n]" if "n \<le> c" for n
    using drain_least.in_order [OF d ok, of n] that list [OF that] unfolding numbers by simp
  moreover have "\<exists>e s2. repeat_call n (AcquireIP nx retry st ctx cidr) s1 = (Inl e, s2) \<and> errors_is e ErrNoIPAvailable"
    if "\<not> n \<le> c" for n
    using drain.too_much [OF drain_least.axioms(1) [OF d] ok, of n] that unfolding numbers by simp
  ultimately show ?thesis
    using p(1) by auto
qed

section \<open>Children of one length\<close>

text \<open>The blocks of a length that lie in the free space of a prefix.\<close>

definition free_blocks :: "netip_prefix \<Rightarrow> aprefix \<Rightarrow> int \<Rightarrow> addr set set" where
  "free_blocks q a l = {block r |r. IsValid r \<and> Bits r = l \<and> block r \<subseteq> free_space q (aChildren a)}"

definition free_child_blocks :: "store_view \<Rightarrow> ctx \<Rightarrow> string \<Rightarrow> int \<Rightarrow> addr set set" where
  "free_child_blocks v ctx cidr l = (case (ParsePrefix cidr, stored v ctx cidr) of
      (Inr q, Some a) \<Rightarrow> free_blocks q a l
    | _ \<Rightarrow> {})"

definition gives_children :: "store_view \<Rightarrow> ctx \<Rightarrow> string \<Rightarrow> int \<Rightarrow> bool" where
  "gives_children v ctx cidr l \<longleftrightarrow> (\<exists>q m a. ParsePrefix cidr = Inr q \<and> v (namespaceFromContext ctx) = Some m \<and>
     tree_ok m \<and> m (key q) = Some a \<and> Bits q < l \<and> \<not> has_ips q a)"

text \<open>Two blocks of one length are the same or have no address in common.\<close>

lemma same_length_blocks:
  assumes "IsValid p" "IsValid r" "Bits p = Bits r" "block p \<inter> block r \<noteq> {}"
  shows "block p = block r"
  using Overlaps_nested [of p r] Overlaps_nested [of r p] assms Overlaps_iff [of p r] Overlaps_iff [of r p]
  by (auto simp: Int_commute)

lemma free_blockE:
  assumes "B \<in> free_blocks q a l"
  obtains r where "IsValid r" "Bits r = l" "B = block r" "block r \<subseteq> block q"
  using assms unfolding free_blocks_def free_space_def by blast

lemma free_blocks_disjoint:
  assumes "B \<in> free_blocks q a l" "C \<in> free_blocks q a l" "B \<noteq> C"
  shows "B \<inter> C = {}"
proof -
  obtain p r where "IsValid p" "Bits p = l" "B = block p" "IsValid r" "Bits r = l" "C = block r"
    using assms(1,2) by (metis free_blockE)
  with assms(3) same_length_blocks [of p r] show ?thesis
    by auto
qed

lemma free_blocks_give:
  assumes r: "IsValid r" "Bits r = l" "block r \<subseteq> free_space q (aChildren a)"
  shows "free_blocks q (give_child (prefix_String r) a) l = free_blocks q a l - {block r}"
proof -
  have space: "free_space q (aChildren (give_child (prefix_String r) a)) = free_space q (aChildren a) - block r"
    using taken_give_child [OF r(1), of a] by (auto simp: free_space_def)
  have "block p \<subseteq> free_space q (aChildren a) - block r \<longleftrightarrow> block p \<subseteq> free_space q (aChildren a) \<and> block p \<noteq> block r"
    if "IsValid p" "Bits p = l" for p
    using same_length_blocks [OF that(1) r(1)] that(2) r(2) block_nonempty [OF that(1)] by auto
  then show ?thesis
    unfolding free_blocks_def space by blast
qed

lemma free_blocks_block: "B \<in> free_blocks q a l \<Longrightarrow> B \<subseteq> block q"
  by (auto simp: free_blocks_def free_space_def)

lemma free_blocks_finite: "IsValid q \<Longrightarrow> finite (free_blocks q a l)"
  using card_block(1) [of q] free_blocks_block by (metis Pow_iff finite_Pow_iff finite_subset subsetI)

lemma drain_AcquireChildPrefix:
  assumes laws: "storage_laws st invar view ok_ns" "netipx_laws nx B BS IS" "retry_laws retry"
  shows "drain (AcquireChildPrefix nx retry st ctx cidr l) (\<lambda>s. invar s \<and> gives_children (view s) ctx cidr (uint l))
    (\<lambda>s. free_child_blocks (view s) ctx cidr (uint l)) (\<lambda>p. cidr_block (Cidr p)) (\<lambda>e. True)"
proof unfold_locales
  fix s assume s: "invar s \<and> gives_children (view s) ctx cidr (uint l)"
  then obtain q m a where q: "ParsePrefix cidr = Inr q" "view s (namespaceFromContext ctx) = Some m" "tree_ok m"
      "m (key q) = Some a" "Bits q < uint l" "\<not> has_ips q a"
    by (auto simp: gives_children_def)
  note v = ParsePrefix_valid [OF q(1)]
  have blocks: "free_child_blocks (view s) ctx cidr (uint l) = free_blocks q a (uint l)"
    using q by (simp add: free_child_blocks_def stored_def)
  show "finite (free_child_blocks (view s) ctx cidr (uint l))"
    by (simp add: blocks free_blocks_finite [OF v])
  note law = AcquireChildPrefix_law [OF laws conjunct1 [OF s] q(2,3,1,4), of l]
  show "\<exists>p s'. AcquireChildPrefix nx retry st ctx cidr l s = (Inr p, s') \<and>
      cidr_block (Cidr p) \<in> free_child_blocks (view s) ctx cidr (uint l) \<and>
      (invar s' \<and> gives_children (view s') ctx cidr (uint l)) \<and>
      free_child_blocks (view s') ctx cidr (uint l) = free_child_blocks (view s) ctx cidr (uint l) - {cidr_block (Cidr p)}"
    if "free_child_blocks (view s) ctx cidr (uint l) \<noteq> {}"
  proof -
    from that law q(5,6) obtain r p s' where r: "AcquireChildPrefix nx retry st ctx cidr l s = (Inr p, s')"
        "abs_prefix p = fresh r (key q)" "IsValid r" "Bits r = uint l" "block r \<subseteq> free_space q (aChildren a)" "invar s'"
        "view s' = (view s)(namespaceFromContext ctx \<mapsto> m(key q \<mapsto> give_child (prefix_String r) a, key r \<mapsto> fresh r (key q)))"
      by (auto simp: blocks free_blocks_def split: if_split_asm)
    let ?m = "m(key q \<mapsto> give_child (prefix_String r) a, key r \<mapsto> fresh r (key q))"
    have bits: "Bits q < Bits r"
      using q(5) r(4) by simp
    note new = free_child_new [OF q(3,4) v r(3,5) bits] and tree = tree_ok_child [OF q(3,4) v r(3,5) bits]
    have "Cidr p = key r"
      using r(2) by (metis abs_prefix_simps(1) fresh_simps(1))
    moreover have "?m (key q) = Some (give_child (prefix_String r) a)"
      using new(2) by auto
    moreover have "\<not> has_ips q (give_child (prefix_String r) a)"
      using q(6) by (simp add: has_ips_def)
    ultimately show ?thesis
      using r tree q(1,5) free_blocks_give [OF r(3,4,5)] blocks
      by (auto simp: gives_children_def free_child_blocks_def stored_def free_blocks_def [of q a])
  qed
  show "\<exists>e s'. AcquireChildPrefix nx retry st ctx cidr l s = (Inl e, s') \<and> True"
    if "free_child_blocks (view s) ctx cidr (uint l) = {}"
    using law that by (auto simp: blocks free_blocks_def split: if_split_asm)
qed

text \<open>The number of blocks of a length in a prefix of which nothing is taken.\<close>

lemma sub_block:
  assumes q: "IsValid q" and l: "Bits q \<le> l" "nat l \<le> BitLen (Addr q)" and a: "Contains q a"
  shows "\<exists>r. IsValid r \<and> Bits r = l \<and> host_bits r = BitLen (Addr q) - nat l \<and> a \<in> block r \<and> block r \<subseteq> block q"
proof -
  let ?r = "\<lparr>Addr = a, Bits = l\<rparr>"
  have a': "\<not> hasZone a" "BitLen a = BitLen (Addr q)" "a \<noteq> ZeroAddr"
    using a IsValidD(1) [OF q] by (auto simp: Contains_iff)
  have v: "IsValid ?r"
    using a' l IsValidD(3) [OF q] by (auto simp: IsValid_def)
  have h: "host_bits ?r = BitLen (Addr q) - nat l"
    using a'(2) by (simp add: host_bits_def)
  have "Contains ?r a"
    using v a' by (simp add: Contains_iff block_no_def)
  then show ?thesis
    using v h a Overlaps_nested [OF q v] Overlaps_meet [OF q v] l(1)
    by (intro exI [of _ ?r]) (simp add: mem_block)
qed

lemma card_free_blocks:
  assumes q: "IsValid q" and l: "Bits q \<le> l" "nat l \<le> BitLen (Addr q)" and none: "taken (aChildren a) = {}"
  shows "card (free_blocks q a l) = 2 ^ (nat l - nat (Bits q))"
proof -
  have space: "free_space q (aChildren a) = block q"
    by (simp add: free_space_def none)
  have host: "host_bits r = BitLen (Addr q) - nat l" if r: "IsValid r" "Bits r = l" "block r \<subseteq> block q" for r
  proof -
    obtain b where "b \<in> block r"
      using block_nonempty [OF r(1)] by blast
    with r show ?thesis
      by (auto simp: mem_block Contains_iff host_bits_def)
  qed
  let ?k = "BitLen (Addr q) - nat l"
  have "2 ^ ?k * card (free_blocks q a l) = card (\<Union> (free_blocks q a l))"
  proof (rule card_partition)
    show "card B = 2 ^ ?k" if "B \<in> free_blocks q a l" for B
      using that host card_block(2) by (auto simp: free_blocks_def space)
    show "B \<inter> C = {}" if "B \<in> free_blocks q a l" "C \<in> free_blocks q a l" "B \<noteq> C" for B C
      by (rule free_blocks_disjoint [OF that])
    show "finite (\<Union> (free_blocks q a l))"
      using free_blocks_block by (intro finite_subset [OF _ card_block(1) [OF q]]) blast
  qed (rule free_blocks_finite [OF q])
  also have "\<Union> (free_blocks q a l) = block q"
  proof
    show "block q \<subseteq> \<Union> (free_blocks q a l)"
    proof
      fix b assume "b \<in> block q"
      then obtain r where "IsValid r" "Bits r = l" "b \<in> block r" "block r \<subseteq> block q"
        using sub_block [OF q l, of b] unfolding mem_block by blast
      then show "b \<in> \<Union> (free_blocks q a l)"
        unfolding free_blocks_def space by blast
    qed
  qed (use free_blocks_block in blast)
  also have "card (block q) = 2 ^ ?k * 2 ^ (nat l - nat (Bits q))"
    using card_block(2) [OF q] IsValidD(3,4) [OF q] l by (simp add: host_bits_def flip: power_add)
  finally show ?thesis
    by simp
qed

text \<open>
  C4: A new prefix has exactly as many children of a length as there are blocks of that length in it: asked n
  times for a child it gives n of them, no two with an address in common and all inside the prefix, for every n
  up to two to the number of additional bits; asked once more it fails.
\<close>

theorem new_prefix_splits_completely:
  assumes laws: "storage_laws st invar view ok_ns" "netipx_laws nx B BS IS" "retry_laws retry"
    and s: "invar s" "view s (namespaceFromContext ctx) = Some m" "tree_ok m"
    and q: "ParsePrefix cidr = Inr q" "unused m q"
    and l: "Bits q < uint l" "unat l \<le> BitLen (Addr q)"
  shows "\<exists>p s1. ipamer_NewPrefix nx st ctx cidr s = (Inr p, s1) \<and>
    (\<forall>n. if n \<le> 2 ^ (unat l - nat (Bits q))
      then \<exists>ps s2. repeat_call n (AcquireChildPrefix nx retry st ctx cidr l) s1 = (Inr ps, s2) \<and> length ps = n \<and>
        (\<forall>i j. i < j \<and> j < n \<longrightarrow> cidr_block (Cidr (ps ! i)) \<inter> cidr_block (Cidr (ps ! j)) = {}) \<and>
        (\<forall>p \<in> set ps. \<exists>r. IsValid r \<and> Bits r = uint l \<and> cidr_block (Cidr p) = block r \<and> block r \<subseteq> block q)
      else \<exists>e s2. repeat_call n (AcquireChildPrefix nx retry st ctx cidr l) s1 = (Inl e, s2))"
proof -
  note d = drain_AcquireChildPrefix [OF laws, of ctx cidr l] and v = ParsePrefix_valid [OF q(1)]
  obtain p s1 where p: "ipamer_NewPrefix nx st ctx cidr s = (Inr p, s1)" "invar s1" "view s1 = put (view s) ctx (fresh q [])"
    using NewPrefix_law [OF laws(1,2) s(1,2) tree_okD(1) [OF s(3)] q(1)] q(2) by auto
  have view1: "view s1 (namespaceFromContext ctx) = Some (m(key q \<mapsto> fresh q []))"
    using p(3) s(2) by (simp add: put_def)
  then have ok: "invar s1 \<and> gives_children (view s1) ctx cidr (uint l)"
    using p(2) q(1) l(1) tree_ok_unused [OF s(3) v q(2), of "[]"] fresh_no_ips by (simp add: gives_children_def)
  have blocks: "free_child_blocks (view s1) ctx cidr (uint l) = free_blocks q (fresh q []) (uint l)"
    using view1 q(1) by (simp add: free_child_blocks_def stored_def)
  have card: "card (free_child_blocks (view s1) ctx cidr (uint l)) = 2 ^ (unat l - nat (Bits q))"
    using card_free_blocks [OF v, of "uint l" "fresh q []"] l by (simp add: blocks)
  have "\<exists>ps s2. repeat_call n (AcquireChildPrefix nx retry st ctx cidr l) s1 = (Inr ps, s2) \<and> length ps = n \<and>
      (\<forall>i j. i < j \<and> j < n \<longrightarrow> cidr_block (Cidr (ps ! i)) \<inter> cidr_block (Cidr (ps ! j)) = {}) \<and>
      (\<forall>p \<in> set ps. \<exists>r. IsValid r \<and> Bits r = uint l \<and> cidr_block (Cidr p) = block r \<and> block r \<subseteq> block q)"
    if n: "n \<le> 2 ^ (unat l - nat (Bits q))" for n
  proof -
    obtain ps s2 where ps: "repeat_call n (AcquireChildPrefix nx retry st ctx cidr l) s1 = (Inr ps, s2)" "length ps = n"
        "distinct (map (\<lambda>p. cidr_block (Cidr p)) ps)" "(\<lambda>p. cidr_block (Cidr p)) ` set ps \<subseteq> free_blocks q (fresh q []) (uint l)"
      using drain.enough [OF d ok, unfolded card, OF n] unfolding blocks by blast
    have r: "\<exists>r. IsValid r \<and> Bits r = uint l \<and> cidr_block (Cidr p) = block r \<and> block r \<subseteq> block q" if "p \<in> set ps" for p
      using ps(4) that by (metis free_blockE image_subset_iff)
    have "cidr_block (Cidr (ps ! i)) \<inter> cidr_block (Cidr (ps ! j)) = {}" if ij: "i < j" "j < n" for i j
    proof -
      have "cidr_block (Cidr (ps ! i)) \<noteq> cidr_block (Cidr (ps ! j))"
        using ps(2,3) ij by (auto simp: distinct_conv_nth)
      moreover have "cidr_block (Cidr (ps ! k)) \<in> free_blocks q (fresh q []) (uint l)" if "k < n" for k
        using ps(2,4) that by auto
      ultimately show ?thesis
        using ij by (intro free_blocks_disjoint) auto
    qed
    with ps(1,2) r show ?thesis
      by blast
  qed
  moreover have "\<exists>e s2. repeat_call n (AcquireChildPrefix nx retry st ctx cidr l) s1 = (Inl e, s2)"
    if "\<not> n \<le> 2 ^ (unat l - nat (Bits q))" for n
    using drain.too_much [OF d ok, of n] that unfolding card by simp
  ultimately show ?thesis
    using p(1) by auto
qed

section \<open>In memory\<close>

interpretation mem_ips: drain_least "AcquireIP ref_netipx retry_ref memory_storage ctx cidr"
    "\<lambda>s. memory_inv s \<and> gives_ips (memory_view s) ctx cidr" "\<lambda>s. free_numbers (memory_view s) ctx cidr"
    "\<lambda>ip. addr_num (IP ip)" "\<lambda>e. errors_is e ErrNoIPAvailable" for ctx cidr
  by (rule drain_AcquireIP [OF sample_laws])

interpretation mem_children: drain "AcquireChildPrefix ref_netipx retry_ref memory_storage ctx cidr l"
    "\<lambda>s. memory_inv s \<and> gives_children (memory_view s) ctx cidr (uint l)"
    "\<lambda>s. free_child_blocks (memory_view s) ctx cidr (uint l)" "\<lambda>p. cidr_block (Cidr p)" "\<lambda>e. True" for ctx cidr l
  by (rule drain_AcquireChildPrefix [OF sample_laws])

lemma new_root: "memory_view NewMemory (namespaceFromContext None) = Some Map.empty" "keys_ok Map.empty" "tree_ok Map.empty"
  by (simp_all add: memory_inv_NewMemory namespaceFromContext_def keys_ok_def tree_ok_def)

text \<open>A /24 has 254 addresses and four children of length 26.\<close>

theorem new_prefix_hands_out_all_witness:
  "\<exists>p s1 ips s2 e s3. ipamer_NewPrefix ref_netipx memory_storage None ''10.0.0.0/24'' NewMemory = (Inr p, s1) \<and>
    repeat_call 254 (AcquireIP ref_netipx retry_ref memory_storage None ''10.0.0.0/24'') s1 = (Inr ips, s2) \<and>
    map (\<lambda>ip. addr_num (IP ip)) ips = map (\<lambda>i. 0x0A000000 + i) [1..<255] \<and>
    repeat_call 255 (AcquireIP ref_netipx retry_ref memory_storage None ''10.0.0.0/24'') s1 = (Inl e, s3) \<and>
    errors_is e ErrNoIPAvailable"
proof -
  have net: "(254 :: nat) = 2 ^ host_bits net24 - 1 - (if Is4 (Addr net24) then 1 else 0)" "addr_num (first_addr net24) = 0x0A000000"
    by code_simp+
  from new_prefix_hands_out_all [OF sample_laws memory_inv_NewMemory(1) new_root(1,2) sample_nets(1) sample_unused net(1)]
  obtain p s1 where p: "ipamer_NewPrefix ref_netipx memory_storage None ''10.0.0.0/24'' NewMemory = (Inr p, s1)"
      "\<forall>n. if n \<le> 254
        then \<exists>ips s2. repeat_call n (AcquireIP ref_netipx retry_ref memory_storage None ''10.0.0.0/24'') s1 = (Inr ips, s2) \<and>
          map (\<lambda>ip. addr_num (IP ip)) ips = map (\<lambda>i. 0x0A000000 + i) [1..<Suc n]
        else \<exists>e s2. repeat_call n (AcquireIP ref_netipx retry_ref memory_storage None ''10.0.0.0/24'') s1 = (Inl e, s2) \<and>
          errors_is e ErrNoIPAvailable"
    unfolding net(2) by blast
  have "Suc 254 = 255" "\<not> 255 \<le> (254 :: nat)"
    by simp_all
  with p(1) p(2) [THEN spec, of 254] p(2) [THEN spec, of 255] show ?thesis
    by (metis order_refl)
qed

theorem new_prefix_splits_completely_witness:
  "\<exists>p s1 ps s2 e s3. ipamer_NewPrefix ref_netipx memory_storage None ''10.0.0.0/24'' NewMemory = (Inr p, s1) \<and>
    repeat_call 4 (AcquireChildPrefix ref_netipx retry_ref memory_storage None ''10.0.0.0/24'' 26) s1 = (Inr ps, s2) \<and>
    length ps = 4 \<and> cidr_block (Cidr (ps ! 0)) \<inter> cidr_block (Cidr (ps ! 3)) = {} \<and>
    repeat_call 5 (AcquireChildPrefix ref_netipx retry_ref memory_storage None ''10.0.0.0/24'' 26) s1 = (Inl e, s3)"
proof -
  have net: "Bits net24 < uint (26 :: 8 word)" "unat (26 :: 8 word) \<le> BitLen (Addr net24)"
      "2 ^ (unat (26 :: 8 word) - nat (Bits net24)) = (4 :: nat)"
    by code_simp+
  from new_prefix_splits_completely [OF sample_laws memory_inv_NewMemory(1) new_root(1,3) sample_nets(1) sample_unused net(1,2)]
  obtain p s1 where p: "ipamer_NewPrefix ref_netipx memory_storage None ''10.0.0.0/24'' NewMemory = (Inr p, s1)"
      "\<And>n. if n \<le> 4
        then \<exists>ps s2. repeat_call n (AcquireChildPrefix ref_netipx retry_ref memory_storage None ''10.0.0.0/24'' 26) s1 = (Inr ps, s2) \<and>
          length ps = n \<and> (\<forall>i j. i < j \<and> j < n \<longrightarrow> cidr_block (Cidr (ps ! i)) \<inter> cidr_block (Cidr (ps ! j)) = {})
        else \<exists>e s2. repeat_call n (AcquireChildPrefix ref_netipx retry_ref memory_storage None ''10.0.0.0/24'' 26) s1 = (Inl e, s2)"
    unfolding net(3) by (metis (no_types, lifting))
  from p(2) [of 4] obtain ps s2 where
      "repeat_call 4 (AcquireChildPrefix ref_netipx retry_ref memory_storage None ''10.0.0.0/24'' 26) s1 = (Inr ps, s2)"
      "length ps = 4" "cidr_block (Cidr (ps ! 0)) \<inter> cidr_block (Cidr (ps ! 3)) = {}"
    by auto
  with p(1) p(2) [of 5] show ?thesis
    by auto
qed

end
