(* ===== verification/Spec2Isabelle.thy ===== *)
theory Spec2Isabelle
  imports Prelude Netip Netip_Text Netipx Prefix_Type Json Storage Memory Ipamer Ipamer_IPs
    Ipamer_Prefixes Ipamer_Limits Api Service File_Storage Documents Redis_Storage Etcd_Storage
    Mongo_Storage Json_Same SQL_Storage Concurrency Concurrency_Children Concurrency_Tree Races Histories Dumps Rpc Flags Cli Server Run Url Connect Capacity
begin

text \<open>
  This library models go-ipam, a Go module that manages IP prefixes and addresses, and proves what its
  operations do.

  \<^bold>\<open>The program.\<close> A \<^emph>\<open>prefix\<close> (\<^verbatim>\<open>src/prefix.go\<close>) is a network with the addresses it has handed out or the
  child prefixes it has given away, and a version. The \<^emph>\<open>ipamer\<close> (\<^verbatim>\<open>src/ipam.go\<close>, \<^verbatim>\<open>src/prefix.go\<close>) creates and
  deletes prefixes, acquires and releases child prefixes and addresses, and dumps and loads namespaces. It
  keeps no state of its own: every operation reads prefixes from a \<^emph>\<open>storage\<close> (\<^verbatim>\<open>src/storage.go\<close>), changes a
  copy and writes it back, and is tried again when the version it read is out of date. There are storages in
  memory, in a file, in Redis, etcd, MongoDB and PostgreSQL. The \<^emph>\<open>service\<close> (\<^verbatim>\<open>src/pkg/service\<close>) turns the
  messages of the API into calls of the ipamer; the generated code of \<^verbatim>\<open>src/api/v1/apiv1connect\<close> routes requests to
  it and gives clients its methods. The \<^emph>\<open>server\<close> (\<^verbatim>\<open>src/cmd/server\<close>) opens a storage that its command line names and
  serves the service, the \<^emph>\<open>client\<close> (\<^verbatim>\<open>src/cmd/client\<close>) calls it from the command line.

  \<^bold>\<open>How it is modelled.\<close> An operation is a function from the state of a storage to a result and the next
  state (\<open>comp\<close> in \<open>Prelude\<close>). A result is an error or a value; an error is a sentinel of \<^verbatim>\<open>src/errors.go\<close>, a
  wrapped error with its format string, or a panic. Go strings are lists of bytes, a Go map is nil or an
  association list without duplicate keys, versions are 64-bit words, lengths of prefixes are the integers
  of \<open>netip\<close>, which uses \<open>-1\<close> for invalid. Code outside the repository is an argument of the definitions that
  call it, and what its documentation promises is a locale: \<open>netipx_laws\<close>, \<open>redis_laws\<close>, \<open>etcd_laws\<close>,
  \<open>mongo_laws\<close>, \<open>sql_laws\<close>, and the predicate \<open>retry_laws\<close>. Each has an executable reference that is proved to
  have the laws, on which the witnesses run.

  \<^bold>\<open>The theories.\<close>

  \<^item> \<open>Prelude\<close>: errors, results, Go maps (\<^verbatim>\<open>src/errors.go\<close>).
  \<^item> \<open>Netip\<close>, \<open>Netip_Text\<close>: the part of \<open>net/netip\<close> in use. Masking, containment and overlap are related to
    sets of addresses; parsing and printing are inverse, so that cidrs as keys stand for networks.
  \<^item> \<open>Netipx\<close>: the interface of \<open>go4.org/netipx\<close>, its laws, and a reference by lists of prefixes.
  \<^item> \<open>Prefix_Type\<close>: \<open>Prefix\<close>, copies, the gob encoding, \<open>Usage\<close>; the abstract prefix \<open>aprefix\<close>.
  \<^item> \<open>Json\<close>, \<open>Json_Same\<close>: \<^verbatim>\<open>src/json.go\<close> over JSON trees; reading a tree whose members changed their order.
  \<^item> \<open>Storage\<close>: the interface as a record of operations and its contract, the locale \<open>storage_laws\<close> over an
    abstract view (namespaces, each with its abstract prefixes by cidr); \<open>full_storage_laws\<close> adds the deletion
    of namespaces.
  \<^item> \<open>Memory\<close>, \<open>File_Storage\<close>, \<open>Redis_Storage\<close>, \<open>Etcd_Storage\<close>, \<open>Mongo_Storage\<close>, \<open>SQL_Storage\<close>: one theory for
    each backend, \<^verbatim>\<open>src/memory.go\<close> to \<^verbatim>\<open>src/sql.go\<close> and \<^verbatim>\<open>src/postgres.go\<close>, with its state, every operation, its
    invariant, and the proof that it meets the contract under the laws of its server. \<open>Documents\<close> holds what
    the last four share. The contract is an \<open>interpretation\<close> for memory and file, and a \<open>sublocale\<close> of the
    laws of the server for the others; the conditions under which it holds are those of \<open>ok_ns\<close>: any name
    in memory and file, any but the key of the set of names in Redis, names of which none is the start of
    another nor meets the keys of the markers in etcd, the names MongoDB accepts (without the deletion of
    namespaces), names of printable characters without a quote whose table name fits an identifier in
    PostgreSQL. Each theory ends with what happens outside these conditions.
  \<^item> \<open>Ipamer\<close>: the operations of the ipamer over any storage. \<open>Ipamer_IPs\<close> and \<open>Ipamer_Prefixes\<close> prove inside
    \<open>storage_laws\<close> what they do on every branch, and that they keep the tree of prefixes of a namespace
    (\<open>tree_ok\<close>): unrelated prefixes share no address, children lie in the space their parents gave away.
    \<open>Ipamer_Limits\<close> composes operations and states behaviours that surprise. \<open>Capacity\<close> says how much a prefix has
    to give: the locale \<open>drain\<close> is the interface of an operation that takes one element out of a finite set, and
    acquiring addresses and children are its instances. \<open>Dumps\<close> restores the dump of one storage in another.
  \<^item> \<open>Histories\<close>: sequences of orderly calls of one process, on any prefixes and namespaces, as the inductive
    relation \<open>history\<close>; what was handed out and not given back is what the storage has as allocated.
  \<^item> \<open>Concurrency\<close>: several processes acquire and release addresses and children of one prefix, as a step
    relation over the reads and writes of the handlers, while nobody deletes the prefix or writes it otherwise.
    Every run has the effect of the successful writes one
    after the other, no address is held twice, and a process that meets a conflict lost to one that made
    progress. \<open>Concurrency_Children\<close> adds the creation and deletion of the children, \<open>Concurrency_Tree\<close> the
    requests to all prefixes of a namespace. \<open>Races\<close> shows where versions do not protect: creating, deleting
    and releasing prefixes, up to an address that two clients hold at once.
  \<^item> \<open>Api\<close>, \<open>Service\<close>: the messages, and the handlers as functions from a request to a response or an error
    with its code.
  \<^item> \<open>Rpc\<close>: the procedures, the router and the client of \<^verbatim>\<open>src/api/v1/apiv1connect\<close> over a network that is a
    parameter.
  \<^item> \<open>Flags\<close>, \<open>Cli\<close>, \<open>Server\<close>, \<open>Run\<close>: the contexts of the command line; every command of the client; the
    configuration, the commands, the log and the handlers of the server; and its run, from the start to the
    listener (\<^verbatim>\<open>src/cmd/server/server.go\<close>).
  \<^item> \<open>Url\<close>, \<open>Connect\<close>: the part of \<open>net/url\<close> in use; the constructors of the storages from their arguments to the
    drivers, the connection string for PostgreSQL, and the default path of the file storage.

  \<^bold>\<open>Groups of theorems.\<close> Functional laws give the result and the new state of an operation on every branch,
  errors included. Refinement theorems (\<open>memory_meets_contract\<close> and its five siblings) tie each backend to
  the contract the functional laws rest on, so they hold for the ipamer over every backend. The contract leaves
  open what version a storage gives to a new prefix, its own or 0, since the backends differ. Round trips cover
  acquiring and releasing, dumping and loading, JSON, the command line and the connection string. Equivalences
  take the client, the router, the handlers and the server out of the way between a call and the ipamer. Safety
  theorems cover histories and interleavings and, for the findings, runs that lose or mix up data. Theorems
  whose text begins with a number are the properties this library was made for; the others state what
  surrounds them and are proved in the same way.

  \<^bold>\<open>Bounds and termination.\<close> No definition uses fuel. The scan for a free address recurses over the addresses
  that remain in the prefix, the loop of retries is the library's and ends after ten attempts by \<open>retry_laws\<close>. Versions are 64-bit
  and wrap; the theorems on interleavings ask for fewer than \<open>2 ^ 64\<close> writes, so that equal versions mean that
  nobody wrote in between. Lengths of child prefixes are 8-bit in the ipamer and 32-bit in the messages.

  \<^bold>\<open>Not modelled.\<close> The text between bytes and JSON trees, gob bytes and protobuf bytes, which belong to libraries,
  as do parsing the command line and HTTP; in \<open>Url\<close>, IPv6 literals as hosts, which the library has read in
  different ways; the texts of messages beyond their format strings; locks inside one process, whose operations
  are single steps (findings name the places where a lock is missing); the delays between retries and the
  time-outs of the calls to a server. Of the server's run, the handlers for metrics, profiles, health and
  reflection are known by their patterns only, and its routines by what they log. The histories are those of
  callers that do not release the reserved addresses of a prefix and release only prefixes without children
  and addresses (\<open>orderly\<close>), and the interleavings of \<open>Concurrency_Tree\<close> do not release children: \<open>Histories\<close>
  and \<open>Races\<close> show that the code does not keep the tree otherwise. \<^verbatim>\<open>src/doc.go\<close> and \<^verbatim>\<open>src/pkg/test\<close> hold no
  logic of the program, and the methods of the messages in \<^verbatim>\<open>src/api/v1/ipam.pb.go\<close> are generated for the runtime of
  protobuf.
\<close>

end
